(* ===== verification/Prelude.thy ===== *)
theory Prelude
  imports Main "HOL-Library.Code_Target_Nat"
begin

text \<open>
  Shared vocabulary of the development: the fact collections the component
  theories extend, the generic list functions behind the array and string
  methods of the source (\<^verbatim>\<open>Array.join\<close>, \<^verbatim>\<open>String.split\<close>,
  \<^verbatim>\<open>Array.from(new Set(xs))\<close>), and exceptions as values.
\<close>

named_theorems lit \<open>equations that unfold string literals into code units\<close>
named_theorems rx \<open>equations that run a regular expression on a string\<close>
named_theorems norm_defs \<open>definitions unfolded by the evaluation of closed terms\<close>

subsection \<open>Exceptions\<close>

text \<open>
  A call that may throw returns \<open>Inl\<close> of what it throws. Only the kind of the
  error is kept: the modelled code never reads the text of an error it catches.
\<close>

datatype js_error = SyntaxError | TypeError

type_synonym 'a throws = "js_error + 'a"

definition bind_throws :: "'a throws \<Rightarrow> ('a \<Rightarrow> 'b throws) \<Rightarrow> 'b throws" where
  "bind_throws m f = (case m of Inl e \<Rightarrow> Inl e | Inr x \<Rightarrow> f x)"

lemma bind_throws_simps [simp]:
  "bind_throws (Inr x) f = f x"
  "bind_throws (Inl e) f = Inl e"
  by (simp_all add: bind_throws_def)

lemma bind_throws_eq_Inr:
  "bind_throws m f = Inr y \<longleftrightarrow> (\<exists>x. m = Inr x \<and> f x = Inr y)"
  by (cases m) simp_all

fun map_throws :: "('a \<Rightarrow> 'b throws) \<Rightarrow> 'a list \<Rightarrow> 'b list throws" where
  "map_throws f [] = Inr []"
| "map_throws f (x # xs) = bind_throws (f x) (\<lambda>y. bind_throws (map_throws f xs) (\<lambda>ys. Inr (y # ys)))"

lemma map_throws_eq_Inr: "map_throws f xs = Inr ys \<longleftrightarrow> list_all2 (\<lambda>x y. f x = Inr y) xs ys"
  by (induction xs arbitrary: ys) (auto simp: bind_throws_eq_Inr list_all2_Cons1)

lemma map_throws_set: "map_throws f xs = Inr ys \<Longrightarrow> set ys = {y. \<exists>x \<in> set xs. f x = Inr y}"
  by (auto simp: map_throws_eq_Inr list_all2_conv_all_nth set_conv_nth)

lemma map_throws_total: "(\<exists>ys. map_throws f xs = Inr ys) \<longleftrightarrow> (\<forall>x \<in> set xs. \<exists>y. f x = Inr y)"
  by (induction xs) (auto simp: bind_throws_eq_Inr)

subsection \<open>Distinct elements in first-occurrence order\<close>

text \<open>\<open>uniq xs\<close> is \<^verbatim>\<open>Array.from(new Set(xs))\<close>: a \<^verbatim>\<open>Set\<close> iterates in insertion order.\<close>

definition uniq :: "'a list \<Rightarrow> 'a list" where
  "uniq xs = rev (remdups (rev xs))"

lemma set_uniq [simp]: "set (uniq xs) = set xs"
  by (simp add: uniq_def)

lemma distinct_uniq [simp]: "distinct (uniq xs)"
  by (simp add: uniq_def)

lemma uniq_Nil [simp]: "uniq [] = []"
  by (simp add: uniq_def)

lemma uniq_snoc [simp]: "uniq (xs @ [x]) = (if x \<in> set xs then uniq xs else uniq xs @ [x])"
  by (simp add: uniq_def)

lemma uniq_distinct [simp]: "distinct xs \<Longrightarrow> uniq xs = xs"
  by (simp add: uniq_def distinct_remdups_id)

lemma uniq_eq_Nil [simp]: "uniq xs = [] \<longleftrightarrow> xs = []"
  by (simp add: uniq_def)

lemma length_uniq_le: "length (uniq xs) \<le> length xs"
  by (simp add: uniq_def) (metis length_remdups_leq length_rev)

subsection \<open>Joining and splitting\<close>

fun join :: "'a list \<Rightarrow> 'a list list \<Rightarrow> 'a list" where
  "join sep [] = []"
| "join sep [x] = x"
| "join sep (x # y # zs) = x @ sep @ join sep (y # zs)"

lemma join_Cons: "xs \<noteq> [] \<Longrightarrow> join sep (x # xs) = x @ sep @ join sep xs"
  by (cases xs) simp_all

lemma join_Cons_if: "join sep (x # xs) = (if xs = [] then x else x @ sep @ join sep xs)"
  by (cases xs) simp_all

text \<open>\<open>split_on c xs\<close> is \<^verbatim>\<open>s.split(c)\<close> for a separator of one code unit.\<close>

fun split_on :: "'a \<Rightarrow> 'a list \<Rightarrow> 'a list list" where
  "split_on c [] = [[]]"
| "split_on c (x # xs) =
     (if x = c then [] # split_on c xs
      else (case split_on c xs of [] \<Rightarrow> [[x]] | p # ps \<Rightarrow> (x # p) # ps))"

lemma split_on_not_Nil [simp]: "split_on c xs \<noteq> []"
  by (induction xs) (auto split: list.splits)

lemma split_on_no_sep: "c \<notin> set xs \<Longrightarrow> split_on c xs = [xs]"
  by (induction xs) auto

lemma split_on_append_sep:
  "c \<notin> set xs \<Longrightarrow> split_on c (xs @ c # ys) = xs # split_on c ys"
  by (induction xs) auto

text \<open>Splitting undoes joining when no piece holds the separator.\<close>

lemma split_on_join:
  assumes "xss \<noteq> []" and "\<And>xs. xs \<in> set xss \<Longrightarrow> c \<notin> set xs"
  shows "split_on c (join [c] xss) = xss"
  using assms
proof (induction xss rule: list_nonempty_induct)
  case (single xs)
  then show ?case by (simp add: split_on_no_sep)
next
  case (cons xs xss)
  then show ?case by (simp add: join_Cons split_on_append_sep)
qed

text \<open>Joining undoes splitting, always.\<close>

lemma join_split_on [simp]: "join [c] (split_on c xs) = xs"
proof (induction xs)
  case (Cons x xs)
  show ?case
  proof (cases "x = c")
    case True
    with Cons show ?thesis by (simp add: join_Cons)
  next
    case False
    obtain p ps where sp: "split_on c xs = p # ps"
      by (cases "split_on c xs") simp_all
    have "join [c] ((x # p) # ps) = x # join [c] (p # ps)"
      by (cases ps) simp_all
    with Cons False sp show ?thesis by simp
  qed
qed simp

lemma split_on_pieces: "p \<in> set (split_on c xs) \<Longrightarrow> c \<notin> set p \<and> set p \<subseteq> set xs"
proof (induction xs arbitrary: p)
  case (Cons x xs)
  then show ?case
    by (auto split: if_splits list.splits) (metis list.set_intros subsetD)+
qed simp

subsection \<open>Runs at the front of a list\<close>

lemma takeWhile_run:
  "\<lbrakk>\<And>x. x \<in> set xs \<Longrightarrow> P x; ys = [] \<or> \<not> P (hd ys)\<rbrakk> \<Longrightarrow> takeWhile P (xs @ ys) = xs"
  by (cases ys) (simp_all add: takeWhile_append)

lemma dropWhile_run:
  "\<lbrakk>\<And>x. x \<in> set xs \<Longrightarrow> P x; ys = [] \<or> \<not> P (hd ys)\<rbrakk> \<Longrightarrow> dropWhile P (xs @ ys) = ys"
  by (cases ys) (simp_all add: dropWhile_append)

fun strip_prefix :: "'a list \<Rightarrow> 'a list \<Rightarrow> 'a list option" where
  "strip_prefix [] ys = Some ys"
| "strip_prefix (x # xs) [] = None"
| "strip_prefix (x # xs) (y # ys) = (if x = y then strip_prefix xs ys else None)"

lemma strip_prefix_append [simp]: "strip_prefix xs (xs @ ys) = Some ys"
  by (induction xs) simp_all

lemma strip_prefix_self [simp]: "strip_prefix xs xs = Some []"
  using strip_prefix_append [of xs "[]"] by simp

lemma strip_prefix_Some: "strip_prefix xs ys = Some zs \<longleftrightarrow> ys = xs @ zs"
  by (induction xs ys rule: strip_prefix.induct) auto

lemma strip_prefix_None: "strip_prefix xs ys = None \<longleftrightarrow> take (length xs) ys \<noteq> xs"
  by (induction xs ys rule: strip_prefix.induct) auto

end
