(* ===== verification/JsString.thy ===== *)
theory JsString
  imports Prelude
begin

text \<open>
  JavaScript strings and the string methods the source calls. A string is the list
  of its UTF-16 code units, each a natural number below 65536, so that the code
  units outside Latin-1 that the source names (the full-width comma, the Unicode
  spaces) are ordinary elements. Literals are written \<open>js ''...''\<close>.
\<close>

type_synonym jsstr = "nat list"

subsection \<open>Literals\<close>

definition js :: "string \<Rightarrow> jsstr" where
  "js s = map of_char s"

lemma js_Nil [simp, lit]: "js [] = []"
  by (simp add: js_def)

lemma js_Cons [lit]: "js (c # cs) = of_char c # js cs"
  by (simp add: js_def)

lemma js_append: "js (s @ t) = js s @ js t"
  by (simp add: js_def)

lemma inj_js: "inj js"
  by (auto simp: js_def inj_def inj_map_eq_map [OF inj_of_char])

lemma js_eq_iff [simp]: "js s = js t \<longleftrightarrow> s = t"
  using inj_js by (auto dest: injD)

lemma js_eq_Nil [simp]: "js s = [] \<longleftrightarrow> s = []"
  by (simp add: js_def)

lemma Nil_eq_js [simp]: "[] = js s \<longleftrightarrow> s = []"
  by (auto simp: js_def)

lemma length_js [simp]: "length (js s) = length s"
  by (simp add: js_def)

lemma hd_js [lit]: "s \<noteq> [] \<Longrightarrow> hd (js s) = of_char (hd s)"
  by (cases s) (simp_all add: js_def)

subsection \<open>Character classes\<close>

text \<open>The set shared by \<^verbatim>\<open>\s\<close> and \<^verbatim>\<open>String.prototype.trim\<close>: white space and line terminators.\<close>

definition is_ws :: "nat \<Rightarrow> bool" where
  "is_ws c \<longleftrightarrow> (9 \<le> c \<and> c \<le> 13) \<or> c = 32 \<or> c = 160 \<or> c = 5760 \<or> (8192 \<le> c \<and> c \<le> 8202)
     \<or> c = 8232 \<or> c = 8233 \<or> c = 8239 \<or> c = 8287 \<or> c = 12288 \<or> c = 65279"

text \<open>The line terminators, which the regular expression \<^verbatim>\<open>.\<close> does not match.\<close>

definition is_newline :: "nat \<Rightarrow> bool" where
  "is_newline c \<longleftrightarrow> c = 10 \<or> c = 13 \<or> c = 8232 \<or> c = 8233"

definition is_digit :: "nat \<Rightarrow> bool" where
  "is_digit c \<longleftrightarrow> 48 \<le> c \<and> c \<le> 57"

definition is_word :: "nat \<Rightarrow> bool" where
  "is_word c \<longleftrightarrow> is_digit c \<or> (65 \<le> c \<and> c \<le> 90) \<or> (97 \<le> c \<and> c \<le> 122) \<or> c = 95"

lemma digit_not_ws: "is_digit c \<Longrightarrow> \<not> is_ws c"
  by (auto simp: is_digit_def is_ws_def)

subsection \<open>trim\<close>

definition trim :: "jsstr \<Rightarrow> jsstr" where
  "trim s = rev (dropWhile is_ws (rev (dropWhile is_ws s)))"

definition trimmed :: "jsstr \<Rightarrow> bool" where
  "trimmed s \<longleftrightarrow> s = [] \<or> (\<not> is_ws (hd s) \<and> \<not> is_ws (last s))"

lemma trim_Nil [simp]: "trim [] = []"
  by (simp add: trim_def)

lemma trimmed_Nil [simp]: "trimmed []"
  by (simp add: trimmed_def)

lemma trim_id:
  assumes "trimmed s"
  shows "trim s = s"
proof -
  from assms have "dropWhile is_ws s = s"
    by (cases s) (auto simp: trimmed_def)
  moreover from assms have "dropWhile is_ws (rev s) = rev s"
    by (cases s rule: rev_cases) (auto simp: trimmed_def)
  ultimately show ?thesis by (simp add: trim_def)
qed

lemma last_dropWhile_rev:
  assumes "dropWhile P (rev xs) \<noteq> []"
  shows "last (dropWhile P (rev xs)) = hd xs"
proof -
  have "last (rev xs) = last (takeWhile P (rev xs) @ dropWhile P (rev xs))" by simp
  also have "\<dots> = last (dropWhile P (rev xs))" using assms by (rule last_appendR)
  finally show ?thesis by (simp add: last_rev)
qed

lemma trimmed_trim [simp]: "trimmed (trim s)"
proof (cases "trim s = []")
  case False
  let ?d = "dropWhile is_ws s" and ?e = "dropWhile is_ws (rev (dropWhile is_ws s))"
  from False have ne: "?e \<noteq> []" by (simp add: trim_def)
  then have d: "?d \<noteq> []" by (metis dropWhile.simps(1) rev.simps(1))
  have "\<not> is_ws (hd ?e)" using ne hd_dropWhile by blast
  moreover have "\<not> is_ws (hd ?d)" using d hd_dropWhile by blast
  moreover have "last ?e = hd ?d"
    using ne by (rule last_dropWhile_rev)
  ultimately show ?thesis
    using ne by (simp add: trimmed_def trim_def hd_rev last_rev)
qed simp

lemma trim_trim [simp]: "trim (trim s) = trim s"
  by (simp add: trim_id)

lemma trim_eq_self_iff: "trim s = s \<longleftrightarrow> trimmed s"
  by (metis trim_id trimmed_trim)

lemma length_trim: "length (trim s) \<le> length s"
proof -
  have "length (trim s) \<le> length (rev (dropWhile is_ws s))"
    unfolding trim_def length_rev [of "dropWhile is_ws (rev (dropWhile is_ws s))"]
    by (rule length_dropWhile_le)
  then show ?thesis using length_dropWhile_le [of is_ws s] by simp
qed

lemma set_trim_subset: "set (trim s) \<subseteq> set s"
  by (auto simp: trim_def dest!: set_dropWhileD)

lemma trim_no_ws: "(\<And>c. c \<in> set s \<Longrightarrow> \<not> is_ws c) \<Longrightarrow> trim s = s"
  by (rule trim_id) (auto simp: trimmed_def)

lemma trimmed_append:
  "\<lbrakk>s \<noteq> []; t \<noteq> []; \<not> is_ws (hd s); \<not> is_ws (last t)\<rbrakk> \<Longrightarrow> trimmed (s @ t)"
  by (simp add: trimmed_def)

lemma trim_eq_Nil: "trim s = [] \<longleftrightarrow> (\<forall>c \<in> set s. is_ws c)"
proof
  assume "trim s = []"
  then have all: "\<forall>c \<in> set (dropWhile is_ws s). is_ws c"
    by (simp add: trim_def)
  show "\<forall>c \<in> set s. is_ws c"
  proof (cases "dropWhile is_ws s")
    case Nil
    then show ?thesis by simp
  next
    case (Cons c cs)
    with all hd_dropWhile [of is_ws s] show ?thesis by simp
  qed
next
  assume "\<forall>c \<in> set s. is_ws c"
  then show "trim s = []" by (auto simp: trim_def dest: set_dropWhileD)
qed

subsection \<open>Substring tests and searches\<close>

definition starts_with :: "jsstr \<Rightarrow> jsstr \<Rightarrow> bool" where
  "starts_with s w \<longleftrightarrow> strip_prefix w s \<noteq> None"

definition ends_with :: "jsstr \<Rightarrow> jsstr \<Rightarrow> bool" where
  "ends_with s w \<longleftrightarrow> strip_prefix (rev w) (rev s) \<noteq> None"

fun str_includes :: "jsstr \<Rightarrow> jsstr \<Rightarrow> bool" where
  "str_includes [] w = (w = [])"
| "str_includes (x # xs) w = (starts_with (x # xs) w \<or> str_includes xs w)"

text \<open>\<open>index_of s w\<close> is \<^verbatim>\<open>s.indexOf(w)\<close>, with \<open>None\<close> for \<^verbatim>\<open>-1\<close>.\<close>

fun index_of :: "jsstr \<Rightarrow> jsstr \<Rightarrow> nat option" where
  "index_of [] w = (if w = [] then Some 0 else None)"
| "index_of (x # xs) w =
     (if starts_with (x # xs) w then Some 0 else map_option Suc (index_of xs w))"

lemma starts_with_iff: "starts_with s w \<longleftrightarrow> (\<exists>t. s = w @ t)"
  by (auto simp: starts_with_def strip_prefix_Some)

lemma includes_iff: "str_includes s w \<longleftrightarrow> (\<exists>a b. s = a @ w @ b)"
proof (induction s)
  case (Cons x xs)
  have "(\<exists>a b. x # xs = a @ w @ b) \<longleftrightarrow>
      (\<exists>b. x # xs = w @ b) \<or> (\<exists>a b. xs = a @ w @ b)"
    by (auto simp: Cons_eq_append_conv)
  with Cons show ?case by (simp add: starts_with_iff)
qed auto

lemma index_of_None: "index_of s w = None \<longleftrightarrow> \<not> str_includes s w"
  by (induction s) auto

lemma index_of_Some:
  "index_of s w = Some i \<Longrightarrow> i \<le> length s \<and> (\<exists>t. drop i s = w @ t) \<and> \<not> (\<exists>j < i. \<exists>t. drop j s = w @ t)"
proof (induction s arbitrary: i)
  case Nil
  then show ?case by (auto split: if_splits)
next
  case (Cons x xs)
  show ?case
  proof (cases "starts_with (x # xs) w")
    case True
    with Cons.prems show ?thesis by (auto simp: starts_with_iff)
  next
    case False
    with Cons.prems obtain k where k: "index_of xs w = Some k" "i = Suc k" by auto
    have "\<nexists>t. drop j (x # xs) = w @ t" if "j < i" for j
      using that Cons.IH [OF k(1)] k(2) False by (cases j) (auto simp: starts_with_iff)
    with Cons.IH [OF k(1)] k(2) show ?thesis by auto
  qed
qed

subsection \<open>Removing white space\<close>

text \<open>\<^verbatim>\<open>s.replace(/\s/g, '')\<close> and \<^verbatim>\<open>s.replace(/\s+/g, '')\<close>.\<close>

definition remove_ws :: "jsstr \<Rightarrow> jsstr" where
  "remove_ws s = filter (\<lambda>c. \<not> is_ws c) s"

lemma remove_ws_id: "(\<And>c. c \<in> set s \<Longrightarrow> \<not> is_ws c) \<Longrightarrow> remove_ws s = s"
  by (simp add: remove_ws_def)

subsection \<open>What trimming removes\<close>

lemma trim_split: "\<exists>a b. s = a @ trim s @ b \<and> (\<forall>c \<in> set a. is_ws c) \<and> (\<forall>c \<in> set b. is_ws c)"
proof -
  let ?d = "dropWhile is_ws s"
  have "s = takeWhile is_ws s @ ?d" by simp
  moreover have "?d = trim s @ rev (takeWhile is_ws (rev ?d))"
    by (simp add: trim_def) (metis rev_append rev_rev_ident takeWhile_dropWhile_id)
  ultimately have "s = takeWhile is_ws s @ trim s @ rev (takeWhile is_ws (rev ?d))"
    by (metis append.assoc)
  moreover have "\<forall>c \<in> set (takeWhile is_ws s). is_ws c"
    "\<forall>c \<in> set (rev (takeWhile is_ws (rev ?d))). is_ws c"
    by (auto dest: set_takeWhileD)
  ultimately show ?thesis by blast
qed

lemma remove_ws_append: "remove_ws (s @ t) = remove_ws s @ remove_ws t"
  by (simp add: remove_ws_def)

lemma remove_ws_trim: "remove_ws (trim s) = remove_ws s"
proof -
  obtain a b where s: "s = a @ trim s @ b" and ws: "\<forall>c \<in> set a. is_ws c" "\<forall>c \<in> set b. is_ws c"
    using trim_split [of s] by blast
  have "remove_ws a = []" "remove_ws b = []" using ws by (simp_all add: remove_ws_def)
  then show ?thesis by (subst (2) s) (simp add: remove_ws_append)
qed

subsection \<open>The ends of a joined text\<close>

lemma join_ends:
  "ws \<noteq> [] \<Longrightarrow> (\<And>w. w \<in> set ws \<Longrightarrow> w \<noteq> []) \<Longrightarrow>
     join sep ws \<noteq> [] \<and> hd (join sep ws) = hd (hd ws) \<and> last (join sep ws) = last (last ws)"
proof (induction ws rule: list_nonempty_induct)
  case (cons w ws)
  then show ?case by (cases ws) (auto simp: join_Cons)
qed simp

lemma trimmed_join:
  assumes "ws \<noteq> []" "\<And>w. w \<in> set ws \<Longrightarrow> w \<noteq> [] \<and> trimmed w"
  shows "trimmed (join sep ws)"
proof -
  note e = join_ends [of ws sep]
  have "trimmed (hd ws)" "trimmed (last ws)" "hd ws \<noteq> []" "last ws \<noteq> []"
    using assms by auto
  with e assms show ?thesis by (auto simp: trimmed_def)
qed

subsection \<open>Decimal numerals\<close>

fun show_nat :: "nat \<Rightarrow> jsstr" where
  "show_nat n = (if n < 10 then [48 + n] else show_nat (n div 10) @ [48 + n mod 10])"

declare show_nat.simps [simp del]

fun digits_val :: "nat \<Rightarrow> jsstr \<Rightarrow> nat" where
  "digits_val acc [] = acc"
| "digits_val acc (c # cs) = digits_val (10 * acc + (c - 48)) cs"

definition read_nat :: "jsstr \<Rightarrow> nat" where
  "read_nat s = digits_val 0 s"

lemma digits_val_snoc: "digits_val a (s @ [c]) = 10 * digits_val a s + (c - 48)"
  by (induction s arbitrary: a) simp_all

lemma read_show_nat [simp]: "read_nat (show_nat n) = n"
proof (induction n rule: show_nat.induct)
  case (1 n)
  then show ?case
    by (subst show_nat.simps) (simp add: read_nat_def digits_val_snoc)
qed

lemma show_nat_not_Nil [simp]: "show_nat n \<noteq> []"
  by (subst show_nat.simps) simp

lemma show_nat_digits: "c \<in> set (show_nat n) \<Longrightarrow> is_digit c"
proof (induction n rule: show_nat.induct)
  case (1 n)
  show ?case
  proof (cases "n < 10")
    case True
    with "1.prems" show ?thesis by (subst (asm) show_nat.simps) (simp add: is_digit_def)
  next
    case False
    with "1.prems" have "c \<in> set (show_nat (n div 10)) \<or> c = 48 + n mod 10"
      by (subst (asm) show_nat.simps) auto
    with "1.IH" False show ?thesis by (auto simp: is_digit_def)
  qed
qed

lemma show_nat_inj: "show_nat m = show_nat n \<longleftrightarrow> m = n"
  by (metis read_show_nat)

end
