(* ===== verification/JsRegex.thy ===== *)
theory JsRegex
  imports JsString
begin

text \<open>
  Regular expressions with the backtracking semantics of ECMAScript: a pattern is a
  matcher that takes a state (the text already read, the text still to read, the
  captures so far) and a continuation, and returns the first final state the
  continuation accepts, alternatives and repetitions tried in the order the language
  fixes. The source's patterns are written as terms of this type, one constructor
  per construct.
\<close>

datatype rstate = RS (rs_pre: jsstr) (rs_rest: jsstr) (rs_caps: "(nat \<times> jsstr) list")

type_synonym rcont = "rstate \<Rightarrow> rstate option"

datatype regex =
    Str jsstr                  \<comment> \<open>a literal text\<close>
  | Cls "nat \<Rightarrow> bool"          \<comment> \<open>one code unit of a class\<close>
  | Seq regex regex
  | Alt regex regex
  | Star regex                 \<comment> \<open>greedy \<^verbatim>\<open>*\<close>\<close>
  | Opt regex                  \<comment> \<open>greedy \<^verbatim>\<open>?\<close>\<close>
  | Grp nat regex              \<comment> \<open>capture group\<close>
  | BRef nat                   \<comment> \<open>back reference\<close>
  | Bol                        \<comment> \<open>\<^verbatim>\<open>^\<close> without the flag m\<close>
  | Eol                        \<comment> \<open>\<^verbatim>\<open>$\<close> without the flag m\<close>
  | WordB                      \<comment> \<open>\<^verbatim>\<open>\b\<close>\<close>

abbreviation Plus :: "regex \<Rightarrow> regex" where
  "Plus r \<equiv> Seq r (Star r)"

fun Seqs :: "regex list \<Rightarrow> regex" where
  "Seqs [] = Str []"
| "Seqs [r] = r"
| "Seqs (r # rs) = Seq r (Seqs rs)"

fun Alts :: "regex list \<Rightarrow> regex" where
  "Alts [] = Cls (\<lambda>_. False)"
| "Alts [r] = r"
| "Alts (r # rs) = Alt r (Alts rs)"

subsection \<open>The matcher\<close>

text \<open>
  An iteration of a star that reads nothing fails, as in the language, so as many
  iterations as there are code units left are enough.
\<close>

fun star_mt :: "(rcont \<Rightarrow> rcont) \<Rightarrow> nat \<Rightarrow> rcont \<Rightarrow> rcont" where
  "star_mt m 0 k s = k s"
| "star_mt m (Suc n) k s =
     (case m (\<lambda>s'. if length (rs_rest s') < length (rs_rest s) then star_mt m n k s' else None) s of
        Some y \<Rightarrow> Some y
      | None \<Rightarrow> k s)"

definition boundary :: "jsstr \<Rightarrow> jsstr \<Rightarrow> bool" where
  "boundary p r \<longleftrightarrow>
     (case p of [] \<Rightarrow> False | c # _ \<Rightarrow> is_word c) \<noteq> (case r of [] \<Rightarrow> False | c # _ \<Rightarrow> is_word c)"

primrec mt :: "regex \<Rightarrow> rcont \<Rightarrow> rcont" where
  "mt (Str w) = (\<lambda>k s. case strip_prefix w (rs_rest s) of
      None \<Rightarrow> None | Some r \<Rightarrow> k (RS (rev w @ rs_pre s) r (rs_caps s)))"
| "mt (Cls P) = (\<lambda>k s. case rs_rest s of
      [] \<Rightarrow> None | c # r \<Rightarrow> if P c then k (RS (c # rs_pre s) r (rs_caps s)) else None)"
| "mt (Seq a b) = (\<lambda>k. mt a (mt b k))"
| "mt (Alt a b) = (\<lambda>k s. case mt a k s of Some y \<Rightarrow> Some y | None \<Rightarrow> mt b k s)"
| "mt (Star a) = (\<lambda>k s. star_mt (mt a) (length (rs_rest s)) k s)"
| "mt (Opt a) = (\<lambda>k s. case mt a k s of Some y \<Rightarrow> Some y | None \<Rightarrow> k s)"
| "mt (Grp n a) = (\<lambda>k s. mt a (\<lambda>s'. k (RS (rs_pre s') (rs_rest s')
      ((n, take (length (rs_rest s) - length (rs_rest s')) (rs_rest s)) # rs_caps s'))) s)"
| "mt (BRef n) = (\<lambda>k s. case map_of (rs_caps s) n of
      None \<Rightarrow> k s
    | Some w \<Rightarrow> (case strip_prefix w (rs_rest s) of
        None \<Rightarrow> None | Some r \<Rightarrow> k (RS (rev w @ rs_pre s) r (rs_caps s))))"
| "mt Bol = (\<lambda>k s. if rs_pre s = [] then k s else None)"
| "mt Eol = (\<lambda>k s. if rs_rest s = [] then k s else None)"
| "mt WordB = (\<lambda>k s. if boundary (rs_pre s) (rs_rest s) then k s else None)"

subsection \<open>The calls of the source\<close>

text \<open>The first match of \<open>r\<close> in \<open>xs\<close> at or after the current position.\<close>

fun search_from :: "regex \<Rightarrow> jsstr \<Rightarrow> jsstr \<Rightarrow> rstate option" where
  "search_from r p [] = mt r Some (RS p [] [])"
| "search_from r p (x # xs) =
     (case mt r Some (RS p (x # xs) []) of
        Some s \<Rightarrow> Some s
      | None \<Rightarrow> search_from r (x # p) xs)"

text \<open>\<^verbatim>\<open>s.match(re)\<close> for a pattern without the flag g: the captures of the first match.\<close>

definition re_match :: "regex \<Rightarrow> jsstr \<Rightarrow> (nat \<times> jsstr) list option" where
  "re_match r s = map_option rs_caps (search_from r [] s)"

definition re_test :: "regex \<Rightarrow> jsstr \<Rightarrow> bool" where
  "re_test r s \<longleftrightarrow> search_from r [] s \<noteq> None"

text \<open>The text of a capture group; \<^verbatim>\<open>undefined\<close> is \<open>None\<close>.\<close>

definition capture :: "(nat \<times> jsstr) list \<Rightarrow> nat \<Rightarrow> jsstr option" where
  "capture cs n = map_of cs n"

definition grp :: "(nat \<times> jsstr) list \<Rightarrow> nat \<Rightarrow> jsstr" where
  "grp cs n = (case map_of cs n of None \<Rightarrow> [] | Some w \<Rightarrow> w)"

lemma grp_Cons [simp]: "grp ((m, w) # cs) n = (if m = n then w else grp cs n)"
  by (simp add: grp_def)

lemma capture_Cons [simp]: "capture ((m, w) # cs) n = (if m = n then Some w else capture cs n)"
  by (simp add: capture_def)

lemma capture_Nil [simp]: "capture [] n = None"
  by (simp add: capture_def)

subsection \<open>Running the matcher\<close>

declare mt.simps [simp del]

lemma mt_Str [rx]: "mt (Str w) k (RS p r c) =
    (case strip_prefix w r of None \<Rightarrow> None | Some r' \<Rightarrow> k (RS (rev w @ p) r' c))"
  by (simp add: mt.simps split: option.split)

lemma mt_Cls [rx]:
  "mt (Cls P) k (RS p [] c) = None"
  "mt (Cls P) k (RS p (x # r) c) = (if P x then k (RS (x # p) r c) else None)"
  by (simp_all add: mt.simps)

lemma mt_Seq [rx]: "mt (Seq a b) k = mt a (mt b k)"
  by (simp add: mt.simps)

lemma mt_Alt [rx]: "mt (Alt a b) k s = (case mt a k s of Some y \<Rightarrow> Some y | None \<Rightarrow> mt b k s)"
  by (simp add: mt.simps)

lemma mt_Opt [rx]: "mt (Opt a) k s = (case mt a k s of Some y \<Rightarrow> Some y | None \<Rightarrow> k s)"
  by (simp add: mt.simps)

lemma mt_Grp [rx]: "mt (Grp n a) k (RS p r c) =
    mt a (\<lambda>s'. k (RS (rs_pre s') (rs_rest s') ((n, take (length r - length (rs_rest s')) r) # rs_caps s')))
      (RS p r c)"
  by (simp add: mt.simps)

lemma mt_BRef [rx]: "mt (BRef n) k (RS p r c) =
    (case map_of c n of
       None \<Rightarrow> k (RS p r c)
     | Some w \<Rightarrow> (case strip_prefix w r of None \<Rightarrow> None | Some r' \<Rightarrow> k (RS (rev w @ p) r' c)))"
  by (simp add: mt.simps split: option.split)

lemma mt_Bol [rx]: "mt Bol k (RS p r c) = (if p = [] then k (RS p r c) else None)"
  by (simp add: mt.simps)

lemma mt_Eol [rx]: "mt Eol k (RS p r c) = (if r = [] then k (RS p r c) else None)"
  by (simp add: mt.simps)

lemma mt_WordB [rx]: "mt WordB k (RS p r c) = (if boundary p r then k (RS p r c) else None)"
  by (simp add: mt.simps)

lemma mt_Star: "mt (Star a) k (RS p r c) = star_mt (mt a) (length r) k (RS p r c)"
  by (simp add: mt.simps)

lemma mt_Str_append: "mt (Str w) k (RS p (w @ r) c) = k (RS (rev w @ p) r c)"
  by (simp add: mt_Str)

lemma mt_Str_whole: "mt (Str w) k (RS p w c) = k (RS (rev w @ p) [] c)"
  by (simp add: mt_Str)

text \<open>A run of a class: the lengths are tried from the longest run downwards.\<close>

fun try_down :: "(nat \<Rightarrow> 'a option) \<Rightarrow> nat \<Rightarrow> 'a option" where
  "try_down f 0 = f 0"
| "try_down f (Suc n) = (case f (Suc n) of Some y \<Rightarrow> Some y | None \<Rightarrow> try_down f n)"

lemma try_down_Some: "f n = Some y \<Longrightarrow> try_down f n = Some y"
  by (cases n) simp_all

lemma try_down_None: "(\<And>i. i \<le> n \<Longrightarrow> f i = None) \<Longrightarrow> try_down f n = None"
  by (induction n) simp_all

lemma try_down_only: "(\<And>i. i < n \<Longrightarrow> f i = None) \<Longrightarrow> try_down f n = f n"
  by (cases n) (auto simp: try_down_None split: option.splits)

lemma try_down_shift:
  "(case try_down (\<lambda>i. f (Suc i)) n of Some y \<Rightarrow> Some y | None \<Rightarrow> f 0) = try_down f (Suc n)"
  by (induction n) (simp_all split: option.splits)

lemma star_mt_Cls:
  "length xs \<le> n \<Longrightarrow> star_mt (mt (Cls P)) n k (RS p xs c) =
     try_down (\<lambda>i. k (RS (rev (take i xs) @ p) (drop i xs) c)) (length (takeWhile P xs))"
proof (induction n arbitrary: p xs)
  case 0
  then show ?case by simp
next
  case (Suc n)
  show ?case
  proof (cases xs)
    case Nil
    then show ?thesis by (simp add: mt_Cls)
  next
    case (Cons x ys)
    show ?thesis
    proof (cases "P x")
      case True
      let ?f = "\<lambda>i. k (RS (rev (take i xs) @ p) (drop i xs) c)"
      have "star_mt (mt (Cls P)) n k (RS (x # p) ys c) =
          try_down (\<lambda>i. ?f (Suc i)) (length (takeWhile P ys))"
        using Suc Cons by simp
      moreover have "?f 0 = k (RS p xs c)" by simp
      ultimately show ?thesis
        using True Cons try_down_shift [of ?f "length (takeWhile P ys)"]
        by (simp add: mt_Cls del: try_down.simps cong: option.case_cong)
    next
      case False
      with Cons show ?thesis by (simp add: mt_Cls)
    qed
  qed
qed

lemma mt_Star_Cls:
  "mt (Star (Cls P)) k (RS p xs c) =
     try_down (\<lambda>i. k (RS (rev (take i xs) @ p) (drop i xs) c)) (length (takeWhile P xs))"
  by (simp add: mt_Star star_mt_Cls)

text \<open>
  The two shapes in which the patterns of the source use a run: the continuation
  accepts after the longest run; or it cannot start on a member of the class, so the
  longest run is the only candidate.
\<close>

lemma mt_Star_Cls_greedy:
  assumes "\<And>x. x \<in> set w \<Longrightarrow> P x" and "r = [] \<or> \<not> P (hd r)"
    and "k (RS (rev w @ p) r c) = Some y"
  shows "mt (Star (Cls P)) k (RS p (w @ r) c) = Some y"
proof -
  have "takeWhile P (w @ r) = w" using assms(1,2) by (rule takeWhile_run)
  with assms(3) show ?thesis by (simp add: mt_Star_Cls try_down_Some)
qed

lemma mt_Star_Cls_stop:
  assumes P: "\<And>x. x \<in> set w \<Longrightarrow> P x" and r: "r = [] \<or> \<not> P (hd r)"
    and k: "\<And>p' x xs. P x \<Longrightarrow> k (RS p' (x # xs) c) = None"
  shows "mt (Star (Cls P)) k (RS p (w @ r) c) = k (RS (rev w @ p) r c)"
proof -
  let ?f = "\<lambda>i. k (RS (rev (take i (w @ r)) @ p) (drop i (w @ r)) c)"
  have tw: "takeWhile P (w @ r) = w" using P r by (rule takeWhile_run)
  have "?f i = None" if "i < length w" for i
  proof -
    from that have "drop i (w @ r) = (w ! i) # drop (Suc i) (w @ r)"
      by (simp add: Cons_nth_drop_Suc [symmetric] nth_append)
    with P that k show ?thesis by simp
  qed
  then have "try_down ?f (length w) = ?f (length w)" by (rule try_down_only)
  with tw show ?thesis by (simp add: mt_Star_Cls)
qed

lemma mt_Plus_Cls_none:
  "r = [] \<or> \<not> P (hd r) \<Longrightarrow> mt (Plus (Cls P)) k (RS p r c) = None"
  by (cases r) (simp_all add: rx)

text \<open>A captured non-empty run.\<close>

lemma mt_Grp_Plus_greedy:
  assumes P: "\<And>x. x \<in> set w \<Longrightarrow> P x" and w: "w \<noteq> []" and r: "r = [] \<or> \<not> P (hd r)"
    and k: "k (RS (rev w @ p) r ((n, w) # c)) = Some y"
  shows "mt (Grp n (Plus (Cls P))) k (RS p (w @ r) c) = Some y"
proof -
  obtain x v where xv: "w = x # v" using w by (cases w) auto
  have "mt (Star (Cls P)) (\<lambda>s'. k (RS (rs_pre s') (rs_rest s')
      ((n, take (length (w @ r) - length (rs_rest s')) (w @ r)) # rs_caps s'))) (RS (x # p) (v @ r) c) = Some y"
    using P r k xv by (intro mt_Star_Cls_greedy) auto
  with xv P show ?thesis by (simp add: rx)
qed

lemma mt_Grp_Plus_stop:
  assumes P: "\<And>x. x \<in> set w \<Longrightarrow> P x" and w: "w \<noteq> []" and r: "r = [] \<or> \<not> P (hd r)"
    and k: "\<And>p' x xs v. P x \<Longrightarrow> k (RS p' (x # xs) ((n, v) # c)) = None"
  shows "mt (Grp n (Plus (Cls P))) k (RS p (w @ r) c) = k (RS (rev w @ p) r ((n, w) # c))"
proof -
  obtain x v where xv: "w = x # v" using w by (cases w) auto
  have "mt (Star (Cls P)) (\<lambda>s'. k (RS (rs_pre s') (rs_rest s')
      ((n, take (length (w @ r) - length (rs_rest s')) (w @ r)) # rs_caps s'))) (RS (x # p) (v @ r) c)
    = k (RS (rev w @ p) r ((n, w) # c))"
    using P r k xv by (subst mt_Star_Cls_stop) auto
  with xv P show ?thesis by (simp add: rx)
qed

subsection \<open>Anchored patterns\<close>

lemma search_from_Bol: "p \<noteq> [] \<Longrightarrow> search_from (Seq Bol r) p xs = None"
  by (induction xs arbitrary: p) (simp_all add: rx)

lemma search_Bol: "search_from (Seq Bol r) [] xs = mt r Some (RS [] xs [])"
  by (cases xs) (auto simp: rx search_from_Bol split: option.splits)

lemma re_match_Bol: "re_match (Seq Bol r) s = map_option rs_caps (mt r Some (RS [] s []))"
  by (simp add: re_match_def search_Bol)

lemma re_test_Bol: "re_test (Seq Bol r) s \<longleftrightarrow> mt r Some (RS [] s []) \<noteq> None"
  by (simp add: re_test_def search_Bol)

subsection \<open>What a pattern can read\<close>

primrec made_of :: "(nat \<Rightarrow> bool) \<Rightarrow> regex \<Rightarrow> bool" where
  "made_of P (Str w) \<longleftrightarrow> (\<forall>x \<in> set w. P x)"
| "made_of P (Cls Q) \<longleftrightarrow> (\<forall>x. Q x \<longrightarrow> P x)"
| "made_of P (Seq a b) \<longleftrightarrow> made_of P a \<and> made_of P b"
| "made_of P (Alt a b) \<longleftrightarrow> made_of P a \<and> made_of P b"
| "made_of P (Star a) \<longleftrightarrow> made_of P a"
| "made_of P (Opt a) \<longleftrightarrow> made_of P a"
| "made_of P (Grp n a) \<longleftrightarrow> made_of P a"
| "made_of P (BRef n) \<longleftrightarrow> False"
| "made_of P Bol \<longleftrightarrow> True"
| "made_of P Eol \<longleftrightarrow> True"
| "made_of P WordB \<longleftrightarrow> True"

definition reads :: "(nat \<Rightarrow> bool) \<Rightarrow> rstate \<Rightarrow> rstate \<Rightarrow> bool" where
  "reads P s s' \<longleftrightarrow> (\<exists>w. rs_rest s = w @ rs_rest s' \<and> rs_pre s' = rev w @ rs_pre s \<and> (\<forall>x \<in> set w. P x))"

lemma reads_refl: "reads P s s"
  by (auto simp: reads_def)

lemma reads_trans: "reads P a b \<Longrightarrow> reads P b c \<Longrightarrow> reads P a c"
  by (auto simp: reads_def)

lemma star_mt_reads:
  assumes m: "\<And>k s y. m k s = Some y \<Longrightarrow> \<exists>s'. reads P s s' \<and> k s' = Some y"
  shows "star_mt m n k s = Some y \<Longrightarrow> \<exists>s'. reads P s s' \<and> k s' = Some y"
proof (induction n arbitrary: s)
  case 0
  then show ?case by (auto intro: reads_refl)
next
  case (Suc n)
  show ?case
  proof (cases "m (\<lambda>s'. if length (rs_rest s') < length (rs_rest s) then star_mt m n k s' else None) s")
    case None
    with Suc.prems show ?thesis by (auto intro: reads_refl)
  next
    case (Some z)
    with Suc.prems have "z = y" by simp
    with m [OF Some] obtain s' where s': "reads P s s'" "star_mt m n k s' = Some y"
      by (auto split: if_splits)
    from Suc.IH [OF s'(2)] s'(1) show ?thesis by (blast intro: reads_trans)
  qed
qed

text \<open>What a pattern reads is made of the code units it mentions.\<close>

lemma mt_reads:
  "made_of P r \<Longrightarrow> mt r k s = Some y \<Longrightarrow> \<exists>s'. reads P s s' \<and> k s' = Some y"
proof (induction r arbitrary: k s y)
  case (Str w)
  obtain p r c where s: "s = RS p r c" by (cases s)
  from Str.prems s obtain t where t: "r = w @ t" "k (RS (rev w @ p) t c) = Some y"
    by (auto simp: mt_Str strip_prefix_Some split: option.splits)
  moreover have "reads P s (RS (rev w @ p) t c)"
    using s t(1) Str.prems(1) by (auto simp: reads_def)
  ultimately show ?case by blast
next
  case (Cls Q)
  obtain p r c where s: "s = RS p r c" by (cases s)
  from Cls.prems s obtain x t where t: "r = x # t" "Q x" "k (RS (x # p) t c) = Some y"
    by (cases r) (auto simp: mt_Cls split: if_splits)
  moreover have "reads P s (RS (x # p) t c)"
    using s t(1,2) Cls.prems(1) by (auto simp: reads_def intro!: exI [of _ "[x]"])
  ultimately show ?case by blast
next
  case (Seq a b)
  from Seq.prems have "mt a (mt b k) s = Some y" "made_of P a" by (simp_all add: mt_Seq)
  then obtain s1 where s1: "reads P s s1" "mt b k s1 = Some y" using Seq.IH(1) by blast
  with Seq.prems obtain s2 where "reads P s1 s2" "k s2 = Some y"
    using Seq.IH(2) by (metis made_of.simps(3))
  with s1(1) show ?case by (blast intro: reads_trans)
next
  case (Alt a b)
  then show ?case by (cases "mt a k s") (auto simp: mt_Alt)
next
  case (Star a)
  obtain p r c where s: "s = RS p r c" by (cases s)
  with Star.prems have "star_mt (mt a) (length r) k s = Some y" by (simp add: mt_Star)
  then show ?case by (rule star_mt_reads [rotated]) (use Star in auto)
next
  case (Opt a)
  then show ?case by (cases "mt a k s") (auto simp: mt_Opt intro: reads_refl)
next
  case (Grp n a)
  obtain p r c where s: "s = RS p r c" by (cases s)
  let ?k = "\<lambda>s'. k (RS (rs_pre s') (rs_rest s') ((n, take (length r - length (rs_rest s')) r) # rs_caps s'))"
  from Grp.prems s have "mt a ?k s = Some y" "made_of P a" by (simp_all add: mt_Grp)
  from Grp.IH [OF this(2,1)] obtain s' where s': "reads P s s'" "?k s' = Some y" by blast
  have "reads P s (RS (rs_pre s') (rs_rest s') ((n, take (length r - length (rs_rest s')) r) # rs_caps s'))"
    using s'(1) by (simp add: reads_def)
  with s'(2) show ?case by blast
qed (auto simp: mt.simps split: if_splits intro: reads_refl)

lemma re_test_reads:
  assumes "made_of P r" and "re_test (Seq Bol (Seq r Eol)) s"
  shows "x \<in> set s \<Longrightarrow> P x"
proof -
  obtain y where "mt r (mt Eol Some) (RS [] s []) = Some y"
    using assms(2) by (auto simp: re_test_Bol mt_Seq)
  from mt_reads [OF assms(1) this] obtain s' where "reads P (RS [] s []) s'" "mt Eol Some s' = Some y"
    by blast
  moreover have "rs_rest s' = []" using calculation(2) by (cases s') (auto simp: mt_Eol split: if_splits)
  ultimately show "x \<in> set s \<Longrightarrow> P x" by (auto simp: reads_def)
qed

lemma mt_Grp_Plus:
  "mt (Grp n (Plus (Cls P))) k (RS p (x # xs) c) =
     (if P x then try_down (\<lambda>i. k (RS (rev (take i xs) @ x # p) (drop i xs) ((n, x # take i xs) # c)))
        (length (takeWhile P xs)) else None)"
proof (cases "P x")
  case True
  have "take (Suc (length xs) - length (drop i xs)) (x # xs) = x # take i xs" for i
    by (cases "i \<le> length xs") (simp_all add: Suc_diff_le)
  with True show ?thesis by (simp add: mt_Grp mt_Seq mt_Cls mt_Star_Cls)
next
  case False
  then show ?thesis by (simp add: mt_Grp mt_Seq mt_Cls)
qed

lemma try_down_at:
  "i \<le> n \<Longrightarrow> f i = Some y \<Longrightarrow> (\<And>j. i < j \<Longrightarrow> j \<le> n \<Longrightarrow> f j = None) \<Longrightarrow> try_down f n = Some y"
  by (induction n) (auto simp: le_Suc_eq)

subsection \<open>Missing code units\<close>

text \<open>A pattern fails on a text that lacks a code unit without which what follows fails.\<close>

lemma strip_prefix_set: "strip_prefix w xs = Some r \<Longrightarrow> set xs = set w \<union> set r"
  by (auto simp: strip_prefix_Some)

lemma mt_blocked:
  assumes "\<And>s. c \<notin> set (rs_rest s) \<Longrightarrow> k s = None" "c \<notin> set (rs_rest s)"
  shows "mt r k s = None"
  using assms
proof (induction r arbitrary: k s)
  case (Str w)
  then show ?case by (auto simp: mt.simps split: option.split dest: strip_prefix_set)
next
  case (Cls P)
  then show ?case by (auto simp: mt.simps split: list.split)
next
  case (Seq a b)
  show ?case unfolding mt_Seq using Seq.prems by (intro Seq.IH) auto
next
  case (Star a)
  have "star_mt (mt a) n k s = None" if "c \<notin> set (rs_rest s)" for n s
    using that
  proof (induction n arbitrary: s)
    case (Suc n)
    have "mt a (\<lambda>s'. if length (rs_rest s') < length (rs_rest s) then star_mt (mt a) n k s' else None) s = None"
      using Suc Star.IH by simp
    then show ?case using Star.prems(1) Suc.prems by simp
  qed (use Star.prems(1) in simp)
  with Star.prems(2) show ?case by (simp add: mt.simps)
next
  case (BRef n)
  then show ?case by (auto simp: mt.simps split: option.split dest: strip_prefix_set)
qed (auto simp: mt.simps split: option.split)

end
