(* ===== verification/JsNumber.thy ===== *)
theory JsNumber
  imports JsString Complex_Main
begin

text \<open>
  JavaScript numbers: IEEE 754 doubles as rationals with the rounding of every
  conversion written out (round to nearest, ties to even, gradual underflow, overflow
  to an infinity). The two zeros are one value: the modelled code never divides by a
  zero and prints both as \<^verbatim>\<open>0\<close>. Conversions between strings and numbers
  (\<^verbatim>\<open>Number(s)\<close>, \<^verbatim>\<open>String(x)\<close>, \<^verbatim>\<open>parseInt(s, 10)\<close>) follow the
  language standard.
\<close>

datatype jsnum = NaN | Infinity bool | Fin rat

subsection \<open>Rounding to a double\<close>

definition powz :: "nat \<Rightarrow> int \<Rightarrow> rat" where
  "powz b e = (if 0 \<le> e then of_nat b ^ nat e else 1 / of_nat b ^ nat (- e))"

text \<open>The number of digits of \<open>n\<close> in base \<open>b\<close>, and the exponent of the leading digit of a rational.\<close>

fun dlen :: "nat \<Rightarrow> nat \<Rightarrow> nat" where
  "dlen b n = (if n = 0 \<or> b < 2 then 0 else Suc (dlen b (n div b)))"

declare dlen.simps [simp del]

definition flog :: "nat \<Rightarrow> rat \<Rightarrow> int" where
  "flog b x = (case quotient_of x of (p, q) \<Rightarrow>
     let e = int (dlen b (nat p)) - int (dlen b (nat q))
     in if powz b e \<le> x then e else e - 1)"

definition round_half_even :: "rat \<Rightarrow> int" where
  "round_half_even x = (let f = \<lfloor>x\<rfloor>; d = x - of_int f in
     if d < 1 / 2 then f else if 1 / 2 < d then f + 1 else if even f then f else f + 1)"

definition rnd_pos :: "rat \<Rightarrow> rat" where
  "rnd_pos a = (let e = max (flog 2 a - 52) (- 1074)
     in of_int (round_half_even (a / powz 2 e)) * powz 2 e)"

definition rnd :: "rat \<Rightarrow> jsnum" where
  "rnd x =
     (if x = 0 then Fin 0
      else let v = rnd_pos \<bar>x\<bar>
        in if 2 ^ 1024 \<le> v then Infinity (0 < x)
           else Fin (if 0 < x then v else - v))"

subsection \<open>Number(s)\<close>

text \<open>Splits off the digits at the front.\<close>

definition span_digits :: "jsstr \<Rightarrow> jsstr \<times> jsstr" where
  "span_digits s = (takeWhile is_digit s, dropWhile is_digit s)"

definition split_sign :: "jsstr \<Rightarrow> bool \<times> jsstr" where
  "split_sign s = (case s of
     [] \<Rightarrow> (False, []) | c # r \<Rightarrow> if c = 45 then (True, r) else if c = 43 then (False, r) else (False, s))"

text \<open>The exponent part: the exponent and the text after it; \<open>None\<close> when there is none.\<close>

definition exponent_part :: "jsstr \<Rightarrow> (int \<times> jsstr) option" where
  "exponent_part s = (case s of
     [] \<Rightarrow> None
   | c # r \<Rightarrow> if c = 101 \<or> c = 69 then
       (case split_sign r of (neg, r') \<Rightarrow> case span_digits r' of (ds, r'') \<Rightarrow>
          if ds = [] then None
          else Some (if neg then - int (read_nat ds) else int (read_nat ds), r''))
       else None)"

text \<open>
  The longest decimal literal at the front of a string, as the rational it denotes and
  the text after it: digits with an optional fraction, or a fraction alone, and an
  optional exponent.
\<close>

definition decimal_prefix :: "jsstr \<Rightarrow> (rat \<times> jsstr) option" where
  "decimal_prefix s =
     (case span_digits s of (ip, r) \<Rightarrow>
      case (case r of [] \<Rightarrow> ([], []) | c # r' \<Rightarrow> if c = 46 then span_digits r' else ([], r)) of (fp, r1) \<Rightarrow>
      if ip = [] \<and> fp = [] then None
      else (case exponent_part r1 of
          None \<Rightarrow> Some (of_nat (read_nat (ip @ fp)) * powz 10 (- int (length fp)), r1)
        | Some (e, r2) \<Rightarrow> Some (of_nat (read_nat (ip @ fp)) * powz 10 (e - int (length fp)), r2)))"

fun radix_val :: "nat \<Rightarrow> nat \<Rightarrow> jsstr \<Rightarrow> nat option" where
  "radix_val b acc [] = Some acc"
| "radix_val b acc (c # cs) =
     (let d = (if is_digit c then c - 48 else if 97 \<le> c \<and> c \<le> 102 then c - 87
               else if 65 \<le> c \<and> c \<le> 70 then c - 55 else b)
      in if d < b then radix_val b (b * acc + d) cs else None)"

definition radix_literal :: "nat \<Rightarrow> jsstr \<Rightarrow> jsnum" where
  "radix_literal b ds = (if ds = [] then NaN
     else case radix_val b 0 ds of None \<Rightarrow> NaN | Some n \<Rightarrow> rnd (of_nat n))"

definition signed_decimal :: "jsstr \<Rightarrow> jsnum" where
  "signed_decimal s = (case split_sign s of (neg, r) \<Rightarrow>
     if r = js ''Infinity'' then Infinity (\<not> neg)
     else (case decimal_prefix r of
        Some (v, []) \<Rightarrow> rnd (if neg then - v else v)
      | _ \<Rightarrow> NaN))"

definition to_number :: "jsstr \<Rightarrow> jsnum" where
  "to_number s =
     (let t = trim s in
      case t of
        [] \<Rightarrow> Fin 0
      | c # r \<Rightarrow>
        (if c = 48 \<and> r \<noteq> [] \<and> hd r \<in> {120, 88} then radix_literal 16 (tl r)
         else if c = 48 \<and> r \<noteq> [] \<and> hd r \<in> {111, 79} then radix_literal 8 (tl r)
         else if c = 48 \<and> r \<noteq> [] \<and> hd r \<in> {98, 66} then radix_literal 2 (tl r)
         else signed_decimal t))"

text \<open>\<^verbatim>\<open>Number.parseInt(s, 10)\<close>.\<close>

definition parse_int10 :: "jsstr \<Rightarrow> jsnum" where
  "parse_int10 s = (case split_sign (dropWhile is_ws s) of (neg, r) \<Rightarrow>
     case takeWhile is_digit r of
       [] \<Rightarrow> NaN
     | ds \<Rightarrow> rnd (if neg then - of_nat (read_nat ds) else of_nat (read_nat ds)))"

subsection \<open>String(x)\<close>

text \<open>
  The shortest decimal that rounds to \<open>x\<close>, the closest one first among those of equal
  length: \<open>Some (c, q)\<close> stands for \<open>c * 10 ^ q\<close>. 1400 digits are enough for every double.
\<close>

definition decimal_cand :: "rat \<Rightarrow> int \<Rightarrow> (int \<times> int) option" where
  "decimal_cand x q = (let y = x / powz 10 q; f = \<lfloor>y\<rfloor>;
       ok = (\<lambda>c. rnd (of_int c * powz 10 q) = Fin x);
       a = (if y - of_int f \<le> 1 / 2 then f else f + 1);
       b = (if y - of_int f \<le> 1 / 2 then f + 1 else f)
     in if ok a then Some (a, q) else if ok b then Some (b, q) else None)"

function shortest_from :: "rat \<Rightarrow> int \<Rightarrow> nat \<Rightarrow> (int \<times> int) option" where
  "shortest_from x n k =
     (if 1400 < k then None
      else case decimal_cand x (n - int k) of Some r \<Rightarrow> Some r | None \<Rightarrow> shortest_from x n (Suc k))"
  by pat_completeness auto
termination
  by (relation "measure (\<lambda>(x, n, k). 1401 - k)") auto

declare shortest_from.simps [simp del]

fun strip_zeros :: "nat \<Rightarrow> int \<Rightarrow> nat \<times> int" where
  "strip_zeros c q = (if c = 0 \<or> c mod 10 \<noteq> 0 then (c, q) else strip_zeros (c div 10) (q + 1))"

declare strip_zeros.simps [simp del]

text \<open>The layout of the digits: \<open>n\<close> is the position of the decimal point.\<close>

definition layout :: "jsstr \<Rightarrow> int \<Rightarrow> jsstr" where
  "layout ds n = (let k = int (length ds) in
     if k \<le> n \<and> n \<le> 21 then ds @ replicate (nat (n - k)) 48
     else if 0 < n \<and> n \<le> 21 then take (nat n) ds @ [46] @ drop (nat n) ds
     else if - 6 < n \<and> n \<le> 0 then [48, 46] @ replicate (nat (- n)) 48 @ ds
     else let e = n - 1;
              ex = (if 0 \<le> e then [101, 43] @ show_nat (nat e) else [101, 45] @ show_nat (nat (- e)))
          in if k = 1 then ds @ ex else take 1 ds @ [46] @ drop 1 ds @ ex)"

definition show_pos :: "rat \<Rightarrow> jsstr" where
  "show_pos x = (case shortest_from x (flog 10 x + 1) 1 of
      None \<Rightarrow> []
    | Some (c, q) \<Rightarrow> (case strip_zeros (nat c) q of (c', q') \<Rightarrow>
        let ds = show_nat c' in layout ds (q' + int (length ds))))"

fun num_to_string :: "jsnum \<Rightarrow> jsstr" where
  "num_to_string NaN = js ''NaN''"
| "num_to_string (Infinity p) = (if p then js ''Infinity'' else js ''-Infinity'')"
| "num_to_string (Fin x) =
     (if x = 0 then js ''0'' else if 0 < x then show_pos x else [45] @ show_pos (- x))"

end
