(* ===== verification/JsJson.thy ===== *)
theory JsJson
  imports JsNumber
begin

text \<open>
  JSON as the source uses it: \<^verbatim>\<open>JSON.parse\<close> on arbitrary text,
  \<^verbatim>\<open>JSON.stringify\<close> on strings, the property order of parsed objects and
  the conversion of a parsed value to a string.
\<close>

datatype json =
    JNull
  | JBool bool
  | JNum jsnum
  | JStr jsstr
  | JArr "json list"
  | JObj "(jsstr \<times> json) list"   \<comment> \<open>own properties in creation order, keys distinct\<close>

subsection \<open>JSON.stringify on a string\<close>

definition hex_digit :: "nat \<Rightarrow> nat" where
  "hex_digit d = (if d < 10 then 48 + d else 87 + d)"

definition unicode_escape :: "nat \<Rightarrow> jsstr" where
  "unicode_escape c = [92, 117, hex_digit (c div 4096 mod 16), hex_digit (c div 256 mod 16),
     hex_digit (c div 16 mod 16), hex_digit (c mod 16)]"

definition high_surrogate :: "nat \<Rightarrow> bool" where
  "high_surrogate c \<longleftrightarrow> 55296 \<le> c \<and> c \<le> 56319"

definition low_surrogate :: "nat \<Rightarrow> bool" where
  "low_surrogate c \<longleftrightarrow> 56320 \<le> c \<and> c \<le> 57343"

definition quote_unit :: "nat \<Rightarrow> jsstr" where
  "quote_unit c =
     (if c = 34 then [92, 34] else if c = 92 then [92, 92]
      else if c = 8 then [92, 98] else if c = 9 then [92, 116] else if c = 10 then [92, 110]
      else if c = 12 then [92, 102] else if c = 13 then [92, 114]
      else if c < 32 \<or> high_surrogate c \<or> low_surrogate c then unicode_escape c
      else [c])"

fun quote_body :: "jsstr \<Rightarrow> jsstr" where
  "quote_body [] = []"
| "quote_body [c] = quote_unit c"
| "quote_body (c # d # r) =
     (if high_surrogate c \<and> low_surrogate d then c # d # quote_body r
      else quote_unit c @ quote_body (d # r))"

definition json_quote :: "jsstr \<Rightarrow> jsstr" where
  "json_quote s = [34] @ quote_body s @ [34]"

subsection \<open>JSON.parse\<close>

definition json_ws :: "nat \<Rightarrow> bool" where
  "json_ws c \<longleftrightarrow> c = 9 \<or> c = 10 \<or> c = 13 \<or> c = 32"

definition skip_ws :: "jsstr \<Rightarrow> jsstr" where
  "skip_ws s = dropWhile json_ws s"

definition escape_unit :: "nat \<Rightarrow> nat option" where
  "escape_unit c =
     (if c = 34 \<or> c = 92 \<or> c = 47 then Some c
      else if c = 98 then Some 8 else if c = 102 then Some 12 else if c = 110 then Some 10
      else if c = 114 then Some 13 else if c = 116 then Some 9 else None)"

text \<open>The text of a string literal up to its closing quote, and what follows.\<close>

fun json_chars :: "jsstr \<Rightarrow> (jsstr \<times> jsstr) option" where
  "json_chars [] = None"
| "json_chars (c # r) =
     (if c = 34 then Some ([], r)
      else if c = 92 then
        (case r of
           [] \<Rightarrow> None
         | e # r1 \<Rightarrow>
           if e = 117 then
             (if length r1 < 4 then None
              else case radix_val 16 0 (take 4 r1) of
                  None \<Rightarrow> None
                | Some u \<Rightarrow> map_option (\<lambda>(s, t). (u # s, t)) (json_chars (drop 4 r1)))
           else (case escape_unit e of
               None \<Rightarrow> None
             | Some u \<Rightarrow> map_option (\<lambda>(s, t). (u # s, t)) (json_chars r1)))
      else if c < 32 then None
      else map_option (\<lambda>(s, t). (c # s, t)) (json_chars r))"

definition json_int_part :: "jsstr \<Rightarrow> (jsstr \<times> jsstr) option" where
  "json_int_part s = (let ds = takeWhile is_digit s; ip = (if ds \<noteq> [] \<and> hd ds = 48 then [48] else ds)
     in if ip = [] then None else Some (ip, drop (length ip) s))"

definition json_frac_part :: "jsstr \<Rightarrow> (jsstr \<times> jsstr) option" where
  "json_frac_part s = (case s of
     [] \<Rightarrow> Some ([], [])
   | c # r \<Rightarrow> if c = 46 then
       (let fp = takeWhile is_digit r in if fp = [] then None else Some (fp, dropWhile is_digit r))
     else Some ([], s))"

definition json_exp_part :: "jsstr \<Rightarrow> (int \<times> jsstr) option" where
  "json_exp_part s = (case s of
     [] \<Rightarrow> Some (0, []) | c # r \<Rightarrow> if c = 101 \<or> c = 69 then exponent_part s else Some (0, s))"

definition json_number :: "jsstr \<Rightarrow> (jsnum \<times> jsstr) option" where
  "json_number s =
     (let neg = (s \<noteq> [] \<and> hd s = 45) in
      case json_int_part (if neg then tl s else s) of None \<Rightarrow> None | Some (ip, r0) \<Rightarrow>
      case json_frac_part r0 of None \<Rightarrow> None | Some (fp, r1) \<Rightarrow>
      case json_exp_part r1 of None \<Rightarrow> None | Some (e, r2) \<Rightarrow>
      let v = of_nat (read_nat (ip @ fp)) * powz 10 (e - int (length fp))
      in Some (rnd (if neg then - v else v), r2))"

definition obj_set :: "(jsstr \<times> json) list \<Rightarrow> jsstr \<Rightarrow> json \<Rightarrow> (jsstr \<times> json) list" where
  "obj_set kvs k v = (if k \<in> fst ` set kvs then map (\<lambda>(k', v'). if k' = k then (k, v) else (k', v')) kvs
     else kvs @ [(k, v)])"

text \<open>
  The recursive descent, with fuel: every call reads at least one code unit before the
  next, so the length of the text is enough (lemma \<open>json_value_fuel\<close> below).
\<close>

fun json_value :: "nat \<Rightarrow> jsstr \<Rightarrow> (json \<times> jsstr) option"
  and json_elems :: "nat \<Rightarrow> json list \<Rightarrow> jsstr \<Rightarrow> (json \<times> jsstr) option"
  and json_members :: "nat \<Rightarrow> (jsstr \<times> json) list \<Rightarrow> jsstr \<Rightarrow> (json \<times> jsstr) option" where
  "json_value 0 s = None"
| "json_value (Suc n) s =
     (case skip_ws s of
        [] \<Rightarrow> None
      | c # r \<Rightarrow>
        if c = 34 then map_option (\<lambda>(w, t). (JStr w, t)) (json_chars r)
        else if c = 91 then
          (case skip_ws r of
             [] \<Rightarrow> None
           | d # r' \<Rightarrow> if d = 93 then Some (JArr [], r') else json_elems n [] r)
        else if c = 123 then
          (case skip_ws r of
             [] \<Rightarrow> None
           | d # r' \<Rightarrow> if d = 125 then Some (JObj [], r') else json_members n [] r)
        else if c = 116 then map_option (\<lambda>t. (JBool True, t)) (strip_prefix (js ''rue'') r)
        else if c = 102 then map_option (\<lambda>t. (JBool False, t)) (strip_prefix (js ''alse'') r)
        else if c = 110 then map_option (\<lambda>t. (JNull, t)) (strip_prefix (js ''ull'') r)
        else map_option (\<lambda>(x, t). (JNum x, t)) (json_number (c # r)))"
| "json_elems 0 acc s = None"
| "json_elems (Suc n) acc s =
     (case json_value n s of
        None \<Rightarrow> None
      | Some (v, r) \<Rightarrow>
        (case skip_ws r of
           [] \<Rightarrow> None
         | c # r' \<Rightarrow> if c = 44 then json_elems n (acc @ [v]) r'
             else if c = 93 then Some (JArr (acc @ [v]), r') else None))"
| "json_members 0 acc s = None"
| "json_members (Suc n) acc s =
     (case skip_ws s of
        [] \<Rightarrow> None
      | c # r \<Rightarrow>
        if c \<noteq> 34 then None
        else (case json_chars r of
            None \<Rightarrow> None
          | Some (k, r1) \<Rightarrow>
            (case skip_ws r1 of
               [] \<Rightarrow> None
             | d # r2 \<Rightarrow>
               if d \<noteq> 58 then None
               else (case json_value n r2 of
                   None \<Rightarrow> None
                 | Some (v, r3) \<Rightarrow>
                   (case skip_ws r3 of
                      [] \<Rightarrow> None
                    | e # r4 \<Rightarrow> if e = 44 then json_members n (obj_set acc k v) r4
                        else if e = 125 then Some (JObj (obj_set acc k v), r4) else None)))))"

definition json_parse :: "jsstr \<Rightarrow> json throws" where
  "json_parse s = (case json_value (2 * length s + 1) s of
      None \<Rightarrow> Inl SyntaxError
    | Some (v, r) \<Rightarrow> if skip_ws r = [] then Inr v else Inl SyntaxError)"

subsection \<open>Property order\<close>

definition is_array_index :: "jsstr \<Rightarrow> bool" where
  "is_array_index k \<longleftrightarrow> k \<noteq> [] \<and> list_all is_digit k \<and> (hd k = 48 \<longrightarrow> k = [48])
     \<and> read_nat k < 4294967295"

text \<open>\<^verbatim>\<open>Object.entries\<close>: the array indices in ascending order, then the other keys as created.\<close>

definition own_entries :: "(jsstr \<times> json) list \<Rightarrow> (jsstr \<times> json) list" where
  "own_entries kvs = sort_key (\<lambda>kv. read_nat (fst kv)) (filter (\<lambda>kv. is_array_index (fst kv)) kvs)
     @ filter (\<lambda>kv. \<not> is_array_index (fst kv)) kvs"

lemma set_own_entries [simp]: "set (own_entries kvs) = set kvs"
  by (auto simp: own_entries_def)

subsection \<open>String(v)\<close>

text \<open>
  An object with an own property named \<^verbatim>\<open>toString\<close> (never a function in parsed
  JSON) cannot be converted.
\<close>

fun json_to_string :: "json \<Rightarrow> jsstr throws"
  and json_join :: "json list \<Rightarrow> jsstr throws" where
  "json_to_string JNull = Inr (js ''null'')"
| "json_to_string (JBool b) = Inr (if b then js ''true'' else js ''false'')"
| "json_to_string (JNum x) = Inr (num_to_string x)"
| "json_to_string (JStr s) = Inr s"
| "json_to_string (JArr vs) = json_join vs"
| "json_to_string (JObj kvs) =
     (if js ''toString'' \<in> fst ` set kvs then Inl TypeError else Inr (js ''[object Object]''))"
| "json_join [] = Inr []"
| "json_join (v # vs) =
     bind_throws (if v = JNull then Inr [] else json_to_string v) (\<lambda>s.
       if vs = [] then Inr s
       else bind_throws (json_join vs) (\<lambda>t. Inr (s @ [44] @ t)))"

subsection \<open>Round trip of string literals\<close>

lemma json_chars_plain: "c \<noteq> 34 \<Longrightarrow> c \<noteq> 92 \<Longrightarrow> \<not> c < 32 \<Longrightarrow>
   json_chars (c # r) = map_option (\<lambda>(s, t). (c # s, t)) (json_chars r)"
  by simp

lemma hex_digit_val:
  "d < 16 \<Longrightarrow> radix_val 16 acc (hex_digit d # ds) = radix_val 16 (16 * acc + d) ds"
  by (auto simp: hex_digit_def is_digit_def Let_def)

lemma hex4_val:
  assumes "c < 65536"
  shows "radix_val 16 0 [hex_digit (c div 4096 mod 16), hex_digit (c div 256 mod 16),
     hex_digit (c div 16 mod 16), hex_digit (c mod 16)] = Some c"
proof -
  have "16 * (16 * (16 * (c div 4096 mod 16) + c div 256 mod 16) + c div 16 mod 16) + c mod 16 = c"
  proof -
    have a: "c div 4096 mod 16 = c div 256 div 16" using assms by (simp add: div_mult2_eq [symmetric])
    have b: "c div 256 = c div 16 div 16" by (simp add: div_mult2_eq [symmetric])
    show ?thesis unfolding a by (simp add: b)
  qed
  moreover have "radix_val 16 0 [hex_digit (c div 4096 mod 16), hex_digit (c div 256 mod 16),
     hex_digit (c div 16 mod 16), hex_digit (c mod 16)] =
     Some (16 * (16 * (16 * (16 * 0 + c div 4096 mod 16) + c div 256 mod 16) + c div 16 mod 16) + c mod 16)"
    by (simp only: hex_digit_val mod_less_divisor zero_less_numeral radix_val.simps(1))
  ultimately show ?thesis by (simp only: mult_0_right add_0_left)
qed

lemma json_chars_unicode:
  assumes "c < 65536"
  shows "json_chars (unicode_escape c @ r) = map_option (\<lambda>(s, t). (c # s, t)) (json_chars r)"
  using hex4_val [OF assms] by (simp add: unicode_escape_def)

lemma json_chars_quote_unit:
  assumes "c < 65536"
  shows "json_chars (quote_unit c @ r) = map_option (\<lambda>(s, t). (c # s, t)) (json_chars r)"
  using json_chars_unicode [OF assms]
  by (auto simp: quote_unit_def escape_unit_def)

lemma json_chars_quote_body:
  "(\<And>c. c \<in> set s \<Longrightarrow> c < 65536) \<Longrightarrow> json_chars (quote_body s @ 34 # t) = Some (s, t)"
proof (induction s rule: quote_body.induct)
  case (3 c d r)
  then show ?case
    by (auto simp: json_chars_quote_unit high_surrogate_def low_surrogate_def)
qed (simp_all add: json_chars_quote_unit)

lemma json_chars_shorter: "json_chars s = Some (w, t) \<Longrightarrow> length t < length s"
proof (induction s arbitrary: w t rule: measure_induct_rule [where f = length])
  case (less s)
  have IH: "length t' < length s"
    if "json_chars y = Some (w', t')" "length y < length s" for y w' t'
    using less.IH [OF that(2,1)] that(2) by simp
  obtain c r where s: "s = c # r" using less.prems by (cases s) auto
  show ?case
  proof (cases "c = 92")
    case False
    with less.prems s IH [of r] show ?thesis by (auto split: if_splits)
  next
    case True
    then obtain e r1 where r: "r = e # r1" using less.prems s by (cases r) auto
    from True less.prems s r IH [of r1] IH [of "drop 4 r1"] show ?thesis
      by (auto split: if_splits option.splits)
  qed
qed

theorem json_parse_quote:
  assumes "\<And>c. c \<in> set s \<Longrightarrow> c < 65536"
  shows "json_parse (json_quote s) = Inr (JStr s)"
  using json_chars_quote_body [OF assms, of s "[]"]
  by (simp add: json_parse_def json_quote_def skip_ws_def json_ws_def)

subsection \<open>The parser makes progress, and its fuel is enough\<close>

lemma length_skip_ws: "length (skip_ws s) \<le> length s"
  by (simp add: skip_ws_def length_dropWhile_le)

lemma skip_ws_Cons: "skip_ws s = c # r \<Longrightarrow> length r < length s"
  using length_skip_ws [of s] by simp

lemma exponent_part_shorter: "exponent_part s = Some (e, t) \<Longrightarrow> length t < length s"
  by (auto simp: exponent_part_def span_digits_def split_sign_def le_imp_less_Suc length_dropWhile_le
      less_SucI split: list.splits if_splits)

lemma json_int_part_shorter: "json_int_part s = Some (ip, r) \<Longrightarrow> length r < length s"
  by (cases s) (auto simp: json_int_part_def Let_def split: if_splits)

lemma json_frac_part_shorter: "json_frac_part s = Some (fp, r) \<Longrightarrow> length r \<le> length s"
  by (auto simp: json_frac_part_def Let_def le_SucI length_dropWhile_le split: if_splits list.splits)

lemma json_exp_part_shorter: "json_exp_part s = Some (e, r) \<Longrightarrow> length r \<le> length s"
  using exponent_part_shorter [of s e r]
  by (auto simp: json_exp_part_def split: if_splits list.splits)

lemma json_number_shorter: "json_number s = Some (x, t) \<Longrightarrow> length t < length s"
  by (cases s) (auto simp: json_number_def Let_def split: option.splits if_splits
      dest!: json_int_part_shorter json_frac_part_shorter json_exp_part_shorter)

lemma strip_prefix_shorter: "strip_prefix w s = Some t \<Longrightarrow> length t \<le> length s"
  by (auto simp: strip_prefix_Some)

lemmas json_shorter_rules =
  json_chars_shorter json_number_shorter strip_prefix_shorter skip_ws_Cons

lemma json_shorter:
  "json_value n s = Some (v, t) \<Longrightarrow> length t < length s"
  "json_elems n acc s = Some (v, t) \<Longrightarrow> length t < length s"
  "json_members n mem s = Some (v, t) \<Longrightarrow> length t < length s"
proof (induction n s and n acc s and n mem s arbitrary: v t and v t and v t
    rule: json_value_json_elems_json_members.induct)
  case (2 n s)
  from "2.prems" obtain c r where sk: "skip_ws s = c # r"
    by (auto split: list.splits)
  have r: "length r < length s" using sk by (rule skip_ws_Cons)
  have cr: "length (c # r) \<le> length s" using length_skip_ws [of s] sk by simp
  have in_r: "length y < length s" if "length y \<le> length r" for y :: jsstr
    using that r by simp
  show ?case
  proof (cases "c = 91 \<or> c = 123")
    case True
    with "2.prems" sk obtain d r' where sk2: "skip_ws r = d # r'"
      by (auto split: list.splits)
    then have r': "length r' < length r" by (rule skip_ws_Cons)
    from True "2.prems" sk sk2 r r' consider
        "t = r'" | "json_elems n [] r = Some (v, t)" | "json_members n [] r = Some (v, t)"
      by (auto split: if_splits)
    then have "length t < length r"
      using "2.IH" True sk sk2 r' "2.prems" by cases (auto split: if_splits)
    with r show ?thesis by simp
  next
    case False
    with "2.prems" sk r cr show ?thesis
      by (auto split: if_splits dest!: json_shorter_rules)
  qed
next
  case (4 n acc s)
  from "4.prems" obtain u r where v: "json_value n s = Some (u, r)"
    by (auto split: option.splits)
  from "4.prems" v obtain c r' where sk: "skip_ws r = c # r'"
    by (auto split: list.splits)
  have lt: "length r < length s" using v by (rule "4.IH"(1))
  have lt': "length r' < length r" using sk by (rule skip_ws_Cons)
  show ?case
  proof (cases "c = 44")
    case True
    with "4.prems" v sk have "json_elems n (acc @ [u]) r' = Some (v, t)" by simp
    with "4.IH"(2) [OF v refl sk True] lt lt' show ?thesis by fastforce
  next
    case False
    with "4.prems" v sk lt lt' show ?thesis by (simp split: if_splits)
  qed
next
  case (6 n acc s)
  from "6.prems" obtain c r where sk: "skip_ws s = c # r" and c: "c = 34"
    by (auto split: list.splits if_splits)
  from "6.prems" sk c obtain k r1 where k: "json_chars r = Some (k, r1)"
    by (auto split: option.splits)
  from "6.prems" sk c k obtain d r2 where sk2: "skip_ws r1 = d # r2" and d: "d = 58"
    by (auto split: list.splits if_splits)
  from "6.prems" sk c k sk2 d obtain u r3 where v: "json_value n r2 = Some (u, r3)"
    by (auto split: option.splits)
  from "6.prems" sk c k sk2 d v obtain e r4 where sk3: "skip_ws r3 = e # r4"
    by (auto split: list.splits)
  have lt: "length r4 < length r3" "length r2 < length r1" "length r < length s" "length r1 < length r"
    using skip_ws_Cons [OF sk] skip_ws_Cons [OF sk2] skip_ws_Cons [OF sk3] json_chars_shorter [OF k]
    by auto
  have lt': "length r3 < length r2"
    using "6.IH"(1) [OF sk _ k refl sk2 _ v] c d by simp
  show ?case
  proof (cases "e = 44")
    case True
    with "6.prems" sk c k sk2 d v sk3 have "json_members n (obj_set acc k u) r4 = Some (v, t)" by simp
    with "6.IH"(2) [OF sk _ k refl sk2 _ v refl sk3 True] c d lt lt' show ?thesis by fastforce
  next
    case False
    with "6.prems" sk c k sk2 d v sk3 lt lt' show ?thesis by (simp split: if_splits)
  qed
qed simp_all

text \<open>Any two amounts of fuel above twice the length give the same result.\<close>

lemma json_value_fuel_all:
  "2 * length s < m \<Longrightarrow> 2 * length s < n \<Longrightarrow> json_value m s = json_value n s"
  "2 * length s + 1 < m \<Longrightarrow> 2 * length s + 1 < n \<Longrightarrow> json_elems m acc s = json_elems n acc s"
  "2 * length s + 1 < m \<Longrightarrow> 2 * length s + 1 < n \<Longrightarrow> json_members m mem s = json_members n mem s"
proof (induction m s and m acc s and m mem s arbitrary: n and n and n
    rule: json_value_json_elems_json_members.induct)
  case (2 m s)
  obtain k where n: "n = Suc k" using "2.prems" by (cases n) auto
  show ?case
  proof (cases "skip_ws s")
    case (Cons c r)
    then have r: "length r < length s" by (rule skip_ws_Cons)
    show ?thesis
    proof (cases "skip_ws r")
      case (Cons d r')
      have "json_elems m [] r = json_elems k [] r" if "c = 91" "d \<noteq> 93"
        using "2.prems" r n that by (intro "2.IH"(1) [OF \<open>skip_ws s = c # r\<close> _ _ Cons]) simp_all
      moreover have "json_members m [] r = json_members k [] r" if "c = 123" "d \<noteq> 125"
        using "2.prems" r n that by (intro "2.IH"(2) [OF \<open>skip_ws s = c # r\<close> _ _ _ Cons]) simp_all
      ultimately show ?thesis using n Cons \<open>skip_ws s = c # r\<close> by simp
    qed (simp add: n Cons)
  qed (simp add: n)
next
  case (4 m acc s)
  obtain k where n: "n = Suc k" using "4.prems" by (cases n) auto
  have v: "json_value m s = json_value k s" using "4.prems" n by (intro "4.IH"(1)) simp_all
  show ?case
  proof (cases "json_value m s")
    case (Some p)
    obtain u r where p: "p = (u, r)" by (cases p)
    have r: "length r < length s" using Some p by (simp add: json_shorter(1))
    show ?thesis
    proof (cases "skip_ws r")
      case (Cons c r')
      then have "length r' < length r" by (rule skip_ws_Cons)
      then have "json_elems m (acc @ [u]) r' = json_elems k (acc @ [u]) r'" if "c = 44"
        using "4.prems" n p Cons that r Some by (intro "4.IH"(2) [of p]) simp_all
      with v [symmetric] n Some p Cons show ?thesis by simp
    qed (use v [symmetric] n Some p in simp)
  qed (use v [symmetric] n in simp)
next
  case (6 m mem s)
  obtain k where n: "n = Suc k" using "6.prems" by (cases n) auto
  show ?case
  proof (cases "skip_ws s")
    case (Cons c r)
    then have r: "length r < length s" by (rule skip_ws_Cons)
    show ?thesis
    proof (cases "json_chars r")
      case (Some p)
      obtain key r1 where p: "p = (key, r1)" by (cases p)
      have r1: "length r1 < length r" using Some p by (simp add: json_chars_shorter)
      show ?thesis
      proof (cases "skip_ws r1")
        case c2: (Cons d r2)
        then have r2: "length r2 < length r1" by (rule skip_ws_Cons)
        have v: "json_value m r2 = json_value k r2" if "c = 34" "d = 58"
          using "6.prems" n r r1 r2 that by (intro "6.IH"(1) [OF Cons _ Some p [symmetric] c2]) simp_all
        show ?thesis
        proof (cases "json_value m r2")
          case v2: (Some q)
          obtain u r3 where q: "q = (u, r3)" by (cases q)
          have r3: "length r3 < length r2" using v2 q by (simp add: json_shorter(1))
          show ?thesis
          proof (cases "skip_ws r3")
            case c3: (Cons e r4)
            then have "length r4 < length r3" by (rule skip_ws_Cons)
            then have "json_members m (obj_set mem key u) r4 = json_members k (obj_set mem key u) r4"
              if "c = 34" "d = 58" "e = 44"
              using "6.prems" n r r1 r2 r3 that
              by (intro "6.IH"(2) [OF Cons _ Some p [symmetric] c2 _ v2 q [symmetric] c3]) simp_all
            with v [symmetric] n Cons Some p c2 v2 q c3 show ?thesis by simp
          qed (use v [symmetric] n Cons Some p c2 v2 q in simp)
        qed (use v [symmetric] n Cons Some p c2 in auto)
      qed (use n Cons Some p in simp)
    qed (use n Cons in simp)
  qed (use n in simp)
qed simp_all

lemma json_value_fuel:
  "2 * length s < n \<Longrightarrow> json_value n s = json_value (2 * length s + 1) s"
  by (rule json_value_fuel_all(1)) simp_all

end
