(* ===== verification/ExprSplit.thy ===== *)
theory ExprSplit
  imports JsString
begin

text \<open>
  The parenthesis-aware scanning of \<^verbatim>\<open>pricing/lib/billing-expr.ts\<close>: splitting an
  expression at the separators outside every parenthesis
  (\<^verbatim>\<open>splitTopLevelMultiply\<close>, \<^verbatim>\<open>splitTopLevelAnd\<close>) and removing
  parentheses that enclose a whole expression (\<^verbatim>\<open>hasFullOuterParens\<close>,
  \<^verbatim>\<open>unwrapOuterParens\<close>). The locale \<open>separator\<close> holds the facts both splitters
  share.
\<close>

subsection \<open>Splitting at the top level\<close>

definition paren_step :: "int \<Rightarrow> nat \<Rightarrow> int" where
  "paren_step d c = (if c = 40 then d + 1 else if c = 41 then d - 1 else d)"

text \<open>
  The loop of the two splitters: \<open>d\<close> is the depth, \<open>cur\<close> the text since \<^verbatim>\<open>start\<close>.
\<close>

function split_top :: "jsstr \<Rightarrow> int \<Rightarrow> jsstr \<Rightarrow> jsstr \<Rightarrow> jsstr list" where
  "split_top sep d cur [] = [trim cur]"
| "split_top sep d cur (c # r) =
     (let d' = paren_step d c in
      if d' = 0 \<and> starts_with (c # r) sep
      then trim cur # split_top sep d' [] (drop (length sep - 1) r)
      else split_top sep d' (cur @ [c]) r)"
  by pat_completeness auto
termination
  by (relation "measure (\<lambda>(sep, d, cur, r). length r)") auto

definition splitTopLevelMultiply :: "jsstr \<Rightarrow> jsstr list" where
  "splitTopLevelMultiply expr = filter (\<lambda>p. p \<noteq> []) (split_top (js '' * '') 0 [] expr)"

definition splitTopLevelAnd :: "jsstr \<Rightarrow> jsstr list" where
  "splitTopLevelAnd expr = filter (\<lambda>p. p \<noteq> []) (split_top (js '' && '') 0 [] expr)"

subsection \<open>Outer parentheses\<close>

fun full_parens_loop :: "int \<Rightarrow> jsstr \<Rightarrow> bool" where
  "full_parens_loop d [] = (d = 0)"
| "full_parens_loop d (c # r) =
     (let d' = paren_step d c in if d' = 0 \<and> r \<noteq> [] then False else full_parens_loop d' r)"

definition hasFullOuterParens :: "jsstr \<Rightarrow> bool" where
  "hasFullOuterParens expr \<longleftrightarrow>
     starts_with expr (js ''('') \<and> ends_with expr (js '')'') \<and> full_parens_loop 0 expr"

lemma hasFullOuterParens_nonempty: "hasFullOuterParens e \<Longrightarrow> e \<noteq> []"
  by (auto simp: hasFullOuterParens_def starts_with_def js_Cons)

function unwrap_loop :: "jsstr \<Rightarrow> jsstr" where
  "unwrap_loop current =
     (if hasFullOuterParens current then unwrap_loop (trim (butlast (tl current))) else current)"
  by pat_completeness auto
termination
proof (relation "measure length")
  fix e :: jsstr
  assume "hasFullOuterParens e"
  then have "e \<noteq> []" by (rule hasFullOuterParens_nonempty)
  then have "length (butlast (tl e)) < length e" by (cases e) auto
  then show "(trim (butlast (tl e)), e) \<in> measure length"
    using length_trim [of "butlast (tl e)"] by simp
qed simp

declare unwrap_loop.simps [simp del]

definition unwrapOuterParens :: "jsstr \<Rightarrow> jsstr" where
  "unwrapOuterParens expr = unwrap_loop (trim expr)"

subsection \<open>Depth and balance\<close>

definition depth :: "int \<Rightarrow> jsstr \<Rightarrow> int" where
  "depth d w = foldl paren_step d w"

fun nonneg :: "int \<Rightarrow> jsstr \<Rightarrow> bool" where
  "nonneg d [] = True"
| "nonneg d (c # r) = (0 \<le> paren_step d c \<and> nonneg (paren_step d c) r)"

definition balanced :: "jsstr \<Rightarrow> bool" where
  "balanced w \<longleftrightarrow> nonneg 0 w \<and> depth 0 w = 0"

definition no_parens :: "jsstr \<Rightarrow> bool" where
  "no_parens w \<longleftrightarrow> 40 \<notin> set w \<and> 41 \<notin> set w"

lemma depth_Nil [simp]: "depth d [] = d"
  by (simp add: depth_def)

lemma depth_Cons [simp]: "depth d (c # r) = depth (paren_step d c) r"
  by (simp add: depth_def)

lemma depth_append [simp]: "depth d (a @ b) = depth (depth d a) b"
  by (simp add: depth_def)

lemma paren_step_simps [simp]:
  "paren_step d 40 = d + 1"
  "paren_step d 41 = d - 1"
  "c \<noteq> 40 \<Longrightarrow> c \<noteq> 41 \<Longrightarrow> paren_step d c = d"
  by (simp_all add: paren_step_def)

lemma depth_shift: "depth (d + e) w = depth d w + e"
proof (induction w arbitrary: d)
  case (Cons c w)
  have "paren_step (d + e) c = paren_step d c + e" by (simp add: paren_step_def)
  with Cons show ?case by simp
qed simp

lemma nonneg_append [simp]: "nonneg d (a @ b) \<longleftrightarrow> nonneg d a \<and> nonneg (depth d a) b"
  by (induction a arbitrary: d) auto

lemma nonneg_mono: "nonneg d w \<Longrightarrow> d \<le> e \<Longrightarrow> nonneg e w"
  by (induction w arbitrary: d e) (fastforce simp: paren_step_def)+

lemma no_parens_simps [simp]:
  "no_parens []"
  "no_parens (c # r) \<longleftrightarrow> c \<noteq> 40 \<and> c \<noteq> 41 \<and> no_parens r"
  "no_parens (a @ b) \<longleftrightarrow> no_parens a \<and> no_parens b"
  by (auto simp: no_parens_def)

lemma no_parens_depth [simp]: "no_parens w \<Longrightarrow> depth d w = d"
  by (induction w arbitrary: d) auto

lemma no_parens_nonneg: "no_parens w \<Longrightarrow> 0 \<le> d \<Longrightarrow> nonneg d w"
  by (induction w arbitrary: d) auto

lemma balanced_no_parens: "no_parens w \<Longrightarrow> balanced w"
  by (simp add: balanced_def no_parens_nonneg)

lemma balanced_append: "balanced a \<Longrightarrow> balanced b \<Longrightarrow> balanced (a @ b)"
  by (simp add: balanced_def)

lemma balanced_depth: "balanced w \<Longrightarrow> depth d w = d"
  using depth_shift [of 0 d w] by (simp add: balanced_def)

lemma balanced_wrap: "balanced w \<Longrightarrow> balanced (40 # w @ [41])"
  using nonneg_mono [of 0 w 1] by (simp add: balanced_def balanced_depth)

lemma balanced_join: "balanced sep \<Longrightarrow> (\<And>w. w \<in> set ws \<Longrightarrow> balanced w) \<Longrightarrow> balanced (join sep ws)"
  by (induction sep ws rule: join.induct) (simp_all add: balanced_append balanced_no_parens)

subsection \<open>Texts without a top-level separator\<close>

fun top_free :: "jsstr \<Rightarrow> int \<Rightarrow> jsstr \<Rightarrow> bool" where
  "top_free sep d [] = True"
| "top_free sep d (c # r) =
     (\<not> (paren_step d c = 0 \<and> starts_with (c # r) sep) \<and> top_free sep (paren_step d c) r)"

lemma top_free_above:
  "nonneg d w \<Longrightarrow> top_free sep (depth (d + 1) w) b \<Longrightarrow> top_free sep (d + 1) (w @ b)"
proof (induction w arbitrary: d)
  case (Cons c r)
  have "paren_step (d + 1) c = paren_step d c + 1" by (simp add: paren_step_def)
  with Cons show ?case by auto
qed simp

lemma top_free_no_parens: "no_parens w \<Longrightarrow> \<not> str_includes w sep \<Longrightarrow> top_free sep d w"
  by (induction w) auto

text \<open>
  A separator cannot start inside a text and reach beyond its end when the last code
  unit of the text does not occur in the separator.
\<close>

lemma starts_with_append_cut:
  assumes "a \<noteq> []" and "last a \<notin> set sep"
  shows "starts_with (a @ b) sep \<longleftrightarrow> starts_with a sep"
proof
  assume "starts_with (a @ b) sep"
  then obtain t where t: "a @ b = sep @ t" by (auto simp: starts_with_iff)
  show "starts_with a sep"
  proof (cases "length sep \<le> length a")
    case True
    then have "a = sep @ take (length a - length sep) t"
      using t by (metis append_eq_append_conv_if append_take_drop_id append_same_eq take_append
          take_all_iff length_append le_add_diff_inverse take_add append_eq_conv_conj)
    then show ?thesis by (auto simp: starts_with_iff)
  next
    case False
    then obtain u where "sep = a @ u"
      using t by (metis append_eq_append_conv2 append_Nil2 le_add1 length_append nat_le_linear)
    with assms show ?thesis by auto
  qed
next
  assume "starts_with a sep"
  then show "starts_with (a @ b) sep" by (auto simp: starts_with_iff)
qed

lemma top_free_append:
  "a \<noteq> [] \<Longrightarrow> last a \<notin> set sep \<Longrightarrow>
     top_free sep d (a @ b) \<longleftrightarrow> top_free sep d a \<and> top_free sep (depth d a) b"
proof (induction a arbitrary: d)
  case (Cons c r)
  have "starts_with (c # r @ b) sep \<longleftrightarrow> starts_with (c # r) sep"
    using starts_with_append_cut [OF Cons.prems, of b] by simp
  with Cons show ?case by (cases "r = []") auto
qed simp

subsection \<open>The splitters, once for every separator\<close>

locale separator =
  fixes sep :: jsstr
  assumes sep_nonempty: "sep \<noteq> []"
    and sep_parens: "no_parens sep"
begin

lemma split_top_skip:
  "top_free sep d w \<Longrightarrow> w = [] \<or> last w \<notin> set sep \<Longrightarrow>
     split_top sep d cur (w @ r) = split_top sep (depth d w) (cur @ w) r"
proof (induction w arbitrary: d cur)
  case (Cons c v)
  from Cons.prems have last: "last (c # v) \<notin> set sep" by simp
  then have "starts_with ((c # v) @ r) sep \<longleftrightarrow> starts_with (c # v) sep"
    by (intro starts_with_append_cut) simp_all
  with Cons.prems have "split_top sep d cur ((c # v) @ r) = split_top sep (paren_step d c) (cur @ [c]) (v @ r)"
    by (auto simp: Let_def)
  also have "\<dots> = split_top sep (depth d (c # v)) (cur @ c # v) r"
    using Cons by (cases "v = []") simp_all
  finally show ?case .
qed simp

lemma split_top_sep: "split_top sep 0 cur (sep @ r) = trim cur # split_top sep 0 [] r"
proof -
  obtain c s where s: "sep = c # s" using sep_nonempty by (cases sep) auto
  have "paren_step 0 c = 0" using sep_parens s by simp
  moreover have "starts_with (c # s @ r) sep" by (auto simp: starts_with_iff s)
  ultimately show ?thesis using s by (simp add: Let_def)
qed

definition piece :: "jsstr \<Rightarrow> bool" where
  "piece w \<longleftrightarrow> w \<noteq> [] \<and> last w \<notin> set sep \<and> depth 0 w = 0 \<and> top_free sep 0 w"

lemma split_top_pieces:
  assumes "ws \<noteq> []" and "\<And>w. w \<in> set ws \<Longrightarrow> piece w"
  shows "split_top sep 0 [] (join sep ws) = map trim ws"
  using assms
proof (induction ws rule: list_nonempty_induct)
  case (single w)
  then show ?case
    using split_top_skip [of 0 w "[]" "[]"] by (simp add: piece_def)
next
  case (cons w ws)
  then show ?case
    using split_top_skip [of 0 w "[]" "sep @ join sep ws"]
    by (simp add: piece_def join_Cons split_top_sep)
qed

text \<open>Joining pieces with the separator and splitting gives the pieces back.\<close>

lemma split_join:
  assumes "ws \<noteq> []" and "\<And>w. w \<in> set ws \<Longrightarrow> piece w \<and> trimmed w"
  shows "filter (\<lambda>p. p \<noteq> []) (split_top sep 0 [] (join sep ws)) = ws"
proof -
  have "map trim ws = ws" using assms(2) by (simp add: map_idI trim_id)
  moreover have "filter (\<lambda>p. p \<noteq> []) ws = ws" using assms(2) by (auto simp: filter_id_conv piece_def)
  ultimately show ?thesis using assms by (simp add: split_top_pieces)
qed

text \<open>A parenthesised balanced text is a piece, whatever the separator.\<close>

lemma piece_wrap:
  assumes "balanced w"
  shows "piece (40 # w @ [41])"
proof -
  obtain c s where s: "sep = c # s" using sep_nonempty by (cases sep) auto
  have c: "c \<noteq> 40" "c \<noteq> 41" and last: "41 \<notin> set sep"
    using sep_parens s by (auto simp: no_parens_def)
  have nn: "nonneg 0 w" and d: "depth 1 w = 1"
    using assms by (simp_all add: balanced_def balanced_depth)
  have "top_free sep 1 [41]" using c s by (simp add: starts_with_def)
  then have w: "top_free sep 1 (w @ [41])"
    using top_free_above [OF nn, of sep "[41]"] d by simp
  show ?thesis using w d last by (simp add: piece_def)
qed

end

interpretation mul: separator "js '' * ''"
  by unfold_locales (simp_all add: lit)

interpretation con: separator "js '' && ''"
  by unfold_locales (simp_all add: lit)

subsection \<open>What enclosing parentheses are\<close>

lemma full_parens_loop_above:
  "nonneg d w \<Longrightarrow> r \<noteq> [] \<Longrightarrow> full_parens_loop (d + 1) (w @ r) = full_parens_loop (depth (d + 1) w) r"
proof (induction w arbitrary: d)
  case (Cons c w)
  have "paren_step (d + 1) c = paren_step d c + 1" by (simp add: paren_step_def)
  with Cons show ?case by simp
qed simp

lemma full_parens_loop_interior:
  "full_parens_loop (d + 1) (w @ [41]) \<Longrightarrow> 0 \<le> d \<Longrightarrow> nonneg d w \<and> depth d w = 0"
proof (induction w arbitrary: d)
  case (Cons c w)
  have step: "paren_step (d + 1) c = paren_step d c + 1" by (simp add: paren_step_def)
  have "paren_step d c + 1 \<noteq> 0" and f: "full_parens_loop (paren_step d c + 1) (w @ [41])"
    using Cons.prems step by (auto simp: Let_def split: if_splits)
  then have "0 \<le> paren_step d c"
    using Cons.prems(2) by (auto simp: paren_step_def split: if_splits)
  with Cons.IH [OF f] show ?case by simp
qed simp

text \<open>Exactly the texts of the form \<^verbatim>\<open>( w )\<close> with \<open>w\<close> balanced are enclosed.\<close>

lemma hasFullOuterParens_iff:
  "hasFullOuterParens e \<longleftrightarrow> (\<exists>w. e = 40 # w @ [41] \<and> balanced w)"
proof
  assume h: "hasFullOuterParens e"
  then obtain t where "e = 40 # t"
    by (auto simp: hasFullOuterParens_def starts_with_iff lit)
  moreover obtain u where "rev e = 41 # u"
    using h by (auto simp: hasFullOuterParens_def ends_with_def lit strip_prefix_Some)
  ultimately obtain w where e: "e = 40 # w @ [41]"
    by (cases t rule: rev_cases) auto
  then have "full_parens_loop (0 + 1) (w @ [41])"
    using h by (simp add: hasFullOuterParens_def)
  then have "nonneg 0 w \<and> depth 0 w = 0" by (rule full_parens_loop_interior) simp
  with e show "\<exists>w. e = 40 # w @ [41] \<and> balanced w" by (auto simp: balanced_def)
next
  assume "\<exists>w. e = 40 # w @ [41] \<and> balanced w"
  then obtain w where e: "e = 40 # w @ [41]" and b: "balanced w" by blast
  have "full_parens_loop (0 + 1) (w @ [41])"
    using b by (subst full_parens_loop_above) (simp_all add: balanced_def depth_shift [of 0 1, simplified])
  with e show "hasFullOuterParens e"
    by (simp add: hasFullOuterParens_def starts_with_def ends_with_def lit)
qed

lemma hasFullOuterParens_wrap: "balanced w \<Longrightarrow> hasFullOuterParens (40 # w @ [41])"
  by (auto simp: hasFullOuterParens_iff)

lemma unwrap_wrap: "balanced w \<Longrightarrow> unwrapOuterParens (40 # w @ [41]) = unwrapOuterParens w"
proof -
  assume "balanced w"
  moreover have "trim (40 # w @ [41]) = 40 # w @ [41]"
    by (rule trim_id) (simp add: trimmed_def is_ws_def)
  ultimately show ?thesis
    by (simp add: unwrapOuterParens_def unwrap_loop.simps [of "40 # w @ [41]"] hasFullOuterParens_wrap)
qed

lemma unwrap_loop_result: "\<not> hasFullOuterParens (unwrap_loop e)"
proof (induction e rule: unwrap_loop.induct)
  case (1 e)
  then show ?case by (cases "hasFullOuterParens e") (simp_all add: unwrap_loop.simps [of e])
qed

lemma unwrap_loop_trimmed: "trimmed e \<Longrightarrow> trimmed (unwrap_loop e)"
proof (induction e rule: unwrap_loop.induct)
  case (1 e)
  then show ?case by (cases "hasFullOuterParens e") (simp_all add: unwrap_loop.simps [of e])
qed

lemma unwrap_none: "trimmed e \<Longrightarrow> \<not> hasFullOuterParens e \<Longrightarrow> unwrapOuterParens e = e"
  by (simp add: unwrapOuterParens_def unwrap_loop.simps [of e] trim_id)

text \<open>Trimming and removing enclosing parentheses keep the balance of a text.\<close>

lemma ws_no_parens: "\<forall>c \<in> set a. is_ws c \<Longrightarrow> no_parens a"
  by (auto simp: no_parens_def is_ws_def)

lemma balanced_trim [simp]: "balanced (trim s) \<longleftrightarrow> balanced s"
proof -
  obtain a b where s: "s = a @ trim s @ b" and ab: "no_parens a" "no_parens b"
    using trim_split [of s] by (auto intro: ws_no_parens)
  have "balanced (a @ trim s @ b) \<longleftrightarrow> balanced (trim s)"
    using ab by (auto simp: balanced_def no_parens_nonneg)
  with s show ?thesis by simp
qed

lemma balanced_unwrap_loop: "balanced (unwrap_loop e) \<longleftrightarrow> balanced e"
proof (induction e rule: unwrap_loop.induct)
  case (1 e)
  show ?case
  proof (cases "hasFullOuterParens e")
    case True
    then obtain w where w: "e = 40 # w @ [41]" "balanced w" by (auto simp: hasFullOuterParens_iff)
    with 1 True show ?thesis
      by (simp add: unwrap_loop.simps [of "40 # w @ [41]"] balanced_wrap)
  next
    case False
    then show ?thesis by (simp add: unwrap_loop.simps [of e])
  qed
qed

end
