(* ===== verification/RequestRules.thy ===== *)
theory RequestRules
  imports JsRegex JsJson ExprSplit
begin

text \<open>
  Request rules of billing expressions (\<^verbatim>\<open>pricing/lib/billing-expr.ts\<close>, from the
  request rule constants to the end of the file): the parser that turns
  \<^verbatim>\<open>(condition ? factor : 1) * ...\<close> back into rule groups, the editor functions that
  normalise and print them, and the combination of a base price expression with its
  rules. A call that can throw in the source returns a value of type \<open>throws\<close>.
\<close>

subsection \<open>Constants and data\<close>

definition SOURCE_PARAM :: jsstr where "SOURCE_PARAM = js ''param''"
definition SOURCE_HEADER :: jsstr where "SOURCE_HEADER = js ''header''"
definition SOURCE_TIME :: jsstr where "SOURCE_TIME = js ''time''"

definition MATCH_EQ :: jsstr where "MATCH_EQ = js ''eq''"
definition MATCH_CONTAINS :: jsstr where "MATCH_CONTAINS = js ''contains''"
definition MATCH_GT :: jsstr where "MATCH_GT = js ''gt''"
definition MATCH_GTE :: jsstr where "MATCH_GTE = js ''gte''"
definition MATCH_LT :: jsstr where "MATCH_LT = js ''lt''"
definition MATCH_LTE :: jsstr where "MATCH_LTE = js ''lte''"
definition MATCH_EXISTS :: jsstr where "MATCH_EXISTS = js ''exists''"
definition MATCH_RANGE :: jsstr where "MATCH_RANGE = js ''range''"

lemmas match_defs = MATCH_EQ_def MATCH_CONTAINS_def MATCH_GT_def MATCH_GTE_def MATCH_LT_def
  MATCH_LTE_def MATCH_EXISTS_def MATCH_RANGE_def

lemmas source_defs = SOURCE_PARAM_def SOURCE_HEADER_def SOURCE_TIME_def

definition TIME_FUNCS :: "jsstr list" where
  "TIME_FUNCS = [js ''hour'', js ''minute'', js ''weekday'', js ''month'', js ''day'']"

datatype request_condition =
    ParamHeaderCondition (ph_source: jsstr) (ph_path: jsstr) (ph_mode: jsstr) (ph_value: jsstr)
  | TimeCondition (tc_timeFunc: jsstr) (tc_timezone: jsstr) (tc_mode: jsstr) (tc_value: jsstr)
      (tc_rangeStart: jsstr) (tc_rangeEnd: jsstr)

record rule_group =
  conditions :: "request_condition list"
  multiplier :: jsstr

text \<open>\<^verbatim>\<open>Partial<RequestCondition>\<close>: every field may be missing.\<close>

record partial_condition =
  pc_source :: "jsstr option"
  pc_path :: "jsstr option"
  pc_timeFunc :: "jsstr option"
  pc_timezone :: "jsstr option"
  pc_mode :: "jsstr option"
  pc_value :: "jsstr option"
  pc_rangeStart :: "jsstr option"
  pc_rangeEnd :: "jsstr option"

subsection \<open>Patterns\<close>

text \<open>\<^verbatim>\<open>[\d.eE+-]\<close>\<close>

definition num_unit :: "nat \<Rightarrow> bool" where
  "num_unit c \<longleftrightarrow> is_digit c \<or> c = 46 \<or> c = 101 \<or> c = 69 \<or> c = 43 \<or> c = 45"

definition dot_unit :: "nat \<Rightarrow> bool" where
  "dot_unit c \<longleftrightarrow> \<not> is_newline c"

abbreviation NUM :: regex where "NUM \<equiv> Plus (Cls num_unit)"
abbreviation NOQUOTE :: regex where "NOQUOTE \<equiv> Plus (Cls (\<lambda>c. c \<noteq> 34))"
abbreviation DIGIT :: regex where "DIGIT \<equiv> Cls is_digit"

text \<open>\<^verbatim>\<open>^-?(?:\d+\.?\d*|\.\d+)(?:[eE][+-]?\d+)?$\<close>\<close>

definition NUMERIC_LITERAL_REGEX :: regex where
  "NUMERIC_LITERAL_REGEX = Seq Bol (Seqs [
     Opt (Str (js ''-'')),
     Alt (Seqs [Plus DIGIT, Opt (Str (js ''.'')), Star DIGIT]) (Seqs [Str (js ''.''), Plus DIGIT]),
     Opt (Seqs [Cls (\<lambda>c. c = 101 \<or> c = 69), Opt (Cls (\<lambda>c. c = 43 \<or> c = 45)), Plus DIGIT]),
     Eol])"

definition TIME_ALT :: regex where
  "TIME_ALT = Alts (map Str TIME_FUNCS)"

text \<open>\<^verbatim>\<open>(hour|...)\("([^"]+)"\) >= (num) \|\| \1\("\2"\) < (num)\<close>\<close>

definition TIME_RANGE :: regex where
  "TIME_RANGE = Seqs [Grp 1 TIME_ALT, Str (js ''(\"''), Grp 2 NOQUOTE, Str (js ''\") >= ''), Grp 3 NUM,
     Str (js '' || ''), BRef 1, Str (js ''(\"''), BRef 2, Str (js ''\") < ''), Grp 4 NUM]"

definition TIME_RANGE_BARE :: regex where
  "TIME_RANGE_BARE = Seq Bol (Seqs [TIME_RANGE, Eol])"

definition TIME_RANGE_PAREN :: regex where
  "TIME_RANGE_PAREN = Seq Bol (Seqs [Str (js ''(''), TIME_RANGE, Str (js '')''), Eol])"

definition TIME_COMPARE :: regex where
  "TIME_COMPARE = Seq Bol (Seqs [Grp 1 TIME_ALT, Str (js ''(\"''), Grp 2 NOQUOTE, Str (js ''\") ''),
     Grp 3 (Alts [Str (js ''==''), Str (js ''>=''), Str (js ''<'')]), Str (js '' ''), Grp 4 NUM, Eol])"

text \<open>\<^verbatim>\<open>"(?:[^"\\]|\\.)*"\<close>\<close>

definition QUOTED :: regex where
  "QUOTED = Seqs [Str (js ''\"''),
     Star (Alt (Cls (\<lambda>c. c \<noteq> 34 \<and> c \<noteq> 92)) (Seq (Str [92]) (Cls dot_unit))), Str (js ''\"'')]"

definition HEADER_EXISTS :: regex where
  "HEADER_EXISTS = Seq Bol (Seqs [Str (js ''header(\"''), Grp 1 NOQUOTE, Str (js ''\") != \"\"''), Eol])"

definition PARAM_EXISTS :: regex where
  "PARAM_EXISTS = Seq Bol (Seqs [Str (js ''param(\"''), Grp 1 NOQUOTE, Str (js ''\") != nil''), Eol])"

definition HEADER_CONTAINS :: regex where
  "HEADER_CONTAINS = Seq Bol (Seqs [Str (js ''has(header(\"''), Grp 1 NOQUOTE, Str (js ''\"), ''),
     Grp 2 QUOTED, Str (js '')''), Eol])"

definition PARAM_CONTAINS :: regex where
  "PARAM_CONTAINS = Seq Bol (Seqs [Str (js ''param(\"''), Grp 1 NOQUOTE, Str (js ''\") != nil && has(param(\"''),
     Grp 2 NOQUOTE, Str (js ''\"), ''), Grp 3 QUOTED, Str (js '')''), Eol])"

definition PARAM_COMPARE :: regex where
  "PARAM_COMPARE = Seq Bol (Seqs [Str (js ''param(\"''), Grp 1 NOQUOTE, Str (js ''\") != nil && param(\"''),
     Grp 2 NOQUOTE, Str (js ''\") ''),
     Grp 3 (Alts [Str (js ''>''), Str (js ''>=''), Str (js ''<''), Str (js ''<='')]), Str (js '' ''), Grp 4 NUM, Eol])"

definition SOURCE_EQ :: regex where
  "SOURCE_EQ = Seq Bol (Seqs [Grp 1 (Alt (Str (js ''param'')) (Str (js ''header''))), Str (js ''(\"''),
     Grp 2 NOQUOTE, Str (js ''\") == ''), Grp 3 (Plus (Cls dot_unit)), Eol])"

definition RULE_FACTOR :: regex where
  "RULE_FACTOR = Seq Bol (Seqs [Str (js ''(''), Grp 1 (Plus (Cls (\<lambda>_. True))), Str (js '' ? ''), Grp 2 NUM,
     Str (js '' : 1)''), Eol])"

subsection \<open>The parser\<close>

text \<open>The JavaScript value \<^verbatim>\<open>null\<close> is \<open>JNull\<close>.\<close>

definition parseExprLiteral :: "jsstr \<Rightarrow> json" where
  "parseExprLiteral raw =
     (let text = trim raw in
      if text = js ''true'' \<or> text = js ''false'' then JStr text
      else if re_test NUMERIC_LITERAL_REGEX text then JStr text
      else (case json_parse text of Inl e \<Rightarrow> JNull | Inr v \<Rightarrow> v))"

definition tryParseTimeCondition :: "jsstr \<Rightarrow> request_condition option" where
  "tryParseTimeCondition expr =
     (case re_match TIME_RANGE_BARE expr of
        Some m \<Rightarrow> Some (TimeCondition (grp m 1) (grp m 2) MATCH_RANGE [] (grp m 3) (grp m 4))
      | None \<Rightarrow>
     (case re_match TIME_RANGE_PAREN expr of
        Some m \<Rightarrow> Some (TimeCondition (grp m 1) (grp m 2) MATCH_RANGE [] (grp m 3) (grp m 4))
      | None \<Rightarrow>
     (case re_match TIME_COMPARE expr of
        Some m \<Rightarrow> Some (TimeCondition (grp m 1) (grp m 2)
          (if grp m 3 = js ''=='' then MATCH_EQ else if grp m 3 = js ''>='' then MATCH_GTE
           else if grp m 3 = js ''<'' then MATCH_LT else MATCH_EQ)
          (grp m 4) [] [])
      | None \<Rightarrow> None)))"

text \<open>\<^verbatim>\<open>JSON.parse(m) as string\<close>, for a text that starts with a quote (see \<open>json_parse_quoted\<close>).\<close>

definition parse_string :: "jsstr \<Rightarrow> jsstr throws" where
  "parse_string t = bind_throws (json_parse t) (\<lambda>v. case v of JStr s \<Rightarrow> Inr s | _ \<Rightarrow> json_to_string v)"

definition tryParseRequestCondition :: "jsstr \<Rightarrow> request_condition option throws" where
  "tryParseRequestCondition expr =
     (case tryParseTimeCondition expr of Some tc \<Rightarrow> Inr (Some tc) | None \<Rightarrow>
     (case re_match HEADER_EXISTS expr of
        Some m \<Rightarrow> Inr (Some (ParamHeaderCondition SOURCE_HEADER (grp m 1) MATCH_EXISTS [])) | None \<Rightarrow>
     (case re_match PARAM_EXISTS expr of
        Some m \<Rightarrow> Inr (Some (ParamHeaderCondition SOURCE_PARAM (grp m 1) MATCH_EXISTS [])) | None \<Rightarrow>
     (case re_match HEADER_CONTAINS expr of
        Some m \<Rightarrow> bind_throws (parse_string (grp m 2)) (\<lambda>v.
          Inr (Some (ParamHeaderCondition SOURCE_HEADER (grp m 1) MATCH_CONTAINS v))) | None \<Rightarrow>
     (case (case re_match PARAM_CONTAINS expr of
              Some m \<Rightarrow> if grp m 1 = grp m 2 then Some m else None | None \<Rightarrow> None) of
        Some m \<Rightarrow> bind_throws (parse_string (grp m 3)) (\<lambda>v.
          Inr (Some (ParamHeaderCondition SOURCE_PARAM (grp m 1) MATCH_CONTAINS v))) | None \<Rightarrow>
     (case (case re_match PARAM_COMPARE expr of
              Some m \<Rightarrow> if grp m 1 = grp m 2 then Some m else None | None \<Rightarrow> None) of
        Some m \<Rightarrow> Inr (Some (ParamHeaderCondition SOURCE_PARAM (grp m 1)
          (if grp m 3 = js ''>'' then MATCH_GT else if grp m 3 = js ''>='' then MATCH_GTE
           else if grp m 3 = js ''<'' then MATCH_LT else MATCH_LTE) (grp m 4))) | None \<Rightarrow>
     (case re_match SOURCE_EQ expr of
        Some m \<Rightarrow>
          (let parsedValue = parseExprLiteral (grp m 3) in
           if parsedValue = JNull then Inr None
           else bind_throws (json_to_string parsedValue) (\<lambda>v.
             Inr (Some (ParamHeaderCondition (grp m 1) (grp m 2) MATCH_EQ v)))) | None \<Rightarrow>
     Inr None)))))))"

fun parse_conditions :: "jsstr list \<Rightarrow> request_condition list option throws" where
  "parse_conditions [] = Inr (Some [])"
| "parse_conditions (ap # aps) =
     bind_throws (tryParseRequestCondition (trim ap)) (\<lambda>cond. case cond of
         None \<Rightarrow> Inr None
       | Some c \<Rightarrow> bind_throws (parse_conditions aps) (\<lambda>rest. Inr (map_option ((#) c) rest)))"

definition tryParseRuleGroupFactor :: "jsstr \<Rightarrow> rule_group option throws" where
  "tryParseRuleGroupFactor part =
     (case re_match RULE_FACTOR part of
        None \<Rightarrow> Inr None
      | Some m \<Rightarrow>
        bind_throws (parse_conditions (splitTopLevelAnd (grp m 1))) (\<lambda>cs. case cs of
            None \<Rightarrow> Inr None
          | Some cs \<Rightarrow> if length cs = 0 then Inr None
              else Inr (Some \<lparr>conditions = cs, multiplier = grp m 2\<rparr>)))"

fun parse_groups :: "jsstr list \<Rightarrow> rule_group list option throws" where
  "parse_groups [] = Inr (Some [])"
| "parse_groups (p # ps) =
     bind_throws (tryParseRuleGroupFactor p) (\<lambda>g. case g of
         None \<Rightarrow> Inr None
       | Some g \<Rightarrow> bind_throws (parse_groups ps) (\<lambda>rest. Inr (map_option ((#) g) rest)))"

definition tryParseRequestRuleExpr :: "jsstr \<Rightarrow> rule_group list option throws" where
  "tryParseRequestRuleExpr expr =
     (let trimmed = trim expr in
      if trimmed = [] then Inr (Some []) else parse_groups (splitTopLevelMultiply trimmed))"

subsection \<open>Combining and splitting\<close>

text \<open>The \<^verbatim>\<open>forEach\<close> of the splitter: rule parts and base parts, in order.\<close>

fun sort_parts :: "jsstr list \<Rightarrow> (jsstr list \<times> jsstr list) throws" where
  "sort_parts [] = Inr ([], [])"
| "sort_parts (p # ps) =
     bind_throws (tryParseRequestRuleExpr p) (\<lambda>parsed.
     bind_throws (sort_parts ps) (\<lambda>(rules, bases). Inr (case parsed of
         Some gs \<Rightarrow> if 0 < length gs then (p # rules, bases) else (rules, p # bases)
       | None \<Rightarrow> (rules, p # bases))))"

definition splitBillingExprAndRequestRules :: "jsstr \<Rightarrow> (jsstr \<times> jsstr) throws" where
  "splitBillingExprAndRequestRules expr =
     (let trimmed = trim expr in
      if trimmed = [] then Inr ([], [])
      else (let parts = splitTopLevelMultiply trimmed in
        if length parts \<le> 1 then Inr (trimmed, [])
        else bind_throws (sort_parts parts) (\<lambda>(ruleParts, baseParts).
          if length ruleParts = 0 \<or> length baseParts \<noteq> 1 then Inr (trimmed, [])
          else Inr (unwrapOuterParens (hd baseParts), join (js '' * '') ruleParts))))"

definition combineBillingExpr :: "jsstr \<Rightarrow> jsstr \<Rightarrow> jsstr" where
  "combineBillingExpr baseExpr requestRuleExpr =
     (let base = trim baseExpr; rules = trim requestRuleExpr in
      if base = [] then [] else if rules = [] then base
      else js ''('' @ base @ js '') * '' @ rules)"

subsection \<open>The editor\<close>

definition createEmptyCondition :: request_condition where
  "createEmptyCondition = ParamHeaderCondition SOURCE_PARAM [] MATCH_EQ []"

definition createEmptyTimeCondition :: request_condition where
  "createEmptyTimeCondition = TimeCondition (js ''hour'') (js ''Asia/Shanghai'') MATCH_GTE [] [] []"

definition createEmptyRuleGroup :: rule_group where
  "createEmptyRuleGroup = \<lparr>conditions = [createEmptyCondition], multiplier = []\<rparr>"

definition createEmptyTimeRuleGroup :: rule_group where
  "createEmptyTimeRuleGroup = \<lparr>conditions = [createEmptyTimeCondition], multiplier = []\<rparr>"

text \<open>Value and label key of each option.\<close>

definition getRequestRuleMatchOptions :: "jsstr \<Rightarrow> (jsstr \<times> jsstr) list" where
  "getRequestRuleMatchOptions source =
     (if source = SOURCE_TIME then
        [(MATCH_EQ, js ''Equals''), (MATCH_GTE, js ''Greater than or equal''),
         (MATCH_LT, js ''Less than''), (MATCH_RANGE, js ''Overnight range'')]
      else let base = [(MATCH_EQ, js ''Equals''), (MATCH_CONTAINS, js ''Contains''),
                       (MATCH_EXISTS, js ''Exists'')]
        in if source = SOURCE_HEADER then base
           else base @ [(MATCH_GT, js ''Greater than''), (MATCH_GTE, js ''Greater than or equal''),
                (MATCH_LT, js ''Less than''), (MATCH_LTE, js ''Less than or equal'')])"

definition isTimeFunc :: "jsstr option \<Rightarrow> bool" where
  "isTimeFunc v = (case v of None \<Rightarrow> False | Some f \<Rightarrow> f \<in> set TIME_FUNCS)"

definition option_mode :: "jsstr \<Rightarrow> jsstr option \<Rightarrow> jsstr \<Rightarrow> jsstr" where
  "option_mode source mode dflt = (case mode of
      Some m \<Rightarrow> if m \<in> fst ` set (getRequestRuleMatchOptions source) then m else dflt
    | None \<Rightarrow> dflt)"

definition or_else :: "jsstr option \<Rightarrow> jsstr \<Rightarrow> jsstr" where
  "or_else v dflt = (case v of None \<Rightarrow> dflt | Some s \<Rightarrow> if s = [] then dflt else s)"

definition or_empty :: "jsstr option \<Rightarrow> jsstr" where
  "or_empty v = (case v of None \<Rightarrow> [] | Some s \<Rightarrow> s)"

definition normalizeCondition :: "partial_condition option \<Rightarrow> request_condition" where
  "normalizeCondition cond =
     (let fld = (\<lambda>f. case cond of None \<Rightarrow> None | Some c \<Rightarrow> f c);
          source = (if fld pc_source = Some SOURCE_TIME then SOURCE_TIME
                    else if fld pc_source = Some SOURCE_HEADER then SOURCE_HEADER else SOURCE_PARAM)
      in if source = SOURCE_TIME then
           TimeCondition
             (if isTimeFunc (fld pc_timeFunc) then the (fld pc_timeFunc) else js ''hour'')
             (or_else (fld pc_timezone) (js ''Asia/Shanghai''))
             (option_mode SOURCE_TIME (fld pc_mode) MATCH_GTE)
             (or_empty (fld pc_value)) (or_empty (fld pc_rangeStart)) (or_empty (fld pc_rangeEnd))
         else ParamHeaderCondition source (or_else (fld pc_path) [])
             (option_mode source (fld pc_mode) MATCH_EQ) (or_empty (fld pc_value)))"

text \<open>A complete condition read as a partial one.\<close>

fun to_partial :: "request_condition \<Rightarrow> partial_condition" where
  "to_partial (ParamHeaderCondition s p m v) =
     \<lparr>pc_source = Some s, pc_path = Some p, pc_timeFunc = None, pc_timezone = None,
      pc_mode = Some m, pc_value = Some v, pc_rangeStart = None, pc_rangeEnd = None\<rparr>"
| "to_partial (TimeCondition f z m v a b) =
     \<lparr>pc_source = Some SOURCE_TIME, pc_path = None, pc_timeFunc = Some f, pc_timezone = Some z,
      pc_mode = Some m, pc_value = Some v, pc_rangeStart = Some a, pc_rangeEnd = Some b\<rparr>"

definition buildExprLiteral :: "jsstr \<Rightarrow> jsstr \<Rightarrow> jsstr" where
  "buildExprLiteral mode value =
     (let text = trim value in
      if mode = MATCH_CONTAINS then json_quote text
      else if text = js ''true'' \<or> text = js ''false'' then text
      else if re_test NUMERIC_LITERAL_REGEX text then text
      else json_quote text)"

definition time_op :: "jsstr \<Rightarrow> jsstr" where
  "time_op mode = (if mode = MATCH_EQ then js ''=='' else if mode = MATCH_GTE then js ''>=''
     else if mode = MATCH_LT then js ''<'' else js ''=='')"

definition buildTimeConditionExpr :: "request_condition \<Rightarrow> jsstr" where
  "buildTimeConditionExpr cond =
     (let n = normalizeCondition (Some (to_partial cond));
          fn = tc_timeFunc n @ js ''('' @ json_quote (tc_timezone n) @ js '')'' in
      if tc_mode n = MATCH_RANGE then
        (let s = trim (tc_rangeStart n); e = trim (tc_rangeEnd n) in
         if \<not> re_test NUMERIC_LITERAL_REGEX s \<or> \<not> re_test NUMERIC_LITERAL_REGEX e then []
         else fn @ js '' >= '' @ s @ js '' || '' @ fn @ js '' < '' @ e)
      else
        (let v = trim (tc_value n) in
         if \<not> re_test NUMERIC_LITERAL_REGEX v then []
         else fn @ js '' '' @ time_op (tc_mode n) @ js '' '' @ v))"

definition compare_op :: "jsstr \<Rightarrow> jsstr" where
  "compare_op mode = (if mode = MATCH_GT then js ''>'' else if mode = MATCH_GTE then js ''>=''
     else if mode = MATCH_LT then js ''<'' else js ''<='')"

definition buildRequestConditionExpr :: "request_condition \<Rightarrow> jsstr" where
  "buildRequestConditionExpr cond =
     (case cond of
        TimeCondition _ _ _ _ _ _ \<Rightarrow> buildTimeConditionExpr cond
      | ParamHeaderCondition _ _ _ _ \<Rightarrow>
        (let n = normalizeCondition (Some (to_partial cond)); path = trim (ph_path n) in
         if path = [] then []
         else
           (let src = (if ph_source n = SOURCE_HEADER then js ''header('' @ json_quote path @ js '')''
                       else js ''param('' @ json_quote path @ js '')'');
                literal = buildExprLiteral (ph_mode n) (ph_value n) in
            if ph_mode n = MATCH_EXISTS then
              (if ph_source n = SOURCE_HEADER then src @ js '' != \"\"'' else src @ js '' != nil'')
            else if ph_mode n = MATCH_CONTAINS then
              (if ph_source n = SOURCE_HEADER then js ''has('' @ src @ js '', '' @ literal @ js '')''
               else src @ js '' != nil && has('' @ src @ js '', '' @ literal @ js '')'')
            else if ph_mode n \<in> {MATCH_GT, MATCH_GTE, MATCH_LT, MATCH_LTE} then
              (let numText = trim (ph_value n) in
               if \<not> re_test NUMERIC_LITERAL_REGEX numText then []
               else src @ js '' != nil && '' @ src @ js '' '' @ compare_op (ph_mode n) @ js '' '' @ numText)
            else src @ js '' == '' @ literal)))"

definition buildRuleGroupFactor :: "rule_group \<Rightarrow> jsstr" where
  "buildRuleGroupFactor g =
     (let m = trim (multiplier g) in
      if \<not> re_test NUMERIC_LITERAL_REGEX m then []
      else
        (let condExprs = filter (\<lambda>e. e \<noteq> []) (map buildRequestConditionExpr (conditions g)) in
         if length condExprs = 0 then []
         else
           (let combined = (if length condExprs = 1 then hd condExprs
              else join (js '' && '') (map (\<lambda>e. if str_includes e (js '' || '') then js ''('' @ e @ js '')'' else e) condExprs))
            in js ''('' @ combined @ js '' ? '' @ m @ js '' : 1)'')))"

definition buildRequestRuleExpr :: "rule_group list \<Rightarrow> jsstr" where
  "buildRequestRuleExpr groups = join (js '' * '') (filter (\<lambda>f. f \<noteq> []) (map buildRuleGroupFactor groups))"

end
