(* ===== verification/RequestRulesMatch.thy ===== *)
theory RequestRulesMatch
  imports RequestRules
begin

text \<open>
  What the patterns of the request rule parser do on the texts the editor prints: one
  lemma per printed form of a condition, and the factor pattern on a printed factor.
\<close>

subsection \<open>Matching the printed forms\<close>

lemma numeric_units:
  assumes "re_test NUMERIC_LITERAL_REGEX s"
  shows "\<forall>c \<in> set s. num_unit c" and "s \<noteq> []"
proof -
  let ?a = "Opt (Str (js ''-''))"
  let ?b = "Alt (Seqs [Plus DIGIT, Opt (Str (js ''.'')), Star DIGIT]) (Seqs [Str (js ''.''), Plus DIGIT])"
  let ?c = "Opt (Seqs [Cls (\<lambda>c. c = 101 \<or> c = 69), Opt (Cls (\<lambda>c. c = 43 \<or> c = 45)), Plus DIGIT])"
  have eq: "re_test NUMERIC_LITERAL_REGEX s = re_test (Seq Bol (Seq (Seqs [?a, ?b, ?c]) Eol)) s"
    by (simp add: NUMERIC_LITERAL_REGEX_def re_test_Bol mt_Seq)
  have "made_of num_unit (Seqs [?a, ?b, ?c])"
    by (auto simp: num_unit_def lit)
  from re_test_reads [OF this] assms show "\<forall>c \<in> set s. num_unit c" by (simp add: eq)
  have "\<not> re_test NUMERIC_LITERAL_REGEX []"
    by (simp add: NUMERIC_LITERAL_REGEX_def re_test_Bol rx lit)
  then show "s \<noteq> []" using assms by auto
qed

text \<open>A captured text without a quote, up to the next quote.\<close>

lemma mt_noquote:
  assumes "w \<noteq> []" "34 \<notin> set w" "hd l = 34" "l \<noteq> []"
  shows "mt (Grp n NOQUOTE) (mt (Str l) k) (RS p (w @ 34 # t) c) =
      mt (Str l) k (RS (rev w @ p) (34 # t) ((n, w) # c))"
proof (rule mt_Grp_Plus_stop)
  fix p' x xs v
  assume "x \<noteq> (34 :: nat)"
  then show "mt (Str l) k (RS p' (x # xs) ((n, v) # c)) = None"
    using assms(3,4) by (cases l) (auto simp: mt_Str)
qed (use assms in auto)

lemma mt_num:
  assumes "w \<noteq> []" "\<forall>x \<in> set w. num_unit x" "r = [] \<or> \<not> num_unit (hd r)"
    and "\<And>p' x xs v. num_unit x \<Longrightarrow> k (RS p' (x # xs) ((n, v) # c)) = None"
  shows "mt (Grp n NUM) k (RS p (w @ r) c) = k (RS (rev w @ p) r ((n, w) # c))"
  using assms by (intro mt_Grp_Plus_stop) auto

text \<open>The factor pattern splits off the last \<^verbatim>\<open>? number : 1\<close>.\<close>

lemma rule_factor_match:
  assumes "w \<noteq> []" and m: "m \<noteq> []" "\<forall>x \<in> set m. num_unit x"
  shows "re_match RULE_FACTOR (js ''('' @ w @ js '' ? '' @ m @ js '' : 1)'') = Some [(2, m), (1, w)]"
proof -
  obtain x v where w: "w = x # v" using \<open>w \<noteq> []\<close> by (cases w) auto
  define T where "T = 32 # 63 # 32 # m @ js '' : 1)''"
  let ?k = "mt (Seq (Str (js '' ? '')) (Seq (Grp 2 NUM) (Seq (Str (js '' : 1)'')) Eol))) Some"
  have nq: "63 \<notin> set (tl (tl T))"
    using m(2) by (auto simp: T_def lit num_unit_def is_digit_def)
  have ok: "?k (RS p T c) = Some (RS (rev T @ p) [] ((2, m) # c))" for p c
  proof -
    have "mt (Grp 2 NUM) (mt (Seq (Str (js '' : 1)'')) Eol) Some) (RS (32 # 63 # 32 # p) (m @ js '' : 1)'') c)
        = mt (Seq (Str (js '' : 1)'')) Eol) Some (RS (rev m @ 32 # 63 # 32 # p) (js '' : 1)'') ((2, m) # c))"
      using m by (intro mt_num) (auto simp: rx lit num_unit_def is_digit_def)
    then show ?thesis
      by (simp add: T_def rx lit)
  qed
  have bad: "?k (RS p (drop i T) c) = None" if "0 < i" for i p c
  proof -
    have "set (tl (drop i T)) \<subseteq> set (tl (tl T))"
    proof -
      have "tl (drop i T) = drop (i - 1) (tl (tl T))"
        using that by (simp add: drop_Suc [symmetric] tl_drop)
      then show ?thesis by (simp add: set_drop_subset)
    qed
    then have "63 \<notin> set (tl (drop i T))" using nq by blast
    then have "strip_prefix (js '' ? '') (drop i T) = None"
      by (cases "drop i T"; cases "tl (drop i T)") (auto simp: lit)
    then show ?thesis by (simp add: mt_Seq mt_Str)
  qed
  have "mt (Grp 1 (Plus (Cls (\<lambda>_. True)))) ?k (RS [40] (x # v @ T) []) =
      Some (RS (rev T @ rev w @ [40]) [] [(2, m), (1, w)])"
    unfolding mt_Grp_Plus
  proof (simp only: if_True, rule try_down_at [where i = "length v"])
    fix j
    assume "length v < j"
    then have "drop j (v @ T) = drop (j - length v) T" by simp
    with bad [of "j - length v"] \<open>length v < j\<close>
    show "?k (RS (rev (take j (v @ T)) @ [x, 40]) (drop j (v @ T)) [(1, x # take j (v @ T))]) = None"
      by simp
  qed (simp_all add: ok w)
  then show ?thesis
    by (simp add: RULE_FACTOR_def re_match_Bol mt_Seq mt_Str w T_def lit)
qed

lemmas rx_run = re_match_Bol mt_Seq mt_Str mt_noquote mt_Eol lit

lemmas mt_Grp_Alt = mt_Grp [where a = "Alt a b" for a b]

lemmas time_regex_defs = TIME_RANGE_BARE_def TIME_RANGE_PAREN_def TIME_RANGE_def TIME_COMPARE_def
  TIME_ALT_def TIME_FUNCS_def

lemma time_none:
  "tryParseTimeCondition (104 # 101 # t) = None"
  "tryParseTimeCondition (104 # 97 # t) = None"
  "tryParseTimeCondition (112 # t) = None"
  by (simp_all add: tryParseTimeCondition_def time_regex_defs rx_run mt_Grp mt_Alt)

lemma mt_dot_run:
  "w \<noteq> [] \<Longrightarrow> \<forall>x \<in> set w. dot_unit x \<Longrightarrow>
    mt (Grp n (Plus (Cls dot_unit))) (mt Eol Some) (RS p w c) = Some (RS (rev w @ p) [] ((n, w) # c))"
  using mt_Grp_Plus_greedy [of w dot_unit "[]" "mt Eol Some" p n c] by (simp add: mt_Eol)

subsection \<open>Quoted strings\<close>

fun quoted_units :: "jsstr \<Rightarrow> bool" where
  "quoted_units [] = True"
| "quoted_units [x] = (x \<noteq> 92 \<and> x \<noteq> 34)"
| "quoted_units (x # y # r) =
     (if x = 92 then dot_unit y \<and> quoted_units r else x \<noteq> 34 \<and> quoted_units (y # r))"

lemma quoted_units_Cons: "x \<noteq> 92 \<Longrightarrow> quoted_units (x # r) \<longleftrightarrow> x \<noteq> 34 \<and> quoted_units r"
  by (cases r) auto

abbreviation UNIT :: regex where
  "UNIT \<equiv> Alt (Cls (\<lambda>c. c \<noteq> 34 \<and> c \<noteq> 92)) (Seq (Str [92]) (Cls dot_unit))"

lemma star_units:
  "quoted_units w \<Longrightarrow> length w < n \<Longrightarrow> k (RS (rev w @ p) (34 # t) c) = Some y \<Longrightarrow>
     star_mt (mt UNIT) n k (RS p (w @ 34 # t) c) = Some y"
proof (induction w arbitrary: n p rule: quoted_units.induct)
  case 1
  then show ?case by (cases n) (simp_all add: mt_Alt mt_Cls mt_Seq mt_Str)
next
  case (2 x)
  then obtain m where m: "n = Suc (Suc m)" by (cases n; cases "n - 1") auto
  from 2 m show ?case by (simp add: mt_Alt mt_Cls mt_Seq mt_Str)
next
  case (3 x z r)
  then obtain m where m: "n = Suc m" by (cases n) auto
  show ?case
  proof (cases "x = 92")
    case True
    with 3 m have "star_mt (mt UNIT) m k (RS (z # 92 # p) (r @ 34 # t) c) = Some y" by simp
    with True 3 m show ?thesis by (simp add: mt_Alt mt_Cls mt_Seq mt_Str)
  next
    case False
    with 3 m have "star_mt (mt UNIT) m k (RS (x # p) (z # r @ 34 # t) c) = Some y" by simp
    with False 3 m show ?thesis by (simp add: mt_Alt mt_Cls mt_Seq mt_Str)
  qed
qed

lemma mt_quoted:
  assumes "quoted_units w" and "k (RS (34 # rev w @ 34 # p) t ((n, 34 # w @ [34]) # c)) = Some y"
  shows "mt (Grp n QUOTED) k (RS p (34 # w @ 34 # t) c) = Some y"
  using assms by (simp add: QUOTED_def mt_Grp mt_Seq mt_Str mt_Star lit del: star_mt.simps)
    (rule star_units, simp_all add: mt_Str)

lemma hex_digit_range: "d < 16 \<Longrightarrow> hex_digit d \<noteq> 92 \<and> hex_digit d \<noteq> 34 \<and> dot_unit (hex_digit d)"
  by (auto simp: hex_digit_def dot_unit_def is_newline_def)

lemma quoted_units_quote_unit:
  "quoted_units (quote_unit c @ r) \<longleftrightarrow> quoted_units r"
  using hex_digit_range
  by (auto simp: quote_unit_def unicode_escape_def quoted_units_Cons dot_unit_def is_newline_def)

lemma quoted_units_quote_body: "quoted_units (quote_body s)"
proof (induction s rule: quote_body.induct)
  case (2 c)
  show ?case using quoted_units_quote_unit [of c "[]"] by simp
next
  case (3 c d r)
  then show ?case
    by (auto simp: quoted_units_quote_unit quoted_units_Cons high_surrogate_def low_surrogate_def)
qed simp

subsection \<open>Parsing each printed condition\<close>

lemma parse_header_exists:
  "p \<noteq> [] \<Longrightarrow> 34 \<notin> set p \<Longrightarrow>
   tryParseRequestCondition (js ''header(\"'' @ p @ js ''\") != \"\"'') =
     Inr (Some (ParamHeaderCondition SOURCE_HEADER p MATCH_EXISTS []))"
  by (simp add: tryParseRequestCondition_def time_none HEADER_EXISTS_def rx_run)

lemma parse_param_exists:
  "p \<noteq> [] \<Longrightarrow> 34 \<notin> set p \<Longrightarrow>
   tryParseRequestCondition (js ''param(\"'' @ p @ js ''\") != nil'') =
     Inr (Some (ParamHeaderCondition SOURCE_PARAM p MATCH_EXISTS []))"
  by (simp add: tryParseRequestCondition_def time_none HEADER_EXISTS_def PARAM_EXISTS_def rx_run)

lemma json_parse_quoted: "json_parse (34 # r) = Inr v \<Longrightarrow> \<exists>s. v = JStr s"
  by (auto simp: json_parse_def skip_ws_def json_ws_def split: if_splits option.splits)

lemma parse_string_quote: "(\<And>c. c \<in> set s \<Longrightarrow> c < 65536) \<Longrightarrow> parse_string (json_quote s) = Inr s"
  by (simp add: parse_string_def json_parse_quote)

lemma match_header_quoted:
  assumes "p \<noteq> []" "34 \<notin> set p" "quoted_units w"
  shows "re_match HEADER_CONTAINS (js ''has(header(\"'' @ p @ js ''\"), '' @ 34 # w @ [34, 41]) =
     Some [(2, 34 # w @ [34]), (1, p)]"
proof -
  have "mt (Grp 2 QUOTED) (mt (Str [41]) (mt Eol Some)) (RS q (34 # w @ [34, 41]) c) =
      Some (RS (41 # 34 # rev w @ 34 # q) [] ((2, 34 # w @ [34]) # c))" for q c
    by (rule mt_quoted) (simp_all add: assms(3) mt_Str mt_Eol)
  with assms show ?thesis
    by (simp add: HEADER_CONTAINS_def rx_run)
qed

lemma match_header_contains:
  assumes "p \<noteq> []" "34 \<notin> set p"
  shows "re_match HEADER_CONTAINS (js ''has(header(\"'' @ p @ js ''\"), '' @ json_quote v @ js '')'') =
     Some [(2, json_quote v), (1, p)]"
  using match_header_quoted [OF assms quoted_units_quote_body [of v]] by (simp add: json_quote_def lit)

lemma parse_header_contains:
  assumes "p \<noteq> []" "34 \<notin> set p" "\<And>c. c \<in> set v \<Longrightarrow> c < 65536"
  shows "tryParseRequestCondition (js ''has(header(\"'' @ p @ js ''\"), '' @ json_quote v @ js '')'') =
     Inr (Some (ParamHeaderCondition SOURCE_HEADER p MATCH_CONTAINS v))"
proof -
  let ?e = "js ''has(header(\"'' @ p @ js ''\"), '' @ json_quote v @ js '')''"
  have "tryParseTimeCondition ?e = None" "re_match HEADER_EXISTS ?e = None" "re_match PARAM_EXISTS ?e = None"
    by (simp_all add: time_none HEADER_EXISTS_def PARAM_EXISTS_def rx_run)
  then show ?thesis
    unfolding tryParseRequestCondition_def match_header_contains [OF assms(1,2)]
    by (simp add: parse_string_quote assms(3))
qed

text \<open>Equality: the literal is read back by \<open>parseExprLiteral\<close>.\<close>

lemma match_source_eq:
  assumes "s = SOURCE_PARAM \<or> s = SOURCE_HEADER" "p \<noteq> []" "34 \<notin> set p" "l \<noteq> []" "\<forall>x \<in> set l. dot_unit x"
  shows "re_match SOURCE_EQ (s @ js ''(\"'' @ p @ js ''\") == '' @ l) = Some [(3, l), (2, p), (1, s)]"
  using assms by (auto simp: SOURCE_EQ_def source_defs rx_run mt_Alt mt_dot_run mt_Grp_Alt)

lemma eq_no_other:
  assumes "s = SOURCE_PARAM \<or> s = SOURCE_HEADER" "p \<noteq> []" "34 \<notin> set p"
  shows "tryParseTimeCondition (s @ js ''(\"'' @ p @ js ''\") == '' @ l) = None"
    "re_match HEADER_EXISTS (s @ js ''(\"'' @ p @ js ''\") == '' @ l) = None"
    "re_match PARAM_EXISTS (s @ js ''(\"'' @ p @ js ''\") == '' @ l) = None"
    "re_match HEADER_CONTAINS (s @ js ''(\"'' @ p @ js ''\") == '' @ l) = None"
    "re_match PARAM_CONTAINS (s @ js ''(\"'' @ p @ js ''\") == '' @ l) = None"
    "re_match PARAM_COMPARE (s @ js ''(\"'' @ p @ js ''\") == '' @ l) = None"
  using assms by (auto simp: source_defs rx_run time_none HEADER_EXISTS_def PARAM_EXISTS_def
      HEADER_CONTAINS_def PARAM_CONTAINS_def PARAM_COMPARE_def)

lemma parse_source_eq:
  assumes "s = SOURCE_PARAM \<or> s = SOURCE_HEADER" "p \<noteq> []" "34 \<notin> set p" "l \<noteq> []" "\<forall>x \<in> set l. dot_unit x"
    and "parseExprLiteral l = JStr v"
  shows "tryParseRequestCondition (s @ js ''(\"'' @ p @ js ''\") == '' @ l) =
     Inr (Some (ParamHeaderCondition s p MATCH_EQ v))"
  unfolding tryParseRequestCondition_def match_source_eq [OF assms(1-5)] eq_no_other [OF assms(1-3)]
  by (simp add: assms(6))

text \<open>The two halves into which a printed parameter comparison falls apart.\<close>

lemma parse_param_compare_half:
  assumes "p \<noteq> []" "34 \<notin> set p" "o1 \<noteq> 61" "o1 \<noteq> 33"
  shows "tryParseRequestCondition (js ''param(\"'' @ p @ js ''\") '' @ o1 # t) = Inr None"
  using assms by (simp add: tryParseRequestCondition_def time_none HEADER_EXISTS_def PARAM_EXISTS_def
      HEADER_CONTAINS_def PARAM_CONTAINS_def PARAM_COMPARE_def SOURCE_EQ_def rx_run mt_Alt mt_Grp_Alt)

lemma parse_param_contains_half: "tryParseRequestCondition (js ''has(param('' @ t) = Inr None"
  by (simp add: tryParseRequestCondition_def time_none HEADER_EXISTS_def PARAM_EXISTS_def
      HEADER_CONTAINS_def PARAM_CONTAINS_def PARAM_COMPARE_def SOURCE_EQ_def rx_run mt_Alt mt_Grp_Alt)

lemma mt_num_Str:
  assumes "w \<noteq> []" "\<forall>x \<in> set w. num_unit x" "r = [] \<or> \<not> num_unit (hd r)" "\<not> num_unit l"
  shows "mt (Grp n NUM) (mt (Str (l # ls)) k) (RS p (w @ r) c) = mt (Str (l # ls)) k (RS (rev w @ p) r ((n, w) # c))"
  using assms by (intro mt_num) (auto simp: mt_Str)

lemma mt_num_Eol:
  assumes "w \<noteq> []" "\<forall>x \<in> set w. num_unit x"
  shows "mt (Grp n NUM) (mt Eol k) (RS p w c) = k (RS (rev w @ p) [] ((n, w) # c))"
  using mt_num [of w "[]" "mt Eol k" n c p] assms by (simp add: mt_Eol)

lemmas mt_num_Str_end = mt_num_Str [where r = "[]", simplified]

lemma num_unit_punct [simp]: "\<not> num_unit 32" "\<not> num_unit 41"
  by (simp_all add: num_unit_def is_digit_def)

lemma parse_time_compare:
  assumes f: "f \<in> set TIME_FUNCS" and z: "z \<noteq> []" "34 \<notin> set z"
    and n: "n \<noteq> []" "\<forall>x \<in> set n. num_unit x" and m: "m \<in> {MATCH_EQ, MATCH_GTE, MATCH_LT}"
  shows "tryParseTimeCondition (f @ js ''(\"'' @ z @ js ''\") '' @ time_op m @ js '' '' @ n) =
     Some (TimeCondition f z m n [] [])"
  using f z n m by (auto simp: TIME_FUNCS_def tryParseTimeCondition_def time_regex_defs rx_run mt_Grp_Alt mt_Alt
      mt_num_Eol mt_num_Str_end time_op_def match_defs)

definition time_range_expr :: "jsstr \<Rightarrow> jsstr \<Rightarrow> jsstr \<Rightarrow> jsstr \<Rightarrow> jsstr" where
  "time_range_expr f z a b =
     f @ js ''(\"'' @ z @ js ''\") >= '' @ a @ js '' || '' @ f @ js ''(\"'' @ z @ js ''\") < '' @ b"

lemma parse_time_range:
  assumes "f \<in> set TIME_FUNCS" and "z \<noteq> []" "34 \<notin> set z"
    and "a \<noteq> []" "\<forall>x \<in> set a. num_unit x" and "b \<noteq> []" "\<forall>x \<in> set b. num_unit x"
  shows "tryParseTimeCondition (time_range_expr f z a b) = Some (TimeCondition f z MATCH_RANGE [] a b)"
    and "tryParseTimeCondition (40 # time_range_expr f z a b @ [41]) = Some (TimeCondition f z MATCH_RANGE [] a b)"
  using assms by (auto simp: time_range_expr_def TIME_FUNCS_def tryParseTimeCondition_def time_regex_defs rx_run
      mt_Grp_Alt mt_Alt mt_num_Eol mt_num_Str mt_BRef)

subsection \<open>Texts that survive printing and parsing\<close>

definition plain :: "jsstr \<Rightarrow> bool" where
  "plain s \<longleftrightarrow> (\<forall>c \<in> set s. 32 \<le> c \<and> c < 65536 \<and> c \<noteq> 34 \<and> c \<noteq> 92 \<and> c \<noteq> 40 \<and> c \<noteq> 41
     \<and> \<not> high_surrogate c \<and> \<not> low_surrogate c)"

definition numeric :: "jsstr \<Rightarrow> bool" where
  "numeric s \<longleftrightarrow> re_test NUMERIC_LITERAL_REGEX s"

lemma plain_simps [simp]:
  "plain []"
  "plain (c # r) \<longleftrightarrow> (32 \<le> c \<and> c < 65536 \<and> c \<noteq> 34 \<and> c \<noteq> 92 \<and> c \<noteq> 40 \<and> c \<noteq> 41
     \<and> \<not> high_surrogate c \<and> \<not> low_surrogate c) \<and> plain r"
  by (auto simp: plain_def)

lemma quote_unit_plain: "plain [c] \<Longrightarrow> quote_unit c = [c]"
  by (simp add: quote_unit_def)

lemma quote_body_plain: "plain s \<Longrightarrow> quote_body s = s"
  by (induction s rule: quote_body.induct) (simp_all add: quote_unit_plain)

lemma json_quote_plain: "plain s \<Longrightarrow> json_quote s = 34 # s @ [34]"
  by (simp add: json_quote_def quote_body_plain)

lemma plain_no_quote: "plain s \<Longrightarrow> 34 \<notin> set s"
  by (auto simp: plain_def)

lemma plain_no_parens: "plain s \<Longrightarrow> no_parens s"
  by (auto simp: plain_def no_parens_def)

lemma numeric_props:
  assumes "numeric s"
  shows "s \<noteq> []" "\<forall>c \<in> set s. num_unit c" "trim s = s" "no_parens s" "38 \<notin> set s" "124 \<notin> set s"
proof -
  show u: "\<forall>c \<in> set s. num_unit c" and "s \<noteq> []"
    using assms numeric_units by (auto simp: numeric_def)
  show "trim s = s"
    using u by (intro trim_no_ws) (auto simp: num_unit_def is_digit_def is_ws_def)
  show "no_parens s" "38 \<notin> set s" "124 \<notin> set s"
    using u by (auto simp: num_unit_def is_digit_def no_parens_def)
qed

lemma unicode_escape_set:
  assumes "x \<in> set (unicode_escape c)"
  shows "x = 92 \<or> (48 \<le> x \<and> x \<le> 57) \<or> (97 \<le> x \<and> x \<le> 117)"
proof -
  have h: "(48 \<le> hex_digit (d mod 16) \<and> hex_digit (d mod 16) \<le> 57)
      \<or> (97 \<le> hex_digit (d mod 16) \<and> hex_digit (d mod 16) \<le> 117)" for d
    using mod_less_divisor [of 16 d] by (auto simp: hex_digit_def)
  from assms consider "x = 92" | "x = 117" | d where "x = hex_digit (d mod 16)"
    by (auto simp: unicode_escape_def)
  then show ?thesis using h by cases auto
qed

lemma quote_unit_set:
  "x \<in> set (quote_unit c) \<Longrightarrow>
     (x = c \<and> 32 \<le> c) \<or> x = 92 \<or> x = 34 \<or> (48 \<le> x \<and> x \<le> 57) \<or> (97 \<le> x \<and> x \<le> 117)"
  using unicode_escape_set [of x c] by (auto simp: quote_unit_def split: if_splits)

lemma quote_unit_crlf [simp]: "10 \<notin> set (quote_unit c)" "13 \<notin> set (quote_unit c)"
  using quote_unit_set [of 10 c] quote_unit_set [of 13 c] by auto

lemma quote_body_set:
  "x \<in> set (quote_body s) \<Longrightarrow>
     x \<in> set s \<or> x = 92 \<or> x = 34 \<or> (48 \<le> x \<and> x \<le> 57) \<or> (97 \<le> x \<and> x \<le> 117)"
  by (induction s rule: quote_body.induct) (auto dest: quote_unit_set split: if_splits)

lemma quote_body_crlf [simp]: "10 \<notin> set (quote_body s)" "13 \<notin> set (quote_body s)"
  by (induction s rule: quote_body.induct) (auto simp: high_surrogate_def low_surrogate_def)

lemma no_parens_json_quote: "no_parens v \<Longrightarrow> no_parens (json_quote v)"
  by (auto simp: json_quote_def no_parens_def dest: quote_body_set)

subsection \<open>Printed literals\<close>

lemma literal_shape: "buildExprLiteral m v = trim v \<or> buildExprLiteral m v = json_quote (trim v)"
  by (simp add: buildExprLiteral_def Let_def)

lemma literal_head: "buildExprLiteral m v \<noteq> [] \<and> hd (buildExprLiteral m v) \<noteq> 38"
proof -
  have "re_test NUMERIC_LITERAL_REGEX (trim v) \<Longrightarrow> trim v \<noteq> [] \<and> hd (trim v) \<noteq> 38"
    by (metis hd_in_set numeric_def numeric_props(1,5))
  then show ?thesis by (auto simp: buildExprLiteral_def Let_def json_quote_def lit)
qed

lemma parse_literal_eq:
  assumes "trimmed v" "\<And>c. c \<in> set v \<Longrightarrow> c < 65536"
  shows "parseExprLiteral (buildExprLiteral MATCH_EQ v) = JStr v"
proof -
  have t: "trim v = v" using assms(1) by (rule trim_id)
  have tq: "trim (json_quote v) = json_quote v"
    by (rule trim_id) (simp add: trimmed_def json_quote_def is_ws_def)
  have nq: "\<not> re_test NUMERIC_LITERAL_REGEX (json_quote v)"
    using numeric_props(2) [of "json_quote v"] by (auto simp: numeric_def json_quote_def num_unit_def is_digit_def)
  have "json_quote v \<noteq> js ''true''" "json_quote v \<noteq> js ''false''" by (simp_all add: json_quote_def lit)
  with t tq nq json_parse_quote [OF assms(2)] show ?thesis
    by (simp add: buildExprLiteral_def parseExprLiteral_def Let_def match_defs)
qed

lemma literal_dot_units:
  assumes "trimmed v" "8232 \<notin> set v" "8233 \<notin> set v" "x \<in> set (buildExprLiteral MATCH_EQ v)"
  shows "dot_unit x"
proof -
  have t: "trim v = v" using assms(1) by (rule trim_id)
  consider "x \<in> set (json_quote v)" | "v = js ''true'' \<or> v = js ''false''" "x \<in> set v" | "numeric v" "x \<in> set v"
    using assms(4) t by (auto simp: buildExprLiteral_def Let_def numeric_def match_defs split: if_splits)
  then show ?thesis
  proof cases
    case 1
    then show ?thesis
      using assms(2,3) quote_body_set [of x v] by (auto simp: json_quote_def dot_unit_def is_newline_def)
  next
    case 2
    then show ?thesis by (auto simp: dot_unit_def is_newline_def lit)
  next
    case 3
    then show ?thesis using numeric_props(2) [of v] by (auto simp: dot_unit_def is_newline_def num_unit_def is_digit_def)
  qed
qed

lemma literal_no_parens: "no_parens v \<Longrightarrow> trimmed v \<Longrightarrow> no_parens (buildExprLiteral m v)"
  using literal_shape [of m v] by (auto simp: no_parens_json_quote trim_id)

end
