(* ===== verification/RequestRulesProps.thy ===== *)
theory RequestRulesProps
  imports RequestRulesMatch
begin

text \<open>
  The contract between the printer and the parser of request rules: which rule groups are
  read back as they were written, which never are, and how a combined billing expression
  splits into its base and its rules.
\<close>

subsection \<open>Conditions that round-trip\<close>

text \<open>
  The conditions the editor can read back: names and time zones that need no escaping,
  numbers for time comparisons, and for parameters and headers the modes whose printed
  form is one conjunct. Parentheses and the texts of the two logical operators must not
  occur where the top-level scanners would see them.
\<close>

fun wf_condition :: "request_condition \<Rightarrow> bool" where
  "wf_condition (TimeCondition f z m v a b) \<longleftrightarrow>
     f \<in> set TIME_FUNCS \<and> z \<noteq> [] \<and> plain z
     \<and> (m = MATCH_RANGE \<and> v = [] \<and> numeric a \<and> numeric b
        \<or> m \<in> {MATCH_EQ, MATCH_GTE, MATCH_LT} \<and> numeric v \<and> a = [] \<and> b = [] \<and> 124 \<notin> set z)"
| "wf_condition (ParamHeaderCondition s p m v) \<longleftrightarrow>
     (s = SOURCE_PARAM \<or> s = SOURCE_HEADER) \<and> p \<noteq> [] \<and> plain p \<and> trimmed p
     \<and> trimmed v \<and> no_parens v \<and> (\<forall>c \<in> set v. c < 65536)
     \<and> \<not> str_includes (buildRequestConditionExpr (ParamHeaderCondition s p m v)) (js '' || '')
     \<and> (m = MATCH_EXISTS \<and> v = []
        \<or> m = MATCH_CONTAINS \<and> s = SOURCE_HEADER
        \<or> m = MATCH_EQ \<and> 8232 \<notin> set v \<and> 8233 \<notin> set v
           \<and> \<not> str_includes (buildExprLiteral MATCH_EQ v) (js '' && ''))"

definition wf_group :: "rule_group \<Rightarrow> bool" where
  "wf_group g \<longleftrightarrow> numeric (multiplier g) \<and> conditions g \<noteq> [] \<and> list_all wf_condition (conditions g)"

lemma match_values:
  "fst ` set (getRequestRuleMatchOptions SOURCE_TIME) = {MATCH_EQ, MATCH_GTE, MATCH_LT, MATCH_RANGE}"
  "fst ` set (getRequestRuleMatchOptions SOURCE_HEADER) = {MATCH_EQ, MATCH_CONTAINS, MATCH_EXISTS}"
  "fst ` set (getRequestRuleMatchOptions SOURCE_PARAM) =
     {MATCH_EQ, MATCH_CONTAINS, MATCH_EXISTS, MATCH_GT, MATCH_GTE, MATCH_LT, MATCH_LTE}"
  by (auto simp: getRequestRuleMatchOptions_def source_defs)

lemma source_distinct [simp]:
  "SOURCE_PARAM \<noteq> SOURCE_HEADER" "SOURCE_HEADER \<noteq> SOURCE_PARAM" "SOURCE_TIME \<noteq> SOURCE_PARAM"
  "SOURCE_PARAM \<noteq> SOURCE_TIME" "SOURCE_TIME \<noteq> SOURCE_HEADER" "SOURCE_HEADER \<noteq> SOURCE_TIME"
  by (simp_all add: source_defs)

text \<open>Normalising a complete condition whose mode its source offers changes nothing.\<close>

lemma normalize_time:
  "f \<in> set TIME_FUNCS \<Longrightarrow> z \<noteq> [] \<Longrightarrow> m \<in> {MATCH_EQ, MATCH_GTE, MATCH_LT, MATCH_RANGE} \<Longrightarrow>
     normalizeCondition (Some (to_partial (TimeCondition f z m v a b))) = TimeCondition f z m v a b"
  by (auto simp: normalizeCondition_def isTimeFunc_def or_else_def or_empty_def option_mode_def match_values)

lemma normalize_param_header:
  "s = SOURCE_PARAM \<or> s = SOURCE_HEADER \<Longrightarrow> m \<in> fst ` set (getRequestRuleMatchOptions s) \<Longrightarrow>
     normalizeCondition (Some (to_partial (ParamHeaderCondition s p m v))) = ParamHeaderCondition s p m v"
  by (auto simp: normalizeCondition_def or_else_def or_empty_def option_mode_def)

subsection \<open>Printed forms\<close>

lemma match_distinct [simp]:
  "MATCH_EXISTS \<noteq> MATCH_CONTAINS" "MATCH_EQ \<noteq> MATCH_EXISTS" "MATCH_EQ \<noteq> MATCH_CONTAINS"
  "MATCH_CONTAINS \<noteq> MATCH_EXISTS"
  "MATCH_EQ \<notin> {MATCH_GT, MATCH_GTE, MATCH_LT, MATCH_LTE}"
  "MATCH_RANGE \<notin> {MATCH_EQ, MATCH_GTE, MATCH_LT}" "MATCH_EQ \<noteq> MATCH_RANGE" "MATCH_GTE \<noteq> MATCH_RANGE" "MATCH_LT \<noteq> MATCH_RANGE"
  "MATCH_RANGE \<noteq> MATCH_EQ" "MATCH_RANGE \<noteq> MATCH_GTE" "MATCH_RANGE \<noteq> MATCH_LT"
  "MATCH_EQ \<noteq> MATCH_GT" "MATCH_EQ \<noteq> MATCH_GTE" "MATCH_EQ \<noteq> MATCH_LT" "MATCH_EQ \<noteq> MATCH_LTE"
  by (simp_all add: match_defs)

lemma build_time_compare:
  assumes "f \<in> set TIME_FUNCS" "z \<noteq> []" "plain z" "numeric v" "m \<in> {MATCH_EQ, MATCH_GTE, MATCH_LT}"
  shows "buildRequestConditionExpr (TimeCondition f z m v a b) =
     f @ js ''(\"'' @ z @ js ''\") '' @ time_op m @ js '' '' @ v"
proof -
  have n: "normalizeCondition (Some (to_partial (TimeCondition f z m v a b))) = TimeCondition f z m v a b"
    using assms by (intro normalize_time) auto
  have "m \<noteq> MATCH_RANGE" using assms(5) by auto
  with assms show ?thesis
    unfolding buildRequestConditionExpr_def buildTimeConditionExpr_def
    by (simp add: n Let_def numeric_props(3) json_quote_plain numeric_def [symmetric] lit del: to_partial.simps)
qed

lemma build_time_range:
  assumes "f \<in> set TIME_FUNCS" "z \<noteq> []" "plain z" "numeric a" "numeric b"
  shows "buildRequestConditionExpr (TimeCondition f z MATCH_RANGE v a b) = time_range_expr f z a b"
proof -
  have n: "normalizeCondition (Some (to_partial (TimeCondition f z MATCH_RANGE v a b))) = TimeCondition f z MATCH_RANGE v a b"
    using assms by (intro normalize_time) auto
  with assms show ?thesis
    unfolding buildRequestConditionExpr_def buildTimeConditionExpr_def
    by (simp add: n Let_def numeric_props(3) json_quote_plain numeric_def [symmetric] time_range_expr_def lit
        del: to_partial.simps)
qed

lemma build_exists:
  assumes "s = SOURCE_PARAM \<or> s = SOURCE_HEADER" "p \<noteq> []" "plain p" "trimmed p"
  shows "buildRequestConditionExpr (ParamHeaderCondition s p MATCH_EXISTS v) =
     s @ js ''(\"'' @ p @ js ''\")'' @ (if s = SOURCE_HEADER then js '' != \"\"'' else js '' != nil'')"
proof -
  have n: "normalizeCondition (Some (to_partial (ParamHeaderCondition s p MATCH_EXISTS v))) =
      ParamHeaderCondition s p MATCH_EXISTS v"
    using assms(1) by (intro normalize_param_header) (auto simp: match_values)
  with assms show ?thesis
    unfolding buildRequestConditionExpr_def
    by (auto simp add: n Let_def trim_id json_quote_plain source_defs lit simp del: to_partial.simps)
qed

lemma build_header_contains:
  assumes "p \<noteq> []" "plain p" "trimmed p" "trimmed v"
  shows "buildRequestConditionExpr (ParamHeaderCondition SOURCE_HEADER p MATCH_CONTAINS v) =
     js ''has(header(\"'' @ p @ js ''\"), '' @ json_quote v @ js '')''"
proof -
  have n: "normalizeCondition (Some (to_partial (ParamHeaderCondition SOURCE_HEADER p MATCH_CONTAINS v))) =
      ParamHeaderCondition SOURCE_HEADER p MATCH_CONTAINS v"
    by (intro normalize_param_header) (auto simp: match_values)
  with assms show ?thesis
    unfolding buildRequestConditionExpr_def
    by (simp add: n Let_def trim_id json_quote_plain buildExprLiteral_def lit del: to_partial.simps)
qed

lemma build_eq:
  assumes "s = SOURCE_PARAM \<or> s = SOURCE_HEADER" "p \<noteq> []" "plain p" "trimmed p"
  shows "buildRequestConditionExpr (ParamHeaderCondition s p MATCH_EQ v) =
     s @ js ''(\"'' @ p @ js ''\") == '' @ buildExprLiteral MATCH_EQ v"
proof -
  have n: "normalizeCondition (Some (to_partial (ParamHeaderCondition s p MATCH_EQ v))) =
      ParamHeaderCondition s p MATCH_EQ v"
    using assms(1) by (intro normalize_param_header) (auto simp: match_values)
  with assms show ?thesis
    unfolding buildRequestConditionExpr_def
    by (auto simp add: n Let_def trim_id json_quote_plain source_defs lit simp del: to_partial.simps)
qed

subsection \<open>Printed conditions are one conjunct\<close>

lemma top_free_inside: "no_parens w \<Longrightarrow> d \<noteq> 0 \<Longrightarrow> top_free sep d (w @ b) \<longleftrightarrow> top_free sep d b"
  by (induction w) auto

lemma top_free_outside:
  "no_parens w \<Longrightarrow> x \<notin> set w \<Longrightarrow> top_free (x # sep) d (w @ b) \<longleftrightarrow> top_free (x # sep) d b"
  by (induction w) (auto simp: starts_with_def)

lemmas top_free_outside_end = top_free_outside [where b = "[]", simplified]

text \<open>A text that is one conjunct: the scanner for the conjunction returns it as it is.\<close>

definition conjunct :: "jsstr \<Rightarrow> bool" where
  "conjunct e \<longleftrightarrow> con.piece e \<and> trimmed e \<and> balanced e"

definition ends_well :: "jsstr \<Rightarrow> bool" where
  "ends_well e \<longleftrightarrow> e \<noteq> [] \<and> last e \<noteq> 38 \<and> \<not> is_ws (last e)"

lemma ends_well_append [simp]: "b \<noteq> [] \<Longrightarrow> ends_well (a @ b) \<longleftrightarrow> ends_well b"
  by (simp add: ends_well_def)

lemma ends_well_Cons [simp]: "b \<noteq> [] \<Longrightarrow> ends_well (a # b) \<longleftrightarrow> ends_well b"
  by (simp add: ends_well_def)

text \<open>A call of a function followed by a text without a top-level conjunction.\<close>

lemma conjunct_call:
  assumes f: "f \<noteq> []" "no_parens f" "32 \<notin> set f" "\<not> is_ws (hd f)"
    and q: "no_parens q" and t: "balanced t" "top_free (js '' && '') 0 t" "ends_well (41 # t)"
  shows "conjunct (f @ 40 # q @ 41 # t)"
proof -
  let ?e = "f @ 40 # q @ 41 # t"
  have "top_free (js '' && '') 0 ?e"
    using f q t by (simp add: lit top_free_outside top_free_inside starts_with_def)
  moreover have b: "balanced ?e"
    using f q t by (simp add: balanced_def no_parens_nonneg)
  moreover have "last ?e \<noteq> 32" "last ?e \<noteq> 38" and "trimmed ?e"
    using f t(3) by (auto simp: ends_well_def trimmed_def is_ws_def)
  ultimately show ?thesis
    unfolding conjunct_def con.piece_def by (auto simp: lit balanced_def)
qed

lemma numeric_last: "numeric v \<Longrightarrow> ends_well v"
proof -
  assume "numeric v"
  then have "num_unit (last v)" "v \<noteq> []" using numeric_props(1,2) [of v] last_in_set [of v] by auto
  then show ?thesis by (auto simp: ends_well_def num_unit_def is_digit_def is_ws_def)
qed

lemma numeric_no_space: "numeric v \<Longrightarrow> 32 \<notin> set v"
  using numeric_props(2) [of v] by (auto simp: num_unit_def is_digit_def)

lemma numeric_strip: "numeric v \<Longrightarrow> strip_prefix (38 # s) (v @ r) = None"
  using numeric_props(1,5) [of v] by (cases v) auto

lemmas numeric_strip_end = numeric_strip [where r = "[]", simplified]

lemma time_func_props:
  assumes "f \<in> set TIME_FUNCS"
  shows "f \<noteq> []" "no_parens f" "32 \<notin> set f" "\<not> is_ws (hd f)"
  using assms by (auto simp: TIME_FUNCS_def lit is_ws_def)

lemma time_func_strip: "f \<in> set TIME_FUNCS \<Longrightarrow> strip_prefix (38 # s) (f @ r) = None"
  by (auto simp: TIME_FUNCS_def lit)

lemma source_props:
  assumes "s = SOURCE_PARAM \<or> s = SOURCE_HEADER"
  shows "s \<noteq> []" "no_parens s" "32 \<notin> set s" "\<not> is_ws (hd s)"
  using assms by (auto simp: source_defs lit is_ws_def)

lemma time_op_cases: "time_op m \<in> {[61, 61], [62, 61], [60]}"
  by (simp add: time_op_def lit)

lemmas tail_simps = balanced_def no_parens_nonneg top_free_inside top_free_outside top_free_outside_end lit
  starts_with_def numeric_strip numeric_strip_end time_func_strip

lemma conjunct_time_compare:
  assumes "f \<in> set TIME_FUNCS" "plain z" "numeric v"
  shows "conjunct (f @ js ''(\"'' @ z @ js ''\") '' @ time_op m @ js '' '' @ v)"
proof -
  have "conjunct (f @ 40 # (34 # z @ [34]) @ 41 # (32 # time_op m @ 32 # v))"
    using assms numeric_last [of v] numeric_no_space [of v] numeric_props(1,4) [of v] time_op_cases [of m] time_func_props [of f]
    by (intro conjunct_call) (auto simp: plain_no_parens tail_simps)
  then show ?thesis by (simp add: lit)
qed

lemma conjunct_time_range:
  assumes "f \<in> set TIME_FUNCS" "plain z" "numeric a" "numeric b"
  shows "conjunct (time_range_expr f z a b)"
proof -
  have "conjunct (f @ 40 # (34 # z @ [34]) @ 41 #
      (32 # 62 # 61 # 32 # a @ 32 # 124 # 124 # 32 # f @ 40 # 34 # z @ 34 # 41 # 32 # 60 # 32 # b))"
    using assms numeric_last [of b] numeric_no_space [of a] numeric_no_space [of b] numeric_props(1,4) [of a]
      numeric_props(1,4) [of b] time_func_props [of f]
    by (intro conjunct_call) (simp_all add: plain_no_parens tail_simps)
  then show ?thesis by (simp add: lit time_range_expr_def)
qed

lemma conjunct_exists:
  assumes "s = SOURCE_PARAM \<or> s = SOURCE_HEADER" "plain p"
  shows "conjunct (s @ js ''(\"'' @ p @ js ''\")'' @ (if s = SOURCE_HEADER then js '' != \"\"'' else js '' != nil''))"
proof -
  have "conjunct (s @ 40 # (34 # p @ [34]) @ 41 # (if s = SOURCE_HEADER then js '' != \"\"'' else js '' != nil''))"
    using assms source_props [of s] by (intro conjunct_call) (auto simp: plain_no_parens tail_simps ends_well_def is_ws_def)
  then show ?thesis by (simp add: lit)
qed

lemma conjunct_header_contains:
  assumes "plain p" "no_parens v"
  shows "conjunct (js ''has(header(\"'' @ p @ js ''\"), '' @ json_quote v @ js '')'')"
proof -
  let ?e = "js ''has(header(\"'' @ p @ js ''\"), '' @ json_quote v @ js '')''"
  have "top_free (js '' && '') 0 ?e"
    using assms by (simp add: plain_no_parens no_parens_json_quote tail_simps)
  moreover have "balanced ?e"
    using assms by (simp add: plain_no_parens no_parens_json_quote tail_simps)
  ultimately show ?thesis
    unfolding conjunct_def con.piece_def by (simp add: lit balanced_def trimmed_def is_ws_def)
qed

lemma literal_last: "ends_well (buildExprLiteral m v)"
  using numeric_last [of "trim v"]
  by (auto simp: buildExprLiteral_def Let_def json_quote_def numeric_def is_ws_def ends_well_def lit)

lemma conjunct_eq:
  assumes "s = SOURCE_PARAM \<or> s = SOURCE_HEADER" "plain p" "trimmed v" "no_parens v"
    and "\<not> str_includes (buildExprLiteral MATCH_EQ v) (js '' && '')"
  shows "conjunct (s @ js ''(\"'' @ p @ js ''\") == '' @ buildExprLiteral MATCH_EQ v)"
proof -
  define l where "l = buildExprLiteral MATCH_EQ v"
  obtain x t where x: "l = x # t" "x \<noteq> 38" using literal_head [of MATCH_EQ v] by (cases l) (auto simp: l_def)
  have np: "no_parens l" using assms(3,4) by (simp add: l_def literal_no_parens)
  have free: "top_free (js '' && '') 0 l" using np assms(5) by (simp add: top_free_no_parens l_def)
  have "conjunct (s @ 40 # (34 # p @ [34]) @ 41 # (32 # 61 # 61 # 32 # l))"
  proof (rule conjunct_call)
    show "top_free (js '' && '') 0 (32 # 61 # 61 # 32 # l)"
      using x free by (simp add: lit starts_with_def)
    show "balanced (32 # 61 # 61 # 32 # l)" using np by (simp add: balanced_no_parens)
    show "ends_well (41 # 32 # 61 # 61 # 32 # l)"
      using x(1) literal_last [of MATCH_EQ v] by (simp add: l_def [symmetric])
  qed (use assms source_props [of s] in \<open>simp_all add: plain_no_parens\<close>)
  then show ?thesis by (simp add: lit l_def)
qed

subsection \<open>One condition\<close>

text \<open>
  A condition \<open>c\<close> printed as \<open>e\<close> is read back from \<open>e\<close>, and from \<open>e\<close> in parentheses
  when \<open>e\<close> contains a disjunction.
\<close>

definition prints_as :: "request_condition \<Rightarrow> jsstr \<Rightarrow> bool" where
  "prints_as c e \<longleftrightarrow> conjunct e \<and> tryParseRequestCondition e = Inr (Some c)
     \<and> (str_includes e (js '' || '') \<longrightarrow> tryParseRequestCondition (40 # e @ [41]) = Inr (Some c))"

lemma parse_time: "tryParseTimeCondition e = Some c \<Longrightarrow> tryParseRequestCondition e = Inr (Some c)"
  by (simp add: tryParseRequestCondition_def)

lemma set_includes: "str_includes e w \<Longrightarrow> set w \<subseteq> set e"
  by (auto simp: includes_iff)

lemma prints_time_compare:
  assumes "wf_condition (TimeCondition f z m v a b)" "m \<noteq> MATCH_RANGE"
  shows "prints_as (TimeCondition f z m v a b) (buildRequestConditionExpr (TimeCondition f z m v a b))"
proof -
  let ?e = "f @ js ''(\"'' @ z @ js ''\") '' @ time_op m @ js '' '' @ v"
  from assms have wf: "f \<in> set TIME_FUNCS" "z \<noteq> []" "plain z" "m \<in> {MATCH_EQ, MATCH_GTE, MATCH_LT}" "numeric v"
    "a = []" "b = []" "124 \<notin> set z" by auto
  have "124 \<notin> set ?e"
    using wf numeric_props(6) [OF wf(5)] by (auto simp: TIME_FUNCS_def time_op_def lit)
  then have "\<not> str_includes ?e (js '' || '')"
    using set_includes [of ?e "js '' || ''"] by (auto simp: lit)
  moreover have "tryParseRequestCondition ?e = Inr (Some (TimeCondition f z m v a b))"
    unfolding wf(6,7) using wf numeric_props(1,2) [OF wf(5)]
    by (intro parse_time parse_time_compare) (auto simp: plain_no_quote)
  ultimately show ?thesis
    unfolding prints_as_def build_time_compare [OF wf(1,2,3,5,4)]
    using conjunct_time_compare [OF wf(1,3,5)] by simp
qed

lemma prints_time_range:
  assumes "wf_condition (TimeCondition f z MATCH_RANGE v a b)"
  shows "prints_as (TimeCondition f z MATCH_RANGE v a b) (buildRequestConditionExpr (TimeCondition f z MATCH_RANGE v a b))"
proof -
  from assms have wf: "f \<in> set TIME_FUNCS" "z \<noteq> []" "plain z" "numeric a" "numeric b" "v = []" by auto
  note p = parse_time_range [OF wf(1,2) plain_no_quote [OF wf(3)] numeric_props(1,2) [OF wf(4)] numeric_props(1,2) [OF wf(5)]]
  show ?thesis
    unfolding prints_as_def build_time_range [OF wf(1-5)] wf(6)
    using conjunct_time_range [OF wf(1,3,4,5)] p by (simp add: parse_time)
qed

lemma prints_param_header:
  assumes wf: "wf_condition (ParamHeaderCondition s p m v)"
  shows "prints_as (ParamHeaderCondition s p m v) (buildRequestConditionExpr (ParamHeaderCondition s p m v))"
proof -
  from wf have s: "s = SOURCE_PARAM \<or> s = SOURCE_HEADER" and p: "p \<noteq> []" "plain p" "trimmed p" "34 \<notin> set p"
    and v: "trimmed v" "no_parens v" "\<And>c. c \<in> set v \<Longrightarrow> c < 65536"
    and bar: "\<not> str_includes (buildRequestConditionExpr (ParamHeaderCondition s p m v)) (js '' || '')"
    by (auto simp: plain_no_quote)
  from wf consider (exists) "m = MATCH_EXISTS" "v = []" | (contains) "m = MATCH_CONTAINS" "s = SOURCE_HEADER"
    | (eq) "m = MATCH_EQ" "8232 \<notin> set v" "8233 \<notin> set v" "\<not> str_includes (buildExprLiteral MATCH_EQ v) (js '' && '')"
    by auto
  then have "conjunct (buildRequestConditionExpr (ParamHeaderCondition s p m v))
      \<and> tryParseRequestCondition (buildRequestConditionExpr (ParamHeaderCondition s p m v)) =
          Inr (Some (ParamHeaderCondition s p m v))"
  proof cases
    case exists
    then show ?thesis
      using s conjunct_exists [OF s p(2)] parse_header_exists [OF p(1,4)] parse_param_exists [OF p(1,4)]
      unfolding exists build_exists [OF s p(1-3)] by (auto simp: source_defs lit)
  next
    case contains
    show ?thesis
      unfolding contains build_header_contains [OF p(1-3) v(1)]
      using conjunct_header_contains [OF p(2) v(2)] parse_header_contains [OF p(1,4) v(3)] by simp
  next
    case eq
    have "\<forall>x \<in> set (buildExprLiteral MATCH_EQ v). dot_unit x"
      using literal_dot_units [OF v(1) eq(2,3)] by blast
    then show ?thesis
      unfolding eq build_eq [OF s p(1-3)]
      using conjunct_eq [OF s p(2) v(1,2) eq(4)] literal_head [of MATCH_EQ v]
        parse_source_eq [OF s p(1,4) _ _ parse_literal_eq [OF v(1,3)]] by simp
  qed
  with bar show ?thesis by (simp add: prints_as_def)
qed

lemma wf_prints: "wf_condition c \<Longrightarrow> prints_as c (buildRequestConditionExpr c)"
proof (cases c)
  case (TimeCondition f z m v a b)
  assume "wf_condition c"
  with TimeCondition show ?thesis
    using prints_time_compare [of f z m v a b] prints_time_range [of f z v a b] by (cases "m = MATCH_RANGE") auto
next
  case (ParamHeaderCondition s p m v)
  assume "wf_condition c"
  with ParamHeaderCondition show ?thesis using prints_param_header [of s p m v] by simp
qed

subsection \<open>Rule groups\<close>

definition wrap_or :: "jsstr \<Rightarrow> jsstr" where
  "wrap_or e = (if str_includes e (js '' || '') then js ''('' @ e @ js '')'' else e)"

lemma conjunct_nonempty: "conjunct e \<Longrightarrow> e \<noteq> []"
  unfolding conjunct_def con.piece_def by simp

lemma conjunct_wrap: "balanced e \<Longrightarrow> conjunct (40 # e @ [41])"
  unfolding conjunct_def using con.piece_wrap [of e] balanced_wrap [of e]
  by (simp add: trimmed_def is_ws_def)

lemma prints_wrap: "prints_as c e \<Longrightarrow> conjunct (wrap_or e) \<and> tryParseRequestCondition (wrap_or e) = Inr (Some c)"
  using conjunct_wrap [of e] by (auto simp: prints_as_def wrap_or_def lit conjunct_def)

lemma split_conjuncts: "es \<noteq> [] \<Longrightarrow> list_all conjunct es \<Longrightarrow> splitTopLevelAnd (join (js '' && '') es) = es"
  unfolding splitTopLevelAnd_def by (intro con.split_join) (auto simp: conjunct_def list_all_iff)

lemma balanced_conjuncts: "list_all conjunct es \<Longrightarrow> balanced (join (js '' && '') es)"
  by (intro balanced_join) (auto simp: conjunct_def list_all_iff lit balanced_no_parens)

lemma parse_conditions_all:
  "list_all2 (\<lambda>c e. trimmed e \<and> tryParseRequestCondition e = Inr (Some c)) cs es \<Longrightarrow>
     parse_conditions es = Inr (Some cs)"
  by (induction rule: list_all2_induct) (simp_all add: trim_id)

text \<open>The printed conditions of a group, in parentheses where the code adds them.\<close>

definition shown :: "request_condition list \<Rightarrow> jsstr list" where
  "shown cs = (let es = map buildRequestConditionExpr cs in if length es = 1 then es else map wrap_or es)"

lemma shown_props:
  assumes "list_all wf_condition cs"
  shows "list_all conjunct (shown cs)"
    and "list_all2 (\<lambda>c e. trimmed e \<and> tryParseRequestCondition e = Inr (Some c)) cs (shown cs)"
proof -
  have p: "prints_as c (buildRequestConditionExpr c)" if "c \<in> set cs" for c
    using assms that by (auto simp: list_all_iff intro: wf_prints)
  show "list_all conjunct (shown cs)"
    using p prints_wrap by (auto simp: shown_def Let_def list_all_iff prints_as_def)
  then show "list_all2 (\<lambda>c e. trimmed e \<and> tryParseRequestCondition e = Inr (Some c)) cs (shown cs)"
    using p prints_wrap
    by (auto simp: shown_def Let_def list_all_iff list_all2_map2 prints_as_def conjunct_def intro!: list.rel_refl_strong)
qed

definition factor_text :: "jsstr \<Rightarrow> jsstr \<Rightarrow> jsstr" where
  "factor_text w m = js ''('' @ w @ js '' ? '' @ m @ js '' : 1)''"

lemma factor_wf:
  assumes "wf_group g"
  shows "buildRuleGroupFactor g = factor_text (join (js '' && '') (shown (conditions g))) (multiplier g)"
proof -
  have m: "re_test NUMERIC_LITERAL_REGEX (multiplier g)" "trim (multiplier g) = multiplier g"
    using assms numeric_props(3) by (auto simp: wf_group_def numeric_def)
  have "filter (\<lambda>e. e \<noteq> []) (map buildRequestConditionExpr (conditions g)) = map buildRequestConditionExpr (conditions g)"
    using assms wf_prints conjunct_nonempty by (fastforce simp: wf_group_def list_all_iff prints_as_def filter_id_conv)
  moreover have "conditions g \<noteq> []" using assms by (simp add: wf_group_def)
  ultimately show ?thesis
    using m by (cases "conditions g") (auto simp: buildRuleGroupFactor_def shown_def factor_text_def Let_def wrap_or_def [abs_def] join_Cons)
qed

lemma factor_wrap: "factor_text w m = 40 # (w @ js '' ? '' @ m @ js '' : 1'') @ [41]"
  by (simp add: factor_text_def lit)

lemma factor_piece:
  assumes "balanced w" "numeric m"
  shows "mul.piece (factor_text w m) \<and> trimmed (factor_text w m)"
proof -
  have "balanced (w @ js '' ? '' @ m @ js '' : 1'')"
    using assms numeric_props(4) [of m] by (intro balanced_append) (auto simp: lit balanced_no_parens)
  from mul.piece_wrap [OF this] show ?thesis
    unfolding factor_wrap by (simp add: trimmed_def is_ws_def)
qed

lemma factor_parse:
  assumes "es \<noteq> []" "list_all conjunct es" "numeric m"
  shows "tryParseRuleGroupFactor (factor_text (join (js '' && '') es) m) =
     bind_throws (parse_conditions es) (\<lambda>cs. case cs of
         None \<Rightarrow> Inr None
       | Some cs \<Rightarrow> if cs = [] then Inr None else Inr (Some \<lparr>conditions = cs, multiplier = m\<rparr>))"
proof -
  have "join (js '' && '') es \<noteq> []"
    using assms(1,2) conjunct_nonempty join_ends [of es "js '' && ''"] by (auto simp: list_all_iff)
  then have "re_match RULE_FACTOR (factor_text (join (js '' && '') es) m) = Some [(2, m), (1, join (js '' && '') es)]"
    unfolding factor_text_def using numeric_props(1,2) [OF assms(3)] by (intro rule_factor_match) auto
  then show ?thesis
    using split_conjuncts [OF assms(1,2)]
    by (cases "parse_conditions es") (simp_all add: tryParseRuleGroupFactor_def grp_def split: option.split)
qed

lemma factor_roundtrip:
  assumes "wf_group g"
  shows "tryParseRuleGroupFactor (buildRuleGroupFactor g) = Inr (Some g)"
    and "mul.piece (buildRuleGroupFactor g) \<and> trimmed (buildRuleGroupFactor g)"
proof -
  have wf: "numeric (multiplier g)" "conditions g \<noteq> []" "list_all wf_condition (conditions g)"
    using assms by (simp_all add: wf_group_def)
  note s = shown_props [OF wf(3)]
  have "shown (conditions g) \<noteq> []" using wf(2) by (simp add: shown_def Let_def)
  then show "tryParseRuleGroupFactor (buildRuleGroupFactor g) = Inr (Some g)"
    unfolding factor_wf [OF assms] using wf s(1) parse_conditions_all [OF s(2)] by (simp add: factor_parse)
  show "mul.piece (buildRuleGroupFactor g) \<and> trimmed (buildRuleGroupFactor g)"
    unfolding factor_wf [OF assms] using wf(1) s(1) by (intro factor_piece balanced_conjuncts)
qed

lemma build_rules_wf:
  assumes "list_all wf_group gs"
  shows "buildRequestRuleExpr gs = join (js '' * '') (map buildRuleGroupFactor gs)"
proof -
  have "filter (\<lambda>f. f \<noteq> []) (map buildRuleGroupFactor gs) = map buildRuleGroupFactor gs"
    using assms factor_roundtrip(2) unfolding mul.piece_def by (auto simp: list_all_iff filter_id_conv)
  then show ?thesis by (simp add: buildRequestRuleExpr_def)
qed

lemma split_rules_wf:
  assumes "list_all wf_group gs" "gs \<noteq> []"
  shows "splitTopLevelMultiply (buildRequestRuleExpr gs) = map buildRuleGroupFactor gs"
  unfolding splitTopLevelMultiply_def build_rules_wf [OF assms(1)]
  using assms factor_roundtrip(2) by (intro mul.split_join) (auto simp: list_all_iff)

lemma parse_groups_wf: "list_all wf_group gs \<Longrightarrow> parse_groups (map buildRuleGroupFactor gs) = Inr (Some gs)"
  by (induction gs) (simp_all add: factor_roundtrip(1))


lemma build_rules_trim:
  assumes "list_all wf_group gs" "gs \<noteq> []"
  shows "trim (buildRequestRuleExpr gs) = buildRequestRuleExpr gs" "buildRequestRuleExpr gs \<noteq> []"
proof -
  have w: "w \<noteq> [] \<and> trimmed w" if "w \<in> set (map buildRuleGroupFactor gs)" for w
    using assms(1) that factor_roundtrip(2) unfolding mul.piece_def by (auto simp: list_all_iff)
  show "trim (buildRequestRuleExpr gs) = buildRequestRuleExpr gs"
    unfolding build_rules_wf [OF assms(1)] using assms(2) w by (intro trim_id trimmed_join) auto
  show "buildRequestRuleExpr gs \<noteq> []"
    unfolding build_rules_wf [OF assms(1)]
    using join_ends [of "map buildRuleGroupFactor gs" "js '' * ''"] assms(2) w by auto
qed

lemma rules_read_back:
  assumes "list_all wf_group gs"
  shows "tryParseRequestRuleExpr (buildRequestRuleExpr gs) = Inr (Some gs)"
proof (cases "gs = []")
  case True
  then show ?thesis by (simp add: buildRequestRuleExpr_def tryParseRequestRuleExpr_def)
next
  case False
  then show ?thesis
    using assms by (simp add: tryParseRequestRuleExpr_def build_rules_trim split_rules_wf parse_groups_wf)
qed

text \<open>
  C3: Request rule groups survive printing and parsing: the parser of the editor returns
  exactly the groups that the printer was given, for every list of well-formed groups.
\<close>

theorem request_rules_roundtrip:
  assumes "list_all wf_group gs"
  shows "tryParseRequestRuleExpr (buildRequestRuleExpr gs) = Inr (Some gs)"
  using assms by (rule rules_read_back)

definition sample_groups :: "rule_group list" where
  "sample_groups =
     [\<lparr>conditions = [TimeCondition (js ''hour'') (js ''UTC'') MATCH_RANGE [] (js ''21'') (js ''6''),
                    ParamHeaderCondition SOURCE_HEADER (js ''x-a'') MATCH_EXISTS []],
       multiplier = js ''0.5''\<rparr>,
      \<lparr>conditions = [ParamHeaderCondition SOURCE_PARAM (js ''n'') MATCH_EQ (js ''true'')], multiplier = js ''2''\<rparr>]"

lemma sample_wf: "list_all wf_group sample_groups" by code_simp

theorem request_rules_roundtrip_witness:
  "list_all wf_group sample_groups
   \<and> tryParseRequestRuleExpr (buildRequestRuleExpr sample_groups) = Inr (Some sample_groups)"
  using sample_wf request_rules_roundtrip [of sample_groups] by blast

subsection \<open>Comparisons of parameters\<close>

lemma build_param_compare:
  assumes "p \<noteq> []" "plain p" "trimmed p" "numeric v" "m \<in> {MATCH_GT, MATCH_GTE, MATCH_LT, MATCH_LTE}"
  shows "buildRequestConditionExpr (ParamHeaderCondition SOURCE_PARAM p m v) =
     join (js '' && '') [js ''param(\"'' @ p @ js ''\") != nil'', js ''param(\"'' @ p @ js ''\") '' @ compare_op m @ js '' '' @ v]"
proof -
  have n: "normalizeCondition (Some (to_partial (ParamHeaderCondition SOURCE_PARAM p m v))) =
      ParamHeaderCondition SOURCE_PARAM p m v"
    using assms(5) by (intro normalize_param_header) (auto simp: match_values)
  have "m \<noteq> MATCH_EXISTS" "m \<noteq> MATCH_CONTAINS" using assms(5) by (auto simp: match_defs)
  then show ?thesis
    using assms numeric_props(3) [of v] unfolding buildRequestConditionExpr_def
    by (simp add: n Let_def trim_id json_quote_plain numeric_def lit del: to_partial.simps)
qed

lemma build_param_contains:
  assumes "p \<noteq> []" "plain p" "trimmed p" "trimmed v"
  shows "buildRequestConditionExpr (ParamHeaderCondition SOURCE_PARAM p MATCH_CONTAINS v) =
     join (js '' && '') [js ''param(\"'' @ p @ js ''\") != nil'', js ''has(param(\"'' @ p @ js ''\"), '' @ json_quote v @ js '')'']"
proof -
  have n: "normalizeCondition (Some (to_partial (ParamHeaderCondition SOURCE_PARAM p MATCH_CONTAINS v))) =
      ParamHeaderCondition SOURCE_PARAM p MATCH_CONTAINS v"
    by (intro normalize_param_header) (auto simp: match_values)
  with assms show ?thesis
    unfolding buildRequestConditionExpr_def
    by (simp add: n Let_def trim_id json_quote_plain buildExprLiteral_def lit del: to_partial.simps)
qed

lemma compare_op_cases: "compare_op m \<in> {[62], [62, 61], [60], [60, 61]}"
  by (simp add: compare_op_def lit)

lemma conjunct_param_compare:
  assumes "plain p" "numeric v"
  shows "conjunct (js ''param(\"'' @ p @ js ''\") '' @ compare_op m @ js '' '' @ v)"
proof -
  have "conjunct (SOURCE_PARAM @ 40 # (34 # p @ [34]) @ 41 # (32 # compare_op m @ 32 # v))"
    using assms numeric_last [of v] numeric_no_space [of v] numeric_props(1,4) [of v] compare_op_cases [of m]
      source_props [of SOURCE_PARAM]
    by (intro conjunct_call) (auto simp: plain_no_parens tail_simps)
  then show ?thesis by (simp add: lit source_defs)
qed

lemma conjunct_param_contains:
  assumes "plain p" "no_parens v"
  shows "conjunct (js ''has(param(\"'' @ p @ js ''\"), '' @ json_quote v @ js '')'')"
proof -
  let ?e = "js ''has(param(\"'' @ p @ js ''\"), '' @ json_quote v @ js '')''"
  have "top_free (js '' && '') 0 ?e" "balanced ?e"
    using assms by (simp_all add: plain_no_parens no_parens_json_quote tail_simps)
  then show ?thesis
    unfolding conjunct_def con.piece_def by (simp add: lit balanced_def trimmed_def is_ws_def)
qed

text \<open>A group whose only condition is printed as two conjuncts, the second of which is no condition.\<close>

lemma two_conjuncts_unread:
  assumes e: "buildRequestConditionExpr c = join (js '' && '') [js ''param(\"'' @ p @ js ''\") != nil'', b]"
    and p: "p \<noteq> []" "plain p" and b: "conjunct b" "tryParseRequestCondition b = Inr None" and k: "numeric k"
  shows "tryParseRequestRuleExpr (buildRequestRuleExpr [\<lparr>conditions = [c], multiplier = k\<rparr>]) = Inr None"
proof -
  let ?a = "js ''param(\"'' @ p @ js ''\") != nil''"
  let ?t = "factor_text (join (js '' && '') [?a, b]) k"
  have a: "conjunct ?a" using conjunct_exists [of SOURCE_PARAM p] p by (simp add: source_defs lit)
  have "trim k = k" "re_test NUMERIC_LITERAL_REGEX k" using k numeric_props(3) by (auto simp: numeric_def)
  then have build: "buildRequestRuleExpr [\<lparr>conditions = [c], multiplier = k\<rparr>] = ?t"
    using e by (simp add: buildRequestRuleExpr_def buildRuleGroupFactor_def factor_text_def Let_def lit)
  have piece: "mul.piece ?t \<and> trimmed ?t"
    using a b(1) k balanced_conjuncts [of "[?a, b]"] by (intro factor_piece) auto
  then have "?t \<noteq> []" unfolding mul.piece_def by simp
  have split: "splitTopLevelMultiply ?t = [?t]"
    unfolding splitTopLevelMultiply_def using mul.split_join [of "[?t]"] piece by simp
  have pc: "parse_conditions [?a, b] = Inr None"
    using a b parse_param_exists [OF p(1) plain_no_quote [OF p(2)]] by (simp add: conjunct_def trim_id)
  have "tryParseRuleGroupFactor ?t = Inr None"
    using a b(1) k pc by (subst factor_parse) simp_all
  then show ?thesis
    unfolding build using piece split \<open>?t \<noteq> []\<close> by (simp add: tryParseRequestRuleExpr_def trim_id)
qed

text \<open>
  C22: A rule group whose only condition compares a request parameter (greater, at least, less, at
  most) or tests what it contains is printed, but the printed rule is never read back: the text
  contains a top-level conjunction of its own, and the parser splits the condition there.
\<close>

theorem param_comparison_unread:
  assumes "p \<noteq> []" "plain p" "trimmed p" "numeric k"
    and "m \<in> {MATCH_GT, MATCH_GTE, MATCH_LT, MATCH_LTE} \<and> numeric v
         \<or> m = MATCH_CONTAINS \<and> trimmed v \<and> no_parens v"
  shows "buildRequestRuleExpr [\<lparr>conditions = [ParamHeaderCondition SOURCE_PARAM p m v], multiplier = k\<rparr>] \<noteq> []
    \<and> tryParseRequestRuleExpr
        (buildRequestRuleExpr [\<lparr>conditions = [ParamHeaderCondition SOURCE_PARAM p m v], multiplier = k\<rparr>]) = Inr None"
proof -
  let ?c = "ParamHeaderCondition SOURCE_PARAM p m v"
  have unread: "tryParseRequestRuleExpr (buildRequestRuleExpr [\<lparr>conditions = [?c], multiplier = k\<rparr>]) = Inr None"
    using assms(5)
  proof (elim disjE conjE)
    assume m: "m \<in> {MATCH_GT, MATCH_GTE, MATCH_LT, MATCH_LTE}" and v: "numeric v"
    have "tryParseRequestCondition (js ''param(\"'' @ p @ js ''\") '' @ compare_op m @ js '' '' @ v) = Inr None"
      using compare_op_cases [of m] assms(1,2) by (auto simp: parse_param_compare_half plain_no_quote)
    then show ?thesis
      using assms(1,2,4) v build_param_compare [OF assms(1-3) v m] conjunct_param_compare [OF assms(2) v, of m]
      by (intro two_conjuncts_unread) auto
  next
    assume m: "m = MATCH_CONTAINS" and v: "trimmed v" "no_parens v"
    have "tryParseRequestCondition (js ''has(param(\"'' @ p @ js ''\"), '' @ json_quote v @ js '')'') = Inr None"
      using parse_param_contains_half [of "34 # p @ js ''\"), '' @ json_quote v @ js '')''"] by (simp add: lit)
    then show ?thesis
      unfolding m using assms(1,2,4) build_param_contains [OF assms(1-3) v(1)] conjunct_param_contains [OF assms(2) v(2)]
      by (intro two_conjuncts_unread) auto
  qed
  moreover have "tryParseRequestRuleExpr [] \<noteq> Inr None" by (simp add: tryParseRequestRuleExpr_def)
  ultimately show ?thesis by metis
qed

theorem param_comparison_unread_witness:
  "tryParseRequestRuleExpr
     (buildRequestRuleExpr [\<lparr>conditions = [ParamHeaderCondition SOURCE_PARAM (js ''n'') MATCH_GT (js ''5'')],
                             multiplier = js ''2''\<rparr>]) = Inr None"
proof -
  have "numeric (js ''5'')" "numeric (js ''2'')" by code_simp+
  then show ?thesis
    using param_comparison_unread [of "js ''n''" "js ''2''" MATCH_GT "js ''5''"]
    by (simp add: lit trimmed_def is_ws_def high_surrogate_def low_surrogate_def)
qed

subsection \<open>Base and rules\<close>

lemma ends_with_iff: "ends_with s w \<longleftrightarrow> (\<exists>t. s = t @ w)"
proof -
  have "ends_with s w \<longleftrightarrow> (\<exists>t. rev s = rev w @ t)" by (auto simp: ends_with_def strip_prefix_Some)
  also have "\<dots> \<longleftrightarrow> (\<exists>t. s = t @ w)" by (metis rev_append rev_rev_ident)
  finally show ?thesis .
qed

lemma rule_factor_ends:
  assumes "re_match RULE_FACTOR s = Some m"
  shows "\<exists>a. s = a @ js '' : 1)''"
proof -
  let ?r = "Seqs [Str (js ''(''), Grp 1 (Plus (Cls (\<lambda>_. True))), Str (js '' ? ''), Grp 2 NUM]"
  let ?k = "mt (Str (js '' : 1)'')) (mt Eol Some)"
  obtain y where "mt ?r ?k (RS [] s []) = Some y"
    using assms by (auto simp: RULE_FACTOR_def re_match_Bol mt_Seq)
  moreover have "made_of (\<lambda>_. True) ?r" by simp
  ultimately obtain s' where s': "reads (\<lambda>_. True) (RS [] s []) s'" "?k s' = Some y"
    using mt_reads by blast
  then obtain a where "s = a @ rs_rest s'" by (auto simp: reads_def)
  moreover from s'(2) have "rs_rest s' = js '' : 1)''"
    by (cases s') (auto simp: mt_Str mt_Eol strip_prefix_Some lit split: option.splits if_splits)
  ultimately show ?thesis by simp
qed

text \<open>A parenthesised base whose text does not end like a rule is not a rule.\<close>

lemma base_no_rule:
  assumes "balanced b" "\<not> ends_with b (js '' : 1'')"
  shows "tryParseRequestRuleExpr (40 # b @ [41]) = Inr None"
proof -
  let ?e = "40 # b @ [41]"
  have t: "trimmed ?e" by (simp add: trimmed_def is_ws_def)
  have "splitTopLevelMultiply ?e = [?e]"
    unfolding splitTopLevelMultiply_def using mul.split_join [of "[?e]"] mul.piece_wrap [OF assms(1)] t by simp
  moreover have "re_match RULE_FACTOR ?e = None"
  proof (rule ccontr)
    assume "re_match RULE_FACTOR ?e \<noteq> None"
    then obtain a where "?e = a @ js '' : 1)''" using rule_factor_ends by fastforce
    then have "40 # b = a @ js '' : 1''" by (simp add: lit)
    with assms(2) show False by (cases a) (auto simp: ends_with_iff lit)
  qed
  ultimately show ?thesis
    using t by (simp add: tryParseRequestRuleExpr_def trim_id tryParseRuleGroupFactor_def)
qed

lemma sort_parts_rules:
  assumes "list_all wf_group gs"
  shows "sort_parts (map buildRuleGroupFactor gs) = Inr (map buildRuleGroupFactor gs, [])"
  using assms
proof (induction gs)
  case (Cons g gs)
  have "buildRequestRuleExpr [g] = buildRuleGroupFactor g"
    using Cons.prems build_rules_wf [of "[g]"] by simp
  then have "tryParseRequestRuleExpr (buildRuleGroupFactor g) = Inr (Some [g])"
    using Cons.prems build_rules_trim [of "[g]"] split_rules_wf [of "[g]"] parse_groups_wf [of "[g]"]
    by (simp add: tryParseRequestRuleExpr_def)
  with Cons show ?case by simp
qed simp

lemma split_combined:
  assumes b: "trimmed b" "b \<noteq> []" "balanced b" "\<not> ends_with b (js '' : 1'')"
    and gs: "gs \<noteq> []" "list_all wf_group gs"
  shows "splitBillingExprAndRequestRules (combineBillingExpr b (buildRequestRuleExpr gs)) =
     Inr (unwrapOuterParens b, buildRequestRuleExpr gs)"
proof -
  let ?b = "40 # b @ [41]" and ?fs = "map buildRuleGroupFactor gs"
  have parts: "\<And>w. w \<in> set (?b # ?fs) \<Longrightarrow> mul.piece w \<and> trimmed w"
    using mul.piece_wrap [OF b(3)] factor_roundtrip(2) gs(2)
    by (auto simp: list_all_iff trimmed_def is_ws_def)
  have e: "combineBillingExpr b (buildRequestRuleExpr gs) = join (js '' * '') (?b # ?fs)"
    using b gs build_rules_trim [OF gs(2,1)]
    by (simp add: combineBillingExpr_def trim_id build_rules_wf join_Cons_if lit)
  have split: "splitTopLevelMultiply (join (js '' * '') (?b # ?fs)) = ?b # ?fs"
    unfolding splitTopLevelMultiply_def using parts by (intro mul.split_join) auto
  have "trimmed (join (js '' * '') (?b # ?fs))"
    using parts unfolding mul.piece_def by (intro trimmed_join) auto
  moreover have "join (js '' * '') (?b # ?fs) \<noteq> []" by (simp add: join_Cons_if)
  moreover have "sort_parts (?b # ?fs) = Inr (?fs, [?b])"
    using base_no_rule [OF b(3,4)] sort_parts_rules [OF gs(2)] by simp
  ultimately show ?thesis
    unfolding e using split gs(1) unwrap_wrap [OF b(3)] build_rules_wf [OF gs(2)]
    by (simp add: splitBillingExprAndRequestRules_def trim_id)
qed

text \<open>
  C4: Combining a base price expression with its request rules and splitting the result again
  gives back the base, without enclosing parentheses, and the text of the rules.
\<close>

theorem split_combine:
  assumes b: "trimmed b" "b \<noteq> []" "balanced b" "\<not> ends_with b (js '' : 1'')"
    and gs: "gs \<noteq> []" "list_all wf_group gs"
  shows "splitBillingExprAndRequestRules (combineBillingExpr b (buildRequestRuleExpr gs)) =
     Inr (unwrapOuterParens b, buildRequestRuleExpr gs)"
  using assms by (rule split_combined)

theorem split_combine_witness:
  "splitBillingExprAndRequestRules (combineBillingExpr (js ''p * 2 + c'') (buildRequestRuleExpr sample_groups)) =
     Inr (js ''p * 2 + c'', buildRequestRuleExpr sample_groups)"
proof -
  have "balanced (js ''p * 2 + c'')" "\<not> ends_with (js ''p * 2 + c'') (js '' : 1'')" "trimmed (js ''p * 2 + c'')"
    "unwrapOuterParens (js ''p * 2 + c'') = js ''p * 2 + c''" "sample_groups \<noteq> []"
    by code_simp+
  then show ?thesis
    using split_combine [of "js ''p * 2 + c''" sample_groups] sample_wf by (simp add: lit)
qed

subsection \<open>The editor\<close>

lemma option_mode_allowed:
  "dflt \<in> fst ` set (getRequestRuleMatchOptions s) \<Longrightarrow>
     option_mode s m dflt \<in> fst ` set (getRequestRuleMatchOptions s)"
  by (simp add: option_mode_def split: option.split)

lemma normalize_cases:
  obtains f z m v a b where "normalizeCondition c = TimeCondition f z m v a b" "f \<in> set TIME_FUNCS" "z \<noteq> []"
      "m \<in> fst ` set (getRequestRuleMatchOptions SOURCE_TIME)"
  | s p m v where "normalizeCondition c = ParamHeaderCondition s p m v" "s = SOURCE_PARAM \<or> s = SOURCE_HEADER"
      "m \<in> fst ` set (getRequestRuleMatchOptions s)"
proof (cases "(case c of None \<Rightarrow> None | Some c \<Rightarrow> pc_source c) = Some SOURCE_TIME")
  case True
  have "js ''hour'' \<in> set TIME_FUNCS" "js ''Asia/Shanghai'' \<noteq> []" by (simp_all add: TIME_FUNCS_def lit)
  moreover have "the v \<in> set TIME_FUNCS" if "isTimeFunc v" for v
    using that by (auto simp: isTimeFunc_def split: option.splits)
  moreover have "or_else v d \<noteq> []" if "d \<noteq> []" for v d using that by (simp add: or_else_def split: option.split)
  moreover have "option_mode SOURCE_TIME m MATCH_GTE \<in> fst ` set (getRequestRuleMatchOptions SOURCE_TIME)" for m
    by (rule option_mode_allowed) (simp add: match_values)
  ultimately show ?thesis
    using that(1) True by (simp add: normalizeCondition_def Let_def)
next
  case False
  define s where "s = (if (case c of None \<Rightarrow> None | Some c \<Rightarrow> pc_source c) = Some SOURCE_HEADER then SOURCE_HEADER else SOURCE_PARAM)"
  have "option_mode s m MATCH_EQ \<in> fst ` set (getRequestRuleMatchOptions s)" for m
    by (rule option_mode_allowed) (simp add: match_values s_def)
  moreover have "s = SOURCE_PARAM \<or> s = SOURCE_HEADER" by (simp add: s_def)
  ultimately show ?thesis
    using that(2) False by (simp add: normalizeCondition_def Let_def s_def split: if_splits)
qed

text \<open>
  Normalising is idempotent, and whatever partial condition it is given (none at all, an
  unknown source, function or mode) it returns a condition whose mode the editor offers for its source.
\<close>

theorem normalize_condition_sound:
  "normalizeCondition (Some (to_partial (normalizeCondition c))) = normalizeCondition c
   \<and> (case normalizeCondition c of
        TimeCondition f z m v a b \<Rightarrow> f \<in> set TIME_FUNCS \<and> z \<noteq> [] \<and> m \<in> fst ` set (getRequestRuleMatchOptions SOURCE_TIME)
      | ParamHeaderCondition s p m v \<Rightarrow> s \<in> {SOURCE_PARAM, SOURCE_HEADER} \<and> m \<in> fst ` set (getRequestRuleMatchOptions s))"
proof (cases c rule: normalize_cases)
  case (1 f z m v a b)
  then show ?thesis using normalize_time [of f z m v a b] by (simp add: match_values del: to_partial.simps)
next
  case (2 s p m v)
  then show ?thesis using normalize_param_header [of s m p v] by (simp del: to_partial.simps)
qed

text \<open>
  A group without a numeric multiplier, or none of whose conditions is complete, leaves no
  trace in the printed rules.
\<close>

theorem incomplete_group_dropped:
  assumes "\<not> numeric (trim (multiplier g)) \<or> (\<forall>c \<in> set (conditions g). buildRequestConditionExpr c = [])"
  shows "buildRequestRuleExpr (gs @ g # hs) = buildRequestRuleExpr (gs @ hs)"
proof -
  have "filter (\<lambda>e. e \<noteq> []) (map buildRequestConditionExpr (conditions g)) = []"
    if "\<forall>c \<in> set (conditions g). buildRequestConditionExpr c = []"
    using that by (auto simp: filter_empty_conv)
  then have "buildRuleGroupFactor g = []"
    using assms by (auto simp: buildRuleGroupFactor_def numeric_def Let_def)
  then show ?thesis by (simp add: buildRequestRuleExpr_def)
qed

theorem incomplete_group_dropped_witness:
  "buildRequestRuleExpr ([] @ createEmptyRuleGroup # sample_groups) = buildRequestRuleExpr ([] @ sample_groups)"
proof -
  have "\<not> numeric (trim (multiplier createEmptyRuleGroup))" by code_simp
  then show ?thesis by (intro incomplete_group_dropped) simp
qed

text \<open>
  The parser of conditions is not total: a quoted literal that the pattern accepts but JSON does
  not (an unknown escape, a control character) makes it throw the error of \<^verbatim>\<open>JSON.parse\<close>.
\<close>

theorem bad_literal_throws:
  assumes "p \<noteq> []" "34 \<notin> set p" "quoted_units w" "json_parse (34 # w @ [34]) = Inl e"
  shows "tryParseRequestCondition (js ''has(header(\"'' @ p @ js ''\"), '' @ 34 # w @ [34, 41]) = Inl e"
proof -
  let ?e = "js ''has(header(\"'' @ p @ js ''\"), '' @ 34 # w @ [34, 41]"
  have "tryParseTimeCondition ?e = None" "re_match HEADER_EXISTS ?e = None" "re_match PARAM_EXISTS ?e = None"
    by (simp_all add: time_none HEADER_EXISTS_def PARAM_EXISTS_def rx_run)
  then show ?thesis
    unfolding tryParseRequestCondition_def match_header_quoted [OF assms(1-3)]
    using assms(4) by (simp add: parse_string_def grp_def)
qed

theorem bad_literal_throws_witness:
  "tryParseRequestCondition (js ''has(header(\"'' @ js ''x'' @ js ''\"), '' @ 34 # [92, 113] @ [34, 41]) = Inl SyntaxError"
proof -
  have "json_parse (34 # [92, 113] @ [34]) = Inl SyntaxError" "quoted_units [92, 113]" by code_simp+
  then show ?thesis by (intro bad_literal_throws) (simp_all add: lit)
qed

end
