(* ===== verification/JsNumberProps.thy ===== *)
theory JsNumberProps
  imports JsNumber
begin

text \<open>
  What the number conversions compute: the rounding of integers and binary fractions, the
  existence of the decimal that printing looks for, and \<^verbatim>\<open>Number(String(x)) = x\<close>.
\<close>

subsection \<open>Powers and logarithms\<close>

lemma powz_powi: "powz b e = (of_nat b :: rat) powi e"
  by (simp add: powz_def power_int_def divide_inverse power_inverse)

lemma powz_pos: "0 < b \<Longrightarrow> 0 < powz b e"
  by (simp add: powz_powi)

lemma powz_add: "0 < b \<Longrightarrow> powz b (d + e) = powz b d * powz b e"
  by (simp add: powz_powi power_int_add)

lemma powz_mono: "2 \<le> b \<Longrightarrow> d \<le> e \<Longrightarrow> powz b d \<le> powz b e"
  by (simp add: powz_powi power_int_increasing)

lemma powz_less: "2 \<le> b \<Longrightarrow> powz b d < powz b e \<longleftrightarrow> d < e"
  using powz_mono [of b e d] powz_mono [of b d e] power_int_strict_increasing [of d e "of_nat b :: rat"]
  by (fastforce simp: powz_powi not_less)

lemma powz_nat: "powz b (int n) = of_nat b ^ n"
  by (simp add: powz_def)

lemma dlen_bounds: "2 \<le> b \<Longrightarrow> 0 < n \<Longrightarrow> 0 < dlen b n \<and> b ^ (dlen b n - 1) \<le> n \<and> n < b ^ dlen b n"
proof (induction n rule: less_induct)
  case (less n)
  show ?case
  proof (cases "n < b")
    case True
    with less.prems show ?thesis by (simp add: dlen.simps [of b n] dlen.simps [of b 0])
  next
    case False
    define m where "m = n div b"
    have m: "0 < m" "m < n" using False less.prems by (simp_all add: m_def div_greater_zero_iff)
    from less.IH [OF m(2) less.prems(1) m(1)] have IH: "0 < dlen b m" "b ^ (dlen b m - 1) \<le> m" "m < b ^ dlen b m"
      by simp_all
    have d: "dlen b n = Suc (dlen b m)" using less.prems by (simp add: dlen.simps [of b n] m_def)
    have n: "b * m \<le> n" "n < b * (m + 1)"
      using less.prems by (simp_all add: m_def) (metis add.commute dividend_less_times_div less_le_trans mult.commute mult_Suc_right pos2)
    have "b ^ dlen b m = b * b ^ (dlen b m - 1)" using IH(1) by (simp add: power_eq_if)
    also have "\<dots> \<le> b * m" using IH(2) by simp
    finally have "b ^ dlen b m \<le> n" using n(1) by simp
    moreover have "n < b ^ Suc (dlen b m)"
    proof -
      have "b * (m + 1) \<le> b * b ^ dlen b m" using IH(3) by (intro mult_le_mono2) simp
      with n(2) show ?thesis by simp
    qed
    ultimately show ?thesis by (simp add: d)
  qed
qed

lemma dlen_powz:
  assumes "2 \<le> b" "0 < n"
  shows "powz b (int (dlen b n) - 1) \<le> of_nat n" "of_nat n < powz b (int (dlen b n))"
proof -
  note d = dlen_bounds [OF assms]
  have "powz b (int (dlen b n) - 1) = of_nat (b ^ (dlen b n - 1))"
    using d powz_nat [of b "dlen b n - 1"] by (simp add: of_nat_diff)
  with d show "powz b (int (dlen b n) - 1) \<le> of_nat n" by (metis of_nat_le_iff)
  have "powz b (int (dlen b n)) = of_nat (b ^ dlen b n)" by (simp add: powz_nat)
  with d show "of_nat n < powz b (int (dlen b n))" by (metis of_nat_less_iff)
qed

lemma flog_bounds:
  assumes b: "2 \<le> b" and x: "0 < x"
  shows "powz b (flog b x) \<le> x" "x < powz b (flog b x + 1)"
proof -
  obtain p q where pq: "quotient_of x = (p, q)" by (cases "quotient_of x")
  have q: "0 < q" using pq by (rule quotient_of_denom_pos)
  have xe: "x = of_int p / of_int q" using pq by (rule quotient_of_div)
  have p: "0 < p" using x q unfolding xe by (simp add: zero_less_divide_iff)
  define P Q where "P = int (dlen b (nat p))" and "Q = int (dlen b (nat q))"
  have P: "powz b (P - 1) \<le> of_int p" "of_int p < powz b P"
    using dlen_powz [OF b, of "nat p"] p by (simp_all add: P_def)
  have Q: "powz b (Q - 1) \<le> of_int q" "of_int q < powz b Q"
    using dlen_powz [OF b, of "nat q"] q by (simp_all add: Q_def)
  have b0: "0 < b" using b by simp
  have "of_int p < powz b (P - Q + 1) * of_int q"
  proof -
    have "powz b P = powz b (P - Q + 1) * powz b (Q - 1)" using powz_add [OF b0, of "P - Q + 1" "Q - 1"] by simp
    also have "\<dots> \<le> powz b (P - Q + 1) * of_int q" using Q(1) powz_pos [OF b0] by (intro mult_left_mono) (auto intro: less_imp_le)
    finally show ?thesis using P(2) by linarith
  qed
  then have up: "x < powz b (P - Q + 1)" using q by (simp add: xe divide_less_eq)
  have "powz b (P - Q - 1) * of_int q < of_int p"
  proof -
    have "powz b (P - Q - 1) * of_int q < powz b (P - Q - 1) * powz b Q"
      using Q(2) powz_pos [OF b0] by (intro mult_strict_left_mono) auto
    also have "\<dots> = powz b (P - 1)" using powz_add [OF b0, of "P - Q - 1" Q] by simp
    finally show ?thesis using P(1) by linarith
  qed
  then have lo: "powz b (P - Q - 1) \<le> x" using q by (simp add: xe le_divide_eq)
  have f: "flog b x = (if powz b (P - Q) \<le> x then P - Q else P - Q - 1)"
    by (simp add: flog_def pq P_def Q_def Let_def)
  show "powz b (flog b x) \<le> x" using lo by (simp add: f)
  show "x < powz b (flog b x + 1)" using up by (simp add: f)
qed

lemma flog_less: "2 \<le> b \<Longrightarrow> 0 < x \<Longrightarrow> x < powz b e \<Longrightarrow> flog b x < e"
  using flog_bounds(1) [of b x] powz_mono [of b e "flog b x"] by (force simp: not_less)

lemma flog_ge: "2 \<le> b \<Longrightarrow> powz b e \<le> x \<Longrightarrow> e \<le> flog b x"
proof -
  assume "2 \<le> b" "powz b e \<le> x"
  moreover from this have "0 < x" using powz_pos [of b e] by simp
  ultimately have "powz b e < powz b (flog b x + 1)" using flog_bounds(2) [of b x] by simp
  with \<open>2 \<le> b\<close> show ?thesis by (simp add: powz_less)
qed

subsection \<open>Rounding\<close>

lemma round_half_even_int [simp]: "round_half_even (of_int n) = n"
  by (simp add: round_half_even_def Let_def)

lemma round_half_even_error: "\<bar>of_int (round_half_even x) - x\<bar> \<le> 1 / 2"
proof -
  have "of_int \<lfloor>x\<rfloor> \<le> x" "x < of_int \<lfloor>x\<rfloor> + 1" by linarith+
  then show ?thesis unfolding round_half_even_def Let_def abs_le_iff by (auto simp del: of_int_floor_le)
qed

lemma rnd_pos_error:
  "\<bar>rnd_pos a - a\<bar> \<le> powz 2 (max (flog 2 a - 52) (- 1074)) / 2"
proof -
  define e where "e = max (flog 2 a - 52) (- 1074)"
  have p: "0 < powz 2 e" by (simp add: powz_pos)
  have "rnd_pos a - a = (of_int (round_half_even (a / powz 2 e)) - a / powz 2 e) * powz 2 e"
    using p by (simp add: rnd_pos_def e_def Let_def left_diff_distrib)
  then have "\<bar>rnd_pos a - a\<bar> = \<bar>of_int (round_half_even (a / powz 2 e)) - a / powz 2 e\<bar> * powz 2 e"
    using p by (simp add: abs_mult)
  also have "\<dots> \<le> 1 / 2 * powz 2 e"
    using round_half_even_error p by (intro mult_right_mono) auto
  finally show ?thesis by (simp add: e_def)
qed

text \<open>A binary fraction of at most 53 digits is a double.\<close>

lemma rnd_pos_exact:
  assumes "a = of_int m * powz 2 k" "0 < m" "m < 2 ^ 53" "- 1074 \<le> k"
  shows "rnd_pos a = a"
proof -
  define e where "e = max (flog 2 a - 52) (- 1074)"
  have a: "0 < a" using assms(1,2) by (simp add: powz_pos)
  have "a < powz 2 53 * powz 2 k"
  proof -
    have "(of_int m :: rat) < of_int (2 ^ 53)" using assms(3) by (simp only: of_int_less_iff)
    then have "(of_int m :: rat) < powz 2 53" by (simp add: powz_def)
    then show ?thesis using assms(1) by (simp add: powz_pos)
  qed
  then have "a < powz 2 (53 + k)" by (simp add: powz_add)
  then have "flog 2 a < 53 + k" using a by (intro flog_less) auto
  then have e: "e \<le> k" using assms(4) by (simp add: e_def)
  have "powz 2 k = powz 2 (k - e) * powz 2 e" using powz_add [of 2 "k - e" e] by simp
  then have "a / powz 2 e = of_int m * powz 2 (k - e)" using assms(1) powz_pos [of 2 e] by simp
  also have "powz 2 (k - e) = of_int (2 ^ nat (k - e))" using e by (simp add: powz_def)
  finally have "a / powz 2 e = of_int (m * 2 ^ nat (k - e))" by simp
  then have "of_int (round_half_even (a / powz 2 e)) = a / powz 2 e" by (metis round_half_even_int)
  then show ?thesis using powz_pos [of 2 e] by (simp add: rnd_pos_def e_def Let_def)
qed

lemma rnd_int:
  assumes "\<bar>n\<bar> < 2 ^ 53"
  shows "rnd (of_int n) = Fin (of_int n)"
proof (cases "n = 0")
  case False
  have "rnd_pos \<bar>of_int n\<bar> = \<bar>of_int n\<bar>"
    using False assms by (intro rnd_pos_exact [where m = "\<bar>n\<bar>" and k = 0]) (simp_all add: powz_def)
  moreover have "\<bar>of_int n\<bar> < (2 :: rat) ^ 1024"
  proof -
    have "\<bar>of_int n\<bar> < (of_int (2 ^ 53) :: rat)" using assms by (metis of_int_abs of_int_less_iff)
    also have "\<dots> \<le> 2 ^ 1024" by simp
    finally show ?thesis .
  qed
  ultimately show ?thesis using False by (simp add: rnd_def Let_def abs_if split: if_splits)
qed (simp add: rnd_def)

lemmas rnd_nat = rnd_int [of "int n" for n, simplified]

text \<open>Rounding does not bring a number of at least 1 below what is left of it after the relative error.\<close>

lemma rnd_pos_above:
  assumes "1 \<le> a"
  shows "a * (1 - 1 / 2 ^ 53) \<le> rnd_pos a"
proof -
  have "0 \<le> flog 2 a" using assms by (intro flog_ge) (simp_all add: powz_def)
  then have "max (flog 2 a - 52) (- 1074) = flog 2 a - 52" by simp
  moreover have "powz 2 (flog 2 a - 52) = powz 2 (flog 2 a) / 2 ^ 52"
    using powz_add [of 2 "flog 2 a" "- 52"] by (simp add: powz_def [of 2 "- 52"])
  moreover have "powz 2 (flog 2 a) \<le> a" using assms by (intro flog_bounds) auto
  ultimately have "\<bar>rnd_pos a - a\<bar> \<le> a / 2 ^ 53"
    using rnd_pos_error [of a] by (simp add: field_simps)
  moreover define d where "d = a / 2 ^ 53"
  ultimately have "\<bar>rnd_pos a - a\<bar> \<le> d" by simp
  then have "a - d \<le> rnd_pos a" by linarith
  moreover have "a * (1 - 1 / 2 ^ 53) = a - d" by (simp only: d_def right_diff_distrib mult_1_right times_divide_eq_right)
  ultimately show ?thesis by simp
qed

text \<open>Every number is a multiple of the smallest positive one.\<close>

lemma rnd_grid: "rnd y = Fin x \<Longrightarrow> \<exists>m e. x = of_int m * powz 2 e \<and> - 1074 \<le> e"
proof (cases "y = 0")
  case True
  assume "rnd y = Fin x"
  with True show ?thesis by (intro exI [of _ 0] exI [of _ 0]) (simp add: rnd_def)
next
  case False
  assume h: "rnd y = Fin x"
  define e where "e = max (flog 2 \<bar>y\<bar> - 52) (- 1074)"
  define m where "m = round_half_even (\<bar>y\<bar> / powz 2 e)"
  have "rnd_pos \<bar>y\<bar> = of_int m * powz 2 e" by (simp add: rnd_pos_def e_def m_def Let_def)
  with h False have "x = of_int m * powz 2 e \<or> x = of_int (- m) * powz 2 e"
    by (auto simp: rnd_def Let_def split: if_splits)
  moreover have "- 1074 \<le> e" by (simp add: e_def)
  ultimately show ?thesis by blast
qed

lemma rnd_bound: "rnd y = Fin x \<Longrightarrow> x < 2 ^ 1024"
proof (cases "0 < y")
  case False
  assume h: "rnd y = Fin x"
  have "x \<le> 0"
  proof (cases "y = 0")
    case False
    have "0 \<le> round_half_even (\<bar>y\<bar> / powz 2 e)" for e
      using powz_pos [of 2 e] by (simp add: round_half_even_def Let_def)
    then have "0 \<le> rnd_pos \<bar>y\<bar>" using powz_pos [of 2] by (simp add: rnd_pos_def Let_def less_imp_le)
    with h False \<open>\<not> 0 < y\<close> show ?thesis by (auto simp: rnd_def Let_def split: if_splits)
  qed (use h in \<open>simp add: rnd_def\<close>)
  then show ?thesis by (simp add: le_less_trans)
qed (auto simp: rnd_def Let_def split: if_splits)

lemma rnd_sign: "rnd y = Fin x \<Longrightarrow> 0 < x \<Longrightarrow> 0 < y"
proof (rule ccontr)
  assume h: "rnd y = Fin x" "0 < x" "\<not> 0 < y"
  have "0 \<le> round_half_even (\<bar>y\<bar> / powz 2 e)" for e
    using powz_pos [of 2 e] by (simp add: round_half_even_def Let_def)
  then have "0 \<le> rnd_pos \<bar>y\<bar>" using powz_pos [of 2] by (simp add: rnd_pos_def Let_def less_imp_le)
  with h show False by (auto simp: rnd_def Let_def split: if_splits)
qed

lemma rnd_minus: "rnd (- y) = (case rnd y of Fin x \<Rightarrow> Fin (- x) | Infinity p \<Rightarrow> Infinity (\<not> p) | NaN \<Rightarrow> NaN)"
  by (auto simp: rnd_def Let_def)

subsection \<open>Printing finds a decimal\<close>

definition double :: "rat \<Rightarrow> bool" where
  "double x \<longleftrightarrow> rnd x = Fin x"

lemma decimal_cand_sound: "decimal_cand x q = Some (c, q') \<Longrightarrow> rnd (of_int c * powz 10 q') = Fin x"
  by (auto simp: decimal_cand_def Let_def split: if_splits)

lemma shortest_from_sound: "shortest_from x n k = Some (c, q) \<Longrightarrow> rnd (of_int c * powz 10 q) = Fin x"
proof (induction x n k rule: shortest_from.induct)
  case (1 x n k)
  show ?case
  proof (cases "decimal_cand x (n - int k)")
    case None
    with 1 show ?thesis by (simp add: shortest_from.simps [of x n k] split: if_splits)
  next
    case (Some r)
    with 1 show ?thesis by (simp add: shortest_from.simps [of x n k] decimal_cand_sound split: if_splits)
  qed
qed

lemma shortest_from_total:
  "k \<le> j \<Longrightarrow> j \<le> 1400 \<Longrightarrow> decimal_cand x (n - int j) \<noteq> None \<Longrightarrow> shortest_from x n k \<noteq> None"
proof (induction x n k rule: shortest_from.induct)
  case (1 x n k)
  show ?case
  proof (cases "decimal_cand x (n - int k)")
    case None
    with "1.prems" have "k < j" by (metis le_neq_implies_less)
    with 1 None show ?thesis by (simp add: shortest_from.simps [of x n k])
  qed (use "1.prems" in \<open>simp add: shortest_from.simps [of x n k]\<close>)
qed

lemma decimal_cand_exact:
  assumes "double x" "q \<le> - 1074"
  shows "decimal_cand x q \<noteq> None"
proof -
  obtain m e where x: "x = of_int m * powz 2 e" "- 1074 \<le> e"
    using assms(1) unfolding double_def by (auto dest: rnd_grid)
  have ten: "powz 10 q = powz 2 q * powz 5 q"
    using power_int_mult_distrib [of "2 :: rat" 5 q] by (simp add: powz_powi)
  have "x / powz 10 q = of_int m * (powz 2 (e - q) * powz 5 (- q))"
    using powz_add [of 2 "e - q" q] powz_add [of 5 "- q" q] powz_pos [of 2 q] powz_pos [of 5 q]
    by (simp add: x(1) ten powz_def [of 5 0] field_simps)
  also have "powz 2 (e - q) * powz 5 (- q) = of_int (2 ^ nat (e - q) * 5 ^ nat (- q))"
    using assms(2) x(2) by (simp add: powz_def)
  finally obtain y :: int where y: "x / powz 10 q = of_int y" by (metis of_int_mult)
  then have "of_int y * powz 10 q = x" using powz_pos [of 10 q] by (simp add: field_simps)
  with assms(1) show ?thesis by (simp add: decimal_cand_def Let_def y double_def)
qed

lemma shortest_exists:
  assumes "double x" "0 < x"
  shows "\<exists>c q. shortest_from x (flog 10 x + 1) 1 = Some (c, q) \<and> 0 < c \<and> rnd (of_int c * powz 10 q) = Fin x"
proof -
  have "x < 2 ^ 1024" using assms(1) rnd_bound by (simp add: double_def)
  also have "(2 :: rat) ^ 1024 < powz 10 309" by (simp add: powz_def)
  finally have "flog 10 x < 309" using assms(2) by (intro flog_less) auto
  then have "decimal_cand x (flog 10 x + 1 - int 1390) \<noteq> None"
    using assms(1) by (intro decimal_cand_exact) auto
  then have "shortest_from x (flog 10 x + 1) 1 \<noteq> None"
    by (intro shortest_from_total [of 1 1390]) auto
  then obtain c q where s: "shortest_from x (flog 10 x + 1) 1 = Some (c, q)" by auto
  then have r: "rnd (of_int c * powz 10 q) = Fin x" by (rule shortest_from_sound)
  then have "0 < of_int c * powz 10 q" using assms(2) by (rule rnd_sign)
  then have "0 < c" using powz_pos [of 10 q] by (simp add: zero_less_mult_iff)
  with s r show ?thesis by blast
qed

lemma strip_zeros_value:
  "0 < c \<Longrightarrow> strip_zeros c q = (c', q') \<Longrightarrow> 0 < c' \<and> of_nat c * powz 10 q = of_nat c' * powz 10 q'"
proof (induction c q rule: strip_zeros.induct)
  case (1 c q)
  show ?case
  proof (cases "c mod 10 = 0")
    case True
    with "1.prems" have "c div 10 > 0" by auto
    from True "1.prems" have "strip_zeros (c div 10) (q + 1) = (c', q')"
      by (simp add: strip_zeros.simps [of c q])
    with 1 True \<open>c div 10 > 0\<close> have "0 < c'" "of_nat (c div 10) * powz 10 (q + 1) = of_nat c' * powz 10 q'" by auto
    moreover have "of_nat (c div 10) * powz 10 (q + 1) = of_nat c * powz 10 q"
    proof -
      have "of_nat c = (of_nat (c div 10) :: rat) * 10" using True by (metis mod_0_imp_dvd dvd_div_mult_self of_nat_mult of_nat_numeral)
      then show ?thesis by (simp add: powz_add powz_def [of 10 1])
    qed
    ultimately show ?thesis by simp
  qed (use "1.prems" in \<open>simp add: strip_zeros.simps [of c q]\<close>)
qed

subsection \<open>Reading back a printed number\<close>

lemma digits_val_append: "digits_val a (s @ t) = digits_val (digits_val a s) t"
  by (induction s arbitrary: a) simp_all

lemma digits_val_zeros: "digits_val a (replicate n 48) = a * 10 ^ n"
  by (induction n arbitrary: a) simp_all

lemma read_nat_zeros: "read_nat (ds @ replicate n 48) = read_nat ds * 10 ^ n"
  by (simp add: read_nat_def digits_val_append digits_val_zeros)

lemma read_nat_leading: "read_nat (replicate n 48 @ ds) = read_nat ds"
  by (induction n) (simp_all add: read_nat_def)

lemma read_nat_leading1: "read_nat (48 # ds) = read_nat ds"
  using read_nat_leading [of 1] by simp

lemma span_digits_run:
  "(\<And>c. c \<in> set ds \<Longrightarrow> is_digit c) \<Longrightarrow> r = [] \<or> \<not> is_digit (hd r) \<Longrightarrow> span_digits (ds @ r) = (ds, r)"
  unfolding span_digits_def using takeWhile_run [of ds is_digit r] dropWhile_run [of ds is_digit r] by simp

lemmas span_digits_all = span_digits_run [where r = "[]", simplified]

text \<open>A decimal literal without and with an exponent.\<close>

lemma decimal_prefix_int:
  assumes "\<And>c. c \<in> set ds \<Longrightarrow> is_digit c" "ds \<noteq> []"
  shows "decimal_prefix ds = Some (of_nat (read_nat ds), [])"
  using assms by (simp add: decimal_prefix_def span_digits_all exponent_part_def powz_def)

lemma decimal_prefix_frac:
  assumes "\<And>c. c \<in> set ip \<Longrightarrow> is_digit c" "\<And>c. c \<in> set fp \<Longrightarrow> is_digit c" "ip \<noteq> []"
  shows "decimal_prefix (ip @ 46 # fp) = Some (of_nat (read_nat (ip @ fp)) * powz 10 (- int (length fp)), [])"
proof -
  have "span_digits (ip @ 46 # fp) = (ip, 46 # fp)" using assms(1) by (intro span_digits_run) (auto simp: is_digit_def)
  with assms show ?thesis by (simp add: decimal_prefix_def span_digits_all exponent_part_def)
qed

definition exp_text :: "int \<Rightarrow> jsstr" where
  "exp_text e = (if 0 \<le> e then [101, 43] @ show_nat (nat e) else [101, 45] @ show_nat (nat (- e)))"

lemma exponent_part_text: "exponent_part (exp_text e) = Some (e, [])"
  using span_digits_all [of "show_nat (nat e)"] span_digits_all [of "show_nat (nat (- e))"] show_nat_digits
  by (simp add: exponent_part_def exp_text_def split_sign_def)

lemma exp_text_hd: "exp_text e \<noteq> [] \<and> \<not> is_digit (hd (exp_text e)) \<and> hd (exp_text e) \<noteq> 46"
  by (simp add: exp_text_def is_digit_def)

lemma decimal_prefix_exp:
  assumes "\<And>c. c \<in> set ds \<Longrightarrow> is_digit c" "ds \<noteq> []"
  shows "decimal_prefix (ds @ exp_text e) = Some (of_nat (read_nat ds) * powz 10 e, [])"
proof -
  have "span_digits (ds @ exp_text e) = (ds, exp_text e)"
    using assms(1) exp_text_hd by (intro span_digits_run) auto
  with assms(2) exp_text_hd [of e] exponent_part_text [of e] show ?thesis
    by (cases "exp_text e") (auto simp: decimal_prefix_def)
qed

lemma decimal_prefix_frac_exp:
  assumes "\<And>c. c \<in> set ip \<Longrightarrow> is_digit c" "\<And>c. c \<in> set fp \<Longrightarrow> is_digit c" "ip \<noteq> []"
  shows "decimal_prefix (ip @ 46 # fp @ exp_text e) =
     Some (of_nat (read_nat (ip @ fp)) * powz 10 (e - int (length fp)), [])"
proof -
  have "span_digits (ip @ 46 # fp @ exp_text e) = (ip, 46 # fp @ exp_text e)"
    using assms(1) by (intro span_digits_run) (auto simp: is_digit_def)
  moreover have "span_digits (fp @ exp_text e) = (fp, exp_text e)"
    using assms(2) exp_text_hd by (intro span_digits_run) auto
  ultimately show ?thesis using assms(3) exponent_part_text [of e] by (simp add: decimal_prefix_def)
qed

lemma layout_value:
  assumes ds: "\<And>c. c \<in> set ds \<Longrightarrow> is_digit c" "ds \<noteq> []"
  shows "decimal_prefix (layout ds (q + int (length ds))) = Some (of_nat (read_nat ds) * powz 10 q, [])"
proof -
  let ?k = "int (length ds)" and ?n = "q + int (length ds)"
  have tk: "\<And>c i. c \<in> set (take i ds) \<Longrightarrow> is_digit c" "\<And>c i. c \<in> set (drop i ds) \<Longrightarrow> is_digit c"
    using ds(1) by (auto dest: in_set_takeD in_set_dropD)
  have k: "1 \<le> int (length ds)" using ds(2) by (cases ds) simp_all
  consider (int) "?k \<le> ?n" "?n \<le> 21" | (frac) "?n < ?k" "0 < ?n" "?n \<le> 21" | (small) "?n \<le> 0" "- 6 < ?n"
    | (exp1) "?n \<le> - 6 \<or> 21 < ?n" "?k = 1" | (exp) "?n \<le> - 6 \<or> 21 < ?n" "?k \<noteq> 1" by linarith
  then show ?thesis
  proof cases
    case int
    then have "layout ds ?n = ds @ replicate (nat q) 48" by (simp add: layout_def Let_def)
    moreover have "decimal_prefix (ds @ replicate (nat q) 48) = Some (of_nat (read_nat ds * 10 ^ nat q), [])"
      using ds by (subst decimal_prefix_int) (auto simp: is_digit_def read_nat_zeros)
    ultimately show ?thesis using int by (simp add: powz_def)
  next
    case frac
    then have "layout ds ?n = take (nat ?n) ds @ 46 # drop (nat ?n) ds" by (simp add: layout_def Let_def)
    moreover have "take (nat ?n) ds \<noteq> []" using frac ds(2) by simp
    moreover have "- int (length (drop (nat ?n) ds)) = q" using frac by (simp add: nat_diff_distrib)
    ultimately show ?thesis using decimal_prefix_frac [OF tk(1) tk(2)] by simp
  next
    case small
    then have "layout ds ?n = [48] @ 46 # replicate (nat (- ?n)) 48 @ ds"
      using k by (auto simp add: layout_def Let_def)
    moreover have "decimal_prefix ([48] @ 46 # replicate (nat (- ?n)) 48 @ ds) =
        Some (of_nat (read_nat ([48] @ replicate (nat (- ?n)) 48 @ ds)) * powz 10 (- int (length (replicate (nat (- ?n)) 48 @ ds))), [])"
      using ds(1) by (intro decimal_prefix_frac) (auto simp: is_digit_def)
    moreover have "- int (length (replicate (nat (- ?n)) 48 @ ds)) = q" using small by simp
    ultimately show ?thesis by (simp add: read_nat_leading read_nat_leading1)
  next
    case exp1
    then have "layout ds ?n = ds @ exp_text (?n - 1)" by (auto simp: layout_def exp_text_def Let_def)
    then show ?thesis using decimal_prefix_exp [OF ds, of "?n - 1"] exp1(2) by simp
  next
    case exp
    then have "layout ds ?n = take 1 ds @ 46 # drop 1 ds @ exp_text (?n - 1)"
      using ds(2) by (auto simp: layout_def exp_text_def Let_def)
    moreover have "take 1 ds \<noteq> []" "?n - 1 - int (length (drop 1 ds)) = q" using ds(2) by (cases ds; simp)+
    ultimately show ?thesis using decimal_prefix_frac_exp [of "take 1 ds" "drop 1 ds" "?n - 1"] tk by auto
  qed
qed

text \<open>The code units of a printed number: digits, the point and the exponent.\<close>

definition num_char :: "nat \<Rightarrow> bool" where
  "num_char c \<longleftrightarrow> is_digit c \<or> c = 46 \<or> c = 101 \<or> c = 43 \<or> c = 45"

lemma layout_chars:
  assumes "\<And>c. c \<in> set ds \<Longrightarrow> is_digit c" "ds \<noteq> []"
  shows "(\<forall>c \<in> set (layout ds n). num_char c) \<and> layout ds n \<noteq> [] \<and> is_digit (hd (layout ds n))"
proof -
  have "\<forall>c \<in> set (exp_text e). num_char c" for e
    using show_nat_digits by (auto simp: exp_text_def num_char_def)
  moreover have "is_digit (hd ds)" using assms by simp
  moreover have "is_digit 48" by (simp add: is_digit_def)
  ultimately show ?thesis
    using assms by (auto simp: layout_def Let_def exp_text_def [symmetric] num_char_def hd_append
        dest: in_set_takeD in_set_dropD split: if_splits)
qed

lemma show_pos_props:
  assumes "double x" "0 < x"
  shows "\<exists>v. decimal_prefix (show_pos x) = Some (v, []) \<and> rnd v = Fin x"
    and "(\<forall>c \<in> set (show_pos x). num_char c) \<and> show_pos x \<noteq> [] \<and> is_digit (hd (show_pos x))"
proof -
  obtain c q where c: "shortest_from x (flog 10 x + 1) 1 = Some (c, q)" "0 < c" "rnd (of_int c * powz 10 q) = Fin x"
    using shortest_exists [OF assms] by blast
  obtain c' q' where s: "strip_zeros (nat c) q = (c', q')" by fastforce
  have v: "of_nat (nat c) * powz 10 q = of_nat c' * powz 10 q'"
    using strip_zeros_value [OF _ s] c(2) by simp
  have p: "show_pos x = layout (show_nat c') (q' + int (length (show_nat c')))"
    unfolding show_pos_def c(1) by (simp add: s Let_def)
  show "\<exists>v. decimal_prefix (show_pos x) = Some (v, []) \<and> rnd v = Fin x"
    using layout_value [of "show_nat c'" q'] show_nat_digits v c(2,3) by (auto simp: p)
  show "(\<forall>c \<in> set (show_pos x). num_char c) \<and> show_pos x \<noteq> [] \<and> is_digit (hd (show_pos x))"
    unfolding p using show_nat_digits by (intro layout_chars) auto
qed

lemma num_char_not: "num_char c \<Longrightarrow> c \<notin> {120, 88, 111, 79, 98, 66, 73} \<and> \<not> is_ws c"
  by (auto simp: num_char_def is_digit_def is_ws_def)

lemma to_number_signed:
  assumes "s \<noteq> []" "\<forall>c \<in> set s. num_char c"
  shows "to_number s = signed_decimal s"
proof -
  have "trim s = s" using assms(2) num_char_not by (intro trim_no_ws) auto
  moreover obtain c r where s: "s = c # r" using assms(1) by (cases s) auto
  moreover have "hd r \<notin> {120, 88, 111, 79, 98, 66}" if "r \<noteq> []"
    using assms(2) s that num_char_not [of "hd r"] by (cases r) auto
  ultimately show ?thesis by (auto simp: to_number_def)
qed

lemma number_string:
  assumes "double x"
  shows "to_number (num_to_string (Fin x)) = Fin x"
proof -
  have pos: "to_number (show_pos y) = Fin y" "to_number (45 # show_pos y) = Fin (- y)" if y: "double y" "0 < y" for y
  proof -
    note p = show_pos_props [OF y]
    obtain v where v: "decimal_prefix (show_pos y) = Some (v, [])" "rnd v = Fin y" using p(1) by blast
    obtain c r where s: "show_pos y = c # r" "is_digit c" "num_char c" using p(2) by (cases "show_pos y") auto
    have "show_pos y \<noteq> js ''Infinity''" using s(2) by (auto simp: s(1) lit is_digit_def)
    moreover have "split_sign (show_pos y) = (False, show_pos y)" using s(2) by (auto simp: s(1) split_sign_def is_digit_def)
    ultimately show "to_number (show_pos y) = Fin y"
      using p(2) v by (simp add: to_number_signed signed_decimal_def)
    have "to_number (45 # show_pos y) = signed_decimal (45 # show_pos y)"
      using p(2) by (intro to_number_signed) (auto simp: num_char_def)
    with \<open>show_pos y \<noteq> js ''Infinity''\<close> show "to_number (45 # show_pos y) = Fin (- y)"
      using v by (simp add: signed_decimal_def split_sign_def rnd_minus)
  qed
  have "double (- x)" using assms by (simp add: double_def rnd_minus)
  then show ?thesis
    using assms pos [of x] pos [of "- x"] by (cases "0 < x"; cases "x = 0") (auto simp: to_number_def is_ws_def trim_def lit signed_decimal_def
        split_sign_def decimal_prefix_def span_digits_def is_digit_def exponent_part_def read_nat_def powz_def rnd_def)
qed

subsection \<open>Printing integers\<close>

lemma show_nat_ten: "0 < x \<Longrightarrow> show_nat (x * 10) = show_nat x @ [48]"
  by (subst show_nat.simps) simp

lemma show_nat_zeros: "0 < c \<Longrightarrow> show_nat (c * 10 ^ m) = show_nat c @ replicate m 48"
proof (induction m)
  case (Suc m)
  then show ?case using show_nat_ten [of "c * 10 ^ m"]
    by (simp add: ac_simps replicate_append_same [symmetric])
qed simp

lemma show_nat_length: "0 < c \<Longrightarrow> 10 ^ (length (show_nat c) - 1) \<le> c"
proof (induction c rule: show_nat.induct)
  case (1 c)
  show ?case
  proof (cases "c < 10")
    case False
    then have IH: "10 ^ (length (show_nat (c div 10)) - 1) \<le> c div 10" using 1 by simp
    have "length (show_nat (c div 10)) = Suc (length (show_nat (c div 10)) - 1)" by simp
    then have "10 ^ length (show_nat (c div 10)) = 10 * 10 ^ (length (show_nat (c div 10)) - 1)" by (metis power_Suc)
    also have "\<dots> \<le> c" using IH by linarith
    finally show ?thesis using False by (simp add: show_nat.simps [of c])
  qed (use 1 in \<open>simp add: show_nat.simps [of c]\<close>)
qed

lemma decimal_cand_range:
  assumes "decimal_cand x q = Some (c, q')" "0 \<le> x"
  shows "q' = q" "0 \<le> c" "of_int c * powz 10 q \<le> x + powz 10 q"
proof -
  define y where "y = x / powz 10 q"
  have c: "q' = q" "c = \<lfloor>y\<rfloor> \<or> c = \<lfloor>y\<rfloor> + 1"
    using assms(1) by (auto simp: decimal_cand_def Let_def y_def split: if_splits)
  have "0 \<le> y" using assms(2) powz_pos [of 10 q] by (simp add: y_def)
  then have "0 \<le> \<lfloor>y\<rfloor>" by simp
  with c show "q' = q" "0 \<le> c" by auto
  have "of_int c \<le> y + 1" using c(2) by linarith
  then have "of_int c * powz 10 q \<le> (y + 1) * powz 10 q" using powz_pos [of 10 q] by (intro mult_right_mono) auto
  also have "\<dots> = x + powz 10 q" using powz_pos [of 10 q] by (simp add: y_def distrib_right)
  finally show "of_int c * powz 10 q \<le> x + powz 10 q" .
qed

text \<open>A short decimal that rounds to an integer below ten to the fifteenth is that integer.\<close>

lemma decimal_cand_nat:
  assumes cand: "decimal_cand (of_nat n) q = Some (c, q')" and "n < 10 ^ 15" "0 \<le> q" "q \<le> 15"
  shows "q' = q" "0 \<le> c" "of_int c * powz 10 q = of_nat n"
proof -
  note r = decimal_cand_range [OF cand]
  show "q' = q" "0 \<le> c" using r by simp_all
  define k where "k = c * 10 ^ nat q"
  have k: "of_int c * powz 10 q = of_int k" using assms(3) by (simp add: k_def powz_def)
  have "(of_nat n :: rat) < of_nat (10 ^ 15)" using assms(2) by (simp only: of_nat_less_iff)
  moreover have "powz 10 q \<le> powz 10 15" using assms(4) by (intro powz_mono) auto
  then have "powz 10 q \<le> 10 ^ 15" by (simp add: powz_def [of 10 15])
  ultimately have "of_int k < (of_int (2 ^ 53) :: rat)" using r(3) by (simp add: k)
  then have "k < 2 ^ 53" by (simp only: of_int_less_iff)
  moreover have "0 \<le> k" using r(2) by (simp add: k_def)
  ultimately have "rnd (of_int k) = Fin (of_int k)" by (intro rnd_int) simp
  moreover have "rnd (of_int k) = Fin (of_nat n)" using decimal_cand_sound [OF cand] r(1) k by simp
  ultimately show "of_int c * powz 10 q = of_nat n" by (simp add: k)
qed

lemma shortest_nat:
  assumes "n < 10 ^ 15" "k \<le> L" "L \<le> 15"
  shows "\<exists>c q. shortest_from (of_nat n) (int L) k = Some (c, q) \<and> 0 \<le> c \<and> 0 \<le> q \<and> of_int c * powz 10 q = of_nat n"
  using assms(2)
proof (induction "L - k" arbitrary: k)
  case 0
  have "rnd (of_nat n) = Fin (of_nat n)" using assms(1) by (intro rnd_nat) simp
  then have "decimal_cand (of_nat n) 0 = Some (int n, 0)" by (simp add: decimal_cand_def Let_def powz_def)
  with 0 assms(3) show ?case by (simp add: shortest_from.simps powz_def)
next
  case (Suc d)
  show ?case
  proof (cases "decimal_cand (of_nat n) (int L - int k)")
    case None
    with Suc.hyps Suc.prems assms(3) Suc.hyps(1) [of "Suc k"] show ?thesis
      by (simp add: shortest_from.simps [of _ _ k])
  next
    case (Some r)
    obtain c q where "r = (c, q)" by (cases r)
    with Some decimal_cand_nat [of n "int L - int k" c q] assms Suc.prems show ?thesis
      by (simp add: shortest_from.simps [of _ _ k])
  qed
qed

lemma strip_zeros_exp: "strip_zeros c q = (c', q') \<Longrightarrow> q \<le> q'"
proof (induction c q rule: strip_zeros.induct)
  case (1 c q)
  then show ?case by (cases "c = 0 \<or> c mod 10 \<noteq> 0") (auto simp: strip_zeros.simps [of c q])
qed

lemma num_to_string_nat:
  assumes "n < 10 ^ 15"
  shows "num_to_string (Fin (of_nat n)) = show_nat n"
proof (cases "n = 0")
  case True
  then show ?thesis by (simp add: show_nat.simps [of 0] lit)
next
  case False
  let ?x = "of_nat n :: rat"
  have x: "0 < ?x" using False by simp
  have "?x < powz 10 15"
    using assms by (simp add: powz_def)
  then have "flog 10 ?x < 15" using x by (intro flog_less) auto
  moreover have "0 \<le> flog 10 ?x" using False by (intro flog_ge) (simp_all add: powz_def)
  ultimately have L: "flog 10 ?x + 1 = int (nat (flog 10 ?x + 1))" "1 \<le> nat (flog 10 ?x + 1)" "nat (flog 10 ?x + 1) \<le> 15"
    by simp_all
  obtain c q where c: "shortest_from ?x (flog 10 ?x + 1) 1 = Some (c, q)" "0 \<le> c" "0 \<le> q" "of_int c * powz 10 q = ?x"
    using shortest_nat [OF assms L(2,3)] unfolding L(1) [symmetric] by blast
  have "0 < c" using c(2,4) x by (cases "c = 0") auto
  obtain c' q' where s: "strip_zeros (nat c) q = (c', q')" by fastforce
  have v: "0 < c'" "of_nat c' * powz 10 q' = ?x" using strip_zeros_value [OF _ s] \<open>0 < c\<close> c(4) by simp_all
  obtain m where m: "q' = int m" using strip_zeros_exp [OF s] c(3) by (metis nonneg_int_cases order_trans)
  have n: "n = c' * 10 ^ m"
  proof -
    have "(of_nat (c' * 10 ^ m) :: rat) = of_nat n" using v(2) by (simp add: m powz_nat)
    then show ?thesis by (simp only: of_nat_eq_iff)
  qed
  have "m + length (show_nat c') \<le> 21"
  proof -
    have "10 ^ (length (show_nat c') - 1) * 10 ^ m \<le> n" unfolding n using show_nat_length [OF v(1)] by simp
    then have "(10 :: nat) ^ (length (show_nat c') - 1 + m) < 10 ^ 15" using assms by (simp add: power_add)
    then have "length (show_nat c') - 1 + m < 15" by (rule power_less_imp_less_exp [rotated]) simp
    then show ?thesis by simp
  qed
  then have "layout (show_nat c') (q' + int (length (show_nat c'))) = show_nat n"
    using v(1) by (simp add: layout_def Let_def m n show_nat_zeros)
  with x show ?thesis unfolding num_to_string.simps show_pos_def c(1) by (simp add: s Let_def)
qed

end
