(* ===== verification/StatusCodeRules.thy ===== *)
theory StatusCodeRules
  imports JsRegex JsJson JsNumberProps "HOL-Library.Product_Lexorder" "HOL-Library.List_Lexorder"
begin

text \<open>
  Lists of HTTP status codes as the settings pages edit them
  (\<^verbatim>\<open>lib/http-status-code-rules.ts\<close>), and the check of status code mappings of a channel
  (\<^verbatim>\<open>features/channels/lib/status-code-risk-guard.ts\<close>). Codes that have passed the range
  check are natural numbers.
\<close>

subsection \<open>Parsing rules\<close>

record code_range =
  cr_start :: nat
  cr_end :: nat

record parsed_rules =
  pr_ok :: bool
  pr_ranges :: "code_range list"
  pr_tokens :: "jsstr list"
  pr_normalized :: jsstr
  pr_invalidTokens :: "jsstr list"

text \<open>\<^verbatim>\<open>/^\d+$/\<close>\<close>

definition isNumber :: "jsstr \<Rightarrow> bool" where
  "isNumber s \<longleftrightarrow> re_test (Seq Bol (Seq (Plus (Cls is_digit)) Eol)) s"

text \<open>
  \<^verbatim>\<open>Number.parseInt(s, 10)\<close> followed by \<^verbatim>\<open>isValidCode\<close>. The parsed number is an
  integer, so the floor does not change it.
\<close>

definition parse_code :: "jsstr \<Rightarrow> nat option" where
  "parse_code s = (case parse_int10 s of
      Fin x \<Rightarrow> if 100 \<le> x \<and> x \<le> 599 then Some (nat \<lfloor>x\<rfloor>) else None
    | _ \<Rightarrow> None)"

definition parseToken :: "jsstr \<Rightarrow> code_range option" where
  "parseToken token =
     (let cleaned = remove_ws (trim token) in
      if cleaned = [] then None
      else if str_includes cleaned (js ''-'') then
        (let parts = split_on 45 cleaned; a = parts ! 0; b = parts ! 1 in
         if \<not> isNumber a \<or> \<not> isNumber b then None
         else (case (parse_code a, parse_code b) of
             (Some s, Some e) \<Rightarrow> if e < s then None else Some \<lparr>cr_start = s, cr_end = e\<rparr>
           | _ \<Rightarrow> None))
      else if \<not> isNumber cleaned then None
      else map_option (\<lambda>code. \<lparr>cr_start = code, cr_end = code\<rparr>) (parse_code cleaned))"

definition merge_step :: "code_range list \<Rightarrow> code_range \<Rightarrow> code_range list" where
  "merge_step merged current =
     (if merged = [] \<or> cr_end (last merged) + 1 < cr_start current then merged @ [current]
      else butlast merged @ [(last merged)\<lparr>cr_end := max (cr_end (last merged)) (cr_end current)\<rparr>])"

definition mergeRanges :: "code_range list \<Rightarrow> code_range list" where
  "mergeRanges ranges =
     (if length ranges = 0 then []
      else foldl merge_step [] (sort_key (\<lambda>r. (cr_start r, cr_end r)) ranges))"

definition show_code :: "nat \<Rightarrow> jsstr" where
  "show_code n = num_to_string (Fin (of_nat n))"

definition show_range :: "code_range \<Rightarrow> jsstr" where
  "show_range r = (if cr_start r = cr_end r then show_code (cr_start r)
     else show_code (cr_start r) @ js ''-'' @ show_code (cr_end r))"

text \<open>The loop over the segments: the ranges of the valid ones, and the invalid ones.\<close>

fun parse_segments :: "jsstr list \<Rightarrow> code_range list \<times> jsstr list" where
  "parse_segments [] = ([], [])"
| "parse_segments (segment # segments) =
     (case parse_segments segments of (ranges, invalidTokens) \<Rightarrow>
        (case parseToken segment of
           None \<Rightarrow> (ranges, segment # invalidTokens)
         | Some parsed \<Rightarrow> (parsed # ranges, invalidTokens)))"

text \<open>The fullwidth comma (code unit 65292) counts as a comma.\<close>

definition rule_segments :: "jsstr \<Rightarrow> jsstr list" where
  "rule_segments raw =
     filter (\<lambda>s. s \<noteq> []) (map trim (split_on 44 (map (\<lambda>c. if c = 65292 then 44 else c) raw)))"

definition parseHttpStatusCodeRules :: "jsstr \<Rightarrow> parsed_rules" where
  "parseHttpStatusCodeRules input =
     (let raw = trim input in
      if length raw = 0 then
        \<lparr>pr_ok = True, pr_ranges = [], pr_tokens = [], pr_normalized = [], pr_invalidTokens = []\<rparr>
      else (case parse_segments (rule_segments raw) of (ranges, invalidTokens) \<Rightarrow>
        if 0 < length invalidTokens then
          \<lparr>pr_ok = False, pr_ranges = [], pr_tokens = [], pr_normalized = raw, pr_invalidTokens = invalidTokens\<rparr>
        else (let merged = mergeRanges ranges; tokens = map show_range merged in
          \<lparr>pr_ok = True, pr_ranges = merged, pr_tokens = tokens, pr_normalized = join (js '','') tokens,
           pr_invalidTokens = []\<rparr>)))"

subsection \<open>Merged ranges\<close>

definition codes_of :: "code_range \<Rightarrow> nat set" where
  "codes_of r = {cr_start r .. cr_end r}"

definition codes :: "code_range list \<Rightarrow> nat set" where
  "codes rs = (\<Union>r \<in> set rs. codes_of r)"

lemma codes_simps [simp]:
  "codes [] = {}" "codes (r # rs) = codes_of r \<union> codes rs" "codes (rs @ ss) = codes rs \<union> codes ss"
  by (auto simp: codes_def)

definition valid_range :: "code_range \<Rightarrow> bool" where
  "valid_range r \<longleftrightarrow> cr_start r \<le> cr_end r"

text \<open>Ranges in order with a gap between neighbours: the normal form of a set of codes.\<close>

fun separated :: "code_range list \<Rightarrow> bool" where
  "separated [] = True"
| "separated [r] = valid_range r"
| "separated (r # s # rs) \<longleftrightarrow> valid_range r \<and> cr_end r + 1 < cr_start s \<and> separated (s # rs)"

lemma separated_append:
  "separated (rs @ [r]) \<longleftrightarrow> separated rs \<and> valid_range r \<and> (rs = [] \<or> cr_end (last rs) + 1 < cr_start r)"
  by (induction rs rule: separated.induct) auto

lemma merge_step_sound:
  assumes "separated ms" "valid_range r" "ms = [] \<or> cr_start (last ms) \<le> cr_start r"
  shows "separated (merge_step ms r) \<and> codes (merge_step ms r) = codes ms \<union> codes_of r
    \<and> cr_start (last (merge_step ms r)) \<le> cr_start r"
proof (cases "ms = [] \<or> cr_end (last ms) + 1 < cr_start r")
  case True
  then have "merge_step ms r = ms @ [r]" by (simp add: merge_step_def)
  with True assms show ?thesis by (auto simp: separated_append)
next
  case False
  then obtain ys y where ms: "ms = ys @ [y]" by (cases ms rule: rev_cases) auto
  with False have "merge_step ms r = ys @ [y\<lparr>cr_end := max (cr_end y) (cr_end r)\<rparr>]"
    by (simp add: merge_step_def)
  with False assms ms show ?thesis by (auto simp: separated_append valid_range_def codes_of_def)
qed

lemma merge_fold_sound:
  assumes "sorted (map (\<lambda>r. (cr_start r, cr_end r)) rs)" "\<And>r. r \<in> set rs \<Longrightarrow> valid_range r"
    "separated ms" "ms = [] \<or> (\<forall>r \<in> set rs. cr_start (last ms) \<le> cr_start r)"
  shows "separated (foldl merge_step ms rs) \<and> codes (foldl merge_step ms rs) = codes ms \<union> codes rs"
  using assms
proof (induction rs arbitrary: ms)
  case (Cons r rs)
  have m: "separated (merge_step ms r)" "codes (merge_step ms r) = codes ms \<union> codes_of r"
    "cr_start (last (merge_step ms r)) \<le> cr_start r"
    using merge_step_sound [of ms r] Cons.prems(2-4) by auto
  have "\<forall>s \<in> set rs. cr_start r \<le> cr_start s" using Cons.prems(1) by (force simp: less_eq_prod_def)
  then have "separated (foldl merge_step (merge_step ms r) rs)
      \<and> codes (foldl merge_step (merge_step ms r) rs) = codes (merge_step ms r) \<union> codes rs"
    using Cons.prems m by (intro Cons.IH) (auto intro: order_trans)
  with m(2) show ?case by (simp add: Un_assoc)
qed simp

lemma mergeRanges_sound:
  assumes "\<And>r. r \<in> set rs \<Longrightarrow> valid_range r"
  shows "separated (mergeRanges rs)" "codes (mergeRanges rs) = codes rs"
proof -
  let ?s = "sort_key (\<lambda>r. (cr_start r, cr_end r)) rs"
  have "codes ?s = codes rs" by (simp add: codes_def)
  moreover have "separated (foldl merge_step [] ?s) \<and> codes (foldl merge_step [] ?s) = codes [] \<union> codes ?s"
    using assms by (intro merge_fold_sound) auto
  ultimately show "separated (mergeRanges rs)" "codes (mergeRanges rs) = codes rs"
    by (auto simp: mergeRanges_def)
qed

text \<open>Two normal forms of the same set are equal.\<close>

lemma separated_tail: "separated (r # rs) \<Longrightarrow> separated rs"
  by (cases rs) auto

lemma separated_valid: "separated (r # rs) \<Longrightarrow> valid_range r"
  by (cases rs) auto

lemma separated_above: "separated (r # rs) \<Longrightarrow> c \<in> codes rs \<Longrightarrow> cr_end r + 1 < c"
proof (induction rs arbitrary: r)
  case (Cons s rs)
  from Cons.prems have s: "cr_end r + 1 < cr_start s" "valid_range s" "separated (s # rs)"
    by (auto dest: separated_valid)
  show ?case
  proof (cases "c \<in> codes_of s")
    case False
    with Cons.prems have "cr_end s + 1 < c" by (intro Cons.IH [OF s(3)]) auto
    with s show ?thesis by (simp add: valid_range_def)
  qed (use s in \<open>simp add: codes_of_def\<close>)
qed simp

lemma separated_head:
  assumes "separated (r # rs)"
  shows "Least (\<lambda>c. c \<in> codes (r # rs)) = cr_start r"
    and "Least (\<lambda>c. cr_start r \<le> c \<and> Suc c \<notin> codes (r # rs)) = cr_end r"
    and "codes rs = {c \<in> codes (r # rs). cr_end r < c}"
proof -
  note v = separated_valid [OF assms, unfolded valid_range_def] and a = separated_above [OF assms]
  show "Least (\<lambda>c. c \<in> codes (r # rs)) = cr_start r"
    using v by (intro Least_equality) (auto simp: codes_of_def dest: a)
  show "Least (\<lambda>c. cr_start r \<le> c \<and> Suc c \<notin> codes (r # rs)) = cr_end r"
    using v by (intro Least_equality) (force simp: codes_of_def dest: a)+
  show "codes rs = {c \<in> codes (r # rs). cr_end r < c}"
    using v by (auto simp: codes_of_def dest: a)
qed

lemma separated_unique:
  "separated rs \<Longrightarrow> separated ss \<Longrightarrow> codes rs = codes ss \<Longrightarrow> rs = ss"
proof (induction rs arbitrary: ss)
  case Nil
  then show ?case by (cases ss) (auto simp: codes_of_def dest: separated_valid [unfolded valid_range_def])
next
  case (Cons r rs)
  then obtain s ss' where ss: "ss = s # ss'"
    by (cases ss) (auto simp: codes_of_def dest: separated_valid [unfolded valid_range_def])
  note h = separated_head [OF Cons.prems(1)] separated_head [OF Cons.prems(2) [unfolded ss]]
  have eq: "codes (r # rs) = codes (s # ss')" using Cons.prems(3) ss by simp
  have st: "cr_start r = cr_start s" using h(1,4) unfolding eq by simp
  moreover have "cr_end r = cr_end s" using h(2,5) unfolding eq st by simp
  ultimately have "r = s" by simp
  moreover have "codes rs = codes ss'" using h(3) h(6) [symmetric] unfolding eq by (simp only: \<open>r = s\<close>)
  ultimately show ?case using Cons ss by (auto dest: separated_tail)
qed


subsection \<open>Reading numbers\<close>

lemma isNumber_iff: "isNumber s \<longleftrightarrow> s \<noteq> [] \<and> list_all is_digit s"
proof
  assume h: "isNumber s"
  have "x \<in> set s \<Longrightarrow> is_digit x" for x
    using re_test_reads [of is_digit "Plus (Cls is_digit)" s] h by (auto simp: isNumber_def)
  moreover have "s \<noteq> []"
    using h by (auto simp: isNumber_def re_test_Bol mt_Seq mt_Cls)
  ultimately show "s \<noteq> [] \<and> list_all is_digit s" by (simp add: list_all_iff)
next
  assume h: "s \<noteq> [] \<and> list_all is_digit s"
  then obtain x t where s: "s = x # t" by (cases s) auto
  with h show "isNumber s"
    using mt_Star_Cls_greedy [of t is_digit "[]" "mt Eol Some"]
    by (simp add: isNumber_def re_test_Bol mt_Seq mt_Cls list_all_iff mt_Eol)
qed

text \<open>The rounding of \<^verbatim>\<open>parseInt\<close> does not move a number into or out of the valid range.\<close>

lemma parse_code_digits:
  assumes "isNumber s"
  shows "parse_code s = (if 100 \<le> read_nat s \<and> read_nat s \<le> 599 then Some (read_nat s) else None)"
proof -
  have d: "s \<noteq> []" "\<And>c. c \<in> set s \<Longrightarrow> is_digit c" using assms by (auto simp: isNumber_iff list_all_iff)
  define n where "n = read_nat s"
  have p: "parse_int10 s = rnd (of_nat n)"
  proof -
    have "is_digit (hd s)" using d by simp
    then have "\<not> is_ws (hd s)" "hd s \<noteq> 45" "hd s \<noteq> 43" by (auto simp: is_digit_def is_ws_def)
    then have "dropWhile is_ws s = s" "split_sign s = (False, s)" using d(1) by (cases s; simp add: split_sign_def)+
    moreover have "takeWhile is_digit s = s" using d(2) by (simp add: takeWhile_eq_all_conv)
    ultimately show ?thesis using d(1) by (cases s) (auto simp: parse_int10_def n_def)
  qed
  show ?thesis
  proof (cases "n < 2 ^ 53")
    case True
    then have "rnd (of_nat n) = Fin (of_nat n)" by (intro rnd_nat) simp
    then show ?thesis using p by (simp add: parse_code_def n_def [symmetric])
  next
    case False
    then have ge: "(2 ^ 53 :: rat) \<le> of_nat n" by simp
    then have "(599 :: rat) < of_nat n * (1 - 1 / 2 ^ 53)" by simp
    also have "\<dots> \<le> rnd_pos (of_nat n)" using ge by (intro rnd_pos_above) simp
    finally have "rnd (of_nat n) = Fin x \<Longrightarrow> 599 < x" for x
      using ge by (auto simp: rnd_def Let_def split: if_splits)
    moreover have "599 < n" using False by simp
    ultimately show ?thesis using p by (auto simp: parse_code_def n_def [symmetric] split: jsnum.splits)
  qed
qed

lemma show_code_nat: "n \<le> 599 \<Longrightarrow> show_code n = show_nat n"
  unfolding show_code_def by (intro num_to_string_nat) simp

lemma show_nat_isNumber: "isNumber (show_nat n)"
  using show_nat_digits by (auto simp: isNumber_iff list_all_iff)

subsection \<open>Printed ranges\<close>

definition code_bounds :: "code_range \<Rightarrow> bool" where
  "code_bounds r \<longleftrightarrow> 100 \<le> cr_start r \<and> cr_start r \<le> cr_end r \<and> cr_end r \<le> 599"

lemma show_range_chars:
  assumes "code_bounds r" "c \<in> set (show_range r)"
  shows "is_digit c \<or> c = 45"
  using assms show_nat_digits by (auto simp: show_range_def code_bounds_def show_code_nat lit split: if_splits)

lemma show_range_ws: "code_bounds r \<Longrightarrow> c \<in> set (show_range r) \<Longrightarrow> \<not> is_ws c"
  using show_range_chars [of r c] by (auto simp: is_digit_def is_ws_def)

lemma parse_show_range:
  assumes "code_bounds r"
  shows "parseToken (show_range r) = Some r"
proof -
  let ?t = "show_range r"
  have c: "remove_ws (trim ?t) = ?t"
    using show_range_ws [OF assms] by (simp add: trim_no_ws remove_ws_id)
  have n: "show_code (cr_start r) = show_nat (cr_start r)" "show_code (cr_end r) = show_nat (cr_end r)"
    using assms by (simp_all add: code_bounds_def show_code_nat)
  have dash: "45 \<notin> set (show_nat k)" for k using show_nat_digits [of 45 k] by (auto simp: is_digit_def)
  have pc: "parse_code (show_nat (cr_start r)) = Some (cr_start r)" "parse_code (show_nat (cr_end r)) = Some (cr_end r)"
    using assms by (simp_all add: parse_code_digits show_nat_isNumber code_bounds_def)
  show ?thesis
  proof (cases "cr_start r = cr_end r")
    case True
    then have "?t = show_nat (cr_start r)" by (simp add: show_range_def n)
    moreover have "\<not> str_includes (show_nat (cr_start r)) (js ''-'')"
      using dash by (auto simp: includes_iff lit) (metis in_set_conv_decomp)
    ultimately show ?thesis using c pc True by (simp add: parseToken_def Let_def show_nat_isNumber)
  next
    case False
    then have t: "?t = show_nat (cr_start r) @ 45 # show_nat (cr_end r)" by (simp add: show_range_def n lit)
    have "str_includes ?t (js ''-'')" by (auto simp: includes_iff lit t)
    moreover have "split_on 45 ?t = [show_nat (cr_start r), show_nat (cr_end r)]"
      using dash by (simp add: t split_on_append_sep split_on_no_sep)
    moreover have "?t \<noteq> []" by (simp add: t)
    ultimately show ?thesis
      using c pc assms by (simp add: parseToken_def Let_def show_nat_isNumber code_bounds_def)
  qed
qed

lemma parse_token_bounds: "parseToken t = Some r \<Longrightarrow> code_bounds r"
  by (auto simp: parseToken_def Let_def code_bounds_def parse_code_digits split: if_splits option.splits)

lemma parse_segments_iff:
  "parse_segments ts = (rs, bad) \<Longrightarrow>
     rs = List.map_filter parseToken ts \<and> bad = filter (\<lambda>t. parseToken t = None) ts"
  by (induction ts arbitrary: rs bad) (auto simp: List.map_filter_def split: prod.splits option.splits)

lemma parse_segments_shown:
  "(\<And>r. r \<in> set rs \<Longrightarrow> code_bounds r) \<Longrightarrow> parse_segments (map show_range rs) = (rs, [])"
  by (induction rs) (simp_all add: parse_show_range)

lemma rule_segments_shown:
  assumes "rs \<noteq> []" "\<And>r. r \<in> set rs \<Longrightarrow> code_bounds r"
  shows "rule_segments (join (js '','') (map show_range rs)) = map show_range rs"
proof -
  let ?ts = "map show_range rs"
  have c: "c \<in> set t \<Longrightarrow> is_digit c \<or> c = 45" if "t \<in> set ?ts" for t c
    using that assms(2) show_range_chars by auto
  have j: "set (join [44] ts) \<subseteq> {44} \<union> \<Union> (set ` set ts)" for ts :: "jsstr list"
    by (induction "[44 :: nat]" ts rule: join.induct) auto
  have "65292 \<notin> set (join [44] ?ts)"
  proof
    assume "65292 \<in> set (join [44] ?ts)"
    then have "65292 \<in> \<Union> (set ` set ?ts)" using j [of ?ts] by (auto simp del: set_map)
    then obtain t where "t \<in> set ?ts" "65292 \<in> set t" by (auto simp del: set_map)
    from c [OF this] show False by (simp add: is_digit_def)
  qed
  then have "map (\<lambda>c. if c = 65292 then 44 else c) (join [44] ?ts) = join [44] ?ts"
    by (intro map_idI) auto
  moreover have "split_on 44 (join [44] ?ts) = ?ts"
    using assms(1) c [of _ 44] by (intro split_on_join) (auto simp: is_digit_def)
  moreover have "map trim ?ts = ?ts"
    using show_range_ws assms(2) by (auto intro!: trim_no_ws)
  moreover have "show_range r \<noteq> []" if "r \<in> set rs" for r
    using assms(2) [OF that] by (simp add: show_range_def code_bounds_def show_code_nat)
  ultimately show ?thesis by (simp add: rule_segments_def lit filter_id_conv)
qed

subsection \<open>Properties\<close>

lemma parsed_ranges:
  "pr_ranges (parseHttpStatusCodeRules s) =
     (if pr_ok (parseHttpStatusCodeRules s) then mergeRanges (List.map_filter parseToken (rule_segments (trim s))) else [])"
proof -
  obtain rs bad where p: "parse_segments (rule_segments (trim s)) = (rs, bad)" by fastforce
  have "rule_segments [] = []" by (simp add: rule_segments_def)
  with p parse_segments_iff [OF p] show ?thesis
    by (simp add: parseHttpStatusCodeRules_def Let_def List.map_filter_def mergeRanges_def)
qed

lemma parsed_form:
  assumes "pr_ok (parseHttpStatusCodeRules s)"
  shows "parseHttpStatusCodeRules s =
    (let merged = mergeRanges (List.map_filter parseToken (rule_segments (trim s))) in
     \<lparr>pr_ok = True, pr_ranges = merged, pr_tokens = map show_range merged,
      pr_normalized = join (js '','') (map show_range merged), pr_invalidTokens = []\<rparr>)"
proof -
  obtain rs bad where p: "parse_segments (rule_segments (trim s)) = (rs, bad)" by fastforce
  have "rule_segments [] = []" by (simp add: rule_segments_def)
  with p parse_segments_iff [OF p] assms show ?thesis
    by (auto simp: parseHttpStatusCodeRules_def Let_def List.map_filter_def mergeRanges_def split: if_splits)
qed

lemma parsed_ok:
  "pr_ok (parseHttpStatusCodeRules s) \<longleftrightarrow> (\<forall>t \<in> set (rule_segments (trim s)). parseToken t \<noteq> None)"
proof -
  obtain rs bad where p: "parse_segments (rule_segments (trim s)) = (rs, bad)" by fastforce
  have "rule_segments [] = []" by (simp add: rule_segments_def)
  with p parse_segments_iff [OF p] show ?thesis
    by (auto simp: parseHttpStatusCodeRules_def Let_def filter_empty_conv)
qed

text \<open>
  C5: Merging ranges of status codes keeps the set of codes, returns ranges in order with a gap
  between neighbours, and is canonical: two lists of ranges merge to the same list exactly when
  they cover the same codes.
\<close>

theorem merge_ranges_canonical:
  assumes "\<forall>r \<in> set rs. valid_range r" "\<forall>r \<in> set ss. valid_range r"
  shows "separated (mergeRanges rs) \<and> codes (mergeRanges rs) = codes rs
    \<and> (mergeRanges rs = mergeRanges ss \<longleftrightarrow> codes rs = codes ss)"
  using mergeRanges_sound [of rs] mergeRanges_sound [of ss] assms separated_unique by metis

theorem merge_ranges_canonical_witness:
  "codes (mergeRanges [\<lparr>cr_start = 500, cr_end = 503\<rparr>, \<lparr>cr_start = 429, cr_end = 429\<rparr>, \<lparr>cr_start = 504, cr_end = 599\<rparr>]) =
     codes [\<lparr>cr_start = 500, cr_end = 503\<rparr>, \<lparr>cr_start = 429, cr_end = 429\<rparr>, \<lparr>cr_start = 504, cr_end = 599\<rparr>]"
proof -
  let ?rs = "[\<lparr>cr_start = 500, cr_end = 503\<rparr>, \<lparr>cr_start = 429, cr_end = 429\<rparr>, \<lparr>cr_start = 504, cr_end = 599\<rparr>]"
  have "\<forall>r \<in> set ?rs. valid_range r" by (simp add: valid_range_def)
  then show ?thesis using merge_ranges_canonical [of ?rs ?rs] by blast
qed

lemma map_filter_bounds: "r \<in> set (List.map_filter parseToken ts) \<Longrightarrow> code_bounds r"
  by (auto simp: List.map_filter_def parse_token_bounds)

lemma merged_bounds:
  assumes "\<And>r. r \<in> set rs \<Longrightarrow> code_bounds r" "m \<in> set (mergeRanges rs)"
  shows "code_bounds m"
proof -
  have v: "\<And>r. r \<in> set rs \<Longrightarrow> valid_range r" using assms(1) by (simp add: code_bounds_def valid_range_def)
  have "separated ms \<Longrightarrow> m \<in> set ms \<Longrightarrow> valid_range m" for ms
    by (induction ms rule: separated.induct) auto
  then have m: "valid_range m" using mergeRanges_sound(1) [of rs] v assms(2) by blast
  then have "{cr_start m, cr_end m} \<subseteq> codes (mergeRanges rs)"
    using assms(2) by (auto simp: codes_def codes_of_def valid_range_def)
  also have "\<dots> = codes rs" using v by (rule mergeRanges_sound(2))
  finally have "{cr_start m, cr_end m} \<subseteq> codes rs" .
  with m assms(1) show ?thesis by (fastforce simp: codes_def codes_of_def code_bounds_def valid_range_def)
qed

text \<open>
  C6: The normalized text of a valid list of status code rules is a fixed point: parsing it again
  gives the same result, ranges, tokens and text.
\<close>

theorem status_rules_normalized:
  assumes "pr_ok (parseHttpStatusCodeRules s)"
  shows "parseHttpStatusCodeRules (pr_normalized (parseHttpStatusCodeRules s)) = parseHttpStatusCodeRules s"
proof -
  let ?rs = "List.map_filter parseToken (rule_segments (trim s))"
  define ms where "ms = mergeRanges ?rs"
  define normal where "normal = join (js '','') (map show_range ms)"
  have p: "parseHttpStatusCodeRules s =
      \<lparr>pr_ok = True, pr_ranges = ms, pr_tokens = map show_range ms, pr_normalized = normal, pr_invalidTokens = []\<rparr>"
    unfolding normal_def ms_def using parsed_form [OF assms] by (simp add: Let_def)
  have b: "\<And>m. m \<in> set ms \<Longrightarrow> code_bounds m" unfolding ms_def by (rule merged_bounds [OF map_filter_bounds])
  have v: "\<And>r. r \<in> set ms \<Longrightarrow> valid_range r" using b by (simp add: code_bounds_def valid_range_def)
  have "separated ms" unfolding ms_def
    by (rule mergeRanges_sound) (auto dest: map_filter_bounds simp: code_bounds_def valid_range_def)
  then have merge: "mergeRanges ms = ms"
    using mergeRanges_sound [of ms] v separated_unique by blast
  show ?thesis
  proof (cases "ms = []")
    case True
    then show ?thesis unfolding p by (simp add: parseHttpStatusCodeRules_def normal_def)
  next
    case False
    have ends: "show_range m \<noteq> [] \<and> trimmed (show_range m)" if "m \<in> set ms" for m
      using b [OF that] show_range_ws [of m] show_nat_not_Nil
      by (auto simp: trimmed_def show_range_def code_bounds_def show_code_nat)
    then have e: "w \<noteq> [] \<and> trimmed w" if "w \<in> set (map show_range ms)" for w using that by auto
    have "trim normal = normal" "normal \<noteq> []"
      using join_ends [of "map show_range ms" "js '',''"] trimmed_join [of "map show_range ms" "js '',''"] e False
      by (simp_all add: normal_def trim_id del: set_map)
    moreover have "rule_segments normal = map show_range ms"
      unfolding normal_def using False b by (rule rule_segments_shown)
    moreover have "parse_segments (map show_range ms) = (ms, [])" using b by (rule parse_segments_shown)
    ultimately show ?thesis
      unfolding p by (simp add: parseHttpStatusCodeRules_def Let_def merge normal_def [symmetric])
  qed
qed

lemmas token_simps = parseToken_def isNumber_iff parse_code_digits read_nat_def trim_def remove_ws_def is_ws_def
  is_digit_def starts_with_def lit

lemma sample_tokens:
  "rule_segments (trim (js ''500-503, 429'')) = [js ''500-503'', js ''429'']"
  "parseToken (js ''500-503'') = Some \<lparr>cr_start = 500, cr_end = 503\<rparr>"
  "parseToken (js ''429'') = Some \<lparr>cr_start = 429, cr_end = 429\<rparr>"
  by code_simp (simp_all add: token_simps)

theorem status_rules_normalized_witness:
  "parseHttpStatusCodeRules (pr_normalized (parseHttpStatusCodeRules (js ''500-503, 429'')))
     = parseHttpStatusCodeRules (js ''500-503, 429'')"
proof -
  have "pr_ok (parseHttpStatusCodeRules (js ''500-503, 429''))" by (simp add: parsed_ok sample_tokens)
  then show ?thesis by (rule status_rules_normalized)
qed

text \<open>
  C23: A code is in the parsed ranges exactly when the whole text is valid and one of its segments
  covers the code, and every covered code is an HTTP status code between 100 and 599.
\<close>

theorem status_rules_codes:
  "c \<in> codes (pr_ranges (parseHttpStatusCodeRules s)) \<longleftrightarrow>
     (\<forall>t \<in> set (rule_segments (trim s)). parseToken t \<noteq> None)
     \<and> (\<exists>t \<in> set (rule_segments (trim s)). \<exists>r. parseToken t = Some r \<and> c \<in> codes_of r \<and> 100 \<le> c \<and> c \<le> 599)"
proof -
  let ?rs = "List.map_filter parseToken (rule_segments (trim s))"
  have v: "\<And>r. r \<in> set ?rs \<Longrightarrow> valid_range r" using map_filter_bounds by (auto simp: code_bounds_def valid_range_def)
  have "c \<in> codes ?rs \<longleftrightarrow> (\<exists>t \<in> set (rule_segments (trim s)). \<exists>r. parseToken t = Some r \<and> c \<in> codes_of r)"
    by (force simp: codes_def List.map_filter_def)
  moreover have "c \<in> codes_of r \<Longrightarrow> 100 \<le> c \<and> c \<le> 599" if "parseToken t = Some r" for t r
    using parse_token_bounds [OF that] by (auto simp: codes_of_def code_bounds_def)
  ultimately show ?thesis
    using mergeRanges_sound(2) [of ?rs] v by (auto simp: parsed_ranges parsed_ok)
qed

theorem status_rules_codes_witness:
  "501 \<in> codes (pr_ranges (parseHttpStatusCodeRules (js ''500-503, 429'')))
   \<and> 504 \<notin> codes (pr_ranges (parseHttpStatusCodeRules (js ''500-503, 429'')))"
  by (simp add: status_rules_codes sample_tokens codes_of_def)

text \<open>
  A token with more than two bounds is accepted: everything after the second bound is ignored.
\<close>

theorem third_bound_ignored:
  assumes "isNumber a" "isNumber b"
  shows "parseToken (a @ js ''-'' @ b @ js ''-'' @ c) = parseToken (a @ js ''-'' @ b)"
proof -
  have d: "a \<noteq> []" "b \<noteq> []" "\<And>x. x \<in> set a \<union> set b \<Longrightarrow> is_digit x"
    using assms by (auto simp: isNumber_iff list_all_iff)
  then have ws: "\<And>x. x \<in> set a \<union> set b \<Longrightarrow> \<not> is_ws x \<and> x \<noteq> 45" by (fastforce simp: is_digit_def is_ws_def)
  then have n45: "45 \<notin> set a" "45 \<notin> set b" by blast+
  have r: "remove_ws a = a" "remove_ws b = b" using ws by (auto intro!: remove_ws_id)
  have "remove_ws (trim (a @ js ''-'' @ b @ js ''-'' @ c)) = a @ 45 # b @ 45 # remove_ws c"
    "remove_ws (trim (a @ js ''-'' @ b)) = a @ 45 # b"
    using r by (simp_all add: remove_ws_trim lit) (simp_all add: remove_ws_def is_ws_def)
  moreover have "split_on 45 (a @ 45 # b @ 45 # remove_ws c) = a # b # split_on 45 (remove_ws c)"
    "split_on 45 (a @ 45 # b) = [a, b]"
    using n45 by (simp_all add: split_on_append_sep split_on_no_sep)
  moreover have "str_includes (a @ 45 # t) (js ''-'')" for t by (auto simp: includes_iff lit)
  ultimately show ?thesis using assms d(1) by (simp add: parseToken_def Let_def)
qed

theorem third_bound_ignored_witness:
  "parseToken (js ''400'' @ js ''-'' @ js ''404'' @ js ''-'' @ js ''x'') = parseToken (js ''400'' @ js ''-'' @ js ''404'')"
proof -
  have "isNumber (js ''400'')" "isNumber (js ''404'')" by (simp_all add: token_simps)
  then show ?thesis by (rule third_bound_ignored)
qed

end
