(* ===== verification/StatusCodeGuard.thy ===== *)
theory StatusCodeGuard
  imports StatusCodeRules
begin

text \<open>
  The guard of status code mappings (\<^verbatim>\<open>features/channels/lib/status-code-risk-guard.ts\<close>):
  a channel may rewrite upstream status codes, and the form warns about entries that are no status
  codes and about mappings that hide a gateway timeout.
\<close>

definition NON_REDIRECTABLE_STATUS_CODES :: "nat set" where
  "NON_REDIRECTABLE_STATUS_CODES = {504, 524}"

text \<open>\<^verbatim>\<open>/^[1-5]\d{2}$/\<close>\<close>

definition STATUS_CODE :: regex where
  "STATUS_CODE = Seq Bol (Seqs [Cls (\<lambda>c. 49 \<le> c \<and> c \<le> 53), Cls is_digit, Cls is_digit, Eol])"

text \<open>The integer that \<^verbatim>\<open>Number.parseInt\<close> returns; there always is one after the pattern.\<close>

definition parsed_int :: "jsstr \<Rightarrow> nat option" where
  "parsed_int s = (case parse_int10 s of Fin x \<Rightarrow> Some (nat \<lfloor>x\<rfloor>) | _ \<Rightarrow> None)"

definition parseStatusCodeKey :: "jsstr \<Rightarrow> nat option" where
  "parseStatusCodeKey rawKey =
     (let normalized = trim rawKey in if \<not> re_test STATUS_CODE normalized then None else parsed_int normalized)"

fun parseStatusCodeMappingTarget :: "json \<Rightarrow> nat option" where
  "parseStatusCodeMappingTarget (JNum (Fin x)) =
     (if of_int \<lfloor>x\<rfloor> = x \<and> 100 \<le> x \<and> x \<le> 599 then Some (nat \<lfloor>x\<rfloor>) else None)"
| "parseStatusCodeMappingTarget (JStr rawValue) =
     (let normalized = trim rawValue in
      if \<not> re_test STATUS_CODE normalized then None
      else (case parsed_int normalized of
          Some code \<Rightarrow> if 100 \<le> code \<and> code \<le> 599 then Some code else None
        | None \<Rightarrow> None))"
| "parseStatusCodeMappingTarget _ = None"

text \<open>
  The entries both collectors work on: none for blank text, text that is no JSON, and JSON
  that is no object.
\<close>

definition mapping_entries :: "jsstr \<Rightarrow> (jsstr \<times> json) list" where
  "mapping_entries str =
     (if trim str = [] then []
      else (case json_parse str of Inr (JObj kvs) \<Rightarrow> own_entries kvs | _ \<Rightarrow> []))"

text \<open>An entry is shown with an arrow (code unit 8594); converting its value to a string may throw.\<close>

fun invalid_entries :: "(jsstr \<times> json) list \<Rightarrow> jsstr list throws" where
  "invalid_entries [] = Inr []"
| "invalid_entries ((rawKey, rawValue) # rest) =
     (if parseStatusCodeKey rawKey = None \<or> parseStatusCodeMappingTarget rawValue = None then
        bind_throws (json_to_string rawValue) (\<lambda>v.
        bind_throws (invalid_entries rest) (\<lambda>invalid. Inr ((rawKey @ [32, 8594, 32] @ v) # invalid)))
      else invalid_entries rest)"

definition collectInvalidStatusCodeEntries :: "jsstr \<Rightarrow> jsstr list throws" where
  "collectInvalidStatusCodeEntries str = invalid_entries (mapping_entries str)"

definition risky_entry :: "jsstr \<times> json \<Rightarrow> jsstr option" where
  "risky_entry kv = (case (parseStatusCodeKey (fst kv), parseStatusCodeMappingTarget (snd kv)) of
      (Some fromCode, Some toCode) \<Rightarrow>
        if fromCode \<notin> NON_REDIRECTABLE_STATUS_CODES then None
        else if fromCode = toCode then None
        else Some (show_code fromCode @ js '' -> '' @ show_code toCode)
    | _ \<Rightarrow> None)"

definition collectDisallowedStatusCodeRedirects :: "jsstr \<Rightarrow> jsstr list" where
  "collectDisallowedStatusCodeRedirects str = sort (uniq (List.map_filter risky_entry (mapping_entries str)))"

definition collectNewDisallowedStatusCodeRedirects :: "jsstr \<Rightarrow> jsstr \<Rightarrow> jsstr list" where
  "collectNewDisallowedStatusCodeRedirects originalStr currentStr =
     (let currentRisky = collectDisallowedStatusCodeRedirects currentStr in
      if length currentRisky = 0 then []
      else (let originalRisky = collectDisallowedStatusCodeRedirects originalStr
        in filter (\<lambda>mapping. mapping \<notin> set originalRisky) currentRisky))"

subsection \<open>Codes\<close>

lemma status_code_shape:
  assumes "re_test STATUS_CODE s"
  obtains a b c where "s = [a, b, c]" "49 \<le> a" "a \<le> 53" "is_digit b" "is_digit c"
proof -
  have "\<exists>a b c. s = [a, b, c] \<and> 49 \<le> a \<and> a \<le> 53 \<and> is_digit b \<and> is_digit c"
    using assms by (cases s rule: remdups_adj.cases; cases "tl (tl s)")
      (auto simp: STATUS_CODE_def re_test_Bol mt_Seq mt_Cls mt_Eol split: if_splits list.splits)
  with that show ?thesis by blast
qed

lemma parsed_int_status:
  assumes "re_test STATUS_CODE s"
  shows "\<exists>n. parsed_int s = Some n \<and> n = read_nat s \<and> 100 \<le> n \<and> n \<le> 599"
proof -
  obtain a b c where s: "s = [a, b, c]" "49 \<le> a" "a \<le> 53" "is_digit b" "is_digit c"
    using assms by (rule status_code_shape)
  have "isNumber s" using s by (simp add: isNumber_iff is_digit_def)
  moreover have "100 \<le> read_nat s" "read_nat s \<le> 599" using s unfolding s(1) by (simp_all add: read_nat_def is_digit_def) arith+
  ultimately have "parse_code s = Some (read_nat s)" by (simp add: parse_code_digits)
  with \<open>100 \<le> read_nat s\<close> \<open>read_nat s \<le> 599\<close> show ?thesis
    by (auto simp: parse_code_def parsed_int_def split: jsnum.splits if_splits)
qed

lemma key_code: "parseStatusCodeKey k = Some f \<Longrightarrow> 100 \<le> f \<and> f \<le> 599"
  using parsed_int_status [of "trim k"] by (auto simp: parseStatusCodeKey_def Let_def split: if_splits)

lemma target_code: "parseStatusCodeMappingTarget v = Some t \<Longrightarrow> 100 \<le> t \<and> t \<le> 599"
proof (induction v rule: parseStatusCodeMappingTarget.induct)
  case (1 x)
  then show ?case by (auto split: if_splits)
qed (auto simp: Let_def split: if_splits option.splits)

lemma risky_entry_Some:
  "risky_entry (k, v) = Some m \<longleftrightarrow>
     (\<exists>f t. parseStatusCodeKey k = Some f \<and> parseStatusCodeMappingTarget v = Some t
        \<and> f \<in> {504, 524} \<and> f \<noteq> t \<and> m = show_code f @ js '' -> '' @ show_code t)"
  by (auto simp: risky_entry_def NON_REDIRECTABLE_STATUS_CODES_def split: option.split)

lemma set_map_filter: "set (List.map_filter f xs) = {y. \<exists>x \<in> set xs. f x = Some y}"
  by (force simp: List.map_filter_def)

lemma invalid_entries_all:
  "invalid_entries kvs = Inr ms \<Longrightarrow>
     length ms = length (filter (\<lambda>(k, v). parseStatusCodeKey k = None \<or> parseStatusCodeMappingTarget v = None) kvs)"
  by (induction kvs arbitrary: ms rule: invalid_entries.induct)
    (auto simp: bind_throws_eq_Inr split: if_splits)

subsection \<open>Properties\<close>

text \<open>
  C24: The warnings about redirects are exactly the entries that map a gateway timeout (504 or 524) to
  another status code, each once and in order; the new ones are those that the stored mapping does
  not have, so saving a mapping unchanged never warns.
\<close>

theorem risky_redirects_exact:
  "set (collectDisallowedStatusCodeRedirects s) =
     {show_code f @ js '' -> '' @ show_code t | k v f t.
        (k, v) \<in> set (mapping_entries s) \<and> parseStatusCodeKey k = Some f
        \<and> parseStatusCodeMappingTarget v = Some t \<and> f \<in> {504, 524} \<and> f \<noteq> t}
   \<and> sorted (collectDisallowedStatusCodeRedirects s) \<and> distinct (collectDisallowedStatusCodeRedirects s)
   \<and> set (collectNewDisallowedStatusCodeRedirects orig s) =
       set (collectDisallowedStatusCodeRedirects s) - set (collectDisallowedStatusCodeRedirects orig)"
proof -
  have "set (List.map_filter risky_entry kvs) =
      {show_code f @ js '' -> '' @ show_code t | k v f t.
        (k, v) \<in> set kvs \<and> parseStatusCodeKey k = Some f
        \<and> parseStatusCodeMappingTarget v = Some t \<and> f \<in> {504, 524} \<and> f \<noteq> t}" for kvs
  proof -
    have "set (List.map_filter risky_entry kvs) = {m. \<exists>k v. (k, v) \<in> set kvs \<and> risky_entry (k, v) = Some m}"
      by (auto simp: set_map_filter)
    then show ?thesis unfolding risky_entry_Some by blast
  qed
  moreover have "set (collectNewDisallowedStatusCodeRedirects orig s) =
      set (collectDisallowedStatusCodeRedirects s) - set (collectDisallowedStatusCodeRedirects orig)"
    by (auto simp: collectNewDisallowedStatusCodeRedirects_def Let_def)
  ultimately show ?thesis by (simp add: collectDisallowedStatusCodeRedirects_def)
qed

text \<open>
  When the check of a JSON object reports no invalid entry, every key and every target of the
  mapping is a status code between 100 and 599.
\<close>

theorem valid_mapping_codes:
  assumes "trim s \<noteq> []" "json_parse s = Inr (JObj kvs)" "collectInvalidStatusCodeEntries s = Inr []"
    and "(k, v) \<in> set kvs"
  shows "\<exists>f t. parseStatusCodeKey k = Some f \<and> parseStatusCodeMappingTarget v = Some t
    \<and> f \<in> {100..599} \<and> t \<in> {100..599}"
proof -
  have "mapping_entries s = own_entries kvs" using assms(1,2) by (simp add: mapping_entries_def)
  then have "filter (\<lambda>(k, v). parseStatusCodeKey k = None \<or> parseStatusCodeMappingTarget v = None) (own_entries kvs) = []"
    using assms(3) invalid_entries_all [of "own_entries kvs" "[]"] by (simp add: collectInvalidStatusCodeEntries_def)
  then have "parseStatusCodeKey k \<noteq> None \<and> parseStatusCodeMappingTarget v \<noteq> None"
    using assms(4) by (fastforce simp: filter_empty_conv)
  then show ?thesis using key_code target_code by fastforce
qed

theorem valid_mapping_codes_witness:
  "\<exists>f t. parseStatusCodeKey (js ''429'') = Some f \<and> parseStatusCodeMappingTarget (JStr (js ''500'')) = Some t
    \<and> f \<in> {100..599} \<and> t \<in> {100..599}"
proof -
  let ?s = "js ''{\"429\":\"500\"}''"
  have p: "trim ?s \<noteq> []" "json_parse ?s = Inr (JObj [(js ''429'', JStr (js ''500''))])" by code_simp+
  have "re_test STATUS_CODE (js ''429'')" "re_test STATUS_CODE (js ''500'')" "trim (js ''429'') = js ''429''"
    "trim (js ''500'') = js ''500''" by code_simp+
  then have "parseStatusCodeKey (js ''429'') \<noteq> None" "parseStatusCodeMappingTarget (JStr (js ''500'')) \<noteq> None"
    using parsed_int_status [of "js ''429''"] parsed_int_status [of "js ''500''"]
    by (auto simp: parseStatusCodeKey_def Let_def)
  then have "collectInvalidStatusCodeEntries ?s = Inr []"
    using p by (simp add: collectInvalidStatusCodeEntries_def mapping_entries_def own_entries_def)
  from valid_mapping_codes [OF p this] show ?thesis by simp
qed

end
