(* ===== verification/JsJsonPrint.thy ===== *)
theory JsJsonPrint
  imports JsJson JsNumberProps "HOL-Library.Multiset"
begin

text \<open>
  \<^verbatim>\<open>JSON.stringify(v)\<close> and \<^verbatim>\<open>JSON.stringify(v, null, 2)\<close> for parsed values, and the
  round trip: parsing printed JSON returns the value, with the properties of objects in the
  order in which the language enumerates them.
\<close>

subsection \<open>The printer\<close>

text \<open>The order in which properties are visited: array indices first.\<close>

fun canon :: "json \<Rightarrow> json"
  and canon_elems :: "json list \<Rightarrow> json list"
  and canon_members :: "(jsstr \<times> json) list \<Rightarrow> (jsstr \<times> json) list" where
  "canon (JArr vs) = JArr (canon_elems vs)"
| "canon (JObj kvs) = JObj (own_entries (canon_members kvs))"
| "canon JNull = JNull"
| "canon (JBool b) = JBool b"
| "canon (JNum x) = JNum x"
| "canon (JStr s) = JStr s"
| "canon_elems [] = []"
| "canon_elems (v # vs) = canon v # canon_elems vs"
| "canon_members [] = []"
| "canon_members ((k, v) # kvs) = (k, canon v) # canon_members kvs"

text \<open>\<open>gap\<close> is the text of one level of indentation; without it the output has no white space.\<close>

definition nl :: "jsstr \<Rightarrow> jsstr \<Rightarrow> jsstr" where
  "nl gap ind = (if gap = [] then [] else 10 # ind)"

definition colon :: "jsstr \<Rightarrow> jsstr" where
  "colon gap = (if gap = [] then [58] else [58, 32])"

fun json_print :: "jsstr \<Rightarrow> jsstr \<Rightarrow> json \<Rightarrow> jsstr"
  and print_elems :: "jsstr \<Rightarrow> jsstr \<Rightarrow> json list \<Rightarrow> jsstr"
  and print_members :: "jsstr \<Rightarrow> jsstr \<Rightarrow> (jsstr \<times> json) list \<Rightarrow> jsstr" where
  "json_print gap ind JNull = js ''null''"
| "json_print gap ind (JBool b) = (if b then js ''true'' else js ''false'')"
| "json_print gap ind (JNum x) = (case x of Fin r \<Rightarrow> num_to_string x | _ \<Rightarrow> js ''null'')"
| "json_print gap ind (JStr s) = json_quote s"
| "json_print gap ind (JArr vs) =
     (if vs = [] then [91, 93] else 91 # nl gap (ind @ gap) @ print_elems gap (ind @ gap) vs @ nl gap ind @ [93])"
| "json_print gap ind (JObj kvs) =
     (if kvs = [] then [123, 125] else 123 # nl gap (ind @ gap) @ print_members gap (ind @ gap) kvs @ nl gap ind @ [125])"
| "print_elems gap ind [] = []"
| "print_elems gap ind (v # vs) =
     json_print gap ind v @ (if vs = [] then [] else 44 # nl gap ind @ print_elems gap ind vs)"
| "print_members gap ind [] = []"
| "print_members gap ind ((k, v) # kvs) =
     json_quote k @ colon gap @ json_print gap ind v @ (if kvs = [] then [] else 44 # nl gap ind @ print_members gap ind kvs)"

definition json_stringify :: "jsstr \<Rightarrow> json \<Rightarrow> jsstr" where
  "json_stringify gap v = json_print gap [] (canon v)"

subsection \<open>Printed numbers are JSON numbers\<close>

text \<open>A decimal numeral without a superfluous leading zero.\<close>

definition num_shape :: "jsstr \<Rightarrow> rat \<Rightarrow> bool" where
  "num_shape s v \<longleftrightarrow> (\<exists>ip fp e ex. s = ip @ (if fp = [] then [] else 46 # fp) @ ex
     \<and> ip \<noteq> [] \<and> list_all is_digit ip \<and> (hd ip = 48 \<longrightarrow> ip = [48]) \<and> list_all is_digit fp
     \<and> (ex = [] \<and> e = 0 \<or> ex = exp_text e) \<and> v = of_nat (read_nat (ip @ fp)) * powz 10 (e - int (length fp)))"

text \<open>What may follow a printed value.\<close>

definition follow :: "jsstr \<Rightarrow> bool" where
  "follow r \<longleftrightarrow> r = [] \<or> hd r \<in> {44, 93, 125, 10}"

lemma exponent_part_follow: "follow r \<Longrightarrow> exponent_part (exp_text e @ r) = Some (e, r)"
proof -
  assume f: "follow r"
  then have "r = [] \<or> \<not> is_digit (hd r)" by (auto simp: follow_def is_digit_def)
  then have "span_digits (show_nat n @ r) = (show_nat n, r)" for n
    using show_nat_digits by (intro span_digits_run) auto
  then show ?thesis by (simp add: exponent_part_def exp_text_def split_sign_def)
qed

lemma num_shape_json:
  assumes "num_shape s v" "follow r"
  shows "json_number (s @ r) = Some (rnd v, r)"
    and "json_number (45 # s @ r) = Some (rnd (- v), r)"
    and "s \<noteq> []" "is_digit (hd s)"
proof -
  obtain ip fp e ex where s: "s = ip @ (if fp = [] then [] else 46 # fp) @ ex"
    and ip: "ip \<noteq> []" "\<And>c. c \<in> set ip \<Longrightarrow> is_digit c" "hd ip = 48 \<longrightarrow> ip = [48]" and fp: "\<And>c. c \<in> set fp \<Longrightarrow> is_digit c"
    and ex: "ex = [] \<and> e = 0 \<or> ex = exp_text e" and v: "v = of_nat (read_nat (ip @ fp)) * powz 10 (e - int (length fp))"
    using assms(1) unfolding num_shape_def list_all_iff by blast
  have d: "is_digit (hd ip)" using ip by simp
  show "s \<noteq> []" "is_digit (hd s)" using s ip(1) d by (auto simp: hd_append)
  have nd: "ex @ r = [] \<or> \<not> is_digit (hd (ex @ r)) \<and> hd (ex @ r) \<noteq> 46"
    using ex assms(2) exp_text_hd [of e] by (auto simp: follow_def is_digit_def hd_append)
  let ?t = "(if fp = [] then [] else 46 # fp) @ ex @ r"
  have "takeWhile is_digit (ip @ ?t) = ip"
    using ip(2) nd by (intro takeWhile_run) (auto simp: is_digit_def hd_append)
  then have int: "json_int_part (ip @ ?t) = Some (ip, ?t)"
    using ip by (auto simp: json_int_part_def Let_def)
  have frac: "json_frac_part ?t = Some (fp, ex @ r)"
  proof (cases "fp = []")
    case True
    then show ?thesis using nd by (cases "ex @ r") (auto simp: json_frac_part_def)
  next
    case False
    have "takeWhile is_digit (fp @ ex @ r) = fp" "dropWhile is_digit (fp @ ex @ r) = ex @ r"
      using fp nd takeWhile_run [of fp is_digit "ex @ r"] dropWhile_run [of fp is_digit "ex @ r"] by auto
    with False show ?thesis by (simp add: json_frac_part_def)
  qed
  have exp: "json_exp_part (ex @ r) = Some (e, r)"
  proof (cases "ex = []")
    case True
    with ex exp_text_hd [of e] have "e = 0" by auto
    with True assms(2) show ?thesis by (cases r) (auto simp: json_exp_part_def follow_def)
  next
    case False
    with ex have x: "ex = exp_text e" by auto
    obtain q where "exp_text e = 101 # q" by (cases "0 \<le> e") (simp_all add: exp_text_def)
    then show ?thesis using exponent_part_follow [OF assms(2), of e] by (simp add: json_exp_part_def x)
  qed
  have sr: "s @ r = ip @ ?t" using s by simp
  have "hd (ip @ ?t) \<noteq> 45" using ip(1) d by (auto simp: is_digit_def hd_append)
  with int frac exp ip(1) show "json_number (s @ r) = Some (rnd v, r)"
    unfolding sr by (simp add: json_number_def v Let_def hd_append)
  from int frac exp show "json_number (45 # s @ r) = Some (rnd (- v), r)"
    unfolding sr by (simp add: json_number_def v Let_def)
qed


lemma show_nat_hd: "0 < c \<Longrightarrow> hd (show_nat c) \<noteq> 48"
proof (induction c rule: show_nat.induct)
  case (1 c)
  then show ?case by (cases "c < 10") (simp_all add: show_nat.simps [of c] hd_append)
qed

lemma layout_shape:
  assumes ds: "list_all is_digit ds" "ds \<noteq> []" "hd ds \<noteq> 48"
  shows "num_shape (layout ds (q + int (length ds))) (of_nat (read_nat ds) * powz 10 q)"
proof -
  let ?k = "int (length ds)" and ?n = "q + int (length ds)"
  have k: "1 \<le> ?k" using ds(2) by (cases ds) simp_all
  have tk: "list_all is_digit (take i ds)" "list_all is_digit (drop i ds)" for i
    using ds(1) by (auto simp: list_all_iff dest: in_set_takeD in_set_dropD)
  have hd: "hd (take i ds) \<noteq> 48" if "0 < i" for i using ds(2,3) that by (cases ds; cases i) auto
  consider (int) "?k \<le> ?n" "?n \<le> 21" | (frac) "?n < ?k" "0 < ?n" "?n \<le> 21" | (small) "?n \<le> 0" "- 6 < ?n"
    | (exp1) "?n \<le> - 6 \<or> 21 < ?n" "?k = 1" | (exp) "?n \<le> - 6 \<or> 21 < ?n" "?k \<noteq> 1" by linarith
  then show ?thesis
  proof cases
    case int
    then have "layout ds ?n = ds @ replicate (nat q) 48" by (simp add: layout_def Let_def)
    moreover have "read_nat (ds @ replicate (nat q) 48) = read_nat ds * 10 ^ nat q" by (rule read_nat_zeros)
    ultimately show ?thesis using int ds unfolding num_shape_def
      by (intro exI [of _ "ds @ replicate (nat q) 48"] exI [of _ "[]"] exI [of _ 0])
        (auto simp: list_all_iff is_digit_def powz_def hd_append)
  next
    case frac
    then have "layout ds ?n = take (nat ?n) ds @ 46 # drop (nat ?n) ds" by (simp add: layout_def Let_def)
    moreover have "take (nat ?n) ds \<noteq> []" "drop (nat ?n) ds \<noteq> []" using frac ds(2) by auto
    moreover have "- int (length (drop (nat ?n) ds)) = q" using frac by (simp add: nat_diff_distrib)
    ultimately show ?thesis using tk hd [of "nat ?n"] frac unfolding num_shape_def
      by (intro exI [of _ "take (nat ?n) ds"] exI [of _ "drop (nat ?n) ds"] exI [of _ 0] exI [of _ "[]"]) auto
  next
    case small
    let ?f = "replicate (nat (- ?n)) 48 @ ds"
    have "layout ds ?n = [48] @ 46 # ?f" using small k by (auto simp add: layout_def Let_def)
    moreover have "- int (length ?f) = q" using small by simp
    moreover have "read_nat ([48] @ ?f) = read_nat ds" by (simp add: read_nat_leading read_nat_leading1)
    ultimately show ?thesis using ds unfolding num_shape_def
      by (intro exI [of _ "[48]"] exI [of _ ?f] exI [of _ 0] exI [of _ "[]"]) (auto simp: list_all_iff is_digit_def)
  next
    case exp1
    then have "layout ds ?n = ds @ exp_text (?n - 1)" by (auto simp: layout_def exp_text_def Let_def)
    then show ?thesis using ds exp1(2) unfolding num_shape_def
      by (intro exI [of _ ds] exI [of _ "[]"] exI [of _ "?n - 1"] exI [of _ "exp_text (?n - 1)"]) auto
  next
    case exp
    then have "layout ds ?n = take 1 ds @ 46 # drop 1 ds @ exp_text (?n - 1)"
      using ds(2) by (auto simp: layout_def exp_text_def Let_def)
    moreover have "take 1 ds \<noteq> []" "?n - 1 - int (length (drop 1 ds)) = q" using ds(2) by (cases ds; simp)+
    moreover have "drop 1 ds \<noteq> []" using exp(2) ds(2) by (cases ds) auto
    ultimately show ?thesis using tk hd [of 1] unfolding num_shape_def
      by (intro exI [of _ "take 1 ds"] exI [of _ "drop 1 ds"] exI [of _ "?n - 1"] exI [of _ "exp_text (?n - 1)"]) auto
  qed
qed

lemma show_pos_shape:
  assumes "double x" "0 < x"
  shows "\<exists>v. num_shape (show_pos x) v \<and> rnd v = Fin x"
proof -
  obtain c q where c: "shortest_from x (flog 10 x + 1) 1 = Some (c, q)" "0 < c" "rnd (of_int c * powz 10 q) = Fin x"
    using shortest_exists [OF assms] by blast
  obtain c' q' where s: "strip_zeros (nat c) q = (c', q')" by fastforce
  have v: "0 < c'" "of_nat (nat c) * powz 10 q = of_nat c' * powz 10 q'"
    using strip_zeros_value [OF _ s] c(2) by simp_all
  have p: "show_pos x = layout (show_nat c') (q' + int (length (show_nat c')))"
    unfolding show_pos_def c(1) by (simp add: s Let_def)
  have "num_shape (show_pos x) (of_nat (read_nat (show_nat c')) * powz 10 q')"
    unfolding p using show_nat_digits show_nat_hd [OF v(1)] by (intro layout_shape) (auto simp: list_all_iff)
  with v(2) c(2,3) show ?thesis by auto
qed

lemma json_number_print:
  assumes "double x" "follow r"
  shows "json_number (num_to_string (Fin x) @ r) = Some (Fin x, r)"
    and "num_to_string (Fin x) \<noteq> []" "hd (num_to_string (Fin x)) = 45 \<or> is_digit (hd (num_to_string (Fin x)))"
proof -
  have zero: "num_shape [48] 0" unfolding num_shape_def
    by (intro exI [of _ "[48]"] exI [of _ "[]"] exI [of _ 0]) (simp add: is_digit_def read_nat_def)
  have neg: "double (- x)" using assms(1) by (simp add: double_def rnd_minus)
  consider "x = 0" | "0 < x" | "x < 0" by linarith
  then have "json_number (num_to_string (Fin x) @ r) = Some (Fin x, r) \<and> num_to_string (Fin x) \<noteq> []
      \<and> (hd (num_to_string (Fin x)) = 45 \<or> is_digit (hd (num_to_string (Fin x))))"
  proof cases
    case 1
    then show ?thesis using num_shape_json [OF zero assms(2)] by (simp add: lit rnd_def is_digit_def)
  next
    case 2
    then obtain v where "num_shape (show_pos x) v" "rnd v = Fin x" using show_pos_shape [OF assms(1)] by blast
    with 2 show ?thesis using num_shape_json [OF _ assms(2)] by auto
  next
    case 3
    then obtain v where "num_shape (show_pos (- x)) v" "rnd v = Fin (- x)" using show_pos_shape [OF neg] by auto
    with 3 show ?thesis using num_shape_json(2) [OF _ assms(2)] by (simp add: rnd_minus)
  qed
  then show "json_number (num_to_string (Fin x) @ r) = Some (Fin x, r)" "num_to_string (Fin x) \<noteq> []"
    "hd (num_to_string (Fin x)) = 45 \<or> is_digit (hd (num_to_string (Fin x)))" by blast+
qed


subsection \<open>The round trip\<close>

text \<open>Values that JSON can carry: finite doubles, strings of code units, objects with distinct keys.\<close>

definition str_ok :: "jsstr \<Rightarrow> bool" where
  "str_ok s \<longleftrightarrow> (\<forall>c \<in> set s. c < 65536)"

fun json_ok :: "json \<Rightarrow> bool"
  and elems_ok :: "json list \<Rightarrow> bool"
  and members_ok :: "(jsstr \<times> json) list \<Rightarrow> bool" where
  "json_ok JNull \<longleftrightarrow> True"
| "json_ok (JBool b) \<longleftrightarrow> True"
| "json_ok (JNum x) \<longleftrightarrow> (case x of Fin r \<Rightarrow> double r | _ \<Rightarrow> False)"
| "json_ok (JStr s) \<longleftrightarrow> str_ok s"
| "json_ok (JArr vs) \<longleftrightarrow> elems_ok vs"
| "json_ok (JObj kvs) \<longleftrightarrow> members_ok kvs \<and> distinct (map fst kvs)"
| "elems_ok [] \<longleftrightarrow> True"
| "elems_ok (v # vs) \<longleftrightarrow> json_ok v \<and> elems_ok vs"
| "members_ok [] \<longleftrightarrow> True"
| "members_ok ((k, v) # kvs) \<longleftrightarrow> str_ok k \<and> json_ok v \<and> members_ok kvs"

definition blank :: "jsstr \<Rightarrow> bool" where
  "blank w \<longleftrightarrow> list_all json_ws w"

lemma blank_simps [simp]:
  "blank []" "blank (c # w) \<longleftrightarrow> json_ws c \<and> blank w" "blank (v @ w) \<longleftrightarrow> blank v \<and> blank w"
  by (simp_all add: blank_def)

lemma blank_nl: "blank ind \<Longrightarrow> blank (nl gap ind)"
  by (simp add: nl_def json_ws_def)

lemma skip_blank: "blank w \<Longrightarrow> skip_ws (w @ s) = skip_ws s"
  by (induction w) (auto simp: skip_ws_def)

lemma skip_ws_char [simp]: "\<not> json_ws c \<Longrightarrow> skip_ws (c # s) = c # s"
  by (simp add: skip_ws_def)

lemma json_ws_not [simp]:
  "\<not> json_ws 34" "\<not> json_ws 91" "\<not> json_ws 93" "\<not> json_ws 123" "\<not> json_ws 125" "\<not> json_ws 44" "\<not> json_ws 58"
  "\<not> json_ws 110" "\<not> json_ws 116" "\<not> json_ws 102"
  by (simp_all add: json_ws_def)

lemma json_chars_print: "str_ok s \<Longrightarrow> json_chars (quote_body s @ 34 # t) = Some (s, t)"
  using json_chars_quote_body [of s t] by (simp add: str_ok_def)

lemma value_number:
  assumes "double x" "follow r" "blank w"
  shows "json_value (Suc n) (w @ num_to_string (Fin x) @ r) = Some (JNum (Fin x), r)"
proof -
  obtain c t where s: "num_to_string (Fin x) = c # t" "c = 45 \<or> is_digit c"
    using json_number_print(2,3) [OF assms(1,2)] by (cases "num_to_string (Fin x)") auto
  then have "\<not> json_ws c" "c \<notin> {34, 91, 123, 116, 102, 110}" by (auto simp: json_ws_def is_digit_def)
  then show ?thesis
    using json_number_print(1) [OF assms(1,2)] assms(3) by (simp add: s(1) skip_blank del: num_to_string.simps)
qed

lemma obj_set_new: "k \<notin> fst ` set kvs \<Longrightarrow> obj_set kvs k v = kvs @ [(k, v)]"
  by (simp add: obj_set_def)

lemma follow_simps [simp]: "follow (44 # r)" "follow (93 # r)" "follow (125 # r)" "follow (10 # r)" "follow []"
  by (simp_all add: follow_def)

lemma follow_nl: "follow r \<Longrightarrow> follow (nl gap ind @ r)"
  by (simp add: nl_def)

lemma print_head:
  assumes "json_ok v"
  obtains c u where "json_print gap ind v = c # u" "\<not> json_ws c" "c \<noteq> 93"
proof -
  have "\<exists>c u. json_print gap ind v = c # u \<and> \<not> json_ws c \<and> c \<noteq> 93"
  proof (cases v)
    case (JNum x)
    with assms obtain r where r: "x = Fin r" "double r" by (cases x) auto
    show ?thesis
      using json_number_print(2,3) [OF r(2), of "[]"] JNum r
      by (cases "num_to_string (Fin r)") (auto simp: json_ws_def is_digit_def simp del: num_to_string.simps)
  qed (auto simp: lit json_quote_def)
  with that show ?thesis by blast
qed

lemma elems_head:
  "elems_ok vs \<Longrightarrow> vs \<noteq> [] \<Longrightarrow> blank w \<Longrightarrow> \<exists>c u. skip_ws (w @ print_elems gap ind vs @ r) = c # u \<and> c \<noteq> 93"
  by (cases vs) (auto simp: skip_blank elim!: print_head [where gap = gap and ind = ind])

lemma members_head: "kvs \<noteq> [] \<Longrightarrow> blank w \<Longrightarrow> \<exists>u. skip_ws (w @ print_members gap ind kvs @ r) = 34 # u"
  by (cases kvs) (auto simp: skip_blank json_quote_def)

text \<open>One step of the loops over elements and members.\<close>

lemma elems_step:
  assumes "json_value n s = Some (v, u @ c # r')" "blank u" "c = 44 \<or> c = 93"
  shows "json_elems (Suc n) acc s = (if c = 44 then json_elems n (acc @ [v]) r' else Some (JArr (acc @ [v]), r'))"
  using assms by (auto simp: skip_blank)

lemma members_step:
  assumes "blank w" "str_ok k" "json_value n (tl (colon gap) @ s) = Some (v, u @ c # r')" "blank u" "c = 44 \<or> c = 125"
  shows "json_members (Suc n) mem (w @ json_quote k @ colon gap @ s) =
     (if c = 44 then json_members n (obj_set mem k v) r' else Some (JObj (obj_set mem k v), r'))"
proof -
  have "colon gap = 58 # tl (colon gap)" by (simp add: colon_def)
  then have j: "w @ json_quote k @ colon gap @ s = w @ 34 # quote_body k @ 34 # 58 # tl (colon gap) @ s"
    by (metis append_Cons append_Nil append_assoc json_quote_def)
  show ?thesis unfolding j using assms by (auto simp: skip_blank json_chars_print)
qed

lemma print_parse:
  "json_ok v \<Longrightarrow> blank w \<Longrightarrow> blank gap \<Longrightarrow> blank ind \<Longrightarrow> follow r \<Longrightarrow>
     2 * length (w @ json_print gap ind v @ r) < n \<Longrightarrow>
     json_value n (w @ json_print gap ind v @ r) = Some (v, r)"
  "elems_ok vs \<Longrightarrow> vs \<noteq> [] \<Longrightarrow> blank w \<Longrightarrow> blank gap \<Longrightarrow> blank ind \<Longrightarrow> blank jnd \<Longrightarrow>
     2 * length (w @ print_elems gap ind vs @ nl gap jnd @ 93 # r) + 1 < n \<Longrightarrow>
     json_elems n acc (w @ print_elems gap ind vs @ nl gap jnd @ 93 # r) = Some (JArr (acc @ vs), r)"
  "members_ok kvs \<Longrightarrow> distinct (map fst kvs) \<Longrightarrow> fst ` set mem \<inter> fst ` set kvs = {} \<Longrightarrow> kvs \<noteq> [] \<Longrightarrow>
     blank w \<Longrightarrow> blank gap \<Longrightarrow> blank ind \<Longrightarrow> blank jnd \<Longrightarrow>
     2 * length (w @ print_members gap ind kvs @ nl gap jnd @ 125 # r) + 1 < n \<Longrightarrow>
     json_members n mem (w @ print_members gap ind kvs @ nl gap jnd @ 125 # r) = Some (JObj (mem @ kvs), r)"
proof (induction gap ind v and gap ind vs and gap ind kvs
    arbitrary: w r n and w r n acc jnd and w r n mem jnd
    rule: json_print_print_elems_print_members.induct)
  case (1 gap ind)
  then show ?case by (cases n) (simp_all add: skip_blank lit)
next
  case (2 gap ind b)
  then show ?case by (cases n; cases b) (simp_all add: skip_blank lit)
next
  case (3 gap ind x)
  then show ?case by (cases n; cases x) (simp_all add: value_number del: num_to_string.simps json_value.simps)
next
  case (4 gap ind s)
  then show ?case by (cases n) (simp_all add: skip_blank json_quote_def json_chars_print)
next
  case (5 gap ind vs)
  then obtain k where n: "n = Suc k" by (cases n) auto
  show ?case
  proof (cases "vs = []")
    case False
    let ?t = "nl gap (ind @ gap) @ print_elems gap (ind @ gap) vs @ nl gap ind @ 93 # r"
    have "json_elems k [] ?t = Some (JArr ([] @ vs), r)"
      using 5 False n by (intro "5.IH") (auto simp: blank_nl)
    moreover obtain c u where "skip_ws ?t = c # u" "c \<noteq> 93"
      using elems_head [OF _ False, of "nl gap (ind @ gap)" gap "ind @ gap" "nl gap ind @ 93 # r"] 5
      by (auto simp: blank_nl)
    ultimately show ?thesis using False n 5 by (simp add: skip_blank)
  qed (use 5 n in \<open>simp add: skip_blank\<close>)
next
  case (6 gap ind kvs)
  then obtain k where n: "n = Suc k" by (cases n) auto
  show ?case
  proof (cases "kvs = []")
    case False
    let ?t = "nl gap (ind @ gap) @ print_members gap (ind @ gap) kvs @ nl gap ind @ 125 # r"
    have "json_members k [] ?t = Some (JObj ([] @ kvs), r)"
      using 6 False n by (intro "6.IH") (auto simp: blank_nl)
    moreover obtain u where "skip_ws ?t = 34 # u"
      using members_head [OF False, of "nl gap (ind @ gap)" gap "ind @ gap" "nl gap ind @ 125 # r"] 6
      by (auto simp: blank_nl)
    ultimately show ?thesis using False n 6 by (simp add: skip_blank)
  qed (use 6 n in \<open>simp add: skip_blank\<close>)
next
  case (7 gap ind)
  then show ?case by simp
next
  case (8 gap ind v vs)
  then obtain k where n: "n = Suc k" by (cases n) auto
  show ?case
  proof (cases "vs = []")
    case True
    have "json_value k (w @ json_print gap ind v @ nl gap jnd @ 93 # r) = Some (v, nl gap jnd @ 93 # r)"
      using 8 True n by (intro "8.IH"(1)) (auto simp: follow_nl)
    from elems_step [OF this blank_nl] 8 True n show ?thesis by simp
  next
    case False
    let ?t = "nl gap ind @ print_elems gap ind vs @ nl gap jnd @ 93 # r"
    have "json_value k (w @ json_print gap ind v @ 44 # ?t) = Some (v, [] @ 44 # ?t)"
      unfolding append_Nil using 8 False n by (intro "8.IH"(1)) auto
    from elems_step [OF this, of acc] n False
    have "json_elems n acc (w @ print_elems gap ind (v # vs) @ nl gap jnd @ 93 # r) = json_elems k (acc @ [v]) ?t"
      by simp
    also have "\<dots> = Some (JArr ((acc @ [v]) @ vs), r)"
      using 8 False n by (intro "8.IH"(2)) (auto simp: blank_nl)
    finally show ?thesis by simp
  qed
next
  case (9 gap ind)
  then show ?case by simp
next
  case (10 gap ind k v kvs)
  then obtain j where n: "n = Suc j" by (cases n) auto
  have b: "blank (tl (colon gap))" "length (tl (colon gap)) < length (colon gap)" by (simp_all add: colon_def json_ws_def)
  have ok: "str_ok k" "obj_set mem k v = mem @ [(k, v)]" using 10 by (auto intro: obj_set_new)
  show ?case
  proof (cases "kvs = []")
    case True
    have "json_value j (tl (colon gap) @ json_print gap ind v @ nl gap jnd @ 125 # r) = Some (v, nl gap jnd @ 125 # r)"
      using 10 True n b by (intro "10.IH"(1)) (auto simp: follow_nl)
    from members_step [OF _ ok(1) this blank_nl, of w mem] 10 True n ok(2) show ?thesis by simp
  next
    case False
    let ?t = "nl gap ind @ print_members gap ind kvs @ nl gap jnd @ 125 # r"
    have "json_value j (tl (colon gap) @ json_print gap ind v @ 44 # ?t) = Some (v, [] @ 44 # ?t)"
      unfolding append_Nil using 10 False n b by (intro "10.IH"(1)) auto
    from members_step [OF _ ok(1) this, of w mem] 10 n False ok(2)
    have "json_members n mem (w @ print_members gap ind ((k, v) # kvs) @ nl gap jnd @ 125 # r)
        = json_members j (mem @ [(k, v)]) ?t" by simp
    also have "\<dots> = Some (JObj ((mem @ [(k, v)]) @ kvs), r)"
      using 10 False n by (intro "10.IH"(2)) (auto simp: blank_nl)
    finally show ?thesis by simp
  qed
qed

lemma json_parse_print:
  assumes "json_ok v" "blank gap"
  shows "json_parse (json_print gap [] v) = Inr v"
  using print_parse(1) [of v "[]" gap "[]" "[]" "2 * length (json_print gap [] v) + 1"] assms
  by (simp add: json_parse_def skip_ws_def)


subsection \<open>Property order\<close>

lemma own_entries_mset: "mset (own_entries kvs) = mset kvs"
  by (simp add: own_entries_def)

lemma members_ok_iff: "members_ok kvs \<longleftrightarrow> (\<forall>(k, v) \<in> set kvs. str_ok k \<and> json_ok v)"
  by (induction kvs) auto

lemma canon_members_map: "canon_members kvs = map (\<lambda>(k, v). (k, canon v)) kvs"
  by (induction kvs) auto

lemma canon_elems_map: "canon_elems vs = map canon vs"
  by (induction vs) auto

lemma distinct_own_entries: "distinct (map fst (own_entries kvs)) \<longleftrightarrow> distinct (map fst kvs)"
proof -
  have "mset (map fst (own_entries kvs)) = mset (map fst kvs)" by (simp add: own_entries_mset)
  then show ?thesis by (rule mset_eq_imp_distinct_iff)
qed

lemma canon_ok:
  "json_ok v \<Longrightarrow> json_ok (canon v)"
  "elems_ok vs \<Longrightarrow> elems_ok (canon_elems vs)"
  "members_ok kvs \<Longrightarrow> members_ok (canon_members kvs)"
proof (induction v and vs and kvs rule: canon_canon_elems_canon_members.induct)
  case (2 kvs)
  have "map fst (canon_members kvs) = map fst kvs" by (simp add: canon_members_map comp_def split_def)
  then show ?case using 2 by (simp add: members_ok_iff distinct_own_entries)
qed simp_all

text \<open>Parsing what \<^verbatim>\<open>JSON.stringify\<close> has printed, with or without indentation.\<close>

lemma json_parse_stringify: "json_ok v \<Longrightarrow> blank gap \<Longrightarrow> json_parse (json_stringify gap v) = Inr (canon v)"
  by (simp add: json_stringify_def json_parse_print canon_ok)

text \<open>An object without array indices among its keys keeps its order.\<close>

lemma own_entries_id: "(\<And>k v. (k, v) \<in> set kvs \<Longrightarrow> \<not> is_array_index k) \<Longrightarrow> own_entries kvs = kvs"
proof -
  assume "\<And>k v. (k, v) \<in> set kvs \<Longrightarrow> \<not> is_array_index k"
  then have "filter (\<lambda>kv. is_array_index (fst kv)) kvs = []" "filter (\<lambda>kv. \<not> is_array_index (fst kv)) kvs = kvs"
    by (auto simp: filter_id_conv filter_empty_conv)
  then show ?thesis by (simp add: own_entries_def)
qed

end
