(* ===== verification/PlaygroundMessages.thy ===== *)
theory PlaygroundMessages
  imports JsJsonPrint
begin

text \<open>
  Messages of the playground (\<^verbatim>\<open>features/playground/types.ts\<close>, \<^verbatim>\<open>constants.ts\<close>,
  \<^verbatim>\<open>lib/message-utils.ts\<close>): creation, the separation of reasoning from visible text, the
  handling of streamed chunks, and the repair of messages after a reload. Fresh identifiers come
  from the package nanoid and are arguments here. An optional property that is undefined is \<open>None\<close>.
\<close>

subsection \<open>Types and constants\<close>

datatype message_role = RoleUser | RoleAssistant | RoleSystem

datatype message_status = StatusLoading | StatusStreaming | StatusComplete | StatusError

record message_version =
  mv_id :: jsstr
  mv_content :: jsstr

record msg_reasoning =
  mr_content :: jsstr
  mr_duration :: jsnum

record msg_source =
  ms_href :: jsstr
  ms_title :: jsstr

record message =
  m_key :: jsstr
  m_from :: message_role
  m_versions :: "message_version list"
  m_sources :: "msg_source list option"
  m_reasoning :: "msg_reasoning option"
  m_isReasoningStreaming :: "bool option"
  m_isReasoningComplete :: "bool option"
  m_isContentComplete :: "bool option"
  m_status :: "message_status option"
  m_errorCode :: "jsstr option option"

datatype part_type = PartText | PartImageUrl

record content_part =
  cp_type :: part_type
  cp_text :: "jsstr option"
  cp_image_url :: "jsstr option"

datatype message_content = TextContent jsstr | PartsContent "content_part list"

record chat_message =
  cm_role :: message_role
  cm_content :: message_content

definition role_name :: "message_role \<Rightarrow> jsstr" where
  "role_name r = (case r of RoleUser \<Rightarrow> js ''user'' | RoleAssistant \<Rightarrow> js ''assistant'' | RoleSystem \<Rightarrow> js ''system'')"

definition status_name :: "message_status \<Rightarrow> jsstr" where
  "status_name s = (case s of StatusLoading \<Rightarrow> js ''loading'' | StatusStreaming \<Rightarrow> js ''streaming''
     | StatusComplete \<Rightarrow> js ''complete'' | StatusError \<Rightarrow> js ''error'')"

definition API_REQUEST_ERROR :: jsstr where "API_REQUEST_ERROR = js ''Request error occurred''"
definition PARSE_ERROR :: jsstr where "PARSE_ERROR = js ''Error parsing response data''"
definition STREAM_START_ERROR :: jsstr where "STREAM_START_ERROR = js ''Error establishing connection''"
definition CONNECTION_CLOSED :: jsstr where "CONNECTION_CLOSED = js ''Connection closed''"
definition INTERRUPTED :: jsstr where "INTERRUPTED = js ''Generation was interrupted''"

subsection \<open>Creating messages\<close>

definition createMessageVersion :: "jsstr \<Rightarrow> jsstr \<Rightarrow> message_version" where
  "createMessageVersion new_id content = \<lparr>mv_id = new_id, mv_content = content\<rparr>"

definition getCurrentVersion :: "message \<Rightarrow> message_version" where
  "getCurrentVersion m = (case m_versions m of
      [] \<Rightarrow> \<lparr>mv_id = js ''default'', mv_content = []\<rparr>
    | v # _ \<Rightarrow> v)"

definition updateCurrentVersionContent :: "message \<Rightarrow> jsstr \<Rightarrow> message" where
  "updateCurrentVersionContent m content = m\<lparr>m_versions := [(getCurrentVersion m)\<lparr>mv_content := content\<rparr>]\<rparr>"

definition createUserMessage :: "jsstr \<Rightarrow> jsstr \<Rightarrow> jsstr \<Rightarrow> message" where
  "createUserMessage new_key new_id content =
     \<lparr>m_key = new_key, m_from = RoleUser, m_versions = [createMessageVersion new_id content], m_sources = None,
      m_reasoning = None, m_isReasoningStreaming = None, m_isReasoningComplete = None,
      m_isContentComplete = None, m_status = None, m_errorCode = None\<rparr>"

definition createLoadingAssistantMessage :: "jsstr \<Rightarrow> jsstr \<Rightarrow> message" where
  "createLoadingAssistantMessage new_key new_id =
     \<lparr>m_key = new_key, m_from = RoleAssistant, m_versions = [createMessageVersion new_id []], m_sources = None,
      m_reasoning = None, m_isReasoningStreaming = Some False, m_isReasoningComplete = Some False,
      m_isContentComplete = Some False, m_status = Some StatusLoading, m_errorCode = None\<rparr>"

definition buildMessageContent :: "jsstr \<Rightarrow> jsstr list \<Rightarrow> message_content" where
  "buildMessageContent txt imageUrls =
     (let validImages = filter (\<lambda>url. trim url \<noteq> []) imageUrls in
      if length validImages = 0 then TextContent txt
      else PartsContent (\<lparr>cp_type = PartText, cp_text = Some txt, cp_image_url = None\<rparr>
        # map (\<lambda>url. \<lparr>cp_type = PartImageUrl, cp_text = None, cp_image_url = Some (trim url)\<rparr>) validImages))"

definition getTextContent :: "message_content \<Rightarrow> jsstr" where
  "getTextContent content = (case content of
      TextContent s \<Rightarrow> s
    | PartsContent parts \<Rightarrow> (case find (\<lambda>part. cp_type part = PartText) parts of
        None \<Rightarrow> [] | Some p \<Rightarrow> (case cp_text p of None \<Rightarrow> [] | Some t \<Rightarrow> t)))"

definition formatMessageForAPI :: "message \<Rightarrow> chat_message" where
  "formatMessageForAPI m = \<lparr>cm_role = m_from m, cm_content = TextContent (mv_content (getCurrentVersion m))\<rparr>"

definition isValidMessage :: "message \<Rightarrow> bool" where
  "isValidMessage m = (case m_versions m of
      [] \<Rightarrow> False
    | v # _ \<Rightarrow> \<not> (m_from m = RoleAssistant \<and> trim (mv_content v) = []))"

subsection \<open>Reasoning in the content\<close>

definition THINK_OPEN :: jsstr where "THINK_OPEN = js ''<think>''"
definition THINK_CLOSE :: jsstr where "THINK_CLOSE = js ''</think>''"

lemma think_lengths [simp]: "length THINK_OPEN = 7" "length THINK_CLOSE = 8" "THINK_OPEN \<noteq> []" "THINK_CLOSE \<noteq> []"
  by (simp_all add: THINK_OPEN_def THINK_CLOSE_def lit)

text \<open>
  The loop of \<^verbatim>\<open>parseThinkTags\<close> on the text from \<^verbatim>\<open>currentPos\<close> on: the visible parts, the
  reasoning parts, and whether the last tag is open.
\<close>

function think_loop :: "jsstr \<Rightarrow> jsstr list \<times> jsstr list \<times> bool" where
  "think_loop s =
     (case index_of s THINK_OPEN of
        None \<Rightarrow> (if s \<noteq> [] then [s] else [], [], False)
      | Some openPos \<Rightarrow>
        (let before = (if 0 < openPos then [take openPos s] else []); body = drop (openPos + 7) s in
         case index_of body THINK_CLOSE of
           None \<Rightarrow> (before, [body], True)
         | Some closePos \<Rightarrow>
           (case think_loop (drop (closePos + 8) body) of (visible, reasoning, unclosed) \<Rightarrow>
              (before @ visible, take closePos body # reasoning, unclosed))))"
  by pat_completeness auto
termination
proof (relation "measure length")
  fix s openPos before body closePos
  assume "index_of s THINK_OPEN = Some openPos" "body = drop (openPos + 7) s"
  moreover from this have "0 < length s" by (cases s) (auto simp: THINK_OPEN_def lit)
  ultimately show "(drop (closePos + 8) body, s) \<in> measure length" by simp
qed simp

declare think_loop.simps [simp del]

record think_parts =
  tp_visibleContent :: jsstr
  tp_reasoning :: jsstr
  tp_hasUnclosedTag :: bool

definition parseThinkTags :: "jsstr \<Rightarrow> think_parts" where
  "parseThinkTags content =
     (if \<not> str_includes content THINK_OPEN then
        \<lparr>tp_visibleContent = content, tp_reasoning = [], tp_hasUnclosedTag = False\<rparr>
      else (case think_loop content of (visibleParts, reasoningParts, hasUnclosed) \<Rightarrow>
        \<lparr>tp_visibleContent = trim (concat visibleParts), tp_reasoning = trim (join [10, 10] reasoningParts),
         tp_hasUnclosedTag = hasUnclosed\<rparr>))"

subsection \<open>Updating the last assistant message\<close>

definition updateLastAssistantMessage :: "message list \<Rightarrow> (message \<Rightarrow> message) \<Rightarrow> message list" where
  "updateLastAssistantMessage messages updater =
     (if length messages = 0 then messages
      else if m_from (last messages) \<noteq> RoleAssistant then messages
      else messages[length messages - 1 := updater (last messages)])"

definition updateAssistantMessageWithError :: "message list \<Rightarrow> jsstr \<Rightarrow> jsstr option \<Rightarrow> message list" where
  "updateAssistantMessageWithError messages errorMessage errorCode =
     updateLastAssistantMessage messages (\<lambda>m.
       (updateCurrentVersionContent m (API_REQUEST_ERROR @ js '': '' @ errorMessage))
         \<lparr>m_status := Some StatusError, m_isReasoningStreaming := Some False,
          m_errorCode := Some (case errorCode of Some c \<Rightarrow> if c = [] then None else Some c | None \<Rightarrow> None)\<rparr>)"

subsection \<open>Streaming\<close>

definition processStreamingContent :: "message \<Rightarrow> jsstr option \<Rightarrow> message" where
  "processStreamingContent m contentChunk =
     (let currentVersion = getCurrentVersion m;
          fullContent = (case contentChunk of None \<Rightarrow> mv_content currentVersion
            | Some c \<Rightarrow> mv_content currentVersion @ c);
          parts = parseThinkTags fullContent;
          finalReasoning = (if tp_reasoning parts \<noteq> [] then Some \<lparr>mr_content = tp_reasoning parts, mr_duration = Fin 0\<rparr>
            else m_reasoning m)
      in (updateCurrentVersionContent m fullContent)
           \<lparr>m_reasoning := finalReasoning, m_isReasoningStreaming := Some (tp_hasUnclosedTag parts)\<rparr>)"

text \<open>\<^verbatim>\<open>a || b\<close> on strings and \<^verbatim>\<open>n || 0\<close> on numbers.\<close>

definition first_nonempty :: "jsstr \<Rightarrow> jsstr \<Rightarrow> jsstr" where
  "first_nonempty a b = (if a \<noteq> [] then a else b)"

definition or_zero :: "jsnum \<Rightarrow> jsnum" where
  "or_zero x = (if x = NaN then Fin 0 else x)"

definition finalizeMessage :: "message \<Rightarrow> jsstr option \<Rightarrow> message" where
  "finalizeMessage m apiReasoningContent =
     (let parts = parseThinkTags (mv_content (getCurrentVersion m));
          own = (case m_reasoning m of None \<Rightarrow> [] | Some r \<Rightarrow> mr_content r);
          duration = (case m_reasoning m of None \<Rightarrow> Fin 0 | Some r \<Rightarrow> or_zero (mr_duration r));
          finalReasoning = first_nonempty (case apiReasoningContent of None \<Rightarrow> [] | Some r \<Rightarrow> r)
            (first_nonempty own (tp_reasoning parts))
      in (updateCurrentVersionContent m (tp_visibleContent parts))
           \<lparr>m_reasoning := (if finalReasoning \<noteq> [] then Some \<lparr>mr_content = finalReasoning, mr_duration = duration\<rparr> else None),
            m_isReasoningStreaming := Some False\<rparr>)"

subsection \<open>Repair after a reload\<close>

definition stuck :: "message \<Rightarrow> bool" where
  "stuck m \<longleftrightarrow> m_from m = RoleAssistant \<and> (m_status m = Some StatusLoading \<or> m_status m = Some StatusStreaming)"

text \<open>The loop from the end: the last index of a stuck message.\<close>

fun stuck_from :: "message list \<Rightarrow> nat \<Rightarrow> nat option" where
  "stuck_from ms 0 = None"
| "stuck_from ms (Suc i) = (if stuck (ms ! i) then Some i else stuck_from ms i)"

definition sanitize_one :: "message \<Rightarrow> message" where
  "sanitize_one m =
     (let finalized = finalizeMessage m None;
          hasContent = trim (mv_content (getCurrentVersion finalized)) \<noteq> [];
          hasReasoning = (case m_reasoning finalized of None \<Rightarrow> False | Some r \<Rightarrow> trim (mr_content r) \<noteq> [])
      in if hasContent \<or> hasReasoning
         then finalized\<lparr>m_status := Some StatusComplete, m_isReasoningStreaming := Some False\<rparr>
         else (updateCurrentVersionContent finalized (API_REQUEST_ERROR @ js '': '' @ INTERRUPTED))
           \<lparr>m_status := Some StatusError, m_isReasoningStreaming := Some False\<rparr>)"

definition sanitizeMessagesOnLoad :: "message list \<Rightarrow> message list" where
  "sanitizeMessagesOnLoad messages =
     (case stuck_from messages (length messages) of
        None \<Rightarrow> messages
      | Some targetIndex \<Rightarrow> messages[targetIndex := sanitize_one (messages ! targetIndex)])"


subsection \<open>What the tag parser computes\<close>

text \<open>
  A text as visible and reasoning parts: \<open>render v segs rest\<close> starts with the visible part \<open>v\<close>,
  goes on with pairs of a reasoning and a visible part, and may end in an open tag.
\<close>

fun render :: "jsstr \<Rightarrow> (jsstr \<times> jsstr) list \<Rightarrow> jsstr option \<Rightarrow> jsstr" where
  "render v [] None = v"
| "render v [] (Some r) = v @ THINK_OPEN @ r"
| "render v ((r, v') # segs) rest = v @ THINK_OPEN @ r @ THINK_CLOSE @ render v' segs rest"

fun clean :: "jsstr \<Rightarrow> (jsstr \<times> jsstr) list \<Rightarrow> jsstr option \<Rightarrow> bool" where
  "clean v [] None \<longleftrightarrow> \<not> str_includes v THINK_OPEN"
| "clean v [] (Some r) \<longleftrightarrow> \<not> str_includes v THINK_OPEN \<and> \<not> str_includes r THINK_CLOSE"
| "clean v ((r, v') # segs) rest \<longleftrightarrow>
     \<not> str_includes v THINK_OPEN \<and> \<not> str_includes r THINK_CLOSE \<and> clean v' segs rest"

text \<open>The first occurrence of a word whose first code unit does not occur again in it.\<close>

lemma index_of_here: "index_of (w @ r) w = Some 0"
proof -
  have "starts_with (w @ r) w" by (auto simp: starts_with_iff)
  then show ?thesis by (cases "w @ r") auto
qed

lemma index_of_first:
  assumes "c \<notin> set w" "\<not> str_includes a (c # w)"
  shows "index_of (a @ (c # w) @ r) (c # w) = Some (length a)"
  using assms(2)
proof (induction a)
  case Nil
  then show ?case using index_of_here [of "c # w" r] by simp
next
  case (Cons x a)
  have "\<not> starts_with (x # a @ (c # w) @ r) (c # w)"
  proof
    assume "starts_with (x # a @ (c # w) @ r) (c # w)"
    then obtain t where t: "x # a @ c # w @ r = c # w @ t" by (auto simp: starts_with_iff)
    have "\<not> length w \<le> length a"
    proof
      assume "length w \<le> length a"
      from t have "x = c" "take (length w) (a @ c # w @ r) = w" by simp_all
      with \<open>length w \<le> length a\<close> have "take (length w) a = w" by simp
      then have "a = w @ drop (length w) a" by (metis append_take_drop_id)
      with \<open>x = c\<close> have "\<exists>t. x # a = (c # w) @ t" by auto
      then have "starts_with (x # a) (c # w)" by (simp add: starts_with_iff)
      with Cons.prems show False by simp
    qed
    then have le: "length a < length w" by simp
    from t have "(a @ c # w @ r) ! length a = (w @ t) ! length a" by simp
    with le have "w ! length a = c" by (simp add: nth_append)
    with assms(1) le show False by (metis nth_mem)
  qed
  with Cons show ?case by simp
qed

lemma think_open_first: "\<not> str_includes v THINK_OPEN \<Longrightarrow> index_of (v @ THINK_OPEN @ r) THINK_OPEN = Some (length v)"
  using index_of_first [of 60 "tl THINK_OPEN" v r] by (simp add: THINK_OPEN_def lit)

lemma think_close_first: "\<not> str_includes v THINK_CLOSE \<Longrightarrow> index_of (v @ THINK_CLOSE @ r) THINK_CLOSE = Some (length v)"
  using index_of_first [of 60 "tl THINK_CLOSE" v r] by (simp add: THINK_CLOSE_def lit)

lemma index_of_split: "index_of s w = Some i \<Longrightarrow> s = take i s @ w @ drop (i + length w) s"
  using index_of_Some [of s w i] by (metis append_take_drop_id append_eq_conv_conj drop_drop add.commute)

lemma index_of_clean:
  assumes "index_of s w = Some i" "w \<noteq> []"
  shows "\<not> str_includes (take i s) w"
proof
  assume "str_includes (take i s) w"
  then obtain a b where ab: "take i s = a @ w @ b" by (auto simp: includes_iff)
  then have "drop (length a) s = w @ b @ drop i s"
    by (metis append.assoc append_eq_conv_conj append_take_drop_id)
  moreover have "length a < i"
  proof -
    have "length a + length w \<le> length (take i s)" using ab by simp
    with assms(2) show ?thesis by (cases w) auto
  qed
  ultimately show False using index_of_Some [OF assms(1)] by blast
qed

text \<open>The loop returns the parts.\<close>

definition parts_of :: "jsstr \<Rightarrow> (jsstr \<times> jsstr) list \<Rightarrow> jsstr list" where
  "parts_of v segs = filter (\<lambda>p. p \<noteq> []) (v # map snd segs)"

lemma think_loop_render:
  "clean v segs rest \<Longrightarrow> think_loop (render v segs rest) =
     (parts_of v segs, map fst segs @ (case rest of None \<Rightarrow> [] | Some r \<Rightarrow> [r]), rest \<noteq> None)"
proof (induction v segs rest rule: render.induct)
  case (1 v)
  then show ?case by (simp add: think_loop.simps [of v] index_of_None [THEN iffD2] parts_of_def)
next
  case (2 v r)
  then have "index_of (v @ THINK_OPEN @ r) THINK_OPEN = Some (length v)" "index_of r THINK_CLOSE = None"
    by (simp_all add: think_open_first index_of_None)
  then show ?case by (subst think_loop.simps) (auto simp: Let_def parts_of_def)
next
  case (3 v r v' segs rest)
  let ?t = "render v' segs rest"
  have "index_of (v @ THINK_OPEN @ r @ THINK_CLOSE @ ?t) THINK_OPEN = Some (length v)"
    using 3 by (intro think_open_first) simp
  moreover have "index_of (r @ THINK_CLOSE @ ?t) THINK_CLOSE = Some (length r)"
    using 3 by (intro think_close_first) simp
  ultimately show ?case using 3 by (subst think_loop.simps) (auto simp: Let_def parts_of_def)
qed

lemma render_exists: "\<exists>v segs rest. clean v segs rest \<and> s = render v segs rest"
proof (induction s rule: measure_induct_rule [where f = length])
  case (less s)
  show ?case
  proof (cases "index_of s THINK_OPEN")
    case None
    then show ?thesis by (intro exI [of _ s] exI [of _ "[]"] exI [of _ None]) (simp add: index_of_None)
  next
    case (Some i)
    define body where "body = drop (i + 7) s"
    have s: "s = take i s @ THINK_OPEN @ body" and c: "\<not> str_includes (take i s) THINK_OPEN"
      using index_of_split [OF Some] index_of_clean [OF Some] by (simp_all add: body_def)
    show ?thesis
    proof (cases "index_of body THINK_CLOSE")
      case None
      with s c show ?thesis
        by (intro exI [of _ "take i s"] exI [of _ "[]"] exI [of _ "Some body"]) (simp add: index_of_None)
    next
      case (Some j)
      define t where "t = drop (j + 8) body"
      have b: "body = take j body @ THINK_CLOSE @ t" and d: "\<not> str_includes (take j body) THINK_CLOSE"
        using index_of_split [OF Some] index_of_clean [OF Some] by (simp_all add: t_def)
      have "length t < length s" by (subst s, subst b) simp
      from less.IH [OF this] obtain v segs rest where t: "clean v segs rest" "t = render v segs rest" by blast
      with s b c d have "clean (take i s) ((take j body, v) # segs) rest"
        "s = render (take i s) ((take j body, v) # segs) rest" by auto
      then show ?thesis by blast
    qed
  qed
qed

text \<open>Two texts cut at the first opening tag, or at the first closing tag, have the same halves.\<close>

lemma first_open_unique:
  assumes "v @ THINK_OPEN @ a = v' @ THINK_OPEN @ b" "\<not> str_includes v THINK_OPEN" "\<not> str_includes v' THINK_OPEN"
  shows "v = v' \<and> a = b"
  using assms think_open_first [OF assms(2), of a] think_open_first [OF assms(3), of b] by simp

lemma first_close_unique:
  assumes "v @ THINK_CLOSE @ a = v' @ THINK_CLOSE @ b" "\<not> str_includes v THINK_CLOSE" "\<not> str_includes v' THINK_CLOSE"
  shows "v = v' \<and> a = b"
  using assms think_close_first [OF assms(2), of a] think_close_first [OF assms(3), of b] by simp

lemma includes_mid: "str_includes (v @ w @ a) w"
  by (auto simp: includes_iff)

lemma reading_unique:
  "clean v segs rest \<Longrightarrow> clean v' segs' rest' \<Longrightarrow> render v segs rest = render v' segs' rest' \<Longrightarrow> v = v' \<and> segs = segs' \<and> rest = rest'"
proof (induction v segs rest arbitrary: v' segs' rest' rule: render.induct)
  case (1 v)
  then show ?case using includes_mid by (cases "(v', segs', rest')" rule: render.cases) auto
next
  case (2 v r)
  show ?case
  proof (cases "(v', segs', rest')" rule: render.cases)
    case (1 u)
    with 2 show ?thesis using includes_mid [of v THINK_OPEN r] by auto
  next
    case (2 u r')
    with "2.prems" show ?thesis using first_open_unique [of v r u r'] by simp
  next
    case (3 u r' u' segs'' rest'')
    with "2.prems" show ?thesis
      using first_open_unique [of v r u "r' @ THINK_CLOSE @ render u' segs'' rest''"] includes_mid [of r' THINK_CLOSE "render u' segs'' rest''"] by simp
  qed
next
  case (3 v r w segs rest)
  let ?t = "render w segs rest"
  show ?case
  proof (cases "(v', segs', rest')" rule: render.cases)
    case (1 u)
    with 3 show ?thesis using includes_mid [of v THINK_OPEN "r @ THINK_CLOSE @ ?t"] by auto
  next
    case (2 u r')
    with "3.prems" show ?thesis using first_open_unique [of v "r @ THINK_CLOSE @ ?t" u r'] includes_mid [of r THINK_CLOSE ?t] by auto
  next
    case (3 u r' u' segs'' rest'')
    let ?t' = "render u' segs'' rest''"
    have "v = u \<and> r @ THINK_CLOSE @ ?t = r' @ THINK_CLOSE @ ?t'" using "3.prems" 3 by (intro first_open_unique) simp_all
    moreover from this have "r = r' \<and> ?t = ?t'" using "3.prems" 3 by (intro first_close_unique) simp_all
    ultimately show ?thesis using "3.IH" [of u' segs'' rest''] "3.prems" 3 by simp
  qed
qed

text \<open>
  C25: every text has exactly one reading as visible and reasoning parts that are cut at the first tag
  each time; the parser returns the trimmed concatenation of the visible ones, the reasoning ones joined
  by blank lines, and whether the last tag is open. A text without a tag is returned untouched.
\<close>

theorem think_tags_parts:
  "\<exists>v segs rest. {(v, segs, rest). clean v segs rest \<and> s = render v segs rest} = {(v, segs, rest)}
    \<and> parseThinkTags s = (if segs = [] \<and> rest = None
        then \<lparr>tp_visibleContent = s, tp_reasoning = [], tp_hasUnclosedTag = False\<rparr>
        else \<lparr>tp_visibleContent = trim (concat (v # map snd segs)),
              tp_reasoning = trim (join [10, 10] (map fst segs @ (case rest of None \<Rightarrow> [] | Some r \<Rightarrow> [r]))),
              tp_hasUnclosedTag = (rest \<noteq> None)\<rparr>)"
proof -
  obtain v segs rest where r: "clean v segs rest" "s = render v segs rest" using render_exists by blast
  then have "{(v, segs, rest). clean v segs rest \<and> s = render v segs rest} = {(v, segs, rest)}"
    using reading_unique [OF r(1)] by auto
  moreover have "str_includes s THINK_OPEN \<longleftrightarrow> \<not> (segs = [] \<and> rest = None)"
    using r by (cases "(v, segs, rest)" rule: render.cases) (auto simp: includes_iff)
  moreover have "concat (filter (\<lambda>p. p \<noteq> []) ps) = concat ps" for ps :: "jsstr list" by (induction ps) auto
  ultimately show ?thesis
    using think_loop_render [OF r(1)]
    by (intro exI [of _ v] exI [of _ segs] exI [of _ rest]) (simp add: parseThinkTags_def r(2) parts_of_def del: filter.simps)
qed


subsection \<open>Chunks of a stream\<close>

abbreviation content_of :: "message \<Rightarrow> jsstr" where
  "content_of m \<equiv> mv_content (getCurrentVersion m)"

definition stream_all :: "message \<Rightarrow> jsstr list \<Rightarrow> message" where
  "stream_all m chunks = foldl (\<lambda>m c. processStreamingContent m (Some c)) m chunks"

text \<open>What processing keeps: every field but the version, the reasoning and its flag.\<close>

definition same_frame :: "message \<Rightarrow> message \<Rightarrow> bool" where
  "same_frame m n \<longleftrightarrow> m\<lparr>m_versions := [], m_reasoning := None, m_isReasoningStreaming := None\<rparr>
     = n\<lparr>m_versions := [], m_reasoning := None, m_isReasoningStreaming := None\<rparr>
     \<and> mv_id (getCurrentVersion m) = mv_id (getCurrentVersion n)"

lemma process_content [simp]:
  "getCurrentVersion (processStreamingContent m (Some c)) = (getCurrentVersion m)\<lparr>mv_content := content_of m @ c\<rparr>"
  by (simp add: processStreamingContent_def updateCurrentVersionContent_def getCurrentVersion_def Let_def)

lemma process_frame: "same_frame (processStreamingContent m (Some c)) m"
  by (simp add: same_frame_def) (simp add: processStreamingContent_def updateCurrentVersionContent_def Let_def)

lemma stream_all_frame: "same_frame (stream_all m cs) m \<and> content_of (stream_all m cs) = content_of m @ concat cs"
proof (induction cs rule: rev_induct)
  case (snoc c cs)
  then show ?case
    using process_frame [of "stream_all m cs" c] by (simp add: stream_all_def) (simp add: same_frame_def)
qed (simp add: stream_all_def same_frame_def)

text \<open>A chunk whose result has reasoning of its own does not depend on the earlier reasoning.\<close>

lemma process_determined:
  assumes "same_frame m n" "content_of m @ c = content_of n @ d" "tp_reasoning (parseThinkTags (content_of n @ d)) \<noteq> []"
  shows "processStreamingContent m (Some c) = processStreamingContent n (Some d)"
proof -
  have "mv_id (getCurrentVersion m) = mv_id (getCurrentVersion n)" using assms(1) by (simp add: same_frame_def)
  then have "(getCurrentVersion m)\<lparr>mv_content := x\<rparr> = (getCurrentVersion n)\<lparr>mv_content := x\<rparr>" for x by simp
  moreover have "m\<lparr>m_versions := v, m_reasoning := r, m_isReasoningStreaming := b\<rparr>
      = n\<lparr>m_versions := v, m_reasoning := r, m_isReasoningStreaming := b\<rparr>" for v r b
    using assms(1) by (cases m; cases n) (simp add: same_frame_def)
  ultimately show ?thesis
    using assms(2,3) by (simp add: processStreamingContent_def updateCurrentVersionContent_def Let_def)
qed

text \<open>
  C26: How a stream is cut into chunks does not matter: the content after all chunks is their
  concatenation, and when the whole text has reasoning in it the resulting message is the one that
  a single chunk with the whole text gives.
\<close>

theorem stream_chunking:
  assumes "chunks \<noteq> []" "tp_reasoning (parseThinkTags (content_of m @ concat chunks)) \<noteq> []"
  shows "content_of (stream_all m chunks) = content_of m @ concat chunks
    \<and> stream_all m chunks = processStreamingContent m (Some (concat chunks))"
proof -
  obtain cs c where cs: "chunks = cs @ [c]" using assms(1) by (cases chunks rule: rev_cases) auto
  have "stream_all m chunks = processStreamingContent (stream_all m cs) (Some c)"
    by (simp add: stream_all_def cs)
  also have "\<dots> = processStreamingContent m (Some (concat chunks))"
    using stream_all_frame [of m cs] assms(2) by (intro process_determined) (auto simp: cs)
  finally show ?thesis using stream_all_frame [of m chunks] by blast
qed

theorem stream_chunking_witness:
  "stream_all (createLoadingAssistantMessage (js ''k'') (js ''v'')) [js ''<thi'', js ''nk>a</think>b''] =
     processStreamingContent (createLoadingAssistantMessage (js ''k'') (js ''v'')) (Some (js ''<think>a</think>b''))"
proof -
  let ?m = "createLoadingAssistantMessage (js ''k'') (js ''v'')" and ?cs = "[js ''<thi'', js ''nk>a</think>b'']"
  have c: "concat ?cs = js ''<think>a</think>b''" by (simp add: lit)
  have "tp_reasoning (parseThinkTags (content_of ?m @ js ''<think>a</think>b'')) \<noteq> []" by code_simp
  then show ?thesis using stream_chunking [of ?cs ?m] unfolding c by simp
qed

text \<open>
  Without reasoning in the whole text the cut does matter: an empty block of reasoning whose
  closing tag arrives in two chunks leaves the first half of the tag as the reasoning of the
  finished message, while the same text in one chunk leaves none.
\<close>

theorem split_closing_tag:
  "m_reasoning (finalizeMessage (stream_all (createLoadingAssistantMessage k v) [js ''<think></th'', js ''ink>Hi'']) None) =
     Some \<lparr>mr_content = js ''</th'', mr_duration = Fin 0\<rparr>
   \<and> m_reasoning (finalizeMessage (stream_all (createLoadingAssistantMessage k v) [js ''<think></think>Hi'']) None) = None"
proof -
  have p: "parseThinkTags (js ''<think></th'') =
        \<lparr>tp_visibleContent = [], tp_reasoning = js ''</th'', tp_hasUnclosedTag = True\<rparr>"
      "parseThinkTags (js ''<think></think>Hi'') =
        \<lparr>tp_visibleContent = js ''Hi'', tp_reasoning = [], tp_hasUnclosedTag = False\<rparr>"
      "js ''<think></th'' @ js ''ink>Hi'' = js ''<think></think>Hi''"
    by code_simp+
  show ?thesis
    by (simp add: stream_all_def processStreamingContent_def finalizeMessage_def updateCurrentVersionContent_def
        getCurrentVersion_def createLoadingAssistantMessage_def createMessageVersion_def p first_nonempty_def or_zero_def)
qed

subsection \<open>Finishing and repairing messages\<close>

lemma stuck_from_Some:
  "stuck_from ms n = Some i \<Longrightarrow> i < n \<and> stuck (ms ! i) \<and> (\<forall>j. i < j \<and> j < n \<longrightarrow> \<not> stuck (ms ! j))"
  by (induction ms n rule: stuck_from.induct) (auto split: if_splits simp: less_Suc_eq)

lemma stuck_from_None: "stuck_from ms n = None \<longleftrightarrow> (\<forall>j < n. \<not> stuck (ms ! j))"
  by (induction ms n rule: stuck_from.induct) (auto simp: less_Suc_eq)

lemma sanitize_one_stable:
  "\<not> stuck (sanitize_one m) \<and> m_key (sanitize_one m) = m_key m \<and> m_from (sanitize_one m) = m_from m
   \<and> m_isReasoningStreaming (sanitize_one m) = Some False
   \<and> (trim (content_of (sanitize_one m)) \<noteq> []
      \<or> (\<exists>r. m_reasoning (sanitize_one m) = Some r \<and> trim (mr_content r) \<noteq> []))"
proof -
  have "trim (API_REQUEST_ERROR @ js '': '' @ INTERRUPTED) \<noteq> []" by code_simp
  then show ?thesis
    by (auto simp: sanitize_one_def Let_def stuck_def updateCurrentVersionContent_def getCurrentVersion_def
        finalizeMessage_def split: option.splits)
qed

text \<open>
  C27: Loading a stored conversation repairs the last message that was cut off, and only that one: it
  becomes complete or an error with something to show, every other message and the order stay, and
  one message fewer is stuck. A message that was cut off before it stays stuck.
\<close>

theorem sanitize_on_load:
  "case stuck_from ms (length ms) of
     None \<Rightarrow> sanitizeMessagesOnLoad ms = ms \<and> (\<forall>m \<in> set ms. \<not> stuck m)
   | Some i \<Rightarrow> i < length ms \<and> stuck (ms ! i) \<and> (\<forall>j. i < j \<and> j < length ms \<longrightarrow> \<not> stuck (ms ! j))
       \<and> (\<forall>j < length ms. j \<noteq> i \<longrightarrow> sanitizeMessagesOnLoad ms ! j = ms ! j)
       \<and> map m_key (sanitizeMessagesOnLoad ms) = map m_key ms
       \<and> (let m = sanitizeMessagesOnLoad ms ! i in
            (m_status m = Some StatusComplete \<or> m_status m = Some StatusError)
            \<and> (trim (content_of m) \<noteq> [] \<or> (\<exists>r. m_reasoning m = Some r \<and> trim (mr_content r) \<noteq> [])))
       \<and> Suc (length (filter stuck (sanitizeMessagesOnLoad ms))) = length (filter stuck ms)"
proof (cases "stuck_from ms (length ms)")
  case None
  then have "\<forall>m \<in> set ms. \<not> stuck m" by (auto simp: stuck_from_None in_set_conv_nth)
  then show ?thesis by (simp add: sanitizeMessagesOnLoad_def None)
next
  case (Some i)
  note i = stuck_from_Some [OF Some]
  let ?m = "sanitize_one (ms ! i)"
  have s: "sanitizeMessagesOnLoad ms = ms[i := ?m]" by (simp add: sanitizeMessagesOnLoad_def Some)
  have st: "m_status ?m = Some StatusComplete \<or> m_status ?m = Some StatusError"
    by (simp add: sanitize_one_def Let_def)
  have split: "ms = take i ms @ (ms ! i) # drop (Suc i) ms" using i by (simp add: id_take_nth_drop)
  have "length (filter stuck (ms[i := ?m])) = length (filter stuck (take i ms @ drop (Suc i) ms))"
    using i sanitize_one_stable [of "ms ! i"] by (simp add: upd_conv_take_nth_drop)
  moreover have "length (filter stuck ms) = Suc (length (filter stuck (take i ms @ drop (Suc i) ms)))"
    using i by (subst split) simp
  moreover have "map m_key (ms[i := ?m]) = map m_key ms"
    using i sanitize_one_stable [of "ms ! i"] by (simp add: map_update list_update_same_conv)
  ultimately show ?thesis
    using i st sanitize_one_stable [of "ms ! i"] by (simp add: s Some Let_def)
qed

theorem sanitize_on_load_witness:
  "case stuck_from [createLoadingAssistantMessage (js ''k'') (js ''v'')] 1 of
     None \<Rightarrow> False
   | Some i \<Rightarrow> m_status (sanitizeMessagesOnLoad [createLoadingAssistantMessage (js ''k'') (js ''v'')] ! i) = Some StatusError"
proof -
  let ?ms = "[createLoadingAssistantMessage (js ''k'') (js ''v'')]"
  have "stuck_from ?ms 1 = Some 0" by code_simp
  moreover have "m_status (sanitizeMessagesOnLoad ?ms ! 0) = Some StatusError" by code_simp
  ultimately show ?thesis using sanitize_on_load [of ?ms] by simp
qed

end
