(* ===== verification/JsObject.thy ===== *)
theory JsObject
  imports JsJsonPrint "HOL-Library.AList"
begin

text \<open>
  JavaScript objects that come from JSON, as lists of their properties: the spread operator, property
  access, truth values, and the view of an object as a map.
\<close>

subsection \<open>Objects\<close>

type_synonym js_obj = "(jsstr \<times> json) list"

text \<open>The properties that \<^verbatim>\<open>{...v}\<close> copies from a value.\<close>

definition indexed :: "json list \<Rightarrow> js_obj" where
  "indexed vs = zip (map show_nat [0..<length vs]) vs"

definition spread_entries :: "json \<Rightarrow> js_obj" where
  "spread_entries v = (case v of
      JObj kvs \<Rightarrow> own_entries kvs
    | JArr vs \<Rightarrow> indexed vs
    | JStr s \<Rightarrow> indexed (map (\<lambda>c. JStr [c]) s)
    | _ \<Rightarrow> [])"

definition spread :: "js_obj \<Rightarrow> json \<Rightarrow> js_obj" where
  "spread base v = foldl (\<lambda>o1 (k, x). obj_set o1 k x) base (spread_entries v)"

definition js_true :: "json option \<Rightarrow> bool" where
  "js_true v = (case v of
      None \<Rightarrow> False | Some JNull \<Rightarrow> False | Some (JBool b) \<Rightarrow> b
    | Some (JNum x) \<Rightarrow> x \<noteq> NaN \<and> x \<noteq> Fin 0 | Some (JStr s) \<Rightarrow> s \<noteq> [] | _ \<Rightarrow> True)"

subsection \<open>Property access\<close>

text \<open>\<^verbatim>\<open>undefined\<close> is \<open>None\<close>. The names read here are no methods of arrays, strings or numbers.\<close>

definition get_member :: "json \<Rightarrow> jsstr \<Rightarrow> json option" where
  "get_member v k = (case v of JObj kvs \<Rightarrow> map_of kvs k | _ \<Rightarrow> None)"

definition opt_member :: "json option \<Rightarrow> jsstr \<Rightarrow> json option" where
  "opt_member v k = (case v of None \<Rightarrow> None | Some x \<Rightarrow> get_member x k)"

definition opt_first :: "json option \<Rightarrow> json option" where
  "opt_first v = (case v of
      Some (JArr (x # _)) \<Rightarrow> Some x
    | Some (JObj kvs) \<Rightarrow> map_of kvs (js ''0'')
    | Some (JStr (c # _)) \<Rightarrow> Some (JStr [c])
    | _ \<Rightarrow> None)"

text \<open>A value declared as a string; another value appears as its string form.\<close>

definition text_of :: "json \<Rightarrow> jsstr" where
  "text_of v = (case v of JStr s \<Rightarrow> s | _ \<Rightarrow> (case json_to_string v of Inr s \<Rightarrow> s | Inl _ \<Rightarrow> []))"

definition truthy_text :: "json option \<Rightarrow> jsstr option" where
  "truthy_text v = (case v of None \<Rightarrow> None | Some x \<Rightarrow> if js_true v then Some (text_of x) else None)"

subsection \<open>Optional properties\<close>

definition opt_field :: "jsstr \<Rightarrow> json option \<Rightarrow> js_obj" where
  "opt_field k v = (case v of None \<Rightarrow> [] | Some x \<Rightarrow> [(k, x)])"

lemma map_of_opt_field_other: "k \<noteq> k' \<Longrightarrow> map_of (opt_field k v @ r) k' = map_of r k'"
  by (cases v) (simp_all add: opt_field_def)

lemma map_of_opt_field_same: "map_of r k = None \<Longrightarrow> map_of (opt_field k v @ r) k = v"
  by (cases v) (simp_all add: opt_field_def)

lemma map_of_opt_field_last: "map_of (opt_field k v) k' = (if k = k' then v else None)"
  by (cases v) (simp_all add: opt_field_def)

subsection \<open>Objects as maps\<close>

lemma map_of_obj_set: "map_of (obj_set kvs k v) = (map_of kvs)(k \<mapsto> v)"
proof (cases "k \<in> fst ` set kvs")
  case True
  have "map_of (map (\<lambda>(k', v'). if k' = k then (k, v) else (k', v')) kvs) = (\<lambda>x. if x = k then (if k \<in> fst ` set kvs then Some v else None) else map_of kvs x)"
    by (induction kvs) auto
  with True show ?thesis by (auto simp: obj_set_def)
next
  case False
  then have "map_of kvs k = None" by (simp add: map_of_eq_None_iff)
  with False show ?thesis by (auto simp: obj_set_def map_add_def fun_eq_iff split: option.split)
qed

lemma keys_obj_set: "fst ` set (obj_set kvs k v) = insert k (fst ` set kvs)"
  by (force simp: obj_set_def)

lemma distinct_obj_set: "distinct (map fst kvs) \<Longrightarrow> distinct (map fst (obj_set kvs k v))"
proof -
  assume d: "distinct (map fst kvs)"
  have h: "map fst (map (\<lambda>(k', v'). if k' = k then (k, v) else (k', v')) kvs) = map fst kvs" by (induction kvs) auto
  show ?thesis
  proof (cases "k \<in> fst ` set kvs")
    case True
    then have "map fst (obj_set kvs k v) = map fst kvs" unfolding obj_set_def using h by (simp only: if_True)
    with d show ?thesis by simp
  qed (use d in \<open>simp add: obj_set_def\<close>)
qed

lemma map_of_own_entries: "distinct (map fst kvs) \<Longrightarrow> map_of (own_entries kvs) = map_of kvs"
  by (simp add: map_of_inject_set distinct_own_entries)

lemma map_of_foldl_set:
  "distinct (map fst kvs) \<Longrightarrow> map_of (foldl (\<lambda>o1 (k, x). obj_set o1 k x) base kvs) = map_of base ++ map_of kvs"
proof (induction kvs arbitrary: base)
  case (Cons kv kvs)
  obtain k v where kv: "kv = (k, v)" by (cases kv)
  with Cons.prems have "k \<notin> dom (map_of kvs)" by (simp add: dom_map_of_conv_image_fst)
  with Cons show ?case by (auto simp: kv map_of_obj_set map_add_upd_left map_add_def fun_eq_iff split: option.split)
qed simp

lemma map_of_spread:
  "distinct (map fst kvs) \<Longrightarrow> map_of (spread base (JObj kvs)) = map_of base ++ map_of kvs"
  by (simp add: spread_def spread_entries_def map_of_foldl_set distinct_own_entries map_of_own_entries)

lemma nonindex: "k \<noteq> [] \<Longrightarrow> \<not> is_digit (hd k) \<Longrightarrow> \<not> is_array_index k"
  by (auto simp: is_array_index_def list_all_iff)

lemma canon_obj_id:
  "(\<And>k v. (k, v) \<in> set kvs \<Longrightarrow> \<not> is_array_index k \<and> canon v = v) \<Longrightarrow> canon (JObj kvs) = JObj kvs"
proof -
  assume h: "\<And>k v. (k, v) \<in> set kvs \<Longrightarrow> \<not> is_array_index k \<and> canon v = v"
  then have "canon_members kvs = kvs" by (auto simp: canon_members_map intro!: map_idI)
  with h show ?thesis by (simp add: own_entries_id)
qed

lemma elems_ok_iff: "elems_ok vs \<longleftrightarrow> (\<forall>v \<in> set vs. json_ok v)"
  by (induction vs) auto

text \<open>A loop over entries with distinct keys in which each step changes its own key only.\<close>

lemma foldl_keyed:
  assumes "distinct (map fst es)" "\<And>r k v. (k, v) \<in> set es \<Longrightarrow> map_of (step r (k, v)) = (map_of r)(k := g k v (map_of r k))"
  shows "map_of (foldl step r es) k = (case map_of es k of None \<Rightarrow> map_of r k | Some v \<Rightarrow> g k v (map_of r k))"
  using assms
proof (induction es arbitrary: r)
  case (Cons e es)
  obtain k' v where e: "e = (k', v)" by (cases e)
  have IH: "map_of (foldl step (step r e) es) k = (case map_of es k of None \<Rightarrow> map_of (step r e) k | Some v \<Rightarrow> g k v (map_of (step r e) k))"
    using Cons.prems by (intro Cons.IH) auto
  have s: "map_of (step r e) = (map_of r)(k' := g k' v (map_of r k'))" unfolding e by (rule Cons.prems(2)) (simp add: e)
  have "map_of es k' = None" using Cons.prems(1) by (simp add: e map_of_eq_None_iff)
  with IH s show ?case by (simp add: e split: option.split)
qed simp

text \<open>A printed object is read back as the same map.\<close>

lemma parse_saved_object:
  assumes "json_ok (JObj kvs)"
  shows "\<exists>es. json_parse (json_stringify [] (JObj kvs)) = Inr (JObj es) \<and> distinct (map fst es)
    \<and> map_of es = (\<lambda>x. map_option canon (map_of kvs x))"
proof -
  have "json_parse (json_stringify [] (JObj kvs)) = Inr (JObj (own_entries (canon_members kvs)))"
    using json_parse_stringify [OF assms, of "[]"] by simp
  moreover have "distinct (map fst (canon_members kvs))"
    using assms by (simp add: canon_members_map comp_def split_def)
  moreover have "map_of (canon_members kvs) = (\<lambda>x. map_option canon (map_of kvs x))"
    by (simp add: canon_members_map map_of_map fun_eq_iff)
  ultimately show ?thesis
    by (intro exI [of _ "own_entries (canon_members kvs)"]) (simp add: distinct_own_entries map_of_own_entries)
qed

lemma spread_entries_obj:
  assumes "distinct (map fst es)"
  shows "distinct (map fst (spread_entries (JObj es)))" "map_of (spread_entries (JObj es)) = map_of es"
  using assms by (simp_all add: spread_entries_def distinct_own_entries map_of_own_entries)

subsection \<open>Browser storage\<close>

type_synonym storage = "jsstr \<rightharpoonup> jsstr"

type_synonym quota = "storage \<Rightarrow> jsstr \<Rightarrow> jsstr \<Rightarrow> bool"

text \<open>\<^verbatim>\<open>setItem\<close> inside \<^verbatim>\<open>try\<close>: a refused write changes nothing.\<close>

definition set_item :: "quota \<Rightarrow> jsstr \<Rightarrow> jsstr \<Rightarrow> storage \<Rightarrow> storage" where
  "set_item accepts k v st = (if accepts st k v then st(k \<mapsto> v) else st)"

lemma set_item_frame: "k \<noteq> key \<Longrightarrow> set_item q key v st k = st k"
  by (simp add: set_item_def)

end
