(* ===== verification/PlaygroundStorage.thy ===== *)
theory PlaygroundStorage
  imports PlaygroundMessages JsObject "HOL-Library.Monad_Syntax"
begin

text \<open>
  Persistence of the playground (\<^verbatim>\<open>lib/storage.ts\<close>, \<^verbatim>\<open>hooks/use-playground-state.ts\<close>) and the
  request payload (\<^verbatim>\<open>lib/payload-builder.ts\<close>). Configurations are JavaScript objects, kept as
  their properties. The browser storage is a map from keys to texts; whether it accepts a write
  (the quota) is the argument \<open>accepts\<close>.
\<close>

subsection \<open>Constants\<close>

definition STORAGE_CONFIG :: jsstr where "STORAGE_CONFIG = js ''playground_config''"
definition STORAGE_MESSAGES :: jsstr where "STORAGE_MESSAGES = js ''playground_messages''"
definition STORAGE_PARAMETER_ENABLED :: jsstr where "STORAGE_PARAMETER_ENABLED = js ''playground_parameter_enabled''"

definition DEFAULT_GROUP :: jsstr where "DEFAULT_GROUP = js ''default''"

definition DEFAULT_CONFIG :: js_obj where
  "DEFAULT_CONFIG =
     [(js ''model'', JStr (js ''gpt-4o'')), (js ''group'', JStr DEFAULT_GROUP),
      (js ''temperature'', JNum (rnd (7 / 10))), (js ''top_p'', JNum (Fin 1)), (js ''max_tokens'', JNum (Fin 4096)),
      (js ''frequency_penalty'', JNum (Fin 0)), (js ''presence_penalty'', JNum (Fin 0)),
      (js ''seed'', JNull), (js ''stream'', JBool True)]"

definition DEFAULT_PARAMETER_ENABLED :: js_obj where
  "DEFAULT_PARAMETER_ENABLED =
     [(js ''temperature'', JBool True), (js ''top_p'', JBool True), (js ''max_tokens'', JBool False),
      (js ''frequency_penalty'', JBool True), (js ''presence_penalty'', JBool True), (js ''seed'', JBool False)]"

subsection \<open>The stored form of messages\<close>

definition encode_version :: "message_version \<Rightarrow> json" where
  "encode_version v = JObj [(js ''id'', JStr (mv_id v)), (js ''content'', JStr (mv_content v))]"

definition encode_source :: "msg_source \<Rightarrow> json" where
  "encode_source s = JObj [(js ''href'', JStr (ms_href s)), (js ''title'', JStr (ms_title s))]"

definition encode_reasoning :: "msg_reasoning \<Rightarrow> json" where
  "encode_reasoning r = JObj [(js ''content'', JStr (mr_content r)), (js ''duration'', JNum (mr_duration r))]"

definition encode_message :: "message \<Rightarrow> json" where
  "encode_message m = JObj (
     [(js ''key'', JStr (m_key m)), (js ''from'', JStr (role_name (m_from m))),
      (js ''versions'', JArr (map encode_version (m_versions m)))]
     @ opt_field (js ''sources'') (map_option (\<lambda>ss. JArr (map encode_source ss)) (m_sources m))
     @ opt_field (js ''reasoning'') (map_option encode_reasoning (m_reasoning m))
     @ opt_field (js ''isReasoningStreaming'') (map_option JBool (m_isReasoningStreaming m))
     @ opt_field (js ''isReasoningComplete'') (map_option JBool (m_isReasoningComplete m))
     @ opt_field (js ''isContentComplete'') (map_option JBool (m_isContentComplete m))
     @ opt_field (js ''status'') (map_option (\<lambda>s. JStr (status_name s)) (m_status m))
     @ opt_field (js ''errorCode'') (map_option (\<lambda>c. case c of None \<Rightarrow> JNull | Some e \<Rightarrow> JStr e) (m_errorCode m)))"

definition get_str :: "js_obj \<Rightarrow> jsstr \<Rightarrow> jsstr option" where
  "get_str kvs k = (case map_of kvs k of Some (JStr s) \<Rightarrow> Some s | _ \<Rightarrow> None)"

definition get_list :: "(json \<Rightarrow> 'a option) \<Rightarrow> js_obj \<Rightarrow> jsstr \<Rightarrow> 'a list option" where
  "get_list dec kvs k = (case map_of kvs k of Some (JArr vs) \<Rightarrow> those (map dec vs) | _ \<Rightarrow> None)"

text \<open>An optional property: \<open>Some None\<close> when it is missing.\<close>

definition get_opt :: "(json \<Rightarrow> 'a option) \<Rightarrow> js_obj \<Rightarrow> jsstr \<Rightarrow> 'a option option" where
  "get_opt dec kvs k = (case map_of kvs k of None \<Rightarrow> Some None | Some v \<Rightarrow> map_option Some (dec v))"

definition decode_bool :: "json \<Rightarrow> bool option" where
  "decode_bool v = (case v of JBool b \<Rightarrow> Some b | _ \<Rightarrow> None)"

definition decode_version :: "json \<Rightarrow> message_version option" where
  "decode_version v = (case v of
      JObj kvs \<Rightarrow> do { i \<leftarrow> get_str kvs (js ''id''); c \<leftarrow> get_str kvs (js ''content''); Some \<lparr>mv_id = i, mv_content = c\<rparr> }
    | _ \<Rightarrow> None)"

definition decode_source :: "json \<Rightarrow> msg_source option" where
  "decode_source v = (case v of
      JObj kvs \<Rightarrow> do { h \<leftarrow> get_str kvs (js ''href''); t \<leftarrow> get_str kvs (js ''title''); Some \<lparr>ms_href = h, ms_title = t\<rparr> }
    | _ \<Rightarrow> None)"

definition decode_sources :: "json \<Rightarrow> msg_source list option" where
  "decode_sources v = (case v of JArr vs \<Rightarrow> those (map decode_source vs) | _ \<Rightarrow> None)"

definition decode_reasoning :: "json \<Rightarrow> msg_reasoning option" where
  "decode_reasoning v = (case v of
      JObj kvs \<Rightarrow> do { c \<leftarrow> get_str kvs (js ''content'');
        (case map_of kvs (js ''duration'') of Some (JNum d) \<Rightarrow> Some \<lparr>mr_content = c, mr_duration = d\<rparr> | _ \<Rightarrow> None) }
    | _ \<Rightarrow> None)"

definition decode_role :: "jsstr \<Rightarrow> message_role option" where
  "decode_role s = find (\<lambda>r. role_name r = s) [RoleUser, RoleAssistant, RoleSystem]"

definition decode_status :: "json \<Rightarrow> message_status option" where
  "decode_status v = (case v of
      JStr s \<Rightarrow> find (\<lambda>t. status_name t = s) [StatusLoading, StatusStreaming, StatusComplete, StatusError]
    | _ \<Rightarrow> None)"

definition decode_code :: "json \<Rightarrow> jsstr option option" where
  "decode_code v = (case v of JNull \<Rightarrow> Some None | JStr e \<Rightarrow> Some (Some e) | _ \<Rightarrow> None)"

definition decode_message :: "json \<Rightarrow> message option" where
  "decode_message v = (case v of
      JObj kvs \<Rightarrow> do {
        k \<leftarrow> get_str kvs (js ''key'');
        f \<leftarrow> Option.bind (get_str kvs (js ''from'')) decode_role;
        vs \<leftarrow> get_list decode_version kvs (js ''versions'');
        ss \<leftarrow> get_opt decode_sources kvs (js ''sources'');
        r \<leftarrow> get_opt decode_reasoning kvs (js ''reasoning'');
        b1 \<leftarrow> get_opt decode_bool kvs (js ''isReasoningStreaming'');
        b2 \<leftarrow> get_opt decode_bool kvs (js ''isReasoningComplete'');
        b3 \<leftarrow> get_opt decode_bool kvs (js ''isContentComplete'');
        st \<leftarrow> get_opt decode_status kvs (js ''status'');
        c \<leftarrow> get_opt decode_code kvs (js ''errorCode'');
        Some \<lparr>m_key = k, m_from = f, m_versions = vs, m_sources = ss, m_reasoning = r, m_isReasoningStreaming = b1,
          m_isReasoningComplete = b2, m_isContentComplete = b3, m_status = st, m_errorCode = c\<rparr> }
    | _ \<Rightarrow> None)"

subsection \<open>Loading and saving\<close>

definition load_object :: "jsstr \<Rightarrow> storage \<Rightarrow> json" where
  "load_object k st = (case st k of
      None \<Rightarrow> JObj []
    | Some saved \<Rightarrow> if saved = [] then JObj []
        else (case json_parse saved of Inr v \<Rightarrow> v | Inl _ \<Rightarrow> JObj []))"

definition loadConfig :: "storage \<Rightarrow> json" where
  "loadConfig st = load_object STORAGE_CONFIG st"

definition saveConfig :: "quota \<Rightarrow> js_obj \<Rightarrow> storage \<Rightarrow> storage" where
  "saveConfig accepts config st = set_item accepts STORAGE_CONFIG (json_stringify [] (JObj config)) st"

definition loadParameterEnabled :: "storage \<Rightarrow> json" where
  "loadParameterEnabled st = load_object STORAGE_PARAMETER_ENABLED st"

definition saveParameterEnabled :: "quota \<Rightarrow> js_obj \<Rightarrow> storage \<Rightarrow> storage" where
  "saveParameterEnabled accepts params st =
     set_item accepts STORAGE_PARAMETER_ENABLED (json_stringify [] (JObj params)) st"

definition saveMessages :: "quota \<Rightarrow> message list \<Rightarrow> storage \<Rightarrow> storage" where
  "saveMessages accepts messages st =
     set_item accepts STORAGE_MESSAGES (json_stringify [] (JArr (map encode_message messages))) st"

text \<open>
  The stored array is cast to messages without a check; an element that is no message is outside
  the declared type, and the model then returns \<^verbatim>\<open>null\<close>. A repaired list is saved again.
\<close>

definition loadMessages :: "quota \<Rightarrow> storage \<Rightarrow> message list option \<times> storage" where
  "loadMessages accepts st = (case st STORAGE_MESSAGES of
      None \<Rightarrow> (None, st)
    | Some saved \<Rightarrow> if saved = [] then (None, st)
        else (case json_parse saved of
          Inr (JArr vs) \<Rightarrow> (case those (map decode_message vs) of
              None \<Rightarrow> (None, st)
            | Some parsed \<Rightarrow> (Some (sanitizeMessagesOnLoad parsed),
                if stuck_from parsed (length parsed) = None then st
                else saveMessages accepts (sanitizeMessagesOnLoad parsed) st))
        | _ \<Rightarrow> (None, st)))"

definition clearPlaygroundData :: "storage \<Rightarrow> storage" where
  "clearPlaygroundData st = st(STORAGE_CONFIG := None, STORAGE_PARAMETER_ENABLED := None, STORAGE_MESSAGES := None)"

subsection \<open>The state of the page\<close>

record playground =
  pg_config :: js_obj
  pg_parameterEnabled :: js_obj
  pg_messages :: "message list"
  pg_store :: storage

definition init_playground :: "quota \<Rightarrow> storage \<Rightarrow> playground" where
  "init_playground accepts st = (case loadMessages accepts st of (messages, st') \<Rightarrow>
     \<lparr>pg_config = spread DEFAULT_CONFIG (loadConfig st),
      pg_parameterEnabled = spread DEFAULT_PARAMETER_ENABLED (loadParameterEnabled st),
      pg_messages = (case messages of None \<Rightarrow> [] | Some ms \<Rightarrow> ms),
      pg_store = st'\<rparr>)"

definition updateConfig :: "quota \<Rightarrow> jsstr \<Rightarrow> json \<Rightarrow> playground \<Rightarrow> playground" where
  "updateConfig accepts key value p =
     (let updated = obj_set (pg_config p) key value
      in p\<lparr>pg_config := updated, pg_store := saveConfig accepts updated (pg_store p)\<rparr>)"

definition updateParameterEnabled :: "quota \<Rightarrow> jsstr \<Rightarrow> bool \<Rightarrow> playground \<Rightarrow> playground" where
  "updateParameterEnabled accepts key value p =
     (let updated = obj_set (pg_parameterEnabled p) key (JBool value)
      in p\<lparr>pg_parameterEnabled := updated, pg_store := saveParameterEnabled accepts updated (pg_store p)\<rparr>)"

definition updateMessages :: "quota \<Rightarrow> (message list \<Rightarrow> message list) \<Rightarrow> playground \<Rightarrow> playground" where
  "updateMessages accepts updater p =
     (let newMessages = updater (pg_messages p)
      in p\<lparr>pg_messages := newMessages, pg_store := saveMessages accepts newMessages (pg_store p)\<rparr>)"

definition clearMessages :: "quota \<Rightarrow> playground \<Rightarrow> playground" where
  "clearMessages accepts p = updateMessages accepts (\<lambda>_. []) p"

definition resetConfig :: "quota \<Rightarrow> playground \<Rightarrow> playground" where
  "resetConfig accepts p =
     p\<lparr>pg_config := DEFAULT_CONFIG, pg_parameterEnabled := DEFAULT_PARAMETER_ENABLED,
       pg_store := saveParameterEnabled accepts DEFAULT_PARAMETER_ENABLED (saveConfig accepts DEFAULT_CONFIG (pg_store p))\<rparr>"

subsection \<open>The request payload\<close>

definition encode_chat_message :: "message \<Rightarrow> json" where
  "encode_chat_message m =
     JObj [(js ''role'', JStr (role_name (cm_role (formatMessageForAPI m)))),
           (js ''content'', JStr (getTextContent (cm_content (formatMessageForAPI m))))]"

definition parameterKeys :: "jsstr list" where
  "parameterKeys = [js ''temperature'', js ''top_p'', js ''max_tokens'', js ''frequency_penalty'',
     js ''presence_penalty'', js ''seed'']"

definition add_parameter :: "js_obj \<Rightarrow> js_obj \<Rightarrow> js_obj \<Rightarrow> jsstr \<Rightarrow> js_obj" where
  "add_parameter config params payload key =
     (if js_true (map_of params key) then
        (case map_of config key of
           None \<Rightarrow> payload | Some JNull \<Rightarrow> payload | Some value \<Rightarrow> obj_set payload key value)
      else payload)"

text \<open>A property that the configuration lacks is \<^verbatim>\<open>undefined\<close> and left out by the request.\<close>

definition buildChatCompletionPayload :: "message list \<Rightarrow> js_obj \<Rightarrow> js_obj \<Rightarrow> js_obj" where
  "buildChatCompletionPayload messages config params =
     foldl (add_parameter config params)
       (opt_field (js ''model'') (map_of config (js ''model'')) @ opt_field (js ''group'') (map_of config (js ''group''))
        @ [(js ''messages'', JArr (map encode_chat_message (filter isValidMessage messages)))]
        @ opt_field (js ''stream'') (map_of config (js ''stream'')))
       parameterKeys"


subsection \<open>Stored objects\<close>

text \<open>A stored object comes back as the same map, with the values in printing order.\<close>

lemma load_object_saved:
  assumes "json_ok (JObj kvs)" "st k = Some (json_stringify [] (JObj kvs))"
  shows "\<exists>kvs'. load_object k st = JObj kvs' \<and> distinct (map fst kvs')
    \<and> map_of kvs' = (\<lambda>x. map_option canon (map_of kvs x))"
proof -
  obtain kvs' where k: "json_parse (json_stringify [] (JObj kvs)) = Inr (JObj kvs')" "distinct (map fst kvs')"
    "map_of kvs' = (\<lambda>x. map_option canon (map_of kvs x))" using parse_saved_object [OF assms(1)] by blast
  moreover have "json_stringify [] (JObj kvs) \<noteq> []" by (simp add: json_stringify_def)
  ultimately have "load_object k st = JObj kvs'" using assms(2) by (simp add: load_object_def)
  with k show ?thesis by blast
qed

subsection \<open>Stored messages\<close>

lemma decode_version_encode [simp]: "decode_version (encode_version v) = Some v"
  by (simp add: decode_version_def encode_version_def get_str_def)

lemma decode_source_encode [simp]: "decode_source (encode_source v) = Some v"
  by (simp add: decode_source_def encode_source_def get_str_def)

lemma decode_reasoning_encode [simp]: "decode_reasoning (encode_reasoning v) = Some v"
  by (simp add: decode_reasoning_def encode_reasoning_def get_str_def)

lemma decode_role_name [simp]: "decode_role (role_name r) = Some r"
  by (cases r) (simp_all add: decode_role_def role_name_def)

lemma decode_status_name [simp]: "decode_status (JStr (status_name s)) = Some s"
  by (cases s) (simp_all add: decode_status_def status_name_def)

lemma those_map_inverse: "(\<And>x. x \<in> set xs \<Longrightarrow> dec (enc x) = Some x) \<Longrightarrow> those (map dec (map enc xs)) = Some xs"
  by (induction xs) simp_all

lemma get_opt_map:
  assumes "map_of kvs k = map_option f x" "\<And>y. dec (f y) = Some y"
  shows "get_opt dec kvs k = Some x"
  using assms by (cases x) (simp_all add: get_opt_def)

lemma encode_message_lookup:
  assumes "encode_message m = JObj kvs"
  shows "map_of kvs (js ''key'') = Some (JStr (m_key m))"
    "map_of kvs (js ''from'') = Some (JStr (role_name (m_from m)))"
    "map_of kvs (js ''versions'') = Some (JArr (map encode_version (m_versions m)))"
    "map_of kvs (js ''sources'') = map_option (\<lambda>ss. JArr (map encode_source ss)) (m_sources m)"
    "map_of kvs (js ''reasoning'') = map_option encode_reasoning (m_reasoning m)"
    "map_of kvs (js ''isReasoningStreaming'') = map_option JBool (m_isReasoningStreaming m)"
    "map_of kvs (js ''isReasoningComplete'') = map_option JBool (m_isReasoningComplete m)"
    "map_of kvs (js ''isContentComplete'') = map_option JBool (m_isContentComplete m)"
    "map_of kvs (js ''status'') = map_option (\<lambda>s. JStr (status_name s)) (m_status m)"
    "map_of kvs (js ''errorCode'') = map_option (\<lambda>c. case c of None \<Rightarrow> JNull | Some e \<Rightarrow> JStr e) (m_errorCode m)"
  using assms [symmetric] by (simp_all add: encode_message_def map_of_opt_field_other map_of_opt_field_same
      map_of_opt_field_last del: map_of_append)

lemma decode_encode_message: "decode_message (encode_message m) = Some m"
proof -
  obtain kvs where kvs: "encode_message m = JObj kvs" by (simp add: encode_message_def)
  note l = encode_message_lookup [OF kvs]
  have "get_list decode_version kvs (js ''versions'') = Some (m_versions m)"
    unfolding get_list_def l json.case option.case by (rule those_map_inverse) simp
  moreover have "get_opt decode_sources kvs (js ''sources'') = Some (m_sources m)"
    using l(4) by (rule get_opt_map) (unfold decode_sources_def json.case, rule those_map_inverse, simp)
  moreover have "get_opt decode_reasoning kvs (js ''reasoning'') = Some (m_reasoning m)"
    using l(5) by (rule get_opt_map) simp
  moreover have "get_opt decode_bool kvs (js ''isReasoningStreaming'') = Some (m_isReasoningStreaming m)"
    "get_opt decode_bool kvs (js ''isReasoningComplete'') = Some (m_isReasoningComplete m)"
    "get_opt decode_bool kvs (js ''isContentComplete'') = Some (m_isContentComplete m)"
    using l(6,7,8) by (auto intro: get_opt_map simp: decode_bool_def)
  moreover have "get_opt decode_status kvs (js ''status'') = Some (m_status m)"
    using l(9) by (rule get_opt_map) simp
  moreover have "get_opt decode_code kvs (js ''errorCode'') = Some (m_errorCode m)"
    using l(10) by (rule get_opt_map) (simp add: decode_code_def split: option.split)
  ultimately show ?thesis
    by (simp add: kvs decode_message_def get_str_def l)
qed

definition message_ok :: "message \<Rightarrow> bool" where
  "message_ok m \<longleftrightarrow> json_ok (encode_message m)"

lemma literal_nonindex: "\<not> is_array_index (js ''id'')" "\<not> is_array_index (js ''content'')"
  "\<not> is_array_index (js ''href'')" "\<not> is_array_index (js ''title'')" "\<not> is_array_index (js ''duration'')"
  "\<not> is_array_index (js ''key'')" "\<not> is_array_index (js ''from'')" "\<not> is_array_index (js ''versions'')"
  "\<not> is_array_index (js ''sources'')" "\<not> is_array_index (js ''reasoning'')"
  "\<not> is_array_index (js ''isReasoningStreaming'')" "\<not> is_array_index (js ''isReasoningComplete'')"
  "\<not> is_array_index (js ''isContentComplete'')" "\<not> is_array_index (js ''status'')" "\<not> is_array_index (js ''errorCode'')"
  by (simp_all add: is_array_index_def is_digit_def lit)

lemma canon_encode_message: "canon (encode_message m) = encode_message m"
proof -
  have v: "canon (encode_version v) = encode_version v" for v
    unfolding encode_version_def by (rule canon_obj_id) (auto simp: literal_nonindex)
  have s: "canon (encode_source v) = encode_source v" for v
    unfolding encode_source_def by (rule canon_obj_id) (auto simp: literal_nonindex)
  have r: "canon (encode_reasoning v) = encode_reasoning v" for v
    unfolding encode_reasoning_def by (rule canon_obj_id) (auto simp: literal_nonindex)
  show ?thesis
    unfolding encode_message_def
    by (rule canon_obj_id) (auto simp: literal_nonindex opt_field_def canon_elems_map v s r split: option.splits)
qed

lemma load_saved_messages:
  assumes "\<forall>m \<in> set ms. message_ok m" "st STORAGE_MESSAGES = Some (json_stringify [] (JArr (map encode_message ms)))"
  shows "fst (loadMessages q st) = Some (sanitizeMessagesOnLoad ms)"
proof -
  let ?v = "JArr (map encode_message ms)"
  have "json_ok ?v" using assms(1) by (simp add: elems_ok_iff message_ok_def)
  moreover have "canon ?v = ?v" by (simp add: canon_elems_map canon_encode_message)
  ultimately have "json_parse (json_stringify [] ?v) = Inr ?v" using json_parse_stringify [of ?v "[]"] by simp
  moreover have "json_stringify [] ?v \<noteq> []" by (simp add: json_stringify_def)
  moreover have "those (map decode_message (map encode_message ms)) = Some ms"
    by (intro those_map_inverse) (simp add: decode_encode_message)
  ultimately show ?thesis using assms(2) by (simp add: loadMessages_def)
qed

subsection \<open>Cells of the storage\<close>

text \<open>
  The contract of a saved value: its own key, a save that leaves the other keys alone and may be
  refused, a load that looks at no other key, and what is read after an accepted save.
\<close>

locale storage_cell =
  fixes key :: jsstr
    and save :: "quota \<Rightarrow> 'a \<Rightarrow> storage \<Rightarrow> storage"
    and load :: "storage \<Rightarrow> 'b"
    and ok :: "'a \<Rightarrow> bool"
    and reads :: "'a \<Rightarrow> 'b \<Rightarrow> bool"
  assumes save_frame: "k \<noteq> key \<Longrightarrow> save q x st k = st k"
    and load_local: "st key = st' key \<Longrightarrow> load st = load st'"
    and load_save: "(\<And>st k v. q st k v) \<Longrightarrow> ok x \<Longrightarrow> reads x (load (save q x st))"
    and save_refused: "(\<And>st k v. \<not> q st k v) \<Longrightarrow> save q x st = st"
begin

lemma load_other: "k \<noteq> key \<Longrightarrow> load (st(k := v)) = load st"
  by (rule load_local) simp

lemma load_last_save:
  "(\<And>st k v. q st k v) \<Longrightarrow> ok x \<Longrightarrow> \<forall>k. k \<noteq> key \<or> st' k = save q x st k \<Longrightarrow> reads x (load st')"
  using load_local [of st' "save q x st"] load_save [of q x st] by auto

end

locale two_cells = c: storage_cell key save load ok reads + d: storage_cell key' save' load' ok' reads'
  for key save load ok reads key' save' load' ok' reads' +
  assumes keys: "key \<noteq> key'"
begin

lemma save_independent: "load' (save q x st) = load' st" "load (save' q y st) = load st"
  using c.save_frame d.save_frame keys by (auto intro!: d.load_local c.load_local)

lemma both_saved:
  assumes "\<And>st k v. q st k v" "ok x" "ok' y"
  shows "reads x (load (save' q y (save q x st)))" "reads' y (load' (save' q y (save q x st)))"
  using assms by (simp_all add: save_independent c.load_save d.load_save)

end

text \<open>What a saved object gives when it is read: an object with the printed values.\<close>

definition reads_object :: "js_obj \<Rightarrow> json \<Rightarrow> bool" where
  "reads_object kvs v = (case v of
     JObj kvs' \<Rightarrow> distinct (map fst kvs') \<and> map_of kvs' = (\<lambda>x. map_option canon (map_of kvs x)) | _ \<Rightarrow> False)"

lemma reads_object_saved:
  "json_ok (JObj kvs) \<Longrightarrow> st k = Some (json_stringify [] (JObj kvs)) \<Longrightarrow> reads_object kvs (load_object k st)"
  using load_object_saved [of kvs st k] by (auto simp: reads_object_def)

lemma load_object_local: "st k = st' k \<Longrightarrow> load_object k st = load_object k st'"
  by (simp add: load_object_def)

interpretation config_cell: storage_cell STORAGE_CONFIG saveConfig loadConfig "\<lambda>kvs. json_ok (JObj kvs)" reads_object
  by unfold_locales
    (simp_all add: saveConfig_def loadConfig_def set_item_def reads_object_saved cong: load_object_local)

interpretation parameters_cell:
  storage_cell STORAGE_PARAMETER_ENABLED saveParameterEnabled loadParameterEnabled "\<lambda>kvs. json_ok (JObj kvs)" reads_object
  by unfold_locales
    (simp_all add: saveParameterEnabled_def loadParameterEnabled_def set_item_def reads_object_saved cong: load_object_local)

interpretation messages_cell:
  storage_cell STORAGE_MESSAGES saveMessages "\<lambda>st. fst (loadMessages q st)" "list_all message_ok"
    "\<lambda>ms r. r = Some (sanitizeMessagesOnLoad ms)" for q
proof unfold_locales
  show "fst (loadMessages q st) = fst (loadMessages q st')" if "st STORAGE_MESSAGES = st' STORAGE_MESSAGES" for st st'
    using that by (simp add: loadMessages_def split: option.split json.split sum.split)
qed (simp_all add: saveMessages_def set_item_def load_saved_messages list_all_iff)

lemma storage_keys: "STORAGE_CONFIG \<noteq> STORAGE_PARAMETER_ENABLED" "STORAGE_CONFIG \<noteq> STORAGE_MESSAGES"
  "STORAGE_PARAMETER_ENABLED \<noteq> STORAGE_MESSAGES"
  by (simp_all add: STORAGE_CONFIG_def STORAGE_PARAMETER_ENABLED_def STORAGE_MESSAGES_def)

interpretation config_parameters: two_cells STORAGE_CONFIG saveConfig loadConfig "\<lambda>kvs. json_ok (JObj kvs)" reads_object
  STORAGE_PARAMETER_ENABLED saveParameterEnabled loadParameterEnabled "\<lambda>kvs. json_ok (JObj kvs)" reads_object
  by unfold_locales (rule storage_keys)

interpretation config_messages: two_cells STORAGE_CONFIG saveConfig loadConfig "\<lambda>kvs. json_ok (JObj kvs)" reads_object
  STORAGE_MESSAGES saveMessages "\<lambda>st. fst (loadMessages q st)" "list_all message_ok"
  "\<lambda>ms r. r = Some (sanitizeMessagesOnLoad ms)" for q
  by unfold_locales (rule storage_keys)

interpretation parameters_messages:
  two_cells STORAGE_PARAMETER_ENABLED saveParameterEnabled loadParameterEnabled "\<lambda>kvs. json_ok (JObj kvs)" reads_object
  STORAGE_MESSAGES saveMessages "\<lambda>st. fst (loadMessages q st)" "list_all message_ok"
  "\<lambda>ms r. r = Some (sanitizeMessagesOnLoad ms)" for q
  by unfold_locales (rule storage_keys)

lemmas cells_independent = config_parameters.save_independent config_messages.save_independent
  parameters_messages.save_independent

lemma map_of_spread_reads:
  "reads_object kvs v \<Longrightarrow> map_of (spread base v) = map_of base ++ (\<lambda>x. map_option canon (map_of kvs x))"
  by (auto simp: reads_object_def map_of_spread split: json.splits)

lemma init_playground_sel [simp]:
  "pg_config (init_playground q st) = spread DEFAULT_CONFIG (loadConfig st)"
  "pg_parameterEnabled (init_playground q st) = spread DEFAULT_PARAMETER_ENABLED (loadParameterEnabled st)"
  "pg_messages (init_playground q st) = (case fst (loadMessages q st) of None \<Rightarrow> [] | Some ms \<Rightarrow> ms)"
  by (simp_all add: init_playground_def split: prod.split)

subsection \<open>Reloading the page\<close>

text \<open>
  C28: after a configuration change whose write is accepted, a reload shows the defaults overridden
  by the changed configuration, each value as its printed form reads, and the same parameter
  switches and messages as a reload without the change.
\<close>

theorem reload_after_updateConfig:
  assumes "\<And>st k v. q st k v" "json_ok (JObj (obj_set (pg_config p) key value))"
  shows "map_of (pg_config (init_playground q (pg_store (updateConfig q key value p)))) =
      map_of DEFAULT_CONFIG ++ (\<lambda>x. map_option canon (((map_of (pg_config p))(key \<mapsto> value)) x))
    \<and> pg_parameterEnabled (init_playground q (pg_store (updateConfig q key value p))) = pg_parameterEnabled (init_playground q (pg_store p))
    \<and> pg_messages (init_playground q (pg_store (updateConfig q key value p))) = pg_messages (init_playground q (pg_store p))"
  using map_of_spread_reads [OF config_cell.load_save [of q "obj_set (pg_config p) key value" "pg_store p", OF assms]]
  by (simp add: updateConfig_def Let_def cells_independent map_of_obj_set)

text \<open>
  After a change of the messages whose write is accepted, a reload shows the changed messages,
  repaired by \<^verbatim>\<open>sanitizeMessagesOnLoad\<close>, and leaves the configuration and the switches alone.
\<close>

theorem reload_after_updateMessages:
  assumes "\<And>st k v. q st k v" "list_all message_ok (f (pg_messages p))"
  shows "pg_messages (init_playground q (pg_store (updateMessages q f p))) = sanitizeMessagesOnLoad (f (pg_messages p))
    \<and> pg_config (init_playground q (pg_store (updateMessages q f p))) = pg_config (init_playground q (pg_store p))
    \<and> pg_parameterEnabled (init_playground q (pg_store (updateMessages q f p))) = pg_parameterEnabled (init_playground q (pg_store p))"
  using messages_cell.load_save [of q "f (pg_messages p)" q "pg_store p", OF assms]
  by (simp add: updateMessages_def Let_def cells_independent)

subsection \<open>The payload\<close>

definition non_null :: "json option \<Rightarrow> json option" where
  "non_null v = (if v = Some JNull then None else v)"

lemma add_parameter_alt:
  "map_of (add_parameter config params payload key) =
    (if js_true (map_of params key) \<and> non_null (map_of config key) \<noteq> None
     then (map_of payload)(key := map_of config key) else map_of payload)"
  by (auto simp: add_parameter_def non_null_def map_of_obj_set split: option.split json.split)

lemma map_of_add_parameters:
  "distinct ks \<Longrightarrow> map_of (foldl (add_parameter config params) payload ks) =
    (\<lambda>k. if k \<in> set ks \<and> js_true (map_of params k) \<and> non_null (map_of config k) \<noteq> None then map_of config k
         else map_of payload k)"
  by (induction ks arbitrary: payload) (auto simp: add_parameter_alt fun_eq_iff)

text \<open>
  C29: the request body has the valid messages in order, the model, group and stream settings, the
  enabled parameters whose value is set, and nothing else.
\<close>

theorem payload_contents:
  "map_of (buildChatCompletionPayload messages config params) = (\<lambda>k.
     if k = js ''messages'' then Some (JArr (map encode_chat_message (filter isValidMessage messages)))
     else if k \<in> {js ''model'', js ''group'', js ''stream''} then map_of config k
     else if k \<in> set parameterKeys \<and> js_true (map_of params k) then non_null (map_of config k)
     else None)"
proof
  fix k
  have d: "distinct parameterKeys" by (simp add: parameterKeys_def)
  have n: "k \<notin> set parameterKeys" if "k \<in> {js ''messages'', js ''model'', js ''group'', js ''stream''}"
    using that by (auto simp: parameterKeys_def)
  show "map_of (buildChatCompletionPayload messages config params) k = (
     if k = js ''messages'' then Some (JArr (map encode_chat_message (filter isValidMessage messages)))
     else if k \<in> {js ''model'', js ''group'', js ''stream''} then map_of config k
     else if k \<in> set parameterKeys \<and> js_true (map_of params k) then non_null (map_of config k)
     else None)"
    using n by (auto simp: buildChatCompletionPayload_def map_of_add_parameters [OF d] non_null_def opt_field_def
        split: option.split if_splits)
qed

subsection \<open>Witnesses\<close>

definition sample_page :: playground where
  "sample_page = \<lparr>pg_config = [(js ''model'', JStr (js ''m1'')), (js ''stream'', JBool True)],
     pg_parameterEnabled = [], pg_messages = [], pg_store = Map.empty\<rparr>"

theorem reload_after_updateConfig_witness:
  "map_of (pg_config (init_playground (\<lambda>_ _ _. True) (pg_store (updateConfig (\<lambda>_ _ _. True) (js ''model'') (JStr (js ''m2'')) sample_page))))
     (js ''model'') = Some (JStr (js ''m2''))"
proof -
  have ok: "json_ok (JObj (obj_set (pg_config sample_page) (js ''model'') (JStr (js ''m2''))))"
    by (simp add: sample_page_def obj_set_def str_ok_def lit)
  show ?thesis
    using reload_after_updateConfig [of "\<lambda>_ _ _. True" sample_page "js ''model''" "JStr (js ''m2'')", OF TrueI ok]
    by (simp add: sample_page_def map_add_def)
qed

theorem reload_after_updateMessages_witness:
  "pg_messages (init_playground (\<lambda>_ _ _. True) (pg_store (updateMessages (\<lambda>_ _ _. True)
      (\<lambda>ms. ms @ [createUserMessage (js ''k'') (js ''v'') (js ''hi'')]) sample_page)))
    = [createUserMessage (js ''k'') (js ''v'') (js ''hi'')]"
proof -
  let ?f = "\<lambda>ms. ms @ [createUserMessage (js ''k'') (js ''v'') (js ''hi'')]"
  have ok: "list_all message_ok (?f (pg_messages sample_page))"
    by (simp add: sample_page_def message_ok_def encode_message_def createUserMessage_def createMessageVersion_def
        opt_field_def encode_version_def role_name_def str_ok_def lit)
  have "sanitizeMessagesOnLoad (?f []) = ?f []" by code_simp
  then show ?thesis
    using reload_after_updateMessages [of "\<lambda>_ _ _. True" ?f sample_page, OF TrueI ok] by (simp add: sample_page_def)
qed

end
