(* ===== verification/ChatStream.thy ===== *)
theory ChatStream
  imports PlaygroundStorage
begin

text \<open>
  A conversation of the playground (\<^verbatim>\<open>hooks/use-stream-request.ts\<close>, \<^verbatim>\<open>hooks/use-chat-handler.ts\<close>,
  \<^verbatim>\<open>hooks/use-message-action-guard.ts\<close>, \<^verbatim>\<open>index.tsx\<close>, \<^verbatim>\<open>api.ts\<close>) as a state machine. An event
  is an action of the user, a callback of an event source, or the settlement of a request. Event
  sources belong to the package sse.js: which events they deliver, whether \<^verbatim>\<open>stream()\<close> throws, and
  their \<^verbatim>\<open>readyState\<close> and \<^verbatim>\<open>status\<close> come with the event. A source delivers events from its start
  until it is closed. React state is read and written between events.
\<close>

subsection \<open>State\<close>

record chat =
  ch_page :: playground
  ch_source :: "nat option"
  ch_complete :: bool
  ch_sources :: "js_obj list"
  ch_open :: "nat list"
  ch_requests :: "js_obj list"
  ch_pending :: "nat list"
  ch_editing :: "jsstr option"
  ch_toasts :: "jsstr list"

abbreviation messages_of :: "chat \<Rightarrow> message list" where
  "messages_of s \<equiv> pg_messages (ch_page s)"

definition onMessageUpdate :: "quota \<Rightarrow> (message list \<Rightarrow> message list) \<Rightarrow> chat \<Rightarrow> chat" where
  "onMessageUpdate q updater s = s\<lparr>ch_page := updateMessages q updater (ch_page s)\<rparr>"

subsection \<open>Updates of the last message\<close>

datatype update_type = Reasoning | Content

definition stream_update :: "update_type \<Rightarrow> jsstr \<Rightarrow> message \<Rightarrow> message" where
  "stream_update ty chunk m =
     (if m_status m = Some StatusError then m
      else (case ty of
          Reasoning \<Rightarrow> m\<lparr>m_reasoning := Some \<lparr>mr_content =
              (case m_reasoning m of None \<Rightarrow> [] | Some r \<Rightarrow> mr_content r) @ chunk, mr_duration = Fin 0\<rparr>,
            m_isReasoningStreaming := Some True, m_status := Some StatusStreaming\<rparr>
        | Content \<Rightarrow> (processStreamingContent m (Some chunk))\<lparr>m_status := Some StatusStreaming\<rparr>))"

definition handleStreamUpdate :: "quota \<Rightarrow> update_type \<Rightarrow> jsstr \<Rightarrow> chat \<Rightarrow> chat" where
  "handleStreamUpdate q ty chunk =
     onMessageUpdate q (\<lambda>prev. updateLastAssistantMessage prev (stream_update ty chunk))"

definition stream_complete :: "message \<Rightarrow> message" where
  "stream_complete m =
     (if m_status m = Some StatusComplete \<or> m_status m = Some StatusError then m
      else (finalizeMessage m None)\<lparr>m_status := Some StatusComplete\<rparr>)"

definition handleStreamComplete :: "quota \<Rightarrow> chat \<Rightarrow> chat" where
  "handleStreamComplete q = onMessageUpdate q (\<lambda>prev. updateLastAssistantMessage prev stream_complete)"

definition handleStreamError :: "quota \<Rightarrow> jsstr \<Rightarrow> jsstr option \<Rightarrow> chat \<Rightarrow> chat" where
  "handleStreamError q error errorCode s =
     onMessageUpdate q (\<lambda>prev. updateAssistantMessageWithError prev error errorCode)
       (s\<lparr>ch_toasts := ch_toasts s @ [error]\<rparr>)"

subsection \<open>The stream request\<close>

definition closeSource :: "nat \<Rightarrow> chat \<Rightarrow> chat" where
  "closeSource i s = s\<lparr>ch_open := removeAll i (ch_open s), ch_source := None\<rparr>"

definition handleError :: "quota \<Rightarrow> nat \<Rightarrow> jsstr \<Rightarrow> jsstr option \<Rightarrow> chat \<Rightarrow> chat" where
  "handleError q i errorMessage errorCode s =
     (if \<not> ch_complete s then closeSource i (handleStreamError q errorMessage errorCode s) else s)"

definition DONE_MARK :: jsstr where "DONE_MARK = js ''[DONE]''"

text \<open>The optional chain \<^verbatim>\<open>chunk.choices?.[0]?.delta\<close>; reading from \<^verbatim>\<open>null\<close> throws.\<close>

definition chunk_delta :: "jsstr \<Rightarrow> json option throws" where
  "chunk_delta data = bind_throws (json_parse data) (\<lambda>chunk.
     if chunk = JNull then Inl TypeError
     else Inr (opt_member (opt_first (get_member chunk (js ''choices''))) (js ''delta'')))"

definition update_if :: "quota \<Rightarrow> update_type \<Rightarrow> jsstr option \<Rightarrow> chat \<Rightarrow> chat" where
  "update_if q ty v s = (case v of None \<Rightarrow> s | Some chunk \<Rightarrow> handleStreamUpdate q ty chunk s)"

definition on_message :: "quota \<Rightarrow> nat \<Rightarrow> jsstr \<Rightarrow> chat \<Rightarrow> chat" where
  "on_message q i data s =
     (if data = DONE_MARK then handleStreamComplete q (closeSource i (s\<lparr>ch_complete := True\<rparr>))
      else (case chunk_delta data of
          Inl _ \<Rightarrow> handleError q i PARSE_ERROR None s
        | Inr delta \<Rightarrow>
            if js_true delta then
              update_if q Content (truthy_text (opt_member delta (js ''content'')))
                (update_if q Reasoning (truthy_text (opt_member delta (js ''reasoning_content''))) s)
            else s))"

text \<open>The message and the code of an error event, from its data.\<close>

definition error_details :: "jsstr option \<Rightarrow> jsstr \<times> jsstr option" where
  "error_details data = (case data of
      None \<Rightarrow> (API_REQUEST_ERROR, None)
    | Some d \<Rightarrow> if d = [] then (API_REQUEST_ERROR, None)
        else (case json_parse d of
          Inl _ \<Rightarrow> (d, None)
        | Inr parsed \<Rightarrow>
            (let err = get_member parsed (js ''error'') in
             if js_true err then
               ((case truthy_text (opt_member err (js ''message'')) of None \<Rightarrow> d | Some m \<Rightarrow> m),
                truthy_text (opt_member err (js ''code'')))
             else (d, None))))"

definition on_error :: "quota \<Rightarrow> nat \<Rightarrow> jsstr option \<Rightarrow> int \<Rightarrow> chat \<Rightarrow> chat" where
  "on_error q i data readyState s =
     (if readyState \<noteq> 2 then (case error_details data of (errorMessage, errorCode) \<Rightarrow> handleError q i errorMessage errorCode s)
      else s)"

definition on_readystatechange :: "quota \<Rightarrow> nat \<Rightarrow> int option \<Rightarrow> nat option \<Rightarrow> chat \<Rightarrow> chat" where
  "on_readystatechange q i readyState status s = (case (readyState, status) of
      (Some r, Some st) \<Rightarrow>
        if 2 \<le> r \<and> st \<noteq> 200
        then handleError q i (js ''HTTP '' @ show_nat st @ js '': '' @ CONNECTION_CLOSED) None s else s
    | _ \<Rightarrow> s)"

text \<open>\<open>starts\<close> tells whether \<^verbatim>\<open>source.stream()\<close> returns; a source whose start throws is not open.\<close>

definition sendStreamRequest :: "quota \<Rightarrow> bool \<Rightarrow> js_obj \<Rightarrow> chat \<Rightarrow> chat" where
  "sendStreamRequest q starts payload s =
     (let i = length (ch_sources s);
          s1 = s\<lparr>ch_sources := ch_sources s @ [payload], ch_source := Some i, ch_complete := False\<rparr>
      in if starts then s1\<lparr>ch_open := ch_open s1 @ [i]\<rparr>
         else (handleStreamError q STREAM_START_ERROR None s1)\<lparr>ch_source := None\<rparr>)"

definition stopStream :: "chat \<Rightarrow> chat" where
  "stopStream s = (case ch_source s of
      None \<Rightarrow> s
    | Some i \<Rightarrow> s\<lparr>ch_open := removeAll i (ch_open s), ch_source := None\<rparr>)"

definition isStreaming :: "chat \<Rightarrow> bool" where
  "isStreaming s \<longleftrightarrow> ch_source s \<noteq> None"

subsection \<open>The chat handler\<close>

definition payload_for :: "message list \<Rightarrow> chat \<Rightarrow> js_obj" where
  "payload_for messages s =
     buildChatCompletionPayload messages (pg_config (ch_page s)) (pg_parameterEnabled (ch_page s))"

definition sendStreamingChat :: "quota \<Rightarrow> bool \<Rightarrow> message list \<Rightarrow> chat \<Rightarrow> chat" where
  "sendStreamingChat q starts messages s = sendStreamRequest q starts (payload_for messages s) s"

text \<open>The request without streaming: the part before \<^verbatim>\<open>await\<close>, the answer, and the failure.\<close>

definition sendNonStreamingChat :: "message list \<Rightarrow> chat \<Rightarrow> chat" where
  "sendNonStreamingChat messages s =
     s\<lparr>ch_requests := ch_requests s @ [payload_for messages s],
       ch_pending := ch_pending s @ [length (ch_requests s)]\<rparr>"

definition apply_choice :: "json \<Rightarrow> message \<Rightarrow> message" where
  "apply_choice choice m =
     (let msg = get_member choice (js ''message'');
          content = (case truthy_text (opt_member msg (js ''content'')) of None \<Rightarrow> [] | Some c \<Rightarrow> c);
          reasoning = truthy_text (opt_member msg (js ''reasoning_content''))
      in (finalizeMessage (m\<lparr>m_versions := [(getCurrentVersion m)\<lparr>mv_content := content\<rparr>]\<rparr>) reasoning)
           \<lparr>m_status := Some StatusComplete\<rparr>)"

definition on_failure :: "quota \<Rightarrow> nat \<Rightarrow> jsstr option \<Rightarrow> jsstr option \<Rightarrow> jsstr option \<Rightarrow> chat \<Rightarrow> chat" where
  "on_failure q r data_message message code s =
     handleStreamError q
       (first_nonempty (case data_message of None \<Rightarrow> [] | Some m \<Rightarrow> m)
         (first_nonempty (case message of None \<Rightarrow> [] | Some m \<Rightarrow> m) API_REQUEST_ERROR))
       code (s\<lparr>ch_pending := removeAll r (ch_pending s)\<rparr>)"

text \<open>An answer that is \<^verbatim>\<open>null\<close> fails with the text \<open>engine_text\<close> of the engine's exception.\<close>

definition on_response :: "quota \<Rightarrow> nat \<Rightarrow> json \<Rightarrow> jsstr \<Rightarrow> chat \<Rightarrow> chat" where
  "on_response q r response engine_text s =
     (if response = JNull then on_failure q r None (Some engine_text) None s
      else
        (let s1 = s\<lparr>ch_pending := removeAll r (ch_pending s)\<rparr>; choice = opt_first (get_member response (js ''choices'')) in
         if js_true choice
         then onMessageUpdate q (\<lambda>prev. updateLastAssistantMessage prev (apply_choice (the choice))) s1
         else s1))"

definition sendChat :: "quota \<Rightarrow> bool \<Rightarrow> message list \<Rightarrow> chat \<Rightarrow> chat" where
  "sendChat q starts messages s =
     (if js_true (map_of (pg_config (ch_page s)) (js ''stream'')) then sendStreamingChat q starts messages s
      else sendNonStreamingChat messages s)"

definition stop_message :: "message \<Rightarrow> message" where
  "stop_message m =
     (if m_status m = Some StatusLoading \<or> m_status m = Some StatusStreaming
      then (finalizeMessage m None)\<lparr>m_status := Some StatusComplete\<rparr> else m)"

definition stopGeneration :: "quota \<Rightarrow> chat \<Rightarrow> chat" where
  "stopGeneration q s = onMessageUpdate q (\<lambda>prev. updateLastAssistantMessage prev stop_message) (stopStream s)"

subsection \<open>The page\<close>

text \<open>A new message brings a key and a version identifier.\<close>

type_synonym fresh = "jsstr \<times> jsstr"

definition handleSendMessage :: "quota \<Rightarrow> bool \<Rightarrow> fresh \<Rightarrow> fresh \<Rightarrow> jsstr \<Rightarrow> chat \<Rightarrow> chat" where
  "handleSendMessage q starts u a txt s =
     (let newMessages = messages_of s @ [createUserMessage (fst u) (snd u) txt, createLoadingAssistantMessage (fst a) (snd a)]
      in sendChat q starts newMessages (onMessageUpdate q (\<lambda>_. newMessages) s))"

fun find_index :: "('a \<Rightarrow> bool) \<Rightarrow> 'a list \<Rightarrow> nat option" where
  "find_index P [] = None"
| "find_index P (x # xs) = (if P x then Some 0 else map_option Suc (find_index P xs))"

definition handleRegenerateMessage :: "quota \<Rightarrow> bool \<Rightarrow> fresh \<Rightarrow> jsstr \<Rightarrow> chat \<Rightarrow> chat" where
  "handleRegenerateMessage q starts a key s = (case find_index (\<lambda>m. m_key m = key) (messages_of s) of
      None \<Rightarrow> s
    | Some messageIndex \<Rightarrow>
        (let newMessages = take messageIndex (messages_of s) @ [createLoadingAssistantMessage (fst a) (snd a)]
         in sendChat q starts newMessages (onMessageUpdate q (\<lambda>_. newMessages) s)))"

definition handleEditMessage :: "jsstr \<Rightarrow> chat \<Rightarrow> chat" where
  "handleEditMessage key s = s\<lparr>ch_editing := Some key\<rparr>"

definition handleEditOpenChange :: "bool \<Rightarrow> chat \<Rightarrow> chat" where
  "handleEditOpenChange opened s = (if \<not> opened then s\<lparr>ch_editing := None\<rparr> else s)"

definition edit_message :: "jsstr \<Rightarrow> jsstr \<Rightarrow> message \<Rightarrow> message" where
  "edit_message key newContent m =
     (if m_key m = key then m\<lparr>m_versions := [(getCurrentVersion m)\<lparr>mv_content := newContent\<rparr>]\<rparr> else m)"

definition applyEdit :: "quota \<Rightarrow> bool \<Rightarrow> fresh \<Rightarrow> jsstr \<Rightarrow> bool \<Rightarrow> chat \<Rightarrow> chat" where
  "applyEdit q starts a newContent submit s = (case ch_editing s of
      None \<Rightarrow> s
    | Some key \<Rightarrow>
        if key = [] then s
        else (case find_index (\<lambda>m. m_key m = key) (messages_of s) of
          None \<Rightarrow> s
        | Some index \<Rightarrow>
            (let updated = map (edit_message key newContent) (messages_of s); s1 = s\<lparr>ch_editing := None\<rparr> in
             if \<not> submit \<or> m_from (updated ! index) \<noteq> RoleUser then onMessageUpdate q (\<lambda>_. updated) s1
             else
               (let toSubmit = take (index + 1) updated @ [createLoadingAssistantMessage (fst a) (snd a)]
                in sendChat q starts toSubmit (onMessageUpdate q (\<lambda>_. toSubmit) s1)))))"

definition handleDeleteMessage :: "quota \<Rightarrow> jsstr \<Rightarrow> chat \<Rightarrow> chat" where
  "handleDeleteMessage q key s =
     onMessageUpdate q (\<lambda>_. filter (\<lambda>m. m_key m \<noteq> key) (messages_of s)) s"

text \<open>An action of a message is performed unless a generation is under way.\<close>

definition WAIT_GENERATION :: jsstr where
  "WAIT_GENERATION = js ''Please wait for the current generation to complete''"

definition guardAction :: "(chat \<Rightarrow> chat) \<Rightarrow> chat \<Rightarrow> chat" where
  "guardAction action s = (if isStreaming s then s\<lparr>ch_toasts := ch_toasts s @ [WAIT_GENERATION]\<rparr> else action s)"

subsection \<open>Available models and groups\<close>

definition getUserModels :: "json \<Rightarrow> json list throws" where
  "getUserModels data =
     (if data = JNull then Inl TypeError
      else if \<not> js_true (get_member data (js ''success'')) then Inr []
      else (case get_member data (js ''data'') of Some (JArr models) \<Rightarrow> Inr models | _ \<Rightarrow> Inr []))"

definition getUserGroups :: "json \<Rightarrow> (jsstr \<times> json option \<times> json option) list throws" where
  "getUserGroups data =
     (if data = JNull then Inl TypeError
      else if \<not> js_true (get_member data (js ''success'')) \<or> \<not> js_true (get_member data (js ''data'')) then Inr []
      else
        (let entries = spread_entries (the (get_member data (js ''data''))) in
         if JNull \<in> set (map snd entries) then Inl TypeError
         else Inr (map (\<lambda>(grp, info). (grp, get_member info (js ''ratio''), get_member info (js ''desc''))) entries)))"

definition modelsEffect :: "quota \<Rightarrow> json list \<Rightarrow> playground \<Rightarrow> playground" where
  "modelsEffect q modelsData p =
     (let isCurrentModelValid = list_ex (\<lambda>m. Some m = map_of (pg_config p) (js ''model'')) modelsData in
      if 0 < length modelsData \<and> \<not> isCurrentModelValid then updateConfig q (js ''model'') (hd modelsData) p else p)"

definition groupsEffect :: "quota \<Rightarrow> jsstr list \<Rightarrow> playground \<Rightarrow> playground" where
  "groupsEffect q groupsData p =
     (let hasCurrentGroup = list_ex (\<lambda>g. Some (JStr g) = map_of (pg_config p) (js ''group'')) groupsData in
      if \<not> hasCurrentGroup \<and> 0 < length groupsData then
        (let fallback = (case find (\<lambda>g. g = js ''default'') groupsData of Some g \<Rightarrow> g | None \<Rightarrow> hd groupsData)
         in updateConfig q (js ''group'') (JStr fallback) p)
      else p)"

subsection \<open>The input field\<close>

definition handleSubmit :: "quota \<Rightarrow> bool \<Rightarrow> fresh \<Rightarrow> fresh \<Rightarrow> jsstr \<Rightarrow> chat \<Rightarrow> chat" where
  "handleSubmit q starts u a txt s =
     (if trim txt = [] \<or> isStreaming s then s else handleSendMessage q starts u a txt s)"

definition handleSuggestionClick :: "quota \<Rightarrow> bool \<Rightarrow> fresh \<Rightarrow> fresh \<Rightarrow> jsstr \<Rightarrow> chat \<Rightarrow> chat" where
  "handleSuggestionClick q starts u a suggestion s = handleSendMessage q starts u a suggestion s"

subsection \<open>Events\<close>

datatype chat_event =
    Submit bool fresh fresh jsstr
  | Suggest bool fresh fresh jsstr
  | Regenerate bool fresh jsstr
  | Edit jsstr
  | CancelEdit
  | SaveEdit bool fresh jsstr bool
  | Delete jsstr
  | Stop
  | SetConfig jsstr json
  | MessageEvent nat jsstr
  | ErrorEvent nat "jsstr option" int
  | ReadyStateEvent nat "int option" "nat option"
  | Response nat json jsstr
  | Failure nat "jsstr option" "jsstr option" "jsstr option"

fun run_event :: "quota \<Rightarrow> chat_event \<Rightarrow> chat \<Rightarrow> chat" where
  "run_event q (Submit starts u a txt) s = handleSubmit q starts u a txt s"
| "run_event q (Suggest starts u a txt) s = handleSuggestionClick q starts u a txt s"
| "run_event q (Regenerate starts a key) s = guardAction (handleRegenerateMessage q starts a key) s"
| "run_event q (Edit key) s = guardAction (handleEditMessage key) s"
| "run_event q CancelEdit s = handleEditOpenChange False s"
| "run_event q (SaveEdit starts a txt submit) s = applyEdit q starts a txt submit s"
| "run_event q (Delete key) s = guardAction (handleDeleteMessage q key) s"
| "run_event q Stop s = stopGeneration q s"
| "run_event q (SetConfig key v) s = s\<lparr>ch_page := updateConfig q key v (ch_page s)\<rparr>"
| "run_event q (MessageEvent i data) s = on_message q i data s"
| "run_event q (ErrorEvent i data r) s = on_error q i data r s"
| "run_event q (ReadyStateEvent i r st) s = on_readystatechange q i r st s"
| "run_event q (Response r v err) s = on_response q r v err s"
| "run_event q (Failure r a b c) s = on_failure q r a b c s"

text \<open>
  What can happen: a callback comes from an open source, a settlement from a pending request, and
  the button that stops a generation is there only during one.
\<close>

fun can_happen :: "chat_event \<Rightarrow> chat \<Rightarrow> bool" where
  "can_happen (MessageEvent i _) s \<longleftrightarrow> i \<in> set (ch_open s)"
| "can_happen (ErrorEvent i _ _) s \<longleftrightarrow> i \<in> set (ch_open s)"
| "can_happen (ReadyStateEvent i _ _) s \<longleftrightarrow> i \<in> set (ch_open s)"
| "can_happen (Response r _ _) s \<longleftrightarrow> r \<in> set (ch_pending s)"
| "can_happen (Failure r _ _ _) s \<longleftrightarrow> r \<in> set (ch_pending s)"
| "can_happen Stop s \<longleftrightarrow> isStreaming s"
| "can_happen _ _ \<longleftrightarrow> True"

text \<open>The two ways to send that are not blocked during a generation.\<close>

fun overlapping :: "chat_event \<Rightarrow> chat \<Rightarrow> bool" where
  "overlapping (Suggest _ _ _ _) s \<longleftrightarrow> isStreaming s"
| "overlapping (SaveEdit _ _ _ True) s \<longleftrightarrow> isStreaming s"
| "overlapping _ _ \<longleftrightarrow> False"

inductive chat_step :: "quota \<Rightarrow> chat \<Rightarrow> chat_event \<Rightarrow> chat \<Rightarrow> bool" for q where
  chat_stepI: "can_happen e s \<Longrightarrow> chat_step q s e (run_event q e s)"

inductive_simps chat_step_iff: "chat_step q s e s'"

definition init_chat :: "playground \<Rightarrow> chat" where
  "init_chat p = \<lparr>ch_page = p, ch_source = None, ch_complete = False, ch_sources = [], ch_open = [],
     ch_requests = [], ch_pending = [], ch_editing = None, ch_toasts = []\<rparr>"

inductive chat_reachable :: "quota \<Rightarrow> playground \<Rightarrow> chat \<Rightarrow> bool" for q p where
  chat_init: "chat_reachable q p (init_chat p)"
| chat_next: "chat_reachable q p s \<Longrightarrow> chat_step q s e s' \<Longrightarrow> chat_reachable q p s'"

text \<open>The same, without sending during a generation.\<close>

inductive calm_reachable :: "quota \<Rightarrow> playground \<Rightarrow> chat \<Rightarrow> bool" for q p where
  calm_init: "calm_reachable q p (init_chat p)"
| calm_next: "calm_reachable q p s \<Longrightarrow> chat_step q s e s' \<Longrightarrow> \<not> overlapping e s \<Longrightarrow> calm_reachable q p s'"

subsection \<open>What each operation leaves alone\<close>

lemma onMessageUpdate_sel [simp]:
  "messages_of (onMessageUpdate q f s) = f (messages_of s)"
  "pg_config (ch_page (onMessageUpdate q f s)) = pg_config (ch_page s)"
  "pg_parameterEnabled (ch_page (onMessageUpdate q f s)) = pg_parameterEnabled (ch_page s)"
  "ch_source (onMessageUpdate q f s) = ch_source s" "ch_complete (onMessageUpdate q f s) = ch_complete s"
  "ch_sources (onMessageUpdate q f s) = ch_sources s" "ch_open (onMessageUpdate q f s) = ch_open s"
  "ch_requests (onMessageUpdate q f s) = ch_requests s" "ch_pending (onMessageUpdate q f s) = ch_pending s"
  "ch_editing (onMessageUpdate q f s) = ch_editing s" "ch_toasts (onMessageUpdate q f s) = ch_toasts s"
  by (simp_all add: onMessageUpdate_def updateMessages_def Let_def)

text \<open>The state of the connections.\<close>

definition links :: "chat \<Rightarrow> nat option \<times> bool \<times> js_obj list \<times> nat list \<times> js_obj list \<times> nat list" where
  "links s = (ch_source s, ch_complete s, ch_sources s, ch_open s, ch_requests s, ch_pending s)"

lemma links_updates [simp]:
  "links (onMessageUpdate q f s) = links s"
  "links (handleStreamUpdate q ty c s) = links s"
  "links (handleStreamComplete q s) = links s"
  "links (handleStreamError q e ec s) = links s"
  "links (update_if q ty v s) = links s"
  "links (s\<lparr>ch_page := p\<rparr>) = links s"
  "links (s\<lparr>ch_editing := k\<rparr>) = links s"
  "links (s\<lparr>ch_toasts := ts\<rparr>) = links s"
  "links (handleEditMessage key s) = links s"
  "links (handleEditOpenChange b s) = links s"
  "links (handleDeleteMessage q key s) = links s"
  by (simp_all add: links_def handleStreamUpdate_def handleStreamComplete_def handleStreamError_def update_if_def
      handleEditMessage_def handleEditOpenChange_def handleDeleteMessage_def split: option.split)

text \<open>
  The invariant of the connections, a predicate on \<^const>\<open>links\<close> so that the operations above keep it.
\<close>

definition links_ok :: "chat \<Rightarrow> bool" where
  "links_ok s \<longleftrightarrow> (case links s of (src, compl, sources, opened, requests, pending) \<Rightarrow>
     (\<forall>i. src = Some i \<longrightarrow> i \<in> set opened \<and> Suc i = length sources \<and> \<not> compl)
     \<and> distinct opened \<and> set opened \<subseteq> {..<length sources} \<and> distinct pending \<and> set pending \<subseteq> {..<length requests})"

lemma links_ok_cong: "links s = links s' \<Longrightarrow> links_ok s = links_ok s'"
  by (simp add: links_ok_def)

lemma links_ok_updates [simp]:
  "links_ok (onMessageUpdate q f s) = links_ok s"
  "links_ok (handleStreamUpdate q ty c s) = links_ok s"
  "links_ok (handleStreamComplete q s) = links_ok s"
  "links_ok (handleStreamError q e ec s) = links_ok s"
  "links_ok (update_if q ty v s) = links_ok s"
  "links_ok (s\<lparr>ch_page := p\<rparr>) = links_ok s"
  "links_ok (s\<lparr>ch_editing := k\<rparr>) = links_ok s"
  "links_ok (s\<lparr>ch_toasts := ts\<rparr>) = links_ok s"
  "links_ok (handleEditMessage key s) = links_ok s"
  "links_ok (handleEditOpenChange b s) = links_ok s"
  "links_ok (handleDeleteMessage q key s) = links_ok s"
  by (rule links_ok_cong, simp)+

lemma links_ok_iff:
  "links_ok s \<longleftrightarrow> (\<forall>i. ch_source s = Some i \<longrightarrow> i \<in> set (ch_open s) \<and> Suc i = length (ch_sources s) \<and> \<not> ch_complete s)
     \<and> distinct (ch_open s) \<and> set (ch_open s) \<subseteq> {..<length (ch_sources s)} \<and> distinct (ch_pending s)
     \<and> set (ch_pending s) \<subseteq> {..<length (ch_requests s)}"
  by (simp add: links_ok_def links_def)

lemma links_ok_closeSource: "links_ok s \<Longrightarrow> links_ok (closeSource i s)"
  by (auto simp: links_ok_iff closeSource_def distinct_removeAll)

lemma links_ok_handleError: "links_ok s \<Longrightarrow> links_ok (handleError q i e c s)"
  by (simp add: handleError_def links_ok_closeSource)

lemma links_ok_complete: "links_ok s \<Longrightarrow> links_ok (closeSource i (s\<lparr>ch_complete := True\<rparr>))"
  by (auto simp: links_ok_iff closeSource_def distinct_removeAll)

lemma links_ok_pending: "links_ok s \<Longrightarrow> links_ok (s\<lparr>ch_pending := removeAll r (ch_pending s)\<rparr>)"
  by (auto simp: links_ok_iff distinct_removeAll)

lemma links_ok_no_source: "links_ok s \<Longrightarrow> links_ok (s\<lparr>ch_source := None\<rparr>)"
  by (auto simp: links_ok_iff)

lemma links_ok_sendStreamRequest: "links_ok s \<Longrightarrow> links_ok (sendStreamRequest q starts p s)"
  by (auto simp: links_ok_iff sendStreamRequest_def Let_def handleStreamError_def)

lemma links_ok_sendNonStreamingChat: "links_ok s \<Longrightarrow> links_ok (sendNonStreamingChat ms s)"
  by (auto simp: links_ok_iff sendNonStreamingChat_def)

lemma links_ok_sendChat: "links_ok s \<Longrightarrow> links_ok (sendChat q starts ms s)"
  by (simp add: sendChat_def sendStreamingChat_def links_ok_sendStreamRequest links_ok_sendNonStreamingChat)

lemma links_ok_stopStream: "links_ok s \<Longrightarrow> links_ok (stopStream s)"
  by (auto simp: stopStream_def links_ok_iff distinct_removeAll split: option.split)

lemma links_ok_run_event: "links_ok s \<Longrightarrow> links_ok (run_event q e s)"
proof (cases e)
  case (MessageEvent i data)
  assume "links_ok s"
  with MessageEvent show ?thesis
    by (simp add: on_message_def links_ok_complete links_ok_handleError split: sum.split)
next
  case (ErrorEvent i data r)
  assume "links_ok s"
  with ErrorEvent show ?thesis by (simp add: on_error_def links_ok_handleError split: prod.split)
next
  case (ReadyStateEvent i r st)
  assume "links_ok s"
  with ReadyStateEvent show ?thesis by (simp add: on_readystatechange_def links_ok_handleError split: option.split)
next
  case (SaveEdit starts a x submit)
  assume "links_ok s"
  with SaveEdit show ?thesis
    by (simp add: applyEdit_def Let_def links_ok_sendChat split: option.split)
qed (simp_all add: handleSubmit_def handleSuggestionClick_def handleSendMessage_def Let_def links_ok_sendChat guardAction_def
    handleRegenerateMessage_def stopGeneration_def links_ok_stopStream on_response_def on_failure_def links_ok_pending
    split: option.split)

lemma links_ok_reachable: "chat_reachable q p s \<Longrightarrow> links_ok s"
proof (induction rule: chat_reachable.induct)
  case chat_init
  show ?case by (simp add: links_ok_iff init_chat_def)
qed (auto simp: chat_step_iff links_ok_run_event)

subsection \<open>Messages that stay unfinished\<close>

definition no_stuck :: "message list \<Rightarrow> bool" where
  "no_stuck ms = list_all (\<lambda>m. \<not> stuck m) ms"

lemma no_stuck_simps [simp]:
  "no_stuck []" "no_stuck (m # ms) \<longleftrightarrow> \<not> stuck m \<and> no_stuck ms" "no_stuck (xs @ ys) \<longleftrightarrow> no_stuck xs \<and> no_stuck ys"
  by (simp_all add: no_stuck_def)

lemma no_stuck_subset: "no_stuck ms \<Longrightarrow> set ms' \<subseteq> set ms \<Longrightarrow> no_stuck ms'"
  by (auto simp: no_stuck_def list_all_iff)

lemma no_stuck_take: "no_stuck ms \<Longrightarrow> no_stuck (take n ms)"
  by (erule no_stuck_subset) (rule set_take_subset)

lemma no_stuck_filter: "no_stuck ms \<Longrightarrow> no_stuck (filter P ms)"
  by (erule no_stuck_subset) auto

lemma no_stuck_butlast: "no_stuck ms \<Longrightarrow> no_stuck (butlast ms)"
  by (erule no_stuck_subset) (auto dest: in_set_butlastD)

lemma stuck_edit [simp]: "stuck (edit_message key c m) = stuck m"
  by (simp add: stuck_def edit_message_def)

lemma no_stuck_map_edit [simp]: "no_stuck (map (edit_message key c) ms) = no_stuck ms"
  by (simp add: no_stuck_def list_all_iff)

lemma updateLast_append:
  "ms = xs @ [m] \<Longrightarrow> updateLastAssistantMessage ms f = (if m_from m = RoleAssistant then xs @ [f m] else ms)"
  by (simp add: updateLastAssistantMessage_def)

lemma butlast_updateLast [simp]: "butlast (updateLastAssistantMessage ms f) = butlast ms"
  by (cases ms rule: rev_cases) (simp_all add: updateLastAssistantMessage_def)

lemma no_stuck_updateLast:
  "no_stuck (butlast ms) \<Longrightarrow> (\<And>m. \<not> stuck (f m)) \<Longrightarrow> no_stuck (updateLastAssistantMessage ms f)"
  by (cases ms rule: rev_cases) (auto simp: updateLastAssistantMessage_def stuck_def)

lemma settled [simp]: "\<not> stuck (stream_complete m)" "\<not> stuck (stop_message m)"
  by (auto simp: stuck_def stream_complete_def stop_message_def)

lemma no_stuck_error: "no_stuck (butlast ms) \<Longrightarrow> no_stuck (updateAssistantMessageWithError ms e c)"
  unfolding updateAssistantMessageWithError_def by (erule no_stuck_updateLast) (simp add: stuck_def)

lemma butlast_error [simp]: "butlast (updateAssistantMessageWithError ms e c) = butlast ms"
  by (simp add: updateAssistantMessageWithError_def)

text \<open>The invariant of a conversation in which nothing is sent during a generation.\<close>

definition calm :: "chat \<Rightarrow> bool" where
  "calm s \<longleftrightarrow> links_ok s \<and> ch_open s = (case ch_source s of None \<Rightarrow> [] | Some i \<Rightarrow> [i])
     \<and> (ch_requests s = [] \<longrightarrow> no_stuck (butlast (messages_of s)) \<and> (isStreaming s \<or> no_stuck (messages_of s)))"

lemma calm_updates [simp]: "calm (s\<lparr>ch_toasts := ts\<rparr>) = calm s" "calm (s\<lparr>ch_editing := k\<rparr>) = calm s"
  by (simp_all add: calm_def isStreaming_def)

lemma calm_pending: "calm s \<Longrightarrow> r \<in> set (ch_pending s) \<Longrightarrow> ch_requests s \<noteq> []"
  by (auto simp: calm_def links_ok_iff)

lemma calm_open: "calm s \<Longrightarrow> i \<in> set (ch_open s) \<Longrightarrow> ch_source s = Some i \<and> \<not> ch_complete s"
  by (auto simp: calm_def links_ok_iff split: option.splits)

lemma calm_sendChat:
  assumes "links_ok s" "ch_open s = []" "ch_requests s = [] \<longrightarrow> no_stuck (butlast (messages_of s))" "ch_source s = None"
  shows "calm (sendChat q starts ms s)"
  using links_ok_sendChat [OF assms(1), of q starts ms] assms
  by (auto simp: calm_def isStreaming_def sendChat_def sendStreamingChat_def sendStreamRequest_def Let_def
      handleStreamError_def no_stuck_error sendNonStreamingChat_def)

lemma calm_idle: "calm s \<Longrightarrow> \<not> isStreaming s \<Longrightarrow>
    links_ok s \<and> ch_open s = [] \<and> ch_source s = None \<and> (ch_requests s = [] \<longrightarrow> no_stuck (messages_of s))"
  by (auto simp: calm_def isStreaming_def)

lemma calm_send_messages:
  assumes "calm s" "\<not> isStreaming s" "no_stuck (messages_of s) \<Longrightarrow> no_stuck (butlast ms)"
  shows "calm (sendChat q starts ms' (onMessageUpdate q (\<lambda>_. ms) (s\<lparr>ch_editing := k\<rparr>)))"
    and "calm (sendChat q starts ms' (onMessageUpdate q (\<lambda>_. ms) s))"
  using calm_idle [OF assms(1,2)] assms(3) by (auto intro!: calm_sendChat)

lemma calm_error:
  assumes "calm s" "i \<in> set (ch_open s)"
  shows "calm (handleError q i e c s)"
  using calm_open [OF assms] assms(1) links_ok_handleError [of s q i e c]
  by (auto simp: calm_def handleError_def handleStreamError_def closeSource_def isStreaming_def no_stuck_error)

lemma calm_done:
  assumes "calm s" "i \<in> set (ch_open s)"
  shows "calm (handleStreamComplete q (closeSource i (s\<lparr>ch_complete := True\<rparr>)))"
  using calm_open [OF assms] assms(1) links_ok_complete [of s i]
  by (auto simp: calm_def handleStreamComplete_def closeSource_def isStreaming_def no_stuck_updateLast)

lemma calm_update:
  assumes "calm s" "isStreaming s"
  shows "calm (handleStreamUpdate q ty c s)" "isStreaming (handleStreamUpdate q ty c s)"
  using assms by (auto simp: calm_def handleStreamUpdate_def isStreaming_def)

lemma calm_update_if:
  assumes "calm s" "isStreaming s"
  shows "calm (update_if q ty v s)" "isStreaming (update_if q ty v s)"
  using calm_update [OF assms] assms by (auto simp: update_if_def split: option.split)

lemma calm_message:
  assumes "calm s" "i \<in> set (ch_open s)"
  shows "calm (on_message q i data s)"
proof -
  have "isStreaming s" using calm_open [OF assms] by (simp add: isStreaming_def)
  with assms show ?thesis
    by (simp add: on_message_def calm_done calm_error calm_update_if split: sum.split)
qed

lemma calm_stop: "calm s \<Longrightarrow> calm (stopGeneration q s)"
  using links_ok_stopStream [of s]
  by (auto simp: calm_def stopGeneration_def stopStream_def isStreaming_def no_stuck_updateLast split: option.splits)

lemma calm_response:
  assumes "calm s" "r \<in> set (ch_pending s)"
  shows "calm (on_response q r v err s)" "calm (on_failure q r a b c s)"
  using calm_pending [OF assms] assms(1) links_ok_pending [of s r]
  by (auto simp: calm_def on_response_def on_failure_def handleStreamError_def Let_def)

lemma calm_edit:
  assumes "calm s" "\<not> overlapping (SaveEdit starts a c submit) s"
  shows "calm (applyEdit q starts a c submit s)"
proof -
  have "calm (onMessageUpdate q (\<lambda>_. map (edit_message k c) (messages_of s)) (s\<lparr>ch_editing := None\<rparr>))" for k
    using assms(1) by (simp add: calm_def isStreaming_def map_butlast [symmetric])
  moreover have "\<not> isStreaming s" if submit using that assms(2) by simp
  moreover have "no_stuck (take (Suc n) (map (edit_message k c) (messages_of s)))" if "no_stuck (messages_of s)" for n k
    using that by (intro no_stuck_take) simp
  ultimately show ?thesis
    using assms(1) by (auto simp: applyEdit_def Let_def butlast_append intro!: calm_send_messages(1) split: option.split)
qed

lemma calm_run_event:
  assumes "calm s" "can_happen e s" "\<not> overlapping e s"
  shows "calm (run_event q e s)"
proof (cases e)
  case (Submit starts u a x)
  then show ?thesis using assms(1)
    by (auto simp: handleSubmit_def handleSendMessage_def Let_def butlast_append stuck_def createUserMessage_def
        intro!: calm_send_messages(2))
next
  case (Suggest starts u a x)
  then show ?thesis using assms
    by (auto simp: handleSuggestionClick_def handleSendMessage_def Let_def butlast_append stuck_def createUserMessage_def
        intro!: calm_send_messages(2))
next
  case (Regenerate starts a key)
  then show ?thesis using assms
    by (auto simp: guardAction_def handleRegenerateMessage_def Let_def butlast_append no_stuck_take
        intro!: calm_send_messages(2) split: option.split)
next
  case (SaveEdit starts a x submit)
  with assms calm_edit [of s starts a x submit q] show ?thesis by simp
next
  case (Delete key)
  have "calm (handleDeleteMessage q key s)" if "\<not> isStreaming s"
    using calm_idle [OF assms(1) that] no_stuck_filter no_stuck_butlast
    by (simp add: calm_def handleDeleteMessage_def isStreaming_def)
  with Delete assms(1) show ?thesis by (simp add: guardAction_def)
qed (use assms in \<open>simp_all add: calm_message calm_response calm_stop calm_error on_error_def on_readystatechange_def
    split: prod.split option.split\<close>, (auto simp: calm_def isStreaming_def guardAction_def handleEditMessage_def
      handleEditOpenChange_def updateConfig_def Let_def)?)

lemma reachable_calm: "calm_reachable q p s \<Longrightarrow> no_stuck (pg_messages p) \<Longrightarrow> calm s"
proof (induction rule: calm_reachable.induct)
  case calm_init
  then show ?case by (simp add: calm_def links_ok_iff init_chat_def no_stuck_butlast)
qed (auto simp: chat_step_iff calm_run_event)

text \<open>
  C7: without sending during a generation, at most one source is open, and it is the current one; and
  in a conversation that only streams no message is left loading or streaming once the generation
  has ended, whether it was completed, failed, could not start or was stopped, provided that no message
  was at the start.
\<close>

theorem calm_conversation:
  assumes "calm_reachable q p s" "no_stuck (pg_messages p)"
  shows "ch_open s = (case ch_source s of None \<Rightarrow> [] | Some i \<Rightarrow> [i])
    \<and> (ch_requests s = [] \<and> ch_source s = None \<longrightarrow> no_stuck (messages_of s))"
  using reachable_calm [OF assms] by (auto simp: calm_def isStreaming_def)

text \<open>
  In every reachable state, also with overlapping requests, a current source is open, is the
  newest one, and the completion flag is down; and open sources and pending requests were made.
\<close>

theorem current_source:
  assumes "chat_reachable q p s"
  shows "case ch_source s of
      None \<Rightarrow> set (ch_open s) \<subseteq> {..<length (ch_sources s)}
    | Some i \<Rightarrow> i \<in> set (ch_open s) \<and> Suc i = length (ch_sources s) \<and> \<not> ch_complete s"
  using links_ok_reachable [OF assms] by (auto simp: links_ok_iff split: option.split)

subsection \<open>Sessions\<close>

text \<open>
  The specification: how many streams were requested, and which one is current. A request may start
  when none is current, may fail to start, and ends.
\<close>

type_synonym session = "nat \<times> nat option"

inductive session_step :: "session \<Rightarrow> session \<Rightarrow> bool" where
  session_start: "session_step (n, None) (Suc n, Some n)"
| session_fail: "session_step (n, None) (Suc n, None)"
| session_end: "session_step (n, Some i) (n, None)"
| session_stay: "session_step x x"

inductive_simps session_step_iff: "session_step (n, c) (n', c')"

definition session_of :: "chat \<Rightarrow> session" where
  "session_of s = (length (ch_sources s), ch_source s)"

lemma session_of_links: "links s = links s' \<Longrightarrow> session_of s = session_of s'"
  by (simp add: links_def session_of_def)

lemma session_sendChat: "ch_source s = None \<Longrightarrow> session_step (session_of s) (session_of (sendChat q starts ms s))"
  by (simp add: session_of_def session_step_iff sendChat_def sendStreamingChat_def sendStreamRequest_def Let_def
      handleStreamError_def sendNonStreamingChat_def)

lemma session_close: "ch_source s = Some i \<Longrightarrow> session_step (session_of s) (session_of (closeSource j s))"
  by (simp add: session_of_def session_step_iff closeSource_def)

lemma session_same: "links s = links s' \<Longrightarrow> session_step (session_of s) (session_of s')"
  using session_of_links [of s s'] session_stay [of "session_of s"] by simp

lemma session_error:
  assumes "ch_source s = Some i"
  shows "session_step (session_of s) (session_of (handleError q j e c s))"
  using assms by (simp add: session_of_def session_step_iff handleError_def closeSource_def handleStreamError_def)

lemma session_edit:
  assumes "submit \<longrightarrow> ch_source s = None"
  shows "session_step (session_of s) (session_of (applyEdit q starts a c submit s))"
proof -
  have l: "session_of (onMessageUpdate q f (s\<lparr>ch_editing := k\<rparr>)) = session_of s" for f k
    by (rule session_of_links) simp
  then have "session_step (session_of s) (session_of (sendChat q starts ms (onMessageUpdate q f (s\<lparr>ch_editing := k\<rparr>))))"
    if submit for ms f k
    using session_sendChat [of "onMessageUpdate q f (s\<lparr>ch_editing := k\<rparr>)" q starts ms] assms that by simp
  with l show ?thesis by (simp add: applyEdit_def Let_def session_stay split: option.split)
qed

lemma session_run_event:
  assumes "calm s" "can_happen e s" "\<not> overlapping e s"
  shows "session_step (session_of s) (session_of (run_event q e s))"
proof -
  have open_source: "\<exists>i. ch_source s = Some i" if "i \<in> set (ch_open s)" for i using calm_open [OF assms(1) that] by blast
  have send: "session_step (session_of s) (session_of (sendChat q starts ms (onMessageUpdate q f s)))"
    if "ch_source s = None" for starts ms f
    using session_sendChat [of "onMessageUpdate q f s" q starts ms] that by (simp add: session_of_def)
  show ?thesis
  proof (cases e)
    case (MessageEvent i data)
    with assms(2) open_source obtain j where j: "ch_source s = Some j" by fastforce
    have "session_of (update_if q ty v (update_if q ty' v' s)) = session_of s" for ty v ty' v'
      by (rule session_of_links) simp
    with MessageEvent j show ?thesis
      by (simp add: on_message_def session_error session_stay handleStreamComplete_def split: sum.split)
        (simp add: session_of_def session_step_iff closeSource_def)
  next
    case (ErrorEvent i data r)
    with assms(2) open_source obtain j where "ch_source s = Some j" by fastforce
    with ErrorEvent show ?thesis by (simp add: on_error_def session_error session_stay split: prod.split)
  next
    case (ReadyStateEvent i r st)
    with assms(2) open_source obtain j where "ch_source s = Some j" by fastforce
    with ReadyStateEvent show ?thesis by (simp add: on_readystatechange_def session_error session_stay split: option.split)
  next
    case (SaveEdit starts a x submit)
    with assms(3) have "submit \<longrightarrow> ch_source s = None" by (cases submit) (simp_all add: isStreaming_def)
    with SaveEdit show ?thesis by (simp add: session_edit)
  next
    case Stop
    then show ?thesis
      by (simp add: stopGeneration_def stopStream_def session_of_def session_step_iff split: option.split)
  next
    case (Submit starts u a x)
    then show ?thesis
      by (auto simp: handleSubmit_def handleSendMessage_def Let_def isStreaming_def session_stay intro: send)
  next
    case (Suggest starts u a x)
    with assms(3) show ?thesis
      by (auto simp: handleSuggestionClick_def handleSendMessage_def Let_def isStreaming_def intro: send)
  next
    case (Regenerate starts a key)
    then show ?thesis
      by (auto simp: guardAction_def handleRegenerateMessage_def Let_def isStreaming_def session_stay
          intro: send session_same split: option.split)
  next
    case (Response r v err)
    then show ?thesis
      by (simp add: on_response_def on_failure_def Let_def handleStreamError_def session_of_def session_step_iff)
  next
    case (Failure r a b c)
    then show ?thesis by (simp add: on_failure_def handleStreamError_def session_of_def session_step_iff)
  qed (auto simp: guardAction_def intro: session_same)
qed

text \<open>
  C8: a conversation without overlapping requests implements the session specification: every event
  is a start, a failed start, an end or no change of the session.
\<close>

theorem conversation_refines_session:
  assumes "calm_reachable q p s" "no_stuck (pg_messages p)" "chat_step q s e s'" "\<not> overlapping e s"
  shows "session_step (session_of s) (session_of s')"
  using reachable_calm [OF assms(1,2)] assms(3,4) by (auto simp: chat_step_iff session_run_event)

subsection \<open>A whole stream\<close>

text \<open>A chunk as the server sends it.\<close>

definition chunk_json :: "jsstr \<Rightarrow> json" where
  "chunk_json c = JObj [(js ''choices'', JArr [JObj [(js ''delta'', JObj [(js ''content'', JStr c)])]])]"

definition chunk_text :: "jsstr \<Rightarrow> jsstr" where
  "chunk_text c = json_stringify [] (chunk_json c)"

lemma canon_chunk: "canon (chunk_json c) = chunk_json c"
proof -
  have i: "\<not> is_array_index (js ''choices'')" "\<not> is_array_index (js ''delta'')" "\<not> is_array_index (js ''content'')"
    by (simp_all add: is_array_index_def is_digit_def lit)
  have "canon (JObj [(js ''content'', JStr c)]) = JObj [(js ''content'', JStr c)]" by (rule canon_obj_id) (auto simp: i)
  then have "canon (JObj [(js ''delta'', JObj [(js ''content'', JStr c)])]) = JObj [(js ''delta'', JObj [(js ''content'', JStr c)])]"
    by (intro canon_obj_id) (auto simp: i)
  then show ?thesis unfolding chunk_json_def by (intro canon_obj_id) (auto simp: i canon_elems_map)
qed

lemma chunk_delta_text:
  assumes "str_ok c"
  shows "chunk_delta (chunk_text c) = Inr (Some (JObj [(js ''content'', JStr c)]))"
proof -
  have "json_ok (chunk_json c)" using assms by (simp add: chunk_json_def str_ok_def lit)
  then have "json_parse (chunk_text c) = Inr (chunk_json c)"
    using json_parse_stringify [of "chunk_json c" "[]"] by (simp add: chunk_text_def canon_chunk)
  then show ?thesis
    by (simp add: chunk_delta_def bind_throws_def chunk_json_def get_member_def opt_member_def opt_first_def)
qed

lemma chunk_not_done: "chunk_text c \<noteq> DONE_MARK"
  by (simp add: chunk_text_def chunk_json_def json_stringify_def DONE_MARK_def lit)

lemma on_message_chunk:
  "str_ok c \<Longrightarrow> c \<noteq> [] \<Longrightarrow> on_message q i (chunk_text c) s = handleStreamUpdate q Content c s"
  by (simp add: on_message_def chunk_not_done chunk_delta_text js_true_def opt_member_def get_member_def truthy_text_def
      text_of_def update_if_def)

lemma current_status [simp]: "getCurrentVersion (m\<lparr>m_status := x\<rparr>) = getCurrentVersion m"
  by (simp add: getCurrentVersion_def)

lemma finalize_sel [simp]:
  "getCurrentVersion (finalizeMessage m r) = (getCurrentVersion m)\<lparr>mv_content := tp_visibleContent (parseThinkTags (content_of m))\<rparr>"
  "m_key (finalizeMessage m r) = m_key m" "m_from (finalizeMessage m r) = m_from m"
  by (simp_all add: finalizeMessage_def updateCurrentVersionContent_def Let_def) (simp add: getCurrentVersion_def)

lemma content_stream_update:
  "m_status m \<noteq> Some StatusError \<Longrightarrow> content_of (stream_update Content c m) = content_of m @ c
    \<and> m_status (stream_update Content c m) = Some StatusStreaming
    \<and> m_from (stream_update Content c m) = m_from m \<and> m_key (stream_update Content c m) = m_key m"
  by (simp add: stream_update_def) (simp add: processStreamingContent_def updateCurrentVersionContent_def Let_def)

lemma stream_chunks:
  assumes "messages_of s = xs @ [m]" "m_from m = RoleAssistant" "m_status m = Some StatusLoading \<or> m_status m = Some StatusStreaming"
    "list_all (\<lambda>c. c \<noteq> [] \<and> str_ok c) cs"
  shows "\<exists>m'. messages_of (foldl (\<lambda>s d. on_message q i d s) s (map chunk_text cs)) = xs @ [m'] \<and> m_from m' = RoleAssistant
    \<and> (m_status m' = Some StatusLoading \<or> m_status m' = Some StatusStreaming) \<and> m_key m' = m_key m
    \<and> content_of m' = content_of m @ concat cs"
  using assms
proof (induction cs arbitrary: s m)
  case (Cons c cs)
  let ?s = "on_message q i (chunk_text c) s"
  have s: "?s = handleStreamUpdate q Content c s" using Cons.prems(4) by (simp add: on_message_chunk)
  have m: "messages_of ?s = xs @ [stream_update Content c m]"
    using Cons.prems(1,2) by (simp add: s handleStreamUpdate_def updateLast_append)
  have u: "content_of (stream_update Content c m) = content_of m @ c \<and> m_status (stream_update Content c m) = Some StatusStreaming
    \<and> m_from (stream_update Content c m) = m_from m \<and> m_key (stream_update Content c m) = m_key m"
    using Cons.prems(3) by (intro content_stream_update) auto
  have l: "list_all (\<lambda>c. c \<noteq> [] \<and> str_ok c) cs" using Cons.prems(4) by simp
  show ?case using Cons.IH [OF m _ _ l] u Cons.prems(2) by simp
qed auto

text \<open>
  C9: a stream of content chunks that ends with the end mark ends the generation: the source is
  closed, the message is complete, and its content is the visible part of the text received.
\<close>

theorem stream_session:
  assumes "messages_of s = xs @ [m]" "m_from m = RoleAssistant" "m_status m = Some StatusLoading \<or> m_status m = Some StatusStreaming"
    "list_all (\<lambda>c. c \<noteq> [] \<and> str_ok c) cs"
  shows "let s' = foldl (\<lambda>s d. on_message q i d s) s (map chunk_text cs @ [DONE_MARK]) in
    ch_source s' = None \<and> i \<notin> set (ch_open s') \<and> butlast (messages_of s') = xs
    \<and> m_key (last (messages_of s')) = m_key m \<and> m_status (last (messages_of s')) = Some StatusComplete
    \<and> content_of (last (messages_of s')) = tp_visibleContent (parseThinkTags (content_of m @ concat cs))"
proof -
  obtain m' where m': "messages_of (foldl (\<lambda>s d. on_message q i d s) s (map chunk_text cs)) = xs @ [m']"
    "m_from m' = RoleAssistant" "m_status m' = Some StatusLoading \<or> m_status m' = Some StatusStreaming"
    "m_key m' = m_key m" "content_of m' = content_of m @ concat cs"
    using stream_chunks [OF assms] by blast
  then have "stream_complete m' = (finalizeMessage m' None)\<lparr>m_status := Some StatusComplete\<rparr>"
    by (auto simp: stream_complete_def)
  with m' show ?thesis
    by (simp add: Let_def on_message_def handleStreamComplete_def closeSource_def updateLast_append)
qed

subsection \<open>Requests that overlap\<close>

lemma send_during_stream:
  assumes "js_true (map_of (pg_config (ch_page s)) (js ''stream''))"
  shows "messages_of (handleSendMessage q True u a t s) =
      messages_of s @ [createUserMessage (fst u) (snd u) t, createLoadingAssistantMessage (fst a) (snd a)]"
    "ch_source (handleSendMessage q True u a t s) = Some (length (ch_sources s))"
    "ch_open (handleSendMessage q True u a t s) = ch_open s @ [length (ch_sources s)]"
  using assms by (simp_all add: handleSendMessage_def Let_def sendChat_def sendStreamingChat_def sendStreamRequest_def)

lemma updateLast_two:
  "m_from m = RoleAssistant \<Longrightarrow> updateLastAssistantMessage (xs @ [u, m]) f = xs @ [u, f m]"
  using updateLast_append [of "xs @ [u, m]" "xs @ [u]" m f] by simp

lemma loading_from: "m_from (createLoadingAssistantMessage k v) = RoleAssistant"
  by (simp add: createLoadingAssistantMessage_def)

lemma stop_from: "m_from (stop_message m) = m_from m"
  by (simp add: stop_message_def)

lemma stop_status: "m_status (stop_message (createLoadingAssistantMessage k v)) = Some StatusComplete"
  by (simp add: stop_message_def createLoadingAssistantMessage_def)

lemma stuck_stream_update:
  "m_from m = RoleAssistant \<Longrightarrow> m_status m \<noteq> Some StatusError \<Longrightarrow> stuck (stream_update Content c m)"
  by (simp add: stuck_def content_stream_update)

text \<open>
  C40: a suggestion is sent also during a generation. The earlier source then stays open but is no
  longer current: stopping closes the new one only, and the next chunk of the earlier one puts the
  stopped message back to streaming while the page shows no generation.
\<close>

theorem suggestion_orphans_stream:
  assumes "js_true (map_of (pg_config (ch_page s)) (js ''stream''))"
    "ch_source s = Some i" "i \<in> set (ch_open s)" "i < length (ch_sources s)" "c \<noteq> []" "str_ok c"
  shows "let s1 = run_event q (Suggest True u a t) s; s2 = run_event q Stop s1; s3 = run_event q (MessageEvent i (chunk_text c)) s2 in
    set (ch_open s1) \<supseteq> {i, length (ch_sources s)} \<and> i \<in> set (ch_open s2) \<and> \<not> isStreaming s2
    \<and> \<not> stuck (last (messages_of s2)) \<and> stuck (last (messages_of s3)) \<and> \<not> isStreaming s3"
  using assms
  by (simp add: Let_def handleSuggestionClick_def send_during_stream stopGeneration_def stopStream_def isStreaming_def
      on_message_chunk handleStreamUpdate_def updateLast_two loading_from stop_from stop_status stuck_stream_update)

text \<open>
  Without streaming, an answer that has no choice settles the request and leaves its message
  loading, with no generation to stop.
\<close>

theorem empty_answer_stays_loading:
  assumes "\<not> js_true (map_of (pg_config (ch_page s)) (js ''stream''))" "ch_source s = None" "ch_pending s = []"
    "opt_first (get_member v (js ''choices'')) = None" "v \<noteq> JNull"
  shows "let s' = run_event q (Response (length (ch_requests s)) v err) (handleSendMessage q True u a t s) in
    stuck (last (messages_of s')) \<and> ch_pending s' = [] \<and> \<not> isStreaming s'"
  using assms
  by (simp add: Let_def handleSendMessage_def sendChat_def sendNonStreamingChat_def on_response_def isStreaming_def
      js_true_def stuck_def createLoadingAssistantMessage_def)

subsection \<open>Selecting what is available\<close>

lemma modelsEffect_fix:
  "Some m = map_of (pg_config p) (js ''model'') \<Longrightarrow> m \<in> set models \<Longrightarrow> modelsEffect q models p = p"
  by (auto simp: modelsEffect_def Let_def list_ex_iff)

lemma groupsEffect_fix:
  "Some (JStr g) = map_of (pg_config p) (js ''group'') \<Longrightarrow> g \<in> set groups \<Longrightarrow> groupsEffect q groups p = p"
  by (auto simp: groupsEffect_def Let_def list_ex_iff)

lemma pg_config_updateConfig: "map_of (pg_config (updateConfig q k v p)) = (map_of (pg_config p))(k \<mapsto> v)"
  by (simp add: updateConfig_def Let_def map_of_obj_set)

lemma modelsEffect_selects:
  assumes "models \<noteq> []"
  shows "\<exists>m \<in> set models. map_of (pg_config (modelsEffect q models p)) = (map_of (pg_config p))(js ''model'' \<mapsto> m)"
proof (cases "list_ex (\<lambda>m. Some m = map_of (pg_config p) (js ''model'')) models")
  case True
  then obtain m where "m \<in> set models" "Some m = map_of (pg_config p) (js ''model'')" by (auto simp: list_ex_iff)
  moreover from this have "modelsEffect q models p = p" by (intro modelsEffect_fix)
  ultimately show ?thesis by (metis fun_upd_triv)
next
  case False
  then have "map_of (pg_config (modelsEffect q models p)) = (map_of (pg_config p))(js ''model'' \<mapsto> hd models)"
    using assms by (simp add: modelsEffect_def Let_def pg_config_updateConfig)
  with assms show ?thesis using hd_in_set by blast
qed

lemma groupsEffect_selects:
  assumes "groups \<noteq> []"
  shows "\<exists>g \<in> set groups. map_of (pg_config (groupsEffect q groups p)) = (map_of (pg_config p))(js ''group'' \<mapsto> JStr g)"
proof (cases "list_ex (\<lambda>g. Some (JStr g) = map_of (pg_config p) (js ''group'')) groups")
  case True
  then obtain g where "g \<in> set groups" "Some (JStr g) = map_of (pg_config p) (js ''group'')" by (auto simp: list_ex_iff)
  moreover from this have "groupsEffect q groups p = p" by (intro groupsEffect_fix)
  ultimately show ?thesis by (metis fun_upd_triv)
next
  case False
  let ?g = "case find (\<lambda>g. g = js ''default'') groups of Some g \<Rightarrow> g | None \<Rightarrow> hd groups"
  have "map_of (pg_config (groupsEffect q groups p)) = (map_of (pg_config p))(js ''group'' \<mapsto> JStr ?g)"
    using assms False by (simp add: groupsEffect_def Let_def pg_config_updateConfig)
  moreover have "?g \<in> set groups" using assms hd_in_set [OF assms] by (auto simp: find_Some_iff in_set_conv_nth split: option.split)
  ultimately show ?thesis by blast
qed

text \<open>
  C35: after the models and the groups have arrived, the selected model and group are among them, no
  other setting has changed, and running the two effects again changes nothing, so they come to rest.
\<close>

theorem effects_select_available:
  assumes "models \<noteq> []" "groups \<noteq> []"
  shows "let p' = groupsEffect q groups (modelsEffect q models p) in
    (\<exists>m g. m \<in> set models \<and> g \<in> set groups
      \<and> map_of (pg_config p') = (map_of (pg_config p))(js ''model'' \<mapsto> m, js ''group'' \<mapsto> JStr g))
    \<and> modelsEffect q models p' = p' \<and> groupsEffect q groups p' = p'"
proof -
  obtain m where m: "m \<in> set models" "map_of (pg_config (modelsEffect q models p)) = (map_of (pg_config p))(js ''model'' \<mapsto> m)"
    using modelsEffect_selects [OF assms(1)] by blast
  obtain g where g: "g \<in> set groups" "map_of (pg_config (groupsEffect q groups (modelsEffect q models p)))
      = (map_of (pg_config (modelsEffect q models p)))(js ''group'' \<mapsto> JStr g)"
    using groupsEffect_selects [OF assms(2)] by blast
  have "modelsEffect q models (groupsEffect q groups (modelsEffect q models p)) = groupsEffect q groups (modelsEffect q models p)"
    using m g by (intro modelsEffect_fix [of m]) simp_all
  moreover have "groupsEffect q groups (groupsEffect q groups (modelsEffect q models p)) = groupsEffect q groups (modelsEffect q models p)"
    using m g by (intro groupsEffect_fix [of g]) simp_all
  ultimately show ?thesis using m g by (auto simp: Let_def)
qed

subsection \<open>Witnesses\<close>

abbreviation yes :: quota where "yes \<equiv> \<lambda>_ _ _. True"

definition sample_chat :: chat where
  "sample_chat = run_event yes (Submit True (js ''k1'', js ''v1'') (js ''k2'', js ''v2'') (js ''hi'')) (init_chat sample_page)"

lemma sample_stream: "js_true (map_of (pg_config sample_page) (js ''stream''))" "pg_messages sample_page = []"
  by (simp_all add: sample_page_def js_true_def)

lemma sample_trim: "trim (js ''hi'') \<noteq> []"
  by code_simp

lemma sample_chat_sel:
  "ch_source sample_chat = Some 0" "ch_open sample_chat = [0]" "length (ch_sources sample_chat) = 1" "ch_requests sample_chat = []"
  "messages_of sample_chat = [createUserMessage (js ''k1'') (js ''v1'') (js ''hi''), createLoadingAssistantMessage (js ''k2'') (js ''v2'')]"
  "pg_config (ch_page sample_chat) = pg_config sample_page"
  using sample_stream sample_trim
  by (simp_all add: sample_chat_def handleSubmit_def isStreaming_def init_chat_def handleSendMessage_def Let_def sendChat_def
      sendStreamingChat_def sendStreamRequest_def)

lemma sample_calm: "calm_reachable yes sample_page sample_chat"
  unfolding sample_chat_def by (rule calm_next [OF calm_init chat_stepI]) simp_all

theorem calm_conversation_witness:
  "ch_open sample_chat = [0] \<and> calm_reachable yes sample_page sample_chat"
  using calm_conversation [OF sample_calm] sample_calm by (simp add: sample_chat_sel sample_stream)

theorem current_source_witness: "0 \<in> set (ch_open sample_chat) \<and> \<not> ch_complete sample_chat"
proof -
  have "chat_reachable yes sample_page sample_chat"
    unfolding sample_chat_def by (rule chat_next [OF chat_init chat_stepI]) simp
  from current_source [OF this] show ?thesis by (simp add: sample_chat_sel)
qed

theorem conversation_refines_session_witness:
  "session_step (session_of sample_chat) (session_of (run_event yes Stop sample_chat))"
  by (rule conversation_refines_session [OF sample_calm _ chat_stepI, of Stop])
    (simp_all add: sample_stream sample_chat_sel isStreaming_def)

theorem stream_session_witness:
  "m_status (last (messages_of (foldl (\<lambda>s d. on_message yes 0 d s) sample_chat (map chunk_text [js ''Hel'', js ''lo''] @ [DONE_MARK]))))
     = Some StatusComplete"
  using stream_session [of sample_chat "[createUserMessage (js ''k1'') (js ''v1'') (js ''hi'')]"
      "createLoadingAssistantMessage (js ''k2'') (js ''v2'')" "[js ''Hel'', js ''lo'']" yes 0]
  by (simp add: sample_chat_sel Let_def createLoadingAssistantMessage_def str_ok_def lit)

theorem suggestion_orphans_stream_witness:
  "stuck (last (messages_of (run_event yes (MessageEvent 0 (chunk_text (js ''x''))) (run_event yes Stop
     (run_event yes (Suggest True (js ''a'', js ''b'') (js ''c'', js ''d'') (js ''More'')) sample_chat)))))"
proof -
  have "str_ok (js ''x'')" "js ''x'' \<noteq> []" by (simp_all add: str_ok_def lit)
  then show ?thesis
    using suggestion_orphans_stream [of sample_chat 0 "js ''x''" yes "(js ''a'', js ''b'')" "(js ''c'', js ''d'')" "js ''More''"]
    unfolding Let_def by (simp only: sample_chat_sel sample_stream) simp
qed

theorem empty_answer_stays_loading_witness:
  "let s' = run_event yes (Response 0 (JObj []) []) (handleSendMessage yes True (js ''a'', js ''b'') (js ''c'', js ''d'') (js ''hi'')
      (init_chat (sample_page\<lparr>pg_config := []\<rparr>))) in stuck (last (messages_of s')) \<and> ch_pending s' = [] \<and> \<not> isStreaming s'"
  using empty_answer_stays_loading [of "init_chat (sample_page\<lparr>pg_config := []\<rparr>)" "JObj []" yes "[]"]
  by (simp add: init_chat_def js_true_def opt_first_def get_member_def)

theorem effects_select_available_witness:
  "groupsEffect yes [js ''vip''] (modelsEffect yes [JStr (js ''m9'')] sample_page) =
     groupsEffect yes [js ''vip''] (groupsEffect yes [js ''vip''] (modelsEffect yes [JStr (js ''m9'')] sample_page))"
  using effects_select_available [of "[JStr (js ''m9'')]" "[js ''vip'']" yes sample_page] by (simp add: Let_def)

end
