(* ===== verification/NavConfig.thy ===== *)
theory NavConfig
  imports JsObject
begin

text \<open>
  The header navigation: the reader of the console (\<^verbatim>\<open>lib/nav-modules.ts\<close>,
  \<^verbatim>\<open>hooks/use-top-nav-links.ts\<close>), the reader and writer of the settings page
  (\<^verbatim>\<open>features/system-settings/maintenance/config.ts\<close>) and its form
  (\<^verbatim>\<open>header-navigation-section.tsx\<close>). \<^verbatim>\<open>toLowerCase\<close> depends on the Unicode tables and is the
  argument \<open>lower\<close>. The flags of a configuration are its properties other than the two objects
  \<^verbatim>\<open>pricing\<close> and \<^verbatim>\<open>rankings\<close>; assigning a boolean to \<^verbatim>\<open>__proto__\<close> has no effect.
\<close>

subsection \<open>Types and defaults\<close>

record module_access =
  ma_enabled :: bool
  ma_requireAuth :: bool

datatype header_nav_module = Rankings | Pricing

record nav_modules =
  nm_flags :: "(jsstr \<times> bool) list"
  nm_pricing :: module_access
  nm_rankings :: module_access

definition HEADER_NAV_DEFAULT :: nav_modules where
  "HEADER_NAV_DEFAULT = \<lparr>nm_flags = [(js ''home'', True), (js ''console'', True), (js ''docs'', True), (js ''about'', True)],
     nm_pricing = \<lparr>ma_enabled = True, ma_requireAuth = False\<rparr>, nm_rankings = \<lparr>ma_enabled = True, ma_requireAuth = False\<rparr>\<rparr>"

definition DEFAULT_HEADER_NAV_MODULES :: nav_modules where
  "DEFAULT_HEADER_NAV_MODULES = \<lparr>nm_flags = [(js ''home'', True), (js ''console'', True), (js ''docs'', True), (js ''about'', True)],
     nm_pricing = \<lparr>ma_enabled = True, ma_requireAuth = False\<rparr>, nm_rankings = \<lparr>ma_enabled = True, ma_requireAuth = False\<rparr>\<rparr>"

definition set_flag :: "jsstr \<Rightarrow> bool \<Rightarrow> nav_modules \<Rightarrow> nav_modules" where
  "set_flag key b r = (if key = js ''__proto__'' then r else r\<lparr>nm_flags := AList.update key b (nm_flags r)\<rparr>)"

definition primitive :: "json \<Rightarrow> bool" where
  "primitive v = (case v of JBool _ \<Rightarrow> True | JNum _ \<Rightarrow> True | JStr _ \<Rightarrow> True | _ \<Rightarrow> False)"

subsection \<open>The reader of the console\<close>

definition parseHeaderNavBoolean :: "(jsstr \<Rightarrow> jsstr) \<Rightarrow> json option \<Rightarrow> bool \<Rightarrow> bool" where
  "parseHeaderNavBoolean lower raw fallback = (case raw of
      Some (JBool b) \<Rightarrow> b
    | Some (JNum x) \<Rightarrow> if x = Fin 1 then True else if x = Fin 0 then False else fallback
    | Some (JStr s) \<Rightarrow>
        (let normalized = lower (trim s) in
         if normalized = js ''true'' \<or> normalized = js ''1'' then True
         else if normalized = js ''false'' \<or> normalized = js ''0'' then False
         else fallback)
    | _ \<Rightarrow> fallback)"

definition parseAccess :: "(jsstr \<Rightarrow> jsstr) \<Rightarrow> json \<Rightarrow> module_access \<Rightarrow> module_access" where
  "parseAccess lower raw fallback =
     (if primitive raw then
        \<lparr>ma_enabled = parseHeaderNavBoolean lower (Some raw) (ma_enabled fallback), ma_requireAuth = ma_requireAuth fallback\<rparr>
      else if raw \<noteq> JNull then
        \<lparr>ma_enabled = parseHeaderNavBoolean lower (get_member raw (js ''enabled'')) (ma_enabled fallback),
         ma_requireAuth = parseHeaderNavBoolean lower (get_member raw (js ''requireAuth'')) (ma_requireAuth fallback)\<rparr>
      else fallback)"

definition parseHeaderNavRecord :: "json option \<Rightarrow> json option throws" where
  "parseHeaderNavRecord raw = (case raw of
      None \<Rightarrow> Inr None
    | Some v \<Rightarrow> if \<not> js_true raw then Inr None
        else bind_throws (json_to_string v) (\<lambda>s.
          if trim s = [] then Inr None
          else if \<not> primitive v then Inr (Some v)
          else (case json_parse s of Inr p \<Rightarrow> Inr (Some p) | Inl _ \<Rightarrow> Inr None)))"

definition nav_entry :: "(jsstr \<Rightarrow> jsstr) \<Rightarrow> nav_modules \<Rightarrow> jsstr \<times> json \<Rightarrow> nav_modules" where
  "nav_entry lower result = (\<lambda>(key, v).
     if key = js ''pricing'' then result\<lparr>nm_pricing := parseAccess lower v (nm_pricing result)\<rparr>
     else if key = js ''rankings'' then result\<lparr>nm_rankings := parseAccess lower v (nm_rankings result)\<rparr>
     else
       (let fallback = map_of (nm_flags result) key in
        if fallback \<noteq> None \<or> primitive v
        then set_flag key (parseHeaderNavBoolean lower (Some v) (case fallback of Some b \<Rightarrow> b | None \<Rightarrow> True)) result
        else result))"

definition parseHeaderNavModules :: "(jsstr \<Rightarrow> jsstr) \<Rightarrow> json option \<Rightarrow> nav_modules throws" where
  "parseHeaderNavModules lower raw = bind_throws (parseHeaderNavRecord raw) (\<lambda>parsed.
     if \<not> js_true parsed then Inr DEFAULT_HEADER_NAV_MODULES
     else Inr (foldl (nav_entry lower) DEFAULT_HEADER_NAV_MODULES (spread_entries (the parsed))))"

definition parseHeaderNavModulesFromStatus :: "(jsstr \<Rightarrow> jsstr) \<Rightarrow> json option \<Rightarrow> nav_modules throws" where
  "parseHeaderNavModulesFromStatus lower status = parseHeaderNavModules lower (opt_member status (js ''HeaderNavModules''))"

definition getCachedStatus :: "storage \<Rightarrow> json option" where
  "getCachedStatus st = (case st (js ''status'') of
      None \<Rightarrow> None
    | Some raw \<Rightarrow> if raw = [] then None else (case json_parse raw of Inr v \<Rightarrow> Some v | Inl _ \<Rightarrow> None))"

definition cacheStatus :: "quota \<Rightarrow> json option \<Rightarrow> storage \<Rightarrow> storage" where
  "cacheStatus q status st = (case status of
      None \<Rightarrow> st
    | Some v \<Rightarrow> if js_true status then set_item q (js ''status'') (json_stringify [] v) st else st)"

definition getModuleAccessFromStatus :: "(jsstr \<Rightarrow> jsstr) \<Rightarrow> json option \<Rightarrow> header_nav_module \<Rightarrow> module_access throws" where
  "getModuleAccessFromStatus lower status md = bind_throws (parseHeaderNavModulesFromStatus lower status) (\<lambda>r.
     Inr (case md of Pricing \<Rightarrow> nm_pricing r | Rankings \<Rightarrow> nm_rankings r))"

definition getModuleAccess :: "(jsstr \<Rightarrow> jsstr) \<Rightarrow> storage \<Rightarrow> header_nav_module \<Rightarrow> module_access throws" where
  "getModuleAccess lower st md = getModuleAccessFromStatus lower (getCachedStatus st) md"

text \<open>The answer of \<^verbatim>\<open>getStatus()\<close> is an argument; \<open>Inl\<close> when the request fails.\<close>

definition getFreshModuleAccess ::
  "(jsstr \<Rightarrow> jsstr) \<Rightarrow> quota \<Rightarrow> json option throws \<Rightarrow> header_nav_module \<Rightarrow> storage \<Rightarrow> module_access \<times> storage" where
  "getFreshModuleAccess lower q answer md st = (case answer of
      Inl _ \<Rightarrow> (\<lparr>ma_enabled = False, ma_requireAuth = True\<rparr>, st)
    | Inr status \<Rightarrow>
        ((case getModuleAccessFromStatus lower status md of
            Inl _ \<Rightarrow> \<lparr>ma_enabled = False, ma_requireAuth = True\<rparr> | Inr a \<Rightarrow> a),
         cacheStatus q status st))"

definition isSidebarModuleEnabled :: "jsstr \<Rightarrow> jsstr \<Rightarrow> storage \<Rightarrow> bool throws" where
  "isSidebarModuleEnabled section md st =
     (let status = getCachedStatus st; raw = opt_member status (js ''SidebarModulesAdmin'') in
      if \<not> js_true status then Inr True
      else if \<not> js_true raw then Inr True
      else bind_throws (json_to_string (the raw)) (\<lambda>s.
        if trim s = [] then Inr True
        else (case json_parse s of
            Inl _ \<Rightarrow> Inr True
          | Inr parsed \<Rightarrow>
              (let sectionConfig = get_member parsed section in
               if \<not> js_true sectionConfig then Inr True
               else if opt_member sectionConfig (js ''enabled'') = Some (JBool False) then Inr False
               else if opt_member sectionConfig md = Some (JBool False) then Inr False
               else Inr True))))"

subsection \<open>The links of the header\<close>

record top_nav_link =
  tl_title :: jsstr
  tl_href :: jsstr
  tl_requiresAuth :: "bool option"
  tl_external :: "bool option"

definition access_link :: "jsstr \<Rightarrow> jsstr \<Rightarrow> module_access \<Rightarrow> bool \<Rightarrow> top_nav_link list" where
  "access_link title href access isAuthed =
     (if ma_enabled access then
        [\<lparr>tl_title = title, tl_href = href, tl_requiresAuth = Some (ma_requireAuth access \<and> \<not> isAuthed), tl_external = None\<rparr>]
      else [])"

definition plain_link :: "jsstr \<Rightarrow> jsstr \<Rightarrow> bool option \<Rightarrow> top_nav_link list" where
  "plain_link title href flag =
     (if flag \<noteq> Some False then [\<lparr>tl_title = title, tl_href = href, tl_requiresAuth = None, tl_external = None\<rparr>] else [])"

definition docs_href :: "jsstr option \<Rightarrow> jsstr" where
  "docs_href docsLink = (case docsLink of None \<Rightarrow> js ''/docs'' | Some l \<Rightarrow> if trim l \<noteq> [] then trim l else js ''/docs'')"

definition useTopNavLinks :: "(jsstr \<Rightarrow> jsstr) \<Rightarrow> nav_modules \<Rightarrow> jsstr option \<Rightarrow> bool \<Rightarrow> top_nav_link list" where
  "useTopNavLinks t modules docsLink isAuthed =
     plain_link (t (js ''Home'')) (js ''/'') (map_of (nm_flags modules) (js ''home''))
     @ plain_link (t (js ''Console'')) (js ''/dashboard'') (map_of (nm_flags modules) (js ''console''))
     @ access_link (t (js ''Model Square'')) (js ''/pricing'') (nm_pricing modules) isAuthed
     @ access_link (t (js ''Rankings'')) (js ''/rankings'') (nm_rankings modules) isAuthed
     @ (if map_of (nm_flags modules) (js ''docs'') \<noteq> Some False then
          [\<lparr>tl_title = t (js ''Docs''), tl_href = docs_href docsLink, tl_requiresAuth = None,
            tl_external = Some (starts_with (docs_href docsLink) (js ''http''))\<rparr>] else [])
     @ plain_link (t (js ''About'')) (js ''/about'') (map_of (nm_flags modules) (js ''about''))"

subsection \<open>The settings page\<close>

definition toBoolean :: "(jsstr \<Rightarrow> jsstr) \<Rightarrow> json option \<Rightarrow> bool \<Rightarrow> bool" where
  "toBoolean lower v fallback = (case v of
      Some (JBool b) \<Rightarrow> b
    | Some (JNum x) \<Rightarrow> x = Fin 1
    | Some (JStr s) \<Rightarrow>
        (let normalized = lower (trim s) in
         if normalized = js ''true'' \<or> normalized = js ''1'' then True
         else if normalized = js ''false'' \<or> normalized = js ''0'' then False
         else fallback)
    | _ \<Rightarrow> fallback)"

definition parseAccessModule :: "(jsstr \<Rightarrow> jsstr) \<Rightarrow> json \<Rightarrow> module_access \<Rightarrow> module_access" where
  "parseAccessModule lower raw fallback =
     (if primitive raw then
        \<lparr>ma_enabled = toBoolean lower (Some raw) (ma_enabled fallback), ma_requireAuth = ma_requireAuth fallback\<rparr>
      else if raw \<noteq> JNull then
        \<lparr>ma_enabled = toBoolean lower (get_member raw (js ''enabled'')) (ma_enabled fallback),
         ma_requireAuth = toBoolean lower (get_member raw (js ''requireAuth'')) (ma_requireAuth fallback)\<rparr>
      else fallback)"

definition config_entry :: "(jsstr \<Rightarrow> jsstr) \<Rightarrow> nav_modules \<Rightarrow> nav_modules \<Rightarrow> jsstr \<times> json \<Rightarrow> nav_modules" where
  "config_entry lower base result = (\<lambda>(key, raw).
     if key = js ''pricing'' then result\<lparr>nm_pricing := parseAccessModule lower raw (nm_pricing base)\<rparr>
     else if key = js ''rankings'' then result\<lparr>nm_rankings := parseAccessModule lower raw (nm_rankings base)\<rparr>
     else if primitive raw
       then set_flag key (toBoolean lower (Some raw) (map_of (nm_flags base) key = Some True)) result
     else result)"

definition parseHeaderNavConfig :: "(jsstr \<Rightarrow> jsstr) \<Rightarrow> jsstr option \<Rightarrow> nav_modules" where
  "parseHeaderNavConfig lower v = (case v of
      None \<Rightarrow> HEADER_NAV_DEFAULT
    | Some s \<Rightarrow> if s = [] then HEADER_NAV_DEFAULT
        else (case json_parse s of
          Inl _ \<Rightarrow> HEADER_NAV_DEFAULT
        | Inr JNull \<Rightarrow> HEADER_NAV_DEFAULT
        | Inr parsed \<Rightarrow> foldl (config_entry lower HEADER_NAV_DEFAULT) HEADER_NAV_DEFAULT (spread_entries parsed)))"

text \<open>The object of a configuration: the two access objects stand after \<^verbatim>\<open>home\<close> and \<^verbatim>\<open>console\<close>.\<close>

definition access_object :: "module_access \<Rightarrow> json" where
  "access_object a = JObj [(js ''enabled'', JBool (ma_enabled a)), (js ''requireAuth'', JBool (ma_requireAuth a))]"

definition flag_entries :: "(jsstr \<times> bool) list \<Rightarrow> js_obj" where
  "flag_entries fs = map (\<lambda>(k, b). (k, JBool b)) fs"

definition nav_object :: "nav_modules \<Rightarrow> js_obj" where
  "nav_object c = flag_entries (take 2 (nm_flags c))
     @ [(js ''pricing'', access_object (nm_pricing c)), (js ''rankings'', access_object (nm_rankings c))]
     @ flag_entries (drop 2 (nm_flags c))"

definition serializeHeaderNavModules :: "nav_modules \<Rightarrow> jsstr" where
  "serializeHeaderNavModules config = json_stringify [] (JObj (nav_object config))"

record header_nav_form =
  hf_home :: bool
  hf_console :: bool
  hf_pricingEnabled :: bool
  hf_pricingRequireAuth :: bool
  hf_rankingsEnabled :: bool
  hf_rankingsRequireAuth :: bool
  hf_docs :: bool
  hf_about :: bool

definition flag_or_default :: "nav_modules \<Rightarrow> jsstr \<Rightarrow> bool" where
  "flag_or_default config key = (case map_of (nm_flags config) key of
      None \<Rightarrow> (case map_of (nm_flags HEADER_NAV_DEFAULT) key of Some b \<Rightarrow> b | None \<Rightarrow> False)
    | Some b \<Rightarrow> b)"

definition toFormValues :: "nav_modules \<Rightarrow> header_nav_form" where
  "toFormValues config = \<lparr>
     hf_home = flag_or_default config (js ''home''), hf_console = flag_or_default config (js ''console''),
     hf_pricingEnabled = ma_enabled (nm_pricing config), hf_pricingRequireAuth = ma_requireAuth (nm_pricing config),
     hf_rankingsEnabled = ma_enabled (nm_rankings config), hf_rankingsRequireAuth = ma_requireAuth (nm_rankings config),
     hf_docs = flag_or_default config (js ''docs''), hf_about = flag_or_default config (js ''about'')\<rparr>"

definition form_payload :: "nav_modules \<Rightarrow> header_nav_form \<Rightarrow> nav_modules" where
  "form_payload config values = \<lparr>
     nm_flags = AList.update (js ''about'') (hf_about values) (AList.update (js ''docs'') (hf_docs values)
       (AList.update (js ''console'') (hf_console values) (AList.update (js ''home'') (hf_home values) (nm_flags config)))),
     nm_pricing = \<lparr>ma_enabled = hf_pricingEnabled values, ma_requireAuth = hf_pricingRequireAuth values\<rparr>,
     nm_rankings = \<lparr>ma_enabled = hf_rankingsEnabled values, ma_requireAuth = hf_rankingsRequireAuth values\<rparr>\<rparr>"

text \<open>The option that is sent, if any.\<close>

definition nav_onSubmit :: "nav_modules \<Rightarrow> jsstr \<Rightarrow> header_nav_form \<Rightarrow> (jsstr \<times> jsstr) option" where
  "nav_onSubmit config initialSerialized values =
     (let serialized = serializeHeaderNavModules (form_payload config values) in
      if serialized = initialSerialized then None else Some (js ''HeaderNavModules'', serialized))"

subsection \<open>Reading a saved configuration\<close>

definition object_keys :: "jsstr set" where
  "object_keys = {js ''pricing'', js ''rankings''}"

definition wf_nav :: "nav_modules \<Rightarrow> bool" where
  "wf_nav c \<longleftrightarrow> distinct (map fst (nm_flags c)) \<and> list_all str_ok (map fst (nm_flags c))
     \<and> set (map fst (nm_flags c)) \<inter> {js ''pricing'', js ''rankings'', js ''__proto__''} = {}
     \<and> set (map fst (nm_flags HEADER_NAV_DEFAULT)) \<subseteq> set (map fst (nm_flags c))"

text \<open>An entry that stands for a part of the configuration \<open>c\<close>.\<close>

definition entry_of :: "nav_modules \<Rightarrow> jsstr \<times> json \<Rightarrow> bool" where
  "entry_of c = (\<lambda>(k, v).
     (k = js ''pricing'' \<and> v = access_object (nm_pricing c)) \<or> (k = js ''rankings'' \<and> v = access_object (nm_rankings c))
     \<or> (\<exists>b. v = JBool b \<and> k \<noteq> js ''pricing'' \<and> k \<noteq> js ''rankings'' \<and> k \<noteq> js ''__proto__'' \<and> map_of (nm_flags c) k = Some b))"

text \<open>
  The contract of a reader of entries: it takes over an access object and a boolean flag. Both the
  console and the settings page satisfy it, so both read a saved configuration back.
\<close>

locale entry_reader =
  fixes step :: "nav_modules \<Rightarrow> jsstr \<times> json \<Rightarrow> nav_modules"
  assumes step_pricing: "step r (js ''pricing'', access_object a) = r\<lparr>nm_pricing := a\<rparr>"
    and step_rankings: "step r (js ''rankings'', access_object a) = r\<lparr>nm_rankings := a\<rparr>"
    and step_flag: "k \<noteq> js ''pricing'' \<Longrightarrow> k \<noteq> js ''rankings'' \<Longrightarrow> step r (k, JBool b) = set_flag k b r"
begin

lemma step_entry:
  assumes "entry_of c (k, v)"
  shows "map_of (nm_flags (step r (k, v))) = (if k \<in> object_keys then map_of (nm_flags r) else (map_of (nm_flags r))(k := map_of (nm_flags c) k))"
    "nm_pricing (step r (k, v)) = (if k = js ''pricing'' then nm_pricing c else nm_pricing r)"
    "nm_rankings (step r (k, v)) = (if k = js ''rankings'' then nm_rankings c else nm_rankings r)"
  using assms
  by (auto simp: entry_of_def object_keys_def step_pricing step_rankings step_flag set_flag_def update_conv')

lemma fold_entries:
  "list_all (entry_of c) es \<Longrightarrow>
    map_of (nm_flags (foldl step r es)) =
      (\<lambda>k. if k \<in> fst ` set es - object_keys then map_of (nm_flags c) k else map_of (nm_flags r) k)
    \<and> nm_pricing (foldl step r es) = (if js ''pricing'' \<in> fst ` set es then nm_pricing c else nm_pricing r)
    \<and> nm_rankings (foldl step r es) = (if js ''rankings'' \<in> fst ` set es then nm_rankings c else nm_rankings r)"
proof (induction es arbitrary: r)
  case (Cons e es)
  obtain k v where e: "e = (k, v)" by (cases e)
  with Cons.prems have c: "entry_of c (k, v)" by simp
  show ?case using Cons step_entry [OF c, of r] by (auto simp: e object_keys_def fun_eq_iff)
qed (simp add: object_keys_def)

end

lemma map_of_flag_entries: "map_of (flag_entries fs) k = map_option JBool (map_of fs k)"
  by (induction fs) (auto simp: flag_entries_def)

lemma keys_flag_entries [simp]: "map fst (flag_entries fs) = map fst fs"
  by (auto simp: flag_entries_def)

lemma keys_nav_object: "set (map fst (nav_object c)) = set (map fst (nm_flags c)) \<union> object_keys"
proof -
  have "set (map fst (nm_flags c)) = set (map fst (take 2 (nm_flags c) @ drop 2 (nm_flags c)))" by simp
  then show ?thesis unfolding nav_object_def map_append keys_flag_entries by (auto simp: object_keys_def simp del: append_take_drop_id)
qed

lemma distinct_nav_object:
  assumes "distinct (map fst (nm_flags c))" "set (map fst (nm_flags c)) \<inter> object_keys = {}"
  shows "distinct (map fst (nav_object c))"
proof -
  have d: "map fst (nm_flags c) = map fst (take 2 (nm_flags c)) @ map fst (drop 2 (nm_flags c))"
    by (metis append_take_drop_id map_append)
  show ?thesis using assms unfolding d by (auto simp: nav_object_def object_keys_def)
qed

lemma canon_access [simp]: "canon (access_object a) = access_object a"
  unfolding access_object_def
  by (rule canon_obj_id) (auto simp: is_array_index_def is_digit_def lit)

lemma wf_nav_absent:
  assumes "wf_nav c" "k \<in> {js ''pricing'', js ''rankings'', js ''__proto__''}"
  shows "map_of (nm_flags c) k = None"
proof -
  have "k \<notin> set (map fst (nm_flags c))" using assms unfolding wf_nav_def by blast
  then show ?thesis by (simp add: map_of_eq_None_iff)
qed

lemma nav_object_entries:
  assumes "wf_nav c" "map_of (nav_object c) k = Some v"
  shows "entry_of c (k, v)"
proof -
  have d: "map_of (nm_flags c) = map_of (drop 2 (nm_flags c)) ++ map_of (take 2 (nm_flags c))"
    by (metis append_take_drop_id map_of_append)
  have n: "map_of (nm_flags c) k = None" if "k \<in> object_keys"
    using wf_nav_absent [OF assms(1), of k] that by (auto simp: object_keys_def)
  then have "map_of (take 2 (nm_flags c)) k = None" if "k \<in> object_keys" using that by (simp add: d map_add_None)
  moreover have "k \<noteq> js ''__proto__''" if "map_of (nm_flags c) k = Some b" for b
    using wf_nav_absent [OF assms(1), of k] that by auto
  ultimately show ?thesis
    using assms(2) n by (auto simp: nav_object_def entry_of_def object_keys_def map_of_flag_entries d map_add_def split: option.splits if_splits)
qed

lemma canon_entry: "entry_of c (k, v) \<Longrightarrow> canon v = v"
  by (auto simp: entry_of_def)

lemma json_ok_entry: "entry_of c (k, v) \<Longrightarrow> json_ok v"
  by (auto simp: entry_of_def access_object_def str_ok_def lit)

lemma json_ok_nav_object:
  assumes "wf_nav c"
  shows "json_ok (JObj (nav_object c))"
proof -
  have d: "distinct (map fst (nav_object c))"
    using assms by (intro distinct_nav_object) (auto simp: wf_nav_def object_keys_def)
  have "str_ok k" if "k \<in> set (map fst (nav_object c))" for k
    using that assms unfolding keys_nav_object
    by (auto simp: object_keys_def str_ok_def lit wf_nav_def list_all_iff)
  moreover have "json_ok v" if "(k, v) \<in> set (nav_object c)" for k v
    using json_ok_entry [OF nav_object_entries [OF assms map_of_is_SomeI [OF d that]]] .
  ultimately show ?thesis using d by (force simp: members_ok_iff)
qed

lemma saved_entries:
  assumes "wf_nav c"
  shows "\<exists>es. json_parse (serializeHeaderNavModules c) = Inr (JObj es) \<and> list_all (entry_of c) (spread_entries (JObj es))
    \<and> fst ` set (spread_entries (JObj es)) = set (map fst (nm_flags c)) \<union> object_keys"
proof -
  obtain es where es: "json_parse (serializeHeaderNavModules c) = Inr (JObj es)" "distinct (map fst es)"
    "map_of es = (\<lambda>x. map_option canon (map_of (nav_object c) x))"
    using parse_saved_object [OF json_ok_nav_object [OF assms]] unfolding serializeHeaderNavModules_def by blast
  have "canon v = v" if "map_of (nav_object c) x = Some v" for x v
    using nav_object_entries [OF assms that] by (rule canon_entry)
  then have "map_of (nav_object c) x = map_option canon (map_of (nav_object c) x)" for x
    by (cases "map_of (nav_object c) x") simp_all
  then have m: "map_of (spread_entries (JObj es)) = map_of (nav_object c)"
    using spread_entries_obj(2) [OF es(2)] es(3) by auto
  have "list_all (entry_of c) (spread_entries (JObj es))"
    using nav_object_entries [OF assms] m map_of_is_SomeI [OF spread_entries_obj(1) [OF es(2)]] by (auto simp: list_all_iff)
  moreover have "fst ` set (spread_entries (JObj es)) = set (map fst (nav_object c))"
    using arg_cong [OF m, of dom] by (simp add: dom_map_of_conv_image_fst)
  ultimately show ?thesis using es(1) unfolding keys_nav_object [symmetric] by blast
qed

interpretation console_reader: entry_reader "nav_entry lower" for lower
  by unfold_locales (auto simp: nav_entry_def parseAccess_def access_object_def primitive_def get_member_def
      parseHeaderNavBoolean_def Let_def)

interpretation settings_reader: entry_reader "config_entry lower base" for lower base
  by unfold_locales (auto simp: config_entry_def parseAccessModule_def access_object_def primitive_def get_member_def
      toBoolean_def)

definition same_nav :: "nav_modules \<Rightarrow> nav_modules \<Rightarrow> bool" where
  "same_nav r c \<longleftrightarrow> nm_pricing r = nm_pricing c \<and> nm_rankings r = nm_rankings c \<and> map_of (nm_flags r) = map_of (nm_flags c)"

lemma same_nav_fold:
  assumes "wf_nav c" "nm_flags r = nm_flags HEADER_NAV_DEFAULT"
    "map_of (nm_flags x) = (\<lambda>k. if k \<in> (set (map fst (nm_flags c)) \<union> object_keys) - object_keys then map_of (nm_flags c) k else map_of (nm_flags r) k)"
    "nm_pricing x = nm_pricing c" "nm_rankings x = nm_rankings c"
  shows "same_nav x c"
proof -
  have "map_of (nm_flags x) k = map_of (nm_flags c) k" for k
  proof (cases "k \<in> set (map fst (nm_flags c))")
    case True
    then have "k \<notin> object_keys" using assms(1) unfolding wf_nav_def object_keys_def by blast
    with True show ?thesis unfolding assms(3) by simp
  next
    case False
    then have "map_of (nm_flags c) k = None" by (simp add: map_of_eq_None_iff)
    moreover have "k \<notin> set (map fst (nm_flags r))" using False assms(1) unfolding wf_nav_def assms(2) by blast
    then have "map_of (nm_flags r) k = None" by (simp add: map_of_eq_None_iff)
    ultimately show ?thesis using False unfolding assms(3) by auto
  qed
  with assms(4,5) show ?thesis by (auto simp: same_nav_def)
qed

lemma same_nav_read:
  assumes "wf_nav c" "list_all (entry_of c) es" "fst ` set es = set (map fst (nm_flags c)) \<union> object_keys"
  shows "same_nav (foldl (nav_entry lower) DEFAULT_HEADER_NAV_MODULES es) c"
    and "same_nav (foldl (config_entry lower base) HEADER_NAV_DEFAULT es) c"
proof -
  have o: "js ''pricing'' \<in> fst ` set es" "js ''rankings'' \<in> fst ` set es" by (auto simp: assms(3) object_keys_def)
  show "same_nav (foldl (nav_entry lower) DEFAULT_HEADER_NAV_MODULES es) c"
    using console_reader.fold_entries [OF assms(2), of lower DEFAULT_HEADER_NAV_MODULES] o
    by (intro same_nav_fold [OF assms(1), of DEFAULT_HEADER_NAV_MODULES])
      (simp_all add: assms(3) DEFAULT_HEADER_NAV_MODULES_def HEADER_NAV_DEFAULT_def)
  show "same_nav (foldl (config_entry lower base) HEADER_NAV_DEFAULT es) c"
    using settings_reader.fold_entries [OF assms(2), of lower base HEADER_NAV_DEFAULT] o
    by (intro same_nav_fold [OF assms(1), of HEADER_NAV_DEFAULT]) (simp_all add: assms(3))
qed

lemma trim_serialized: "trim (serializeHeaderNavModules c) \<noteq> [] \<and> serializeHeaderNavModules c \<noteq> []"
proof -
  have "123 \<in> set (serializeHeaderNavModules c)" by (simp add: serializeHeaderNavModules_def json_stringify_def)
  moreover have "\<not> is_ws 123" by code_simp
  ultimately show ?thesis by (auto simp: trim_eq_Nil)
qed

lemma read_saved_nav:
  assumes "wf_nav c"
  shows "\<exists>r. parseHeaderNavModules lower (Some (JStr (serializeHeaderNavModules c))) = Inr r \<and> same_nav r c"
    and "same_nav (parseHeaderNavConfig lower (Some (serializeHeaderNavModules c))) c"
proof -
  obtain es where es: "json_parse (serializeHeaderNavModules c) = Inr (JObj es)"
    "list_all (entry_of c) (spread_entries (JObj es))"
    "fst ` set (spread_entries (JObj es)) = set (map fst (nm_flags c)) \<union> object_keys" using saved_entries [OF assms] by blast
  note r = same_nav_read [OF assms es(2,3)]
  show "\<exists>r. parseHeaderNavModules lower (Some (JStr (serializeHeaderNavModules c))) = Inr r \<and> same_nav r c"
    using r(1) es(1) trim_serialized [of c]
    by (simp add: parseHeaderNavModules_def parseHeaderNavRecord_def bind_throws_def js_true_def primitive_def)
  show "same_nav (parseHeaderNavConfig lower (Some (serializeHeaderNavModules c))) c"
    using r(2) es(1) trim_serialized [of c] by (simp add: parseHeaderNavConfig_def)
qed

text \<open>
  C11: the header shows what the administrator saved. After the settings form has been submitted, the
  console reads from the saved text exactly the links that were switched on, with the login
  requirement that was chosen, and the settings page reads the same form values back.
\<close>

theorem header_form_to_links:
  assumes "wf_nav config"
  shows "let saved = serializeHeaderNavModules (form_payload config values) in
    toFormValues (parseHeaderNavConfig lower (Some saved)) = values
    \<and> (\<exists>r. parseHeaderNavModules lower (Some (JStr saved)) = Inr r
      \<and> map tl_href (useTopNavLinks t r docs authed) =
          (if hf_home values then [js ''/''] else []) @ (if hf_console values then [js ''/dashboard''] else [])
          @ (if hf_pricingEnabled values then [js ''/pricing''] else []) @ (if hf_rankingsEnabled values then [js ''/rankings''] else [])
          @ (if hf_docs values then [docs_href docs] else []) @ (if hf_about values then [js ''/about''] else [])
      \<and> nm_pricing r = \<lparr>ma_enabled = hf_pricingEnabled values, ma_requireAuth = hf_pricingRequireAuth values\<rparr>
      \<and> nm_rankings r = \<lparr>ma_enabled = hf_rankingsEnabled values, ma_requireAuth = hf_rankingsRequireAuth values\<rparr>)"
proof -
  let ?c = "form_payload config values"
  have "{js ''home'', js ''console'', js ''docs'', js ''about''} \<subseteq> set (map fst (nm_flags config))"
    using assms by (simp add: wf_nav_def HEADER_NAV_DEFAULT_def)
  then have "map fst (nm_flags ?c) = map fst (nm_flags config)" by (simp add: form_payload_def update_keys)
  with assms have wf: "wf_nav ?c" by (simp add: wf_nav_def)
  obtain r where r: "parseHeaderNavModules lower (Some (JStr (serializeHeaderNavModules ?c))) = Inr r" "same_nav r ?c"
    using read_saved_nav(1) [OF wf] by blast
  have s: "same_nav (parseHeaderNavConfig lower (Some (serializeHeaderNavModules ?c))) ?c" by (rule read_saved_nav(2) [OF wf])
  have f: "map_of (nm_flags ?c) (js ''home'') = Some (hf_home values)" "map_of (nm_flags ?c) (js ''console'') = Some (hf_console values)"
    "map_of (nm_flags ?c) (js ''docs'') = Some (hf_docs values)" "map_of (nm_flags ?c) (js ''about'') = Some (hf_about values)"
    "nm_pricing ?c = \<lparr>ma_enabled = hf_pricingEnabled values, ma_requireAuth = hf_pricingRequireAuth values\<rparr>"
    "nm_rankings ?c = \<lparr>ma_enabled = hf_rankingsEnabled values, ma_requireAuth = hf_rankingsRequireAuth values\<rparr>"
    by (simp_all add: form_payload_def update_conv')
  have "toFormValues (parseHeaderNavConfig lower (Some (serializeHeaderNavModules ?c))) = values"
    using s f by (simp add: toFormValues_def same_nav_def flag_or_default_def)
  moreover have "map tl_href (useTopNavLinks t r docs authed) =
          (if hf_home values then [js ''/''] else []) @ (if hf_console values then [js ''/dashboard''] else [])
          @ (if hf_pricingEnabled values then [js ''/pricing''] else []) @ (if hf_rankingsEnabled values then [js ''/rankings''] else [])
          @ (if hf_docs values then [docs_href docs] else []) @ (if hf_about values then [js ''/about''] else [])"
    using r(2) f by (simp add: useTopNavLinks_def same_nav_def plain_link_def access_link_def)
  ultimately show ?thesis using r f by (auto simp: Let_def same_nav_def)
qed

text \<open>
  A request for the access rule of a module that fails closes the module, and one that succeeds
  leaves the status in the cache, from which the same rule is read afterwards.
\<close>

theorem fresh_then_cached:
  assumes "\<And>st k v. q st k v" "json_ok (JObj kvs)"
    "map_of kvs (js ''HeaderNavModules'') = None \<or> (\<exists>x. map_of kvs (js ''HeaderNavModules'') = Some (JStr x))"
  shows "fst (getFreshModuleAccess lower q (Inl e) md st) = \<lparr>ma_enabled = False, ma_requireAuth = True\<rparr>
    \<and> (case getFreshModuleAccess lower q (Inr (Some (JObj kvs))) md st of (a, st') \<Rightarrow> getModuleAccess lower st' md = Inr a)"
proof -
  obtain es where es: "json_parse (json_stringify [] (JObj kvs)) = Inr (JObj es)"
    "map_of es = (\<lambda>x. map_option canon (map_of kvs x))" using parse_saved_object [OF assms(2)] by blast
  have "json_stringify [] (JObj kvs) \<noteq> []" by (simp add: json_stringify_def)
  then have "getCachedStatus (cacheStatus q (Some (JObj kvs)) st) = Some (JObj es)"
    using es(1) assms(1) by (simp add: getCachedStatus_def cacheStatus_def js_true_def set_item_def)
  moreover have "opt_member (Some (JObj es)) (js ''HeaderNavModules'') = opt_member (Some (JObj kvs)) (js ''HeaderNavModules'')"
    using assms(3) by (auto simp: opt_member_def get_member_def es(2))
  moreover have "\<exists>r. parseHeaderNavModules lower (opt_member (Some (JObj kvs)) (js ''HeaderNavModules'')) = Inr r"
    using assms(3)
    by (auto simp: opt_member_def get_member_def parseHeaderNavModules_def parseHeaderNavRecord_def bind_throws_def js_true_def
        primitive_def split: sum.splits if_splits)
  ultimately show ?thesis
    by (auto simp: getFreshModuleAccess_def getModuleAccess_def getModuleAccessFromStatus_def
        parseHeaderNavModulesFromStatus_def bind_throws_def)
qed

text \<open>
  The settings page and the console read some flags differently. A number other than 0 and 1
  keeps the default in the console and is off on the settings page, and a word that is no boolean is
  on in the console and off on the settings page for a module without a default.
\<close>

theorem flag_readers_differ:
  "parseHeaderNavBoolean lower (Some (JNum (Fin 2))) True \<and> \<not> toBoolean lower (Some (JNum (Fin 2))) True
   \<and> map_of (nm_flags (nav_entry lower DEFAULT_HEADER_NAV_MODULES (js ''blog'', JNull))) (js ''blog'') = None
   \<and> (lower (js ''yes'') = js ''yes'' \<longrightarrow>
       map_of (nm_flags (nav_entry lower DEFAULT_HEADER_NAV_MODULES (js ''blog'', JStr (js ''yes'')))) (js ''blog'') = Some True
       \<and> map_of (nm_flags (config_entry lower HEADER_NAV_DEFAULT HEADER_NAV_DEFAULT (js ''blog'', JStr (js ''yes'')))) (js ''blog'') = Some False)"
proof -
  have t: "trim (js ''yes'') = js ''yes''" by code_simp
  show ?thesis
    by (simp add: parseHeaderNavBoolean_def toBoolean_def nav_entry_def config_entry_def set_flag_def primitive_def update_conv'
        DEFAULT_HEADER_NAV_MODULES_def HEADER_NAV_DEFAULT_def Let_def t)
qed

subsection \<open>Witnesses\<close>

lemma wf_default: "wf_nav HEADER_NAV_DEFAULT"
  by (simp add: wf_nav_def HEADER_NAV_DEFAULT_def str_ok_def lit)

theorem header_form_to_links_witness:
  "toFormValues (parseHeaderNavConfig id (Some (serializeHeaderNavModules (form_payload HEADER_NAV_DEFAULT
      (toFormValues HEADER_NAV_DEFAULT))))) = toFormValues HEADER_NAV_DEFAULT"
  using header_form_to_links [OF wf_default, of "toFormValues HEADER_NAV_DEFAULT" id id None True] by (simp add: Let_def)

theorem fresh_then_cached_witness:
  "case getFreshModuleAccess id (\<lambda>_ _ _. True) (Inr (Some (JObj [(js ''version'', JStr (js ''v1''))]))) Pricing Map.empty of
     (a, st') \<Rightarrow> getModuleAccess id st' Pricing = Inr a"
proof -
  have "json_ok (JObj [(js ''version'', JStr (js ''v1''))])" by (simp add: str_ok_def lit)
  then show ?thesis
    using fresh_then_cached [of "\<lambda>_ _ _. True" "[(js ''version'', JStr (js ''v1''))]" id SyntaxError Pricing Map.empty] by simp
qed

theorem flag_readers_differ_witness:
  "map_of (nm_flags (config_entry id HEADER_NAV_DEFAULT HEADER_NAV_DEFAULT (js ''blog'', JStr (js ''yes'')))) (js ''blog'') = Some False"
  using flag_readers_differ [of id] by simp

end
