(* ===== verification/SidebarConfig.thy ===== *)
theory SidebarConfig
  imports NavConfig
begin

text \<open>
  The side bar: the settings of the administrator (\<^verbatim>\<open>features/system-settings/maintenance/config.ts\<close>)
  and the filter of the console (\<^verbatim>\<open>hooks/use-sidebar-config.ts\<close>), which combines them with the
  settings of the user. A configuration of the settings page has a list of flags for each section;
  the console keeps the parsed object.
\<close>

subsection \<open>The settings page\<close>

type_synonym sidebar_section = "(jsstr \<times> bool) list"

type_synonym sidebar_config = "(jsstr \<times> sidebar_section) list"

definition SIDEBAR_MODULES_DEFAULT :: sidebar_config where
  "SIDEBAR_MODULES_DEFAULT =
     [(js ''chat'', [(js ''enabled'', True), (js ''playground'', True), (js ''chat'', True)]),
      (js ''console'', [(js ''enabled'', True), (js ''detail'', True), (js ''token'', True), (js ''log'', True),
         (js ''midjourney'', True), (js ''task'', True)]),
      (js ''personal'', [(js ''enabled'', True), (js ''topup'', True), (js ''personal'', True)]),
      (js ''admin'', [(js ''enabled'', True), (js ''channel'', True), (js ''models'', True), (js ''redemption'', True),
         (js ''user'', True), (js ''setting'', True), (js ''subscription'', True)])]"

definition or_true :: "bool option \<Rightarrow> bool" where
  "or_true v = (case v of Some b \<Rightarrow> b | None \<Rightarrow> True)"

definition section_entry ::
  "(jsstr \<Rightarrow> jsstr) \<Rightarrow> sidebar_section \<Rightarrow> sidebar_section \<Rightarrow> jsstr \<times> json \<Rightarrow> sidebar_section" where
  "section_entry lower defaultSection sectionConfig = (\<lambda>(moduleKey, moduleValue).
     if moduleKey = js ''enabled'' then sectionConfig
     else AList.update moduleKey (toBoolean lower (Some moduleValue) (or_true (map_of defaultSection moduleKey))) sectionConfig)"

definition parse_section :: "(jsstr \<Rightarrow> jsstr) \<Rightarrow> sidebar_section \<Rightarrow> json \<Rightarrow> sidebar_section" where
  "parse_section lower defaultSection raw =
     foldl (section_entry lower defaultSection)
       [(js ''enabled'', toBoolean lower (get_member raw (js ''enabled'')) (or_true (map_of defaultSection (js ''enabled''))))]
       (spread_entries raw)"





definition sidebar_object :: "sidebar_config \<Rightarrow> js_obj" where
  "sidebar_object c = map (\<lambda>(k, s). (k, JObj (flag_entries s))) c"


subsection \<open>The configurations of the console\<close>

definition DEFAULT_SIDEBAR_MODULES :: js_obj where
  "DEFAULT_SIDEBAR_MODULES = sidebar_object
     [(js ''chat'', [(js ''enabled'', True), (js ''playground'', True), (js ''chat'', True)]),
      (js ''console'', [(js ''enabled'', True), (js ''detail'', True), (js ''token'', True), (js ''log'', True),
         (js ''midjourney'', True), (js ''task'', True)]),
      (js ''personal'', [(js ''enabled'', True), (js ''topup'', True), (js ''personal'', True)]),
      (js ''admin'', [(js ''enabled'', True), (js ''channel'', True), (js ''models'', True), (js ''redemption'', True),
         (js ''user'', True), (js ''setting'', True), (js ''subscription'', True)])]"

definition fill_module :: "js_obj \<Rightarrow> jsstr \<times> json \<Rightarrow> js_obj" where
  "fill_module section = (\<lambda>(moduleKey, v). if map_of section moduleKey = None then obj_set section moduleKey v else section)"

definition merge_section :: "js_obj \<Rightarrow> jsstr \<times> json \<Rightarrow> js_obj" where
  "merge_section merged = (\<lambda>(sectionKey, defaultSection).
     let existingSection = map_of merged sectionKey; defaults = spread_entries defaultSection in
     if \<not> js_true existingSection then obj_set merged sectionKey (JObj defaults)
     else obj_set merged sectionKey (JObj (foldl fill_module (spread defaults (the existingSection)) defaults)))"

definition mergeWithDefaultSidebarModules :: "json \<Rightarrow> js_obj" where
  "mergeWithDefaultSidebarModules config = foldl merge_section (spread [] config) DEFAULT_SIDEBAR_MODULES"

definition parseSidebarConfig :: "jsstr option \<Rightarrow> js_obj" where
  "parseSidebarConfig v = (case v of
      None \<Rightarrow> DEFAULT_SIDEBAR_MODULES
    | Some s \<Rightarrow> if s = [] \<or> trim s = [] then DEFAULT_SIDEBAR_MODULES
        else (case json_parse s of
          Inl _ \<Rightarrow> DEFAULT_SIDEBAR_MODULES
        | Inr parsed \<Rightarrow> mergeWithDefaultSidebarModules parsed))"

definition parseUserSidebarConfig :: "jsstr option \<Rightarrow> json option" where
  "parseUserSidebarConfig v = (case v of
      None \<Rightarrow> None
    | Some s \<Rightarrow> if s = [] \<or> trim s = [] then None
        else (case json_parse s of
          Inl _ \<Rightarrow> None
        | Inr parsed \<Rightarrow> if primitive parsed \<or> parsed = JNull then None else Some parsed))"

definition URL_TO_CONFIG_MAP :: "(jsstr \<times> jsstr \<times> jsstr) list" where
  "URL_TO_CONFIG_MAP =
     [(js ''/playground'', js ''chat'', js ''playground''), (js ''/dashboard'', js ''console'', js ''detail''),
      (js ''/dashboard/overview'', js ''console'', js ''detail''), (js ''/dashboard/models'', js ''console'', js ''detail''),
      (js ''/dashboard/users'', js ''console'', js ''detail''), (js ''/keys'', js ''console'', js ''token''),
      (js ''/usage-logs'', js ''console'', js ''log''), (js ''/usage-logs/common'', js ''console'', js ''log''),
      (js ''/usage-logs/drawing'', js ''console'', js ''midjourney''), (js ''/usage-logs/task'', js ''console'', js ''task''),
      (js ''/wallet'', js ''personal'', js ''topup''), (js ''/profile'', js ''personal'', js ''personal''),
      (js ''/channels'', js ''admin'', js ''channel''), (js ''/models'', js ''admin'', js ''models''),
      (js ''/models/metadata'', js ''admin'', js ''models''), (js ''/models/deployments'', js ''admin'', js ''models''),
      (js ''/models/naming'', js ''admin'', js ''models''), (js ''/users'', js ''admin'', js ''user''),
      (js ''/redemption-codes'', js ''admin'', js ''redemption''), (js ''/subscriptions'', js ''admin'', js ''subscription''),
      (js ''/system-settings'', js ''admin'', js ''setting''), (js ''/system-settings/site'', js ''admin'', js ''setting'')]"

subsection \<open>Visibility\<close>

definition admin_allows :: "js_obj \<Rightarrow> jsstr \<Rightarrow> jsstr \<Rightarrow> bool" where
  "admin_allows adminConfig section md =
     (let adminSection = map_of adminConfig section in
      js_true adminSection \<and> js_true (opt_member adminSection (js ''enabled'')) \<and> opt_member adminSection md = Some (JBool True))"

definition user_allows :: "json option \<Rightarrow> jsstr \<Rightarrow> jsstr \<Rightarrow> bool" where
  "user_allows userConfig section md =
     (let userSection = opt_member userConfig section in
      userConfig = None \<or> \<not> js_true userSection
      \<or> (opt_member userSection (js ''enabled'') \<noteq> Some (JBool False) \<and> opt_member userSection md \<noteq> Some (JBool False)))"

definition isModuleEnabled :: "jsstr \<Rightarrow> js_obj \<Rightarrow> json option \<Rightarrow> bool" where
  "isModuleEnabled url adminConfig userConfig = (case map_of URL_TO_CONFIG_MAP url of
      None \<Rightarrow> True
    | Some (section, md) \<Rightarrow> admin_allows adminConfig section md \<and> user_allows userConfig section md)"

record nav_base =
  nb_title :: jsstr
  nb_configUrls :: "jsstr list option"

datatype nav_item =
    NavLink nav_base jsstr
  | NavCollapsible nav_base "(nav_base \<times> jsstr) list"
  | NavChatPresets nav_base

record nav_group =
  ng_title :: jsstr
  ng_items :: "nav_item list"

fun isNavItemVisible :: "nav_item \<Rightarrow> js_obj \<Rightarrow> json option \<Rightarrow> bool" where
  "isNavItemVisible (NavChatPresets b) adminConfig userConfig =
     (admin_allows adminConfig (js ''chat'') (js ''chat'') \<and> user_allows userConfig (js ''chat'') (js ''chat''))"
| "isNavItemVisible (NavLink b url) adminConfig userConfig =
     (if url = [] then True
      else list_ex (\<lambda>u. isModuleEnabled u adminConfig userConfig) (case nb_configUrls b of Some us \<Rightarrow> us | None \<Rightarrow> [url]))"
| "isNavItemVisible (NavCollapsible b items) adminConfig userConfig =
     list_ex (\<lambda>(_, u). isModuleEnabled u adminConfig userConfig) items"

fun filter_sub_items :: "js_obj \<Rightarrow> json option \<Rightarrow> nav_item \<Rightarrow> nav_item" where
  "filter_sub_items adminConfig userConfig (NavCollapsible b items) =
     NavCollapsible b (filter (\<lambda>(_, u). isModuleEnabled u adminConfig userConfig) items)"
| "filter_sub_items adminConfig userConfig item = item"

definition filterNavItems :: "nav_item list \<Rightarrow> js_obj \<Rightarrow> json option \<Rightarrow> nav_item list" where
  "filterNavItems items adminConfig userConfig =
     filter (\<lambda>item. isNavItemVisible item adminConfig userConfig) (map (filter_sub_items adminConfig userConfig) items)"

definition filter_groups :: "nav_group list \<Rightarrow> js_obj \<Rightarrow> json option \<Rightarrow> nav_group list" where
  "filter_groups navGroups adminConfig userConfig =
     filter (\<lambda>g. 0 < length (ng_items g))
       (map (\<lambda>g. g\<lparr>ng_items := filterNavItems (ng_items g) adminConfig userConfig\<rparr>) navGroups)"

text \<open>\<open>configurable\<close> is the permission \<^verbatim>\<open>sidebar_settings\<close> of the user, if it is set.\<close>

definition useSidebarConfig :: "nav_group list \<Rightarrow> jsstr option \<Rightarrow> bool option \<Rightarrow> jsstr option \<Rightarrow> nav_group list" where
  "useSidebarConfig navGroups adminText configurable userText =
     filter_groups navGroups (parseSidebarConfig adminText)
       (if configurable = Some False then None else parseUserSidebarConfig userText)"

subsection \<open>What the filter shows\<close>

fun item_urls :: "nav_item \<Rightarrow> jsstr list" where
  "item_urls (NavLink b url) = [url]"
| "item_urls (NavCollapsible b items) = map snd items"
| "item_urls (NavChatPresets b) = [js ''chat-presets'']"

definition shown_urls :: "nav_group list \<Rightarrow> jsstr set" where
  "shown_urls gs = (\<Union>g \<in> set gs. \<Union>i \<in> set (ng_items g). set (item_urls i))"

fun non_empty :: "nav_item \<Rightarrow> bool" where
  "non_empty (NavCollapsible b items) = (items \<noteq> [])"
| "non_empty _ = True"

lemma visible_filtered [simp]: "isNavItemVisible (filter_sub_items a u i) a u = isNavItemVisible i a u"
  by (cases i) (auto simp: list_ex_iff)

lemma filterNavItems_alt:
  "filterNavItems items a u = map (filter_sub_items a u) (filter (\<lambda>i. isNavItemVisible i a u) items)"
  by (simp add: filterNavItems_def filter_map comp_def)

lemma filter_sub_items_idem [simp]: "filter_sub_items a u (filter_sub_items a u i) = filter_sub_items a u i"
  by (cases i) auto

lemma filterNavItems_idem [simp]: "filterNavItems (filterNavItems items a u) a u = filterNavItems items a u"
  by (simp add: filterNavItems_alt filter_map comp_def)

lemma filter_groups_idem: "filter_groups (filter_groups gs a u) a u = filter_groups gs a u"
  by (induction gs) (auto simp: filter_groups_def)

lemma non_empty_filtered: "isNavItemVisible i a u \<Longrightarrow> non_empty (filter_sub_items a u i)"
  by (cases i) (auto simp: list_ex_iff filter_empty_conv)

lemma module_narrow: "isModuleEnabled url a u \<Longrightarrow> isModuleEnabled url a None"
  by (auto simp: isModuleEnabled_def user_allows_def Let_def split: option.splits)

lemma item_narrow:
  "isNavItemVisible i a u \<Longrightarrow> isNavItemVisible i a None \<and> set (item_urls (filter_sub_items a u i)) \<subseteq> set (item_urls (filter_sub_items a None i))"
proof -
  have m: "isModuleEnabled url a u \<Longrightarrow> isModuleEnabled url a None" for url by (rule module_narrow)
  assume "isNavItemVisible i a u"
  then show ?thesis by (cases i) (fastforce simp: list_ex_iff user_allows_def Let_def intro: m)+
qed

lemma shown_filter:
  "x \<in> shown_urls (filter_groups gs a u) \<longleftrightarrow>
    (\<exists>g \<in> set gs. \<exists>i \<in> set (ng_items g). isNavItemVisible i a u \<and> x \<in> set (item_urls (filter_sub_items a u i)))"
proof -
  have "shown_urls (filter_groups gs a u) = (\<Union>g \<in> set gs. \<Union>i \<in> set (filterNavItems (ng_items g) a u). set (item_urls i))"
    by (induction gs) (auto simp: shown_urls_def filter_groups_def)
  then show ?thesis by (auto simp: filterNavItems_alt)
qed

text \<open>
  C30: the settings of the user only narrow what the settings of the administrator leave visible; no
  empty group and no empty collapsible entry remains; and filtering again changes nothing.
\<close>

theorem sidebar_filter:
  "shown_urls (useSidebarConfig gs adminText perm userText) \<subseteq> shown_urls (useSidebarConfig gs adminText perm None)
   \<and> list_all (\<lambda>g. ng_items g \<noteq> [] \<and> list_all non_empty (ng_items g)) (useSidebarConfig gs adminText perm userText)
   \<and> useSidebarConfig (useSidebarConfig gs adminText perm userText) adminText perm userText = useSidebarConfig gs adminText perm userText"
proof -
  let ?a = "parseSidebarConfig adminText" and ?u = "if perm = Some False then None else parseUserSidebarConfig userText"
  have n: "(if perm = Some False then None else parseUserSidebarConfig None) = None" by (simp add: parseUserSidebarConfig_def)
  have "shown_urls (filter_groups gs ?a ?u) \<subseteq> shown_urls (filter_groups gs ?a None)"
    using item_narrow by (fastforce simp: shown_filter)
  moreover have "list_all (\<lambda>g. ng_items g \<noteq> [] \<and> list_all non_empty (ng_items g)) (filter_groups gs ?a ?u)"
    by (auto simp: list_all_iff filter_groups_def filterNavItems_alt non_empty_filtered)
  ultimately show ?thesis unfolding useSidebarConfig_def n filter_groups_idem by blast
qed

subsection \<open>Reading a saved configuration\<close>




definition merged_value :: "json option \<Rightarrow> json \<Rightarrow> json" where
  "merged_value ex d = JObj (if \<not> js_true ex then spread_entries d
     else foldl fill_module (spread (spread_entries d) (the ex)) (spread_entries d))"

lemma map_of_merge_sections:
  "distinct (map fst ds) \<Longrightarrow> map_of (foldl merge_section m ds) k =
    (case map_of ds k of None \<Rightarrow> map_of m k | Some d \<Rightarrow> Some (merged_value (map_of m k) d))"
  by (rule foldl_keyed [where g = "\<lambda>k d ex. Some (merged_value ex d)"])
    (simp_all add: merge_section_def merged_value_def map_of_obj_set Let_def)

lemma map_of_fill: "distinct (map fst ds) \<Longrightarrow> map_of (foldl fill_module x ds) k = (case map_of ds k of None \<Rightarrow> map_of x k
    | Some v \<Rightarrow> Some (case map_of x k of None \<Rightarrow> v | Some w \<Rightarrow> w))"
  by (rule foldl_keyed [where g = "\<lambda>k v w. Some (case w of None \<Rightarrow> v | Some w \<Rightarrow> w)"])
    (auto simp: fill_module_def map_of_obj_set fun_eq_iff split: option.split)

lemma distinct_flag_entries [simp]: "distinct (map fst (flag_entries fs)) = distinct (map fst fs)"
  by simp

lemma merged_member:
  assumes "distinct (map fst d)" "distinct (map fst es)"
  shows "get_member (merged_value None (JObj (flag_entries d))) md = map_option JBool (map_of d md)"
    "get_member (merged_value (Some (JObj es)) (JObj (flag_entries d))) md =
      (case map_of es md of None \<Rightarrow> map_option JBool (map_of d md) | Some v \<Rightarrow> Some v)"
proof -
  note e = spread_entries_obj [of "flag_entries d"]
  show "get_member (merged_value None (JObj (flag_entries d))) md = map_option JBool (map_of d md)"
    using e assms(1) by (simp add: merged_value_def get_member_def js_true_def map_of_flag_entries)
  have "map_of (spread (spread_entries (JObj (flag_entries d))) (JObj es)) md =
      (case map_of es md of None \<Rightarrow> map_option JBool (map_of d md) | Some v \<Rightarrow> Some v)"
    using e assms by (simp add: map_of_spread map_add_def map_of_flag_entries split: option.split)
  then show "get_member (merged_value (Some (JObj es)) (JObj (flag_entries d))) md =
      (case map_of es md of None \<Rightarrow> map_option JBool (map_of d md) | Some v \<Rightarrow> Some v)"
    using e assms by (simp add: merged_value_def get_member_def js_true_def map_of_fill map_of_flag_entries split: option.split)
qed

lemma map_of_sidebar_object: "map_of (sidebar_object c) k = map_option (\<lambda>s. JObj (flag_entries s)) (map_of c k)"
  by (induction c) (auto simp: sidebar_object_def)

lemma canon_flag_members [simp]: "canon_members (flag_entries s) = flag_entries s"
  by (auto simp: canon_members_map flag_entries_def)





lemma default_object: "DEFAULT_SIDEBAR_MODULES = sidebar_object SIDEBAR_MODULES_DEFAULT"
  by (simp add: DEFAULT_SIDEBAR_MODULES_def SIDEBAR_MODULES_DEFAULT_def)

lemma distinct_default_keys: "distinct (map fst SIDEBAR_MODULES_DEFAULT)" "distinct (map fst (sidebar_object SIDEBAR_MODULES_DEFAULT))"
  by (simp_all add: SIDEBAR_MODULES_DEFAULT_def sidebar_object_def)









text \<open>
  A switch stored as the word \<^verbatim>\<open>"true"\<close> is on for the settings page, while the console hides
  the page.
\<close>

theorem word_switch_differs:
  assumes "lower (js ''true'') = js ''true''"
  shows "let raw = JObj [(js ''enabled'', JBool True), (js ''playground'', JStr (js ''true''))] in
    map_of (parse_section lower [] raw) (js ''playground'') = Some True
    \<and> \<not> isModuleEnabled (js ''/playground'') (mergeWithDefaultSidebarModules (JObj [(js ''chat'', raw)])) None"
proof -
  let ?raw = "JObj [(js ''enabled'', JBool True), (js ''playground'', JStr (js ''true''))]"
  have i: "\<not> is_array_index (js ''enabled'')" "\<not> is_array_index (js ''playground'')" "\<not> is_array_index (js ''chat'')"
    by (simp_all add: is_array_index_def is_digit_def lit)
  have t: "trim (js ''true'') = js ''true''" by code_simp
  have e: "spread_entries ?raw = [(js ''enabled'', JBool True), (js ''playground'', JStr (js ''true''))]"
    "spread_entries (JObj [(js ''chat'', ?raw)]) = [(js ''chat'', ?raw)]"
    unfolding spread_entries_def json.case by (rule own_entries_id; auto simp: i)+
  have "map_of (parse_section lower [] ?raw) (js ''playground'') = Some True"
    by (simp add: parse_section_def e section_entry_def toBoolean_def t assms)
  moreover have "map_of (mergeWithDefaultSidebarModules (JObj [(js ''chat'', ?raw)])) (js ''chat'') =
      Some (merged_value (Some ?raw) (JObj (flag_entries [(js ''enabled'', True), (js ''playground'', True), (js ''chat'', True)])))"
    using map_of_merge_sections [OF distinct_default_keys(2), of "spread [] (JObj [(js ''chat'', ?raw)])" "js ''chat''"]
    by (simp add: mergeWithDefaultSidebarModules_def default_object map_of_sidebar_object map_of_spread SIDEBAR_MODULES_DEFAULT_def)
  moreover have "get_member (merged_value (Some ?raw) (JObj (flag_entries [(js ''enabled'', True), (js ''playground'', True), (js ''chat'', True)])))
      (js ''playground'') = Some (JStr (js ''true''))"
    using merged_member(2) [of "[(js ''enabled'', True), (js ''playground'', True), (js ''chat'', True)]"
        "[(js ''enabled'', JBool True), (js ''playground'', JStr (js ''true''))]" "js ''playground''"] by simp
  ultimately show ?thesis
    by (simp add: Let_def isModuleEnabled_def URL_TO_CONFIG_MAP_def admin_allows_def opt_member_def)
qed

theorem word_switch_differs_witness:
  "map_of (parse_section id [] (JObj [(js ''enabled'', JBool True), (js ''playground'', JStr (js ''true''))])) (js ''playground'') = Some True"
  using word_switch_differs [of id] by (simp add: Let_def)


end
