(* ===== verification/ChannelModels.thy ===== *)
theory ChannelModels
  imports JsObject
begin

text \<open>
  The list of models of a channel and its model mapping
  (\<^verbatim>\<open>features/channels/lib/model-mapping-validation.ts\<close>), and what the form of a channel
  (\<^verbatim>\<open>channel-mutate-drawer.tsx\<close>) shows and changes with them. A set that the code iterates or returns is
  the list of its elements in insertion order.
\<close>

subsection \<open>Lists of names\<close>

text \<open>The names between separators, without blank ones.\<close>

definition split_names :: "nat \<Rightarrow> jsstr \<Rightarrow> jsstr list" where
  "split_names sep s = filter (\<lambda>m. m \<noteq> []) (map trim (split_on sep s))"

definition parseModelsString :: "jsstr \<Rightarrow> jsstr list" where
  "parseModelsString modelsStr = (if modelsStr \<noteq> [] then split_names 44 modelsStr else [])"

definition formatModelsArray :: "jsstr list \<Rightarrow> jsstr" where
  "formatModelsArray models = join [44] (uniq models)"

definition normalizeModelName :: "jsstr \<Rightarrow> jsstr" where
  "normalizeModelName model = trim model"

subsection \<open>The mapping\<close>

text \<open>A text that is a JSON object, and its properties in order.\<close>

definition mapping_object :: "jsstr \<Rightarrow> js_obj option" where
  "mapping_object s = (case json_parse s of Inr (JObj kvs) \<Rightarrow> Some (own_entries kvs) | _ \<Rightarrow> None)"

definition extractMappingSourceModels :: "jsstr \<Rightarrow> jsstr list" where
  "extractMappingSourceModels modelMapping =
     (let trimmed_text = trim modelMapping in
      if trimmed_text = [] then []
      else (case mapping_object trimmed_text of
          None \<Rightarrow> []
        | Some es \<Rightarrow> uniq (filter (\<lambda>k. k \<noteq> []) (map (\<lambda>(k, _). trim k) es))))"

definition string_value :: "json \<Rightarrow> jsstr option" where
  "string_value v = (case v of JStr s \<Rightarrow> if trim s \<noteq> [] then Some (trim s) else None | _ \<Rightarrow> None)"

definition extractRedirectModels :: "jsstr \<Rightarrow> jsstr list" where
  "extractRedirectModels modelMapping =
     (let trimmed_text = trim modelMapping in
      if trimmed_text = [] then []
      else (case mapping_object trimmed_text of
          None \<Rightarrow> []
        | Some es \<Rightarrow> uniq (List.map_filter (\<lambda>(_, v). string_value v) es)))"

fun models_differ :: "jsstr list \<Rightarrow> jsstr list \<Rightarrow> bool" where
  "models_differ (x # xs) (y # ys) = (if x \<noteq> y then True else models_differ xs ys)"
| "models_differ _ _ = False"

definition hasModelConfigChanged :: "jsstr list \<Rightarrow> jsstr \<Rightarrow> jsstr list \<Rightarrow> jsstr \<Rightarrow> bool" where
  "hasModelConfigChanged currentModels currentModelMapping initialModels initialModelMapping =
     (if length initialModels = 0 \<and> initialModelMapping = [] then True
      else if length currentModels \<noteq> length initialModels then True
      else if models_differ currentModels initialModels then True
      else trim currentModelMapping \<noteq> trim initialModelMapping)"

definition findMissingModelsInMapping :: "jsstr \<Rightarrow> jsstr list \<Rightarrow> jsstr list" where
  "findMissingModelsInMapping modelMapping currentModels =
     (if modelMapping = [] \<or> trim modelMapping = [] then []
      else (case mapping_object modelMapping of
          None \<Rightarrow> []
        | Some es \<Rightarrow>
            (let modelSet = map normalizeModelName currentModels in
             uniq (filter (\<lambda>k. k \<noteq> [] \<and> k \<notin> set modelSet) (map (\<lambda>(k, _). normalizeModelName k) es)))))"

definition OBJECT_ERROR :: jsstr where "OBJECT_ERROR = js ''Model mapping must be a valid JSON object''"
definition VALUES_ERROR :: jsstr where "VALUES_ERROR = js ''Model mapping values must be strings''"
definition FORMAT_ERROR :: jsstr where "FORMAT_ERROR = js ''Model mapping must be valid JSON format''"

definition is_string :: "json \<Rightarrow> bool" where
  "is_string v = (case v of JStr _ \<Rightarrow> True | _ \<Rightarrow> False)"

text \<open>\<open>Inr\<close> for a valid text, \<open>Inl\<close> with the error.\<close>

definition validateModelMappingJson :: "jsstr \<Rightarrow> jsstr + unit" where
  "validateModelMappingJson modelMapping =
     (if modelMapping = [] \<or> trim modelMapping = [] then Inr ()
      else (case json_parse modelMapping of
          Inl _ \<Rightarrow> Inl FORMAT_ERROR
        | Inr parsed \<Rightarrow> (case parsed of
            JObj kvs \<Rightarrow> if list_ex (\<lambda>(_, v). \<not> is_string v) (own_entries kvs) then Inl VALUES_ERROR else Inr ()
          | _ \<Rightarrow> Inl OBJECT_ERROR)))"

definition findExposedTargetModels :: "jsstr \<Rightarrow> jsstr list \<Rightarrow> jsstr list" where
  "findExposedTargetModels modelMapping currentModels =
     (let redirectModels = extractRedirectModels modelMapping in
      if length redirectModels = 0 then []
      else
        (let modelSet = map normalizeModelName currentModels in
         filter (\<lambda>model. normalizeModelName model \<in> set modelSet) redirectModels))"

record model_categories =
  mc_current :: "jsstr list"
  mc_redirect :: "jsstr list"
  mc_classification :: "jsstr list"
  mc_redirectOnly :: "jsstr list"

definition categorizeModelsWithRedirect :: "jsstr list \<Rightarrow> jsstr list \<Rightarrow> model_categories" where
  "categorizeModelsWithRedirect currentModels redirectModels =
     (let current = uniq (filter (\<lambda>m. m \<noteq> []) (map normalizeModelName currentModels));
          redirect = uniq (filter (\<lambda>m. m \<noteq> []) (map normalizeModelName redirectModels))
      in \<lparr>mc_current = current, mc_redirect = redirect, mc_classification = uniq (current @ redirect),
          mc_redirectOnly = uniq (filter (\<lambda>m. m \<notin> set current) redirect)\<rparr>)"

subsection \<open>The mapping in the channel form\<close>

text \<open>What the form tells about the mapping while it is edited.\<close>

record model_mapping_guardrail =
  gr_invalidJson :: bool
  gr_entries :: "(jsstr \<times> jsstr) list"
  gr_missingSourceModels :: "jsstr list"
  gr_exposedTargetModels :: "jsstr list"

definition createEmptyModelMappingGuardrail :: model_mapping_guardrail where
  "createEmptyModelMappingGuardrail = \<lparr>gr_invalidJson = False, gr_entries = [], gr_missingSourceModels = [], gr_exposedTargetModels = []\<rparr>"

text \<open>A pair of names; \<^verbatim>\<open>String\<close> fails on an object with a \<^verbatim>\<open>toString\<close> of its own.\<close>

definition mapping_pair :: "jsstr \<times> json \<Rightarrow> (jsstr \<times> jsstr) throws" where
  "mapping_pair = (\<lambda>(rawSource, rawTarget).
     bind_throws (if rawTarget = JNull then Inr [] else json_to_string rawTarget) (\<lambda>target. Inr (trim rawSource, trim target)))"

definition modelMappingGuardrail :: "jsstr \<Rightarrow> jsstr \<Rightarrow> model_mapping_guardrail" where
  "modelMappingGuardrail currentModelMapping currentModels =
     (let currentModelsArray = parseModelsString currentModels; invalid = createEmptyModelMappingGuardrail\<lparr>gr_invalidJson := True\<rparr> in
      if trim currentModelMapping = [] then createEmptyModelMappingGuardrail
      else (case mapping_object currentModelMapping of
          None \<Rightarrow> invalid
        | Some es \<Rightarrow> (case map_throws mapping_pair es of
            Inl _ \<Rightarrow> invalid
          | Inr pairs \<Rightarrow>
              (let entries = filter (\<lambda>(source, target). source \<noteq> [] \<and> target \<noteq> []) pairs
               in \<lparr>gr_invalidJson = False, gr_entries = entries,
                   gr_missingSourceModels = uniq (map fst (filter (\<lambda>(source, _). source \<noteq> [] \<and> source \<notin> set currentModelsArray) entries)),
                   gr_exposedTargetModels = uniq (map snd (filter (\<lambda>(_, target). target \<noteq> [] \<and> target \<in> set currentModelsArray) entries))\<rparr>))))"

text \<open>The text of the field \<^verbatim>\<open>models\<close> after an update, and the two buttons.\<close>

definition updateModels :: "jsstr list \<Rightarrow> bool \<Rightarrow> jsstr \<Rightarrow> jsstr" where
  "updateModels newModels merge currentModels = formatModelsArray (if merge then parseModelsString currentModels @ newModels else newModels)"

definition addMissingModels :: "jsstr \<Rightarrow> jsstr \<Rightarrow> jsstr" where
  "addMissingModels currentModelMapping currentModels =
     updateModels (parseModelsString currentModels @ gr_missingSourceModels (modelMappingGuardrail currentModelMapping currentModels)) False currentModels"

definition removeMappedTargets :: "jsstr \<Rightarrow> jsstr \<Rightarrow> jsstr" where
  "removeMappedTargets currentModelMapping currentModels =
     (let hiddenTargets = gr_exposedTargetModels (modelMappingGuardrail currentModelMapping currentModels)
      in updateModels (filter (\<lambda>model. model \<notin> set hiddenTargets) (parseModelsString currentModels)) False currentModels)"

text \<open>The check of the mapping when the form is submitted: the error, or the models that are sent. The
  user is asked about missing models and may cancel, which is \<open>None\<close>.\<close>

datatype missing_action = CancelSubmit | AddMissing | SubmitAsIs

definition submit_models :: "missing_action \<Rightarrow> jsstr list \<Rightarrow> jsstr \<Rightarrow> jsstr \<Rightarrow> jsstr \<Rightarrow> jsstr + jsstr option" where
  "submit_models confirmAction initialModels initialMapping mapping models =
     (if trim mapping = [] then Inr (Some models)
      else (case validateModelMappingJson mapping of
          Inl error \<Rightarrow> Inl error
        | Inr _ \<Rightarrow>
            (let normalizedModels = parseModelsString models; missingModels = findMissingModelsInMapping mapping normalizedModels in
             if missingModels \<noteq> [] \<and> hasModelConfigChanged normalizedModels mapping initialModels initialMapping
             then (case confirmAction of
                 CancelSubmit \<Rightarrow> Inr None
               | AddMissing \<Rightarrow> Inr (Some (formatModelsArray (uniq (normalizedModels @ missingModels))))
               | SubmitAsIs \<Rightarrow> Inr (Some models))
             else Inr (Some models))))"

subsection \<open>Names\<close>

lemma split_names_names: "m \<in> set (split_names sep s) \<Longrightarrow> m \<noteq> [] \<and> trim m = m \<and> sep \<notin> set m"
  using split_on_pieces set_trim_subset by (fastforce simp: split_names_def)

lemma split_names_join:
  assumes "\<And>m. m \<in> set ms \<Longrightarrow> m \<noteq> [] \<and> trim m = m \<and> sep \<notin> set m"
  shows "split_names sep (join [sep] ms) = ms"
proof (cases "ms = []")
  case False
  then have "split_on sep (join [sep] ms) = ms" using assms by (intro split_on_join) auto
  moreover have "map trim ms = ms" using assms by (intro map_idI) auto
  moreover have "filter (\<lambda>m. m \<noteq> []) ms = ms" using assms by (intro filter_True) auto
  ultimately show ?thesis by (simp add: split_names_def)
qed (simp add: split_names_def)

lemma join_not_Nil: "ms \<noteq> [] \<Longrightarrow> (\<And>m. m \<in> set ms \<Longrightarrow> m \<noteq> []) \<Longrightarrow> join sep ms \<noteq> []"
  by (cases ms) (auto simp: join_Cons_if)

lemma parse_format_names:
  assumes "\<And>m. m \<in> set ms \<Longrightarrow> m \<noteq> [] \<and> trim m = m \<and> 44 \<notin> set m"
  shows "parseModelsString (join [44] ms) = ms"
proof (cases "ms = []")
  case False
  then have "join [44] ms \<noteq> []" using assms by (intro join_not_Nil) auto
  then show ?thesis using assms by (simp add: parseModelsString_def split_names_join)
qed (simp add: parseModelsString_def)

text \<open>
  The models of a channel survive being written to its text field and read back: reading the
  text of a list of proper names gives its distinct names in order, and rewriting any text once is
  enough to normalise it.
\<close>

theorem models_text_roundtrip:
  "(list_all (\<lambda>m. m \<noteq> [] \<and> trim m = m \<and> 44 \<notin> set m) models \<longrightarrow> parseModelsString (formatModelsArray models) = uniq models)
   \<and> parseModelsString (formatModelsArray (parseModelsString s)) = uniq (parseModelsString s)
   \<and> formatModelsArray (parseModelsString (formatModelsArray (parseModelsString s))) = formatModelsArray (parseModelsString s)"
proof -
  have 1: "parseModelsString (formatModelsArray ms) = uniq ms"
    if "list_all (\<lambda>m. m \<noteq> [] \<and> trim m = m \<and> 44 \<notin> set m) ms" for ms
    unfolding formatModelsArray_def using that by (intro parse_format_names) (simp add: list_all_iff)
  have "list_all (\<lambda>m. m \<noteq> [] \<and> trim m = m \<and> 44 \<notin> set m) (parseModelsString s)"
    by (auto simp: list_all_iff parseModelsString_def dest: split_names_names)
  then have 2: "parseModelsString (formatModelsArray (parseModelsString s)) = uniq (parseModelsString s)" by (rule 1)
  moreover have "formatModelsArray (uniq ms) = formatModelsArray ms" for ms by (simp add: formatModelsArray_def)
  ultimately show ?thesis using 1 by simp
qed

theorem models_text_roundtrip_witness: "parseModelsString (formatModelsArray [js ''a'', js ''b'', js ''a'']) = [js ''a'', js ''b'']"
proof -
  have "uniq [js ''a'', js ''b'', js ''a''] = [js ''a'', js ''b'']" by (simp add: uniq_def)
  moreover have "list_all (\<lambda>m. m \<noteq> [] \<and> trim m = m \<and> 44 \<notin> set m) [js ''a'', js ''b'', js ''a'']" by code_simp
  ultimately show ?thesis using models_text_roundtrip [of "[js ''a'', js ''b'', js ''a'']" "[]"] by simp
qed

subsection \<open>Missing and exposed models\<close>

text \<open>The redirects of an object whose values are strings.\<close>

definition redirects :: "js_obj \<Rightarrow> (jsstr \<times> jsstr) set" where
  "redirects kvs = {(trim k, trim s) | k s. (k, JStr s) \<in> set kvs \<and> trim k \<noteq> [] \<and> trim s \<noteq> []}"

lemma parsed_names: "m \<in> set (parseModelsString s) \<Longrightarrow> m \<noteq> [] \<and> trim m = m \<and> 44 \<notin> set m"
  by (auto simp: parseModelsString_def dest: split_names_names)

lemma parse_written:
  assumes "\<And>m. m \<in> set ms \<Longrightarrow> m \<noteq> [] \<and> trim m = m \<and> 44 \<notin> set m"
  shows "parseModelsString (formatModelsArray ms) = uniq ms"
  unfolding formatModelsArray_def using assms by (intro parse_format_names) simp

lemma guardrail_sets:
  assumes "trim m \<noteq> []" "json_parse m = Inr (JObj kvs)" "\<forall>(k, v) \<in> set kvs. \<exists>s. v = JStr s"
  shows "set (gr_entries (modelMappingGuardrail m models)) = redirects kvs" "\<not> gr_invalidJson (modelMappingGuardrail m models)"
    "set (gr_missingSourceModels (modelMappingGuardrail m models)) = fst ` redirects kvs - set (parseModelsString models)"
    "set (gr_exposedTargetModels (modelMappingGuardrail m models)) = snd ` redirects kvs \<inter> set (parseModelsString models)"
    "distinct (gr_missingSourceModels (modelMappingGuardrail m models))" "distinct (gr_exposedTargetModels (modelMappingGuardrail m models))"
proof -
  have str: "\<exists>k s. kv = (k, JStr s)" if "kv \<in> set kvs" for kv using bspec [OF assms(3) that] by (cases kv) simp
  have pair: "mapping_pair (k, JStr s) = Inr (trim k, trim s)" for k s by (simp add: mapping_pair_def)
  have "\<exists>y. mapping_pair kv = Inr y" if "kv \<in> set (own_entries kvs)" for kv
    using str [of kv] pair that unfolding set_own_entries by metis
  then obtain pairs where p: "map_throws mapping_pair (own_entries kvs) = Inr pairs" using map_throws_total [of mapping_pair "own_entries kvs", THEN iffD2] by auto
  have "set pairs = {(trim k, trim s) | k s. (k, JStr s) \<in> set kvs}"
  proof (intro set_eqI iffI)
    fix y
    assume "y \<in> set pairs"
    then obtain kv where kv: "kv \<in> set kvs" "mapping_pair kv = Inr y" unfolding map_throws_set [OF p] set_own_entries by auto
    from str [OF kv(1)] obtain k s where "kv = (k, JStr s)" by blast
    with kv pair show "y \<in> {(trim k, trim s) | k s. (k, JStr s) \<in> set kvs}" by auto
  next
    fix y
    assume "y \<in> {(trim k, trim s) | k s. (k, JStr s) \<in> set kvs}"
    then obtain k s where "(k, JStr s) \<in> set kvs" "y = (trim k, trim s)" by auto
    with pair [of k s] show "y \<in> set pairs" unfolding map_throws_set [OF p] set_own_entries by auto
  qed
  then have e: "set (filter (\<lambda>(source, target). source \<noteq> [] \<and> target \<noteq> []) pairs) = redirects kvs" by (auto simp: redirects_def)
  have g: "modelMappingGuardrail m models = (let entries = filter (\<lambda>(source, target). source \<noteq> [] \<and> target \<noteq> []) pairs in
      \<lparr>gr_invalidJson = False, gr_entries = entries,
       gr_missingSourceModels = uniq (map fst (filter (\<lambda>(source, _). source \<noteq> [] \<and> source \<notin> set (parseModelsString models)) entries)),
       gr_exposedTargetModels = uniq (map snd (filter (\<lambda>(_, target). target \<noteq> [] \<and> target \<in> set (parseModelsString models)) entries))\<rparr>)"
    using assms(1,2) p by (simp add: modelMappingGuardrail_def mapping_object_def Let_def)
  have members: "x \<in> set (map f (filter P (filter Q xs))) \<longleftrightarrow> (\<exists>y \<in> set (filter Q xs). P y \<and> x = f y)" for x f P Q and xs :: "(jsstr \<times> jsstr) list"
    by auto
  have r: "fst x \<noteq> [] \<and> snd x \<noteq> []" if "x \<in> redirects kvs" for x using that unfolding redirects_def by auto
  show "set (gr_entries (modelMappingGuardrail m models)) = redirects kvs" "\<not> gr_invalidJson (modelMappingGuardrail m models)"
    "distinct (gr_missingSourceModels (modelMappingGuardrail m models))" "distinct (gr_exposedTargetModels (modelMappingGuardrail m models))"
    unfolding g Let_def model_mapping_guardrail.select_convs by (rule e) simp_all
  show "set (gr_missingSourceModels (modelMappingGuardrail m models)) = fst ` redirects kvs - set (parseModelsString models)"
    unfolding g Let_def model_mapping_guardrail.select_convs set_uniq set_eq_iff members e using r by (auto simp: split_beta image_iff)
  show "set (gr_exposedTargetModels (modelMappingGuardrail m models)) = snd ` redirects kvs \<inter> set (parseModelsString models)"
    unfolding g Let_def model_mapping_guardrail.select_convs set_uniq set_eq_iff members e using r by (auto simp: split_beta image_iff)
qed

lemma missing_set:
  assumes "trim m \<noteq> []" "json_parse m = Inr (JObj kvs)"
  shows "set (findMissingModelsInMapping m ms) = trim ` fst ` set kvs - {[]} - trim ` set ms"
proof -
  have "set (map (\<lambda>(k, _). trim k) (own_entries kvs)) = trim ` fst ` set kvs" by (force simp: set_own_entries)
  moreover have "set (map normalizeModelName ms) = trim ` set ms" by (auto simp: normalizeModelName_def)
  moreover have "m \<noteq> []" using assms(1) by auto
  ultimately show ?thesis
    using assms by (auto simp: findMissingModelsInMapping_def mapping_object_def normalizeModelName_def Let_def simp del: set_map)
qed

text \<open>Submitting a changed form and agreeing to add the missing models sends a list without missing ones.\<close>

lemma submitted_models:
  assumes "trim m \<noteq> []" "json_parse m = Inr (JObj kvs)" "\<forall>(k, v) \<in> set kvs. \<exists>s. v = JStr s" "\<forall>(k, v) \<in> set kvs. 44 \<notin> set k"
    and "hasModelConfigChanged (parseModelsString models) m im imap"
  shows "\<exists>sent. submit_models AddMissing im imap m models = Inr (Some sent)
    \<and> set (parseModelsString sent) = set (parseModelsString models) \<union> (trim ` fst ` set kvs - {[]})"
proof -
  let ?a = "parseModelsString models" and ?n = "findMissingModelsInMapping m (parseModelsString models)"
  have v: "validateModelMappingJson m = Inr ()"
    using assms(1-3) by (auto simp: validateModelMappingJson_def list_ex_iff is_string_def set_own_entries)
  have t: "trim ` set ?a = set ?a" using parsed_names [of _ models] by force
  have n: "set ?n = trim ` fst ` set kvs - {[]} - set ?a" using missing_set [OF assms(1,2)] t by simp
  have "x \<noteq> [] \<and> trim x = x \<and> 44 \<notin> set x" if "x \<in> set ?n" for x
    using that assms(4) set_trim_subset unfolding n by fastforce
  then have "parseModelsString (formatModelsArray (uniq (?a @ ?n))) = uniq (uniq (?a @ ?n))"
    using parsed_names [of _ models] by (intro parse_written) auto
  then have "set (parseModelsString (formatModelsArray (uniq (?a @ ?n)))) = set ?a \<union> (trim ` fst ` set kvs - {[]})"
    using n by auto
  then show ?thesis using assms(1,5) v n by (cases "?n = []") (auto simp: submit_models_def Let_def)
qed

text \<open>
  C31: the channel form reports exactly the sources of the mapping that the list of models lacks and
  exactly its targets that the list has, and its two buttons repair the list: adding the missing models
  adds these sources and nothing else, and none is missing afterwards; removing the mapped targets
  removes these targets and nothing else, and none is exposed afterwards. When a changed form is
  submitted and the user agrees to add the missing models, the list that is sent lacks none. The mapping
  is an object of strings whose names have no comma, because the list is separated by commas.
\<close>

theorem mapping_repairs:
  assumes "trim m \<noteq> []" "json_parse m = Inr (JObj kvs)" "\<forall>(k, v) \<in> set kvs. \<exists>s. v = JStr s" "\<forall>(k, v) \<in> set kvs. 44 \<notin> set k"
  shows "set (gr_missingSourceModels (modelMappingGuardrail m models)) = fst ` redirects kvs - set (parseModelsString models)
    \<and> set (gr_exposedTargetModels (modelMappingGuardrail m models)) = snd ` redirects kvs \<inter> set (parseModelsString models)
    \<and> set (parseModelsString (addMissingModels m models)) = set (parseModelsString models) \<union> fst ` redirects kvs
    \<and> gr_missingSourceModels (modelMappingGuardrail m (addMissingModels m models)) = []
    \<and> set (parseModelsString (removeMappedTargets m models)) = set (parseModelsString models) - snd ` redirects kvs
    \<and> gr_exposedTargetModels (modelMappingGuardrail m (removeMappedTargets m models)) = []
    \<and> (hasModelConfigChanged (parseModelsString models) m im imap \<longrightarrow>
        (\<exists>sent. submit_models AddMissing im imap m models = Inr (Some sent) \<and> findMissingModelsInMapping m (parseModelsString sent) = []))"
proof -
  note g = guardrail_sets [OF assms(1-3)]
  have "k \<noteq> [] \<and> trim k = k \<and> 44 \<notin> set k" if "k \<in> fst ` redirects kvs" for k
    using that assms(4) set_trim_subset by (fastforce simp: redirects_def)
  then have "parseModelsString (addMissingModels m models) = uniq (parseModelsString models @ gr_missingSourceModels (modelMappingGuardrail m models))"
    unfolding addMissingModels_def updateModels_def using parsed_names [of _ models] g(3) [of models] by (simp, intro parse_written) auto
  then have add: "set (parseModelsString (addMissingModels m models)) = set (parseModelsString models) \<union> fst ` redirects kvs"
    using g(3) [of models] by auto
  have "parseModelsString (removeMappedTargets m models) =
      uniq (filter (\<lambda>x. x \<notin> set (gr_exposedTargetModels (modelMappingGuardrail m models))) (parseModelsString models))"
    unfolding removeMappedTargets_def updateModels_def Let_def using parsed_names [of _ models] by (simp, intro parse_written) auto
  then have rem: "set (parseModelsString (removeMappedTargets m models)) = set (parseModelsString models) - snd ` redirects kvs"
    using g(4) [of models] by auto
  have "set (gr_missingSourceModels (modelMappingGuardrail m (addMissingModels m models))) = {}"
    "set (gr_exposedTargetModels (modelMappingGuardrail m (removeMappedTargets m models))) = {}"
    unfolding g add rem by auto
  then have "gr_missingSourceModels (modelMappingGuardrail m (addMissingModels m models)) = []"
    "gr_exposedTargetModels (modelMappingGuardrail m (removeMappedTargets m models)) = []" by (simp_all only: set_empty)
  moreover have "findMissingModelsInMapping m (parseModelsString sent) = []"
    if "set (parseModelsString sent) = set (parseModelsString models) \<union> (trim ` fst ` set kvs - {[]})" for sent
  proof -
    have "trim ` set (parseModelsString sent) = set (parseModelsString sent)" using parsed_names [of _ sent] by force
    then have "set (findMissingModelsInMapping m (parseModelsString sent)) = {}" unfolding missing_set [OF assms(1,2)] that by blast
    then show ?thesis by simp
  qed
  ultimately show ?thesis using g(3,4) [of models] add rem submitted_models [OF assms, of models im imap] by blast
qed

theorem mapping_repairs_witness:
  \<open>parseModelsString (addMissingModels (js ''{"a":"b","c":"a"}'') (js ''b,c'')) = [js ''b'', js ''c'', js ''a'']
   \<and> parseModelsString (removeMappedTargets (js ''{"a":"b","c":"a"}'') (js ''b,c'')) = [js ''c'']
   \<and> gr_missingSourceModels (modelMappingGuardrail (js ''{"a":"b","c":"a"}'') (addMissingModels (js ''{"a":"b","c":"a"}'') (js ''b,c''))) = []
   \<and> gr_exposedTargetModels (modelMappingGuardrail (js ''{"a":"b","c":"a"}'') (removeMappedTargets (js ''{"a":"b","c":"a"}'') (js ''b,c''))) = []\<close>
proof -
  let ?m = "js ''{\"a\":\"b\",\"c\":\"a\"}''"
  have "trim ?m \<noteq> []" by code_simp
  moreover have "json_parse ?m = Inr (JObj [(js ''a'', JStr (js ''b'')), (js ''c'', JStr (js ''a''))])" by code_simp
  moreover have "parseModelsString (addMissingModels ?m (js ''b,c'')) = [js ''b'', js ''c'', js ''a'']" by code_simp
  moreover have "parseModelsString (removeMappedTargets ?m (js ''b,c'')) = [js ''c'']" by code_simp
  ultimately show ?thesis using mapping_repairs [of ?m "[(js ''a'', JStr (js ''b'')), (js ''c'', JStr (js ''a''))]" "js ''b,c''"]
    by (simp add: lit)
qed

end
