(* ===== verification/JsArith.thy ===== *)
theory JsArith
  imports JsNumberProps "HOL-Library.Multiset"
begin

text \<open>
  Arithmetic and comparison of numbers, each operation rounded, and \<^verbatim>\<open>Array.prototype.sort\<close> with a
  comparison function. The sign of a zero divisor is positive.
\<close>

subsection \<open>Arithmetic\<close>

fun num_neg :: "jsnum \<Rightarrow> jsnum" where
  "num_neg NaN = NaN"
| "num_neg (Infinity p) = Infinity (\<not> p)"
| "num_neg (Fin x) = Fin (- x)"

fun num_add :: "jsnum \<Rightarrow> jsnum \<Rightarrow> jsnum" where
  "num_add (Fin x) (Fin y) = rnd (x + y)"
| "num_add NaN _ = NaN"
| "num_add _ NaN = NaN"
| "num_add (Infinity p) (Infinity r) = (if p = r then Infinity p else NaN)"
| "num_add (Infinity p) (Fin _) = Infinity p"
| "num_add (Fin _) (Infinity r) = Infinity r"

definition num_sub :: "jsnum \<Rightarrow> jsnum \<Rightarrow> jsnum" where
  "num_sub x y = num_add x (num_neg y)"

fun num_mul :: "jsnum \<Rightarrow> jsnum \<Rightarrow> jsnum" where
  "num_mul (Fin x) (Fin y) = rnd (x * y)"
| "num_mul NaN _ = NaN"
| "num_mul _ NaN = NaN"
| "num_mul (Infinity p) (Infinity r) = Infinity (p = r)"
| "num_mul (Infinity p) (Fin y) = (if y = 0 then NaN else Infinity (p = (0 < y)))"
| "num_mul (Fin x) (Infinity r) = (if x = 0 then NaN else Infinity (r = (0 < x)))"

fun num_div :: "jsnum \<Rightarrow> jsnum \<Rightarrow> jsnum" where
  "num_div (Fin x) (Fin y) = (if y \<noteq> 0 then rnd (x / y) else if x = 0 then NaN else Infinity (0 < x))"
| "num_div NaN _ = NaN"
| "num_div _ NaN = NaN"
| "num_div (Infinity _) (Infinity _) = NaN"
| "num_div (Infinity p) (Fin y) = Infinity (p = (0 \<le> y))"
| "num_div (Fin _) (Infinity _) = Fin 0"

fun num_less :: "jsnum \<Rightarrow> jsnum \<Rightarrow> bool" where
  "num_less (Fin x) (Fin y) = (x < y)"
| "num_less NaN _ = False"
| "num_less _ NaN = False"
| "num_less (Infinity p) (Infinity r) = (\<not> p \<and> r)"
| "num_less (Infinity p) (Fin _) = (\<not> p)"
| "num_less (Fin _) (Infinity r) = r"

definition num_le :: "jsnum \<Rightarrow> jsnum \<Rightarrow> bool" where
  "num_le x y \<longleftrightarrow> num_less x y \<or> (x = y \<and> x \<noteq> NaN)"

lemma num_add_int: "\<bar>m + n\<bar> < 2 ^ 53 \<Longrightarrow> num_add (Fin (of_int m)) (Fin (of_int n)) = Fin (of_int (m + n))"
  using rnd_int [of "m + n"] by simp

lemma num_add_nat: "m + n < 2 ^ 53 \<Longrightarrow> num_add (Fin (of_nat m)) (Fin (of_nat n)) = Fin (of_nat (m + n))"
  using num_add_int [of "int m" "int n"] by simp

text \<open>The difference of two doubles has the sign of the comparison: it does not vanish by rounding.\<close>

lemma rnd_pos_positive:
  assumes "powz 2 (- 1074) \<le> y"
  shows "0 < rnd_pos y"
proof -
  have y: "0 < y" using assms powz_pos [of 2 "- 1074"] by simp
  have "powz 2 (max (flog 2 y - 52) (- 1074)) \<le> y"
  proof (cases "flog 2 y - 52 \<le> - 1074")
    case False
    have "powz 2 (flog 2 y - 52) \<le> powz 2 (flog 2 y)" by (rule powz_mono) simp_all
    also have "\<dots> \<le> y" using y by (intro flog_bounds) auto
    finally show ?thesis using False by simp
  qed (use assms in simp)
  with rnd_pos_error [of y] have "\<bar>rnd_pos y - y\<bar> \<le> y / 2" by linarith
  with y show ?thesis by linarith
qed

lemma double_grid: "double x \<Longrightarrow> \<exists>m. x = of_int m * powz 2 (- 1074)"
proof -
  assume "double x"
  then obtain m e where x: "x = of_int m * powz 2 e" "- 1074 \<le> e" using rnd_grid [of x x] by (auto simp: double_def)
  have "powz 2 e = powz 2 (e + 1074) * powz 2 (- 1074)" using powz_add [of 2 "e + 1074" "- 1074"] by simp
  also have "powz 2 (e + 1074) = of_int (2 ^ nat (e + 1074))" using x(2) by (simp add: powz_def)
  finally have "x = of_int (m * 2 ^ nat (e + 1074)) * powz 2 (- 1074)" by (simp add: x(1))
  then show ?thesis by blast
qed

lemma num_sub_sign:
  assumes "double a" "double b"
  shows "num_less (Fin 0) (num_sub (Fin a) (Fin b)) \<longleftrightarrow> b < a"
proof
  assume "num_less (Fin 0) (num_sub (Fin a) (Fin b))"
  then show "b < a" using rnd_sign [of "a - b"]
    by (cases "rnd (a - b)") (auto simp: num_sub_def rnd_def Let_def split: if_splits)
next
  assume l: "b < a"
  obtain m n where m: "a = of_int m * powz 2 (- 1074)" "b = of_int n * powz 2 (- 1074)"
    using double_grid [OF assms(1)] double_grid [OF assms(2)] by blast
  have p: "0 < powz 2 (- 1074)" by (rule powz_pos) simp
  have d: "a - b = of_int (m - n) * powz 2 (- 1074)" by (simp add: m left_diff_distrib)
  with l p have "0 < (of_int (m - n) :: rat)" by (metis diff_gt_0_iff_gt zero_less_mult_pos2)
  then have "1 \<le> m - n" by simp
  then have "(1 :: rat) \<le> of_int (m - n)" by (metis of_int_1 of_int_le_iff)
  then have "powz 2 (- 1074) \<le> a - b" unfolding d using p by (simp add: mult_le_cancel_right1)
  then have "0 < rnd_pos \<bar>a - b\<bar>" using l rnd_pos_positive by simp
  with l show "num_less (Fin 0) (num_sub (Fin a) (Fin b))" by (simp add: num_sub_def rnd_def Let_def)
qed

subsection \<open>Sorting\<close>

text \<open>
  The sort of the language is stable and, for a consistent comparison function, determined by it.
  An element goes before the first one that it does not have to follow.
\<close>

fun insert_with :: "('a \<Rightarrow> 'a \<Rightarrow> bool) \<Rightarrow> 'a \<Rightarrow> 'a list \<Rightarrow> 'a list" where
  "insert_with before x [] = [x]"
| "insert_with before x (y # ys) = (if before x y then x # y # ys else y # insert_with before x ys)"

definition sort_with :: "('a \<Rightarrow> 'a \<Rightarrow> bool) \<Rightarrow> 'a list \<Rightarrow> 'a list" where
  "sort_with before xs = foldr (insert_with before) xs []"

text \<open>\<open>before x y\<close>: the comparison of \<open>x\<close> with \<open>y\<close> is not positive. Consistency on a set of elements.\<close>

definition consistent_on :: "'a set \<Rightarrow> ('a \<Rightarrow> 'a \<Rightarrow> bool) \<Rightarrow> bool" where
  "consistent_on A before \<longleftrightarrow> (\<forall>x \<in> A. \<forall>y \<in> A. before x y \<or> before y x)
     \<and> (\<forall>x \<in> A. \<forall>y \<in> A. \<forall>z \<in> A. before x y \<longrightarrow> before y z \<longrightarrow> before x z)"

lemma mset_insert_with [simp]: "mset (insert_with before x xs) = add_mset x (mset xs)"
  by (induction xs) auto

lemma mset_sort_with [simp]: "mset (sort_with before xs) = mset xs"
  by (induction xs) (simp_all add: sort_with_def)

lemma set_sort_with [simp]: "set (sort_with before xs) = set xs"
  by (metis mset_sort_with set_mset_mset)

lemma sorted_insert_with:
  assumes "consistent_on A before" "insert x (set xs) \<subseteq> A" "sorted_wrt before xs"
  shows "sorted_wrt before (insert_with before x xs)"
  using assms(2,3)
proof (induction xs)
  case (Cons y ys)
  have t: "before y x" if "\<not> before x y" using assms(1) Cons.prems(1) that by (auto simp: consistent_on_def)
  have "before x z" if "before x y" "z \<in> set ys" for z
    using assms(1) Cons.prems that unfolding consistent_on_def by (metis insertCI insert_subset list.simps(15) sorted_wrt.simps(2) subsetD)
  moreover have "set (insert_with before x ys) = insert x (set ys)" by (metis mset_insert_with set_mset_add_mset_insert set_mset_mset)
  ultimately show ?case using Cons t by auto
qed simp

lemma sorted_sort_with: "consistent_on (set xs) before \<Longrightarrow> sorted_wrt before (sort_with before xs)"
proof -
  assume c: "consistent_on (set xs) before"
  have "set ys \<subseteq> set xs \<Longrightarrow> sorted_wrt before (sort_with before ys)" for ys
  proof (induction ys)
    case (Cons y ys)
    have "sort_with before (y # ys) = insert_with before y (sort_with before ys)" by (simp add: sort_with_def)
    with Cons show ?case using sorted_insert_with [OF c, of y "sort_with before ys"] by simp
  qed (simp add: sort_with_def)
  then show ?thesis by simp
qed

lemma sort_with_sorted: "sorted_wrt before xs \<Longrightarrow> sort_with before xs = xs"
proof (induction xs)
  case (Cons x xs)
  then have "sort_with before (x # xs) = insert_with before x xs" by (simp add: sort_with_def)
  with Cons.prems show ?case by (cases xs) auto
qed (simp add: sort_with_def)

end
