(* ===== verification/ChannelUtils.thy ===== *)
theory ChannelUtils
  imports ChannelModels JsArith
begin

text \<open>
  Functions on channels (\<^verbatim>\<open>features/channels/lib/channel-utils.ts\<close> and the tables of
  \<^verbatim>\<open>features/channels/constants.ts\<close>). \<^verbatim>\<open>localeCompare\<close> depends on the locale data and is an
  argument. Properties of a channel that no function here reads are left out of the record.
\<close>

subsection \<open>Channel types\<close>

definition CHANNEL_TYPES :: "(nat \<times> jsstr) list" where
  "CHANNEL_TYPES =
     [(0, js ''Unknown''), (1, js ''OpenAI''), (2, js ''Midjourney''), (3, js ''Azure''), (4, js ''Ollama''),
      (5, js ''MidjourneyPlus''), (6, js ''OpenAIMax''), (7, js ''OhMyGPT''), (8, js ''Custom''), (9, js ''AILS''),
      (10, js ''AI Proxy''), (11, js ''PaLM''), (12, js ''API2GPT''), (13, js ''AIGC2D''), (14, js ''Anthropic''),
      (15, js ''Baidu''), (16, js ''Zhipu''), (17, js ''Ali''), (18, js ''Xunfei''), (19, js ''360''),
      (20, js ''OpenRouter''), (21, js ''AI Proxy Library''), (22, js ''FastGPT''), (23, js ''Tencent''),
      (24, js ''Gemini''), (25, js ''Moonshot''), (26, js ''Zhipu V4''), (27, js ''Perplexity''),
      (31, js ''LingYiWanWu''), (33, js ''AWS''), (34, js ''Cohere''), (35, js ''MiniMax''), (36, js ''SunoAPI''),
      (37, js ''Dify''), (38, js ''Jina''), (39, js ''Cloudflare''), (40, js ''SiliconFlow''),
      (41, js ''Vertex AI''), (42, js ''Mistral''), (43, js ''DeepSeek''), (44, js ''MokaAI''),
      (45, js ''VolcEngine''), (46, js ''Baidu V2''), (47, js ''Xinference''), (48, js ''xAI''), (49, js ''Coze''),
      (50, js ''Kling''), (51, js ''Jimeng''), (52, js ''Vidu''), (53, js ''Submodel''), (54, js ''DoubaoVideo''),
      (55, js ''Sora''), (56, js ''Replicate''), (57, js ''ChatGPT Subscription (Codex)'')]"

definition CHANNEL_TYPE_DISPLAY_ORDER :: "nat list" where
  "CHANNEL_TYPE_DISPLAY_ORDER =
     [1, 14, 33, 24, 43, 3, 41, 48, 42, 34, 20, 4, 40, 27, 25, 17, 26, 15, 46, 23, 18, 45, 31, 35, 49, 19, 47, 37,
      38, 39, 11, 8, 57, 22, 21, 44, 2, 5, 36, 50, 51, 52, 53, 54, 55, 56]"

definition ordered_options :: "(nat \<times> jsstr) list" where
  "ordered_options = List.map_filter (\<lambda>i. map_option (\<lambda>l. (i, l)) (map_of CHANNEL_TYPES i)) CHANNEL_TYPE_DISPLAY_ORDER"

definition CHANNEL_TYPE_OPTIONS :: "(nat \<times> jsstr) list" where
  "CHANNEL_TYPE_OPTIONS =
     ordered_options @ filter (\<lambda>(i, _). i \<noteq> 0 \<and> i \<notin> set (map fst ordered_options)) CHANNEL_TYPES"

definition getChannelTypeLabel :: "nat \<Rightarrow> jsstr" where
  "getChannelTypeLabel ty = (case map_of CHANNEL_TYPES ty of Some l \<Rightarrow> l | None \<Rightarrow> js ''Unknown'')"

definition TYPE_TO_ICON :: "(nat \<times> jsstr) list" where
  "TYPE_TO_ICON =
     [(1, js ''OpenAI''), (6, js ''OpenAI''), (7, js ''OpenAI''), (8, js ''OpenAI''), (3, js ''Azure''),
      (14, js ''Claude''), (24, js ''Gemini''), (11, js ''Google''), (41, js ''Gemini''), (33, js ''Aws''),
      (39, js ''Cloudflare''), (15, js ''Baidu''), (46, js ''Baidu''), (16, js ''Zhipu''), (26, js ''Zhipu''),
      (17, js ''Qwen''), (18, js ''Spark''), (23, js ''Hunyuan''), (19, js ''Ai360''), (25, js ''Moonshot''),
      (31, js ''Yi''), (35, js ''Minimax''), (45, js ''Volcengine''), (4, js ''Ollama''), (27, js ''Perplexity''),
      (34, js ''Cohere''), (42, js ''Mistral''), (43, js ''DeepSeek''), (48, js ''XAI''), (49, js ''Coze''),
      (40, js ''SiliconCloud''), (44, js ''OpenAI''), (20, js ''OpenRouter''), (2, js ''Midjourney''),
      (5, js ''Midjourney''), (50, js ''Kling''), (51, js ''Jimeng''), (52, js ''Vidu''), (36, js ''Suno''),
      (55, js ''OpenAI''), (54, js ''Doubao''), (56, js ''Replicate''), (37, js ''Dify''), (38, js ''Jina''),
      (22, js ''FastGPT''), (47, js ''Xinference''), (53, js ''OpenAI''), (10, js ''OpenAI''), (21, js ''OpenAI''),
      (12, js ''OpenAI''), (13, js ''OpenAI''), (9, js ''OpenAI'')]"

definition getChannelTypeIcon :: "nat \<Rightarrow> jsstr" where
  "getChannelTypeIcon ty = (case map_of TYPE_TO_ICON ty of Some l \<Rightarrow> l | None \<Rightarrow> js ''OpenAI'')"

definition TYPE_TO_KEY_PROMPT :: "(nat \<times> jsstr) list" where
  "TYPE_TO_KEY_PROMPT =
     [(15, js ''Format: APIKey|SecretKey''), (18, js ''Format: APPID|APISecret|APIKey''),
      (22, js ''Format: APIKey-AppId, e.g., fastgpt-0sp2gtvfdgyi4k30jwlgwf1i-64f335d84283f05518e9e041''),
      (23, js ''Format: AppId|SecretId|SecretKey''), (33, js ''Format: Ak|Sk|Region''),
      (50, js ''Format: AccessKey|SecretKey (or just ApiKey if upstream is New API)''),
      (51, js ''Format: Access Key ID|Secret Access Key''),
      (57, js ''Paste Codex OAuth JSON credential (access_token / refresh_token / account_id)'')]"

definition getKeyPromptForType :: "nat \<Rightarrow> jsstr" where
  "getKeyPromptForType ty = (case map_of TYPE_TO_KEY_PROMPT ty of Some p \<Rightarrow> p | None \<Rightarrow> js ''Enter API key for this channel'')"

subsection \<open>Channels\<close>

text \<open>The identifier of a tag row is its tag.\<close>

datatype channel_id = NumId jsnum | TagId jsstr

record channel_info =
  ci_is_multi_key :: bool
  ci_multi_key_size :: jsnum
  ci_multi_key_status_list :: "(jsstr \<times> jsnum) list option"

record channel =
  c_id :: channel_id
  c_type :: jsnum
  c_key :: jsstr
  c_status :: "jsnum option"
  c_name :: jsstr
  c_weight :: "jsnum option"
  c_created_time :: jsnum
  c_test_time :: jsnum
  c_response_time :: jsnum
  c_balance :: jsnum
  c_balance_updated_time :: jsnum
  c_models :: jsstr
  c_group :: jsstr
  c_used_quota :: jsnum
  c_priority :: "jsnum option"
  c_tag :: "jsstr option"
  c_info :: "channel_info option"

definition isChannelEnabled :: "channel \<Rightarrow> bool" where
  "isChannelEnabled c \<longleftrightarrow> c_status c = Some (Fin 1)"

definition isMultiKeyChannel :: "channel \<Rightarrow> bool" where
  "isMultiKeyChannel c = (case c_info c of None \<Rightarrow> False | Some i \<Rightarrow> ci_is_multi_key i)"

datatype variant = Success | Info | Warning | Danger | Neutral

definition CHANNEL_STATUS_CONFIG :: "(jsnum \<times> variant \<times> jsstr) list" where
  "CHANNEL_STATUS_CONFIG = [(Fin 0, Neutral, js ''Unknown''), (Fin 1, Success, js ''Enabled''), (Fin 2, Danger, js ''Disabled''),
     (Fin 3, Warning, js ''Auto Disabled'')]"

definition getChannelStatusBadge :: "jsnum \<Rightarrow> variant \<times> jsstr" where
  "getChannelStatusBadge status = (case map_of CHANNEL_STATUS_CONFIG status of
      Some b \<Rightarrow> b | None \<Rightarrow> (Neutral, js ''Unknown''))"

definition MULTI_KEY_STATUS_CONFIG :: "(jsnum \<times> variant \<times> jsstr) list" where
  "MULTI_KEY_STATUS_CONFIG = [(Fin 1, Success, js ''Enabled''), (Fin 2, Neutral, js ''Manual Disabled''),
     (Fin 3, Danger, js ''Auto Disabled'')]"

definition getMultiKeyStatusBadge :: "jsnum \<Rightarrow> variant \<times> jsstr" where
  "getMultiKeyStatusBadge status = (case map_of MULTI_KEY_STATUS_CONFIG status of
      Some b \<Rightarrow> b | None \<Rightarrow> (Success, js ''Enabled''))"

definition getBalanceVariant :: "jsnum \<Rightarrow> variant" where
  "getBalanceVariant balance =
     (if balance = Fin 0 then Neutral else if num_less balance (Fin 1) then Danger
      else if num_less balance (Fin 10) then Warning else Success)"

definition getResponseTimeConfig :: "jsnum \<Rightarrow> variant \<times> jsstr" where
  "getResponseTimeConfig timeMs =
     (if timeMs = Fin 0 then (Neutral, js ''Not tested'')
      else if num_le timeMs (Fin 500) then (Success, js ''Excellent'')
      else if num_le timeMs (Fin 1000) then (Info, js ''Good'')
      else if num_le timeMs (Fin 2000) then (Warning, js ''Fair'')
      else (Danger, js ''Poor''))"

definition getPriorityDisplay :: "jsnum option \<Rightarrow> jsstr" where
  "getPriorityDisplay priority = (case priority of None \<Rightarrow> js ''0'' | Some p \<Rightarrow> num_to_string p)"

definition getWeightDisplay :: "jsnum option \<Rightarrow> jsstr" where
  "getWeightDisplay weight = (case weight of None \<Rightarrow> js ''0'' | Some p \<Rightarrow> num_to_string p)"

subsection \<open>Keys\<close>

text \<open>\<^verbatim>\<open>s.slice(0, n)\<close> and \<^verbatim>\<open>s.slice(-n)\<close>.\<close>

definition slice_last :: "nat \<Rightarrow> jsstr \<Rightarrow> jsstr" where
  "slice_last n s = drop (length s - n) s"

definition key_lines :: "jsstr \<Rightarrow> jsstr list" where
  "key_lines key = filter (\<lambda>k. trim k \<noteq> []) (split_on 10 key)"

definition formatChannelKey :: "jsstr \<Rightarrow> bool \<Rightarrow> jsstr" where
  "formatChannelKey key isMultiKey =
     (if key = [] then []
      else if isMultiKey then show_nat (length (key_lines key)) @ js '' keys''
      else if length key \<le> 16 then take 4 key @ js ''...'' @ slice_last 4 key
      else take 8 key @ js ''...'' @ slice_last 8 key)"

definition formatKeyPreview :: "jsstr \<Rightarrow> nat \<Rightarrow> jsstr" where
  "formatKeyPreview key maxLength =
     (if key = [] then [] else if length key \<le> maxLength then key else take maxLength key @ js ''...'')"

definition countKeys :: "jsstr \<Rightarrow> nat" where
  "countKeys key = (if key = [] then 0 else length (key_lines key))"

record dedup_result =
  dr_deduplicatedText :: jsstr
  dr_beforeCount :: nat
  dr_afterCount :: nat
  dr_removedCount :: int

definition dedup_line :: "jsstr list \<Rightarrow> jsstr \<Rightarrow> jsstr list" where
  "dedup_line keys line = (let t = trim line in if t \<noteq> [] \<and> t \<notin> set keys then keys @ [t] else keys)"

definition deduplicateKeys :: "jsstr \<Rightarrow> dedup_result" where
  "deduplicateKeys keysText =
     (if keysText = [] \<or> trim keysText = [] then
        \<lparr>dr_deduplicatedText = [], dr_beforeCount = 0, dr_afterCount = 0, dr_removedCount = 0\<rparr>
      else
        (let keyLines = split_on 10 keysText; keys = foldl dedup_line [] keyLines in
         \<lparr>dr_deduplicatedText = join [10] keys, dr_beforeCount = length keyLines, dr_afterCount = length keys,
          dr_removedCount = int (length keyLines) - int (length keys)\<rparr>))"

subsection \<open>Models and groups\<close>

definition parseModelsList :: "jsstr \<Rightarrow> jsstr list" where
  "parseModelsList models = (if models = [] then [] else split_names 44 models)"

text \<open>\<open>cmp a b\<close> is \<^verbatim>\<open>a.localeCompare(b)\<close>.\<close>

definition group_before :: "(jsstr \<Rightarrow> jsstr \<Rightarrow> int) \<Rightarrow> jsstr \<Rightarrow> jsstr \<Rightarrow> bool" where
  "group_before cmp a b = (if a = js ''default'' then True else if b = js ''default'' then False else cmp a b \<le> 0)"

definition parseGroupsList :: "(jsstr \<Rightarrow> jsstr \<Rightarrow> int) \<Rightarrow> jsstr \<Rightarrow> jsstr list" where
  "parseGroupsList cmp groups = (if groups = [] then [] else sort_with (group_before cmp) (split_names 44 groups))"

definition formatModelsString :: "jsstr list \<Rightarrow> jsstr" where
  "formatModelsString models = join [44] models"

definition formatGroupsString :: "jsstr list \<Rightarrow> jsstr" where
  "formatGroupsString groups = join [44] groups"

definition parseChannelSettings :: "jsstr option \<Rightarrow> json" where
  "parseChannelSettings settingStr = (case settingStr of
      None \<Rightarrow> JObj []
    | Some s \<Rightarrow> if s = [] then JObj [] else (case json_parse s of Inr v \<Rightarrow> v | Inl _ \<Rightarrow> JObj []))"

definition parseChannelOtherSettings :: "jsstr option \<Rightarrow> json" where
  "parseChannelOtherSettings settingsStr = (case settingsStr of
      None \<Rightarrow> JObj []
    | Some s \<Rightarrow> if s = [] \<or> s = js ''{}'' then JObj [] else (case json_parse s of Inr v \<Rightarrow> v | Inl _ \<Rightarrow> JObj []))"

definition validateChannelSettings :: "jsstr \<Rightarrow> bool" where
  "validateChannelSettings settings =
     (if settings = [] \<or> trim settings = [] then True else (case json_parse settings of Inr _ \<Rightarrow> True | Inl _ \<Rightarrow> False))"

definition validateChannelName :: "jsstr \<Rightarrow> bool" where
  "validateChannelName name \<longleftrightarrow> 0 < length (trim name)"

definition validateApiKey :: "jsstr \<Rightarrow> bool" where
  "validateApiKey key \<longleftrightarrow> 0 < length (trim key)"

definition validateModels :: "jsstr \<Rightarrow> bool" where
  "validateModels models \<longleftrightarrow> 0 < length (parseModelsList models)"

definition validateGroups :: "(jsstr \<Rightarrow> jsstr \<Rightarrow> int) \<Rightarrow> jsstr \<Rightarrow> bool" where
  "validateGroups cmp groups \<longleftrightarrow> 0 < length (parseGroupsList cmp groups)"

subsection \<open>Attention\<close>

definition low_balance :: "channel \<Rightarrow> bool" where
  "low_balance c \<longleftrightarrow> num_less (Fin 0) (c_balance c) \<and> num_less (c_balance c) (Fin 1)"

definition all_keys_disabled :: "channel \<Rightarrow> bool" where
  "all_keys_disabled c = (case c_info c of
      None \<Rightarrow> False
    | Some i \<Rightarrow> ci_is_multi_key i \<and> (case ci_multi_key_status_list i of
        None \<Rightarrow> False | Some l \<Rightarrow> num_le (ci_multi_key_size i) (Fin (of_nat (length l)))))"

definition channelNeedsAttention :: "channel \<Rightarrow> bool" where
  "channelNeedsAttention c =
     (if c_status c = Some (Fin 3) then True else if low_balance c then True else if all_keys_disabled c then True else False)"

definition getAttentionReason :: "channel \<Rightarrow> jsstr option" where
  "getAttentionReason c =
     (if c_status c = Some (Fin 3) then Some (js ''Auto-disabled'')
      else if low_balance c then Some (js ''Low balance'')
      else if all_keys_disabled c then Some (js ''All keys disabled'') else None)"

subsection \<open>Rows of a tag\<close>

record tag_row =
  tr_channel :: channel
  tr_children :: "channel list"

definition tag_of :: "channel \<Rightarrow> jsstr" where
  "tag_of c = (case c_tag c of None \<Rightarrow> [] | Some t \<Rightarrow> t)"

definition new_row :: "jsstr \<Rightarrow> channel \<Rightarrow> tag_row" where
  "new_row tag c = \<lparr>tr_channel = c\<lparr>c_key := tag, c_id := TagId tag, c_tag := Some tag, c_name := tag, c_type := Fin 0,
       c_status := None, c_group := [], c_used_quota := Fin 0, c_response_time := Fin 0, c_priority := Some (Fin (- 1)),
       c_weight := Some (Fin (- 1)), c_balance := Fin 0, c_test_time := Fin 0, c_created_time := Fin 0,
       c_balance_updated_time := Fin 0, c_models := []\<rparr>, tr_children = []\<rparr>"

text \<open>The same value or \<^verbatim>\<open>null\<close>; -1 stands for no value yet.\<close>

definition same_or_null :: "jsnum option \<Rightarrow> jsnum option \<Rightarrow> jsnum option" where
  "same_or_null acc v = (if acc = Some (Fin (- 1)) then v else if acc \<noteq> v then None else acc)"

definition group_names :: "jsstr \<Rightarrow> jsstr list" where
  "group_names s = filter (\<lambda>g. g \<noteq> []) (split_on 44 s)"

definition merge_group :: "jsstr \<Rightarrow> jsstr \<Rightarrow> jsstr" where
  "merge_group acc g =
     (if acc = [] then g
      else acc @ concat (map (\<lambda>x. 44 # x) (filter (\<lambda>x. x \<notin> set (group_names acc)) (group_names g))))"

definition add_child :: "tag_row \<Rightarrow> channel \<Rightarrow> tag_row" where
  "add_child row c =
     (let children = tr_children row @ [c]; n = length children; r = tr_channel row in
      \<lparr>tr_channel = r\<lparr>
         c_used_quota := num_add (c_used_quota r) (c_used_quota c),
         c_response_time := num_div (num_add (num_mul (c_response_time r) (Fin (of_nat (n - 1)))) (c_response_time c)) (Fin (of_nat n)),
         c_priority := same_or_null (c_priority r) (c_priority c),
         c_weight := same_or_null (c_weight r) (c_weight c),
         c_group := merge_group (c_group r) (c_group c),
         c_status := (if c_status c = Some (Fin 1) then Some (Fin 1) else if c_status r = None then c_status c else c_status r)\<rparr>,
       tr_children = children\<rparr>)"

definition row_tag :: "tag_row \<Rightarrow> jsstr" where
  "row_tag r = c_key (tr_channel r)"

definition aggregate_step :: "tag_row list \<Rightarrow> channel \<Rightarrow> tag_row list" where
  "aggregate_step rows c =
     (let tag = tag_of c; rows1 = (if tag \<notin> set (map row_tag rows) then rows @ [new_row tag c] else rows)
      in map (\<lambda>r. if row_tag r = tag then add_child r c else r) rows1)"

definition aggregateChannelsByTag :: "channel list \<Rightarrow> tag_row list" where
  "aggregateChannelsByTag channels = foldl aggregate_step [] channels"

subsection \<open>Rows are groups\<close>

definition row_for :: "jsstr \<Rightarrow> channel list \<Rightarrow> tag_row" where
  "row_for t cs = foldl add_child (new_row t (hd cs)) cs"

abbreviation tagged :: "jsstr \<Rightarrow> channel list \<Rightarrow> channel list" where
  "tagged t cs \<equiv> filter (\<lambda>c. tag_of c = t) cs"

lemma row_tag_simps [simp]: "row_tag (new_row t c) = t" "row_tag (add_child r c) = row_tag r"
  by (simp_all add: row_tag_def new_row_def add_child_def Let_def)

lemma row_tag_fold [simp]: "row_tag (foldl add_child r cs) = row_tag r"
  by (induction cs arbitrary: r) simp_all

lemma row_tag_for [simp]: "row_tag (row_for t cs) = t"
  by (simp add: row_for_def)

lemma row_for_snoc: "cs \<noteq> [] \<Longrightarrow> row_for t (cs @ [c]) = add_child (row_for t cs) c"
  by (simp add: row_for_def)

lemma aggregate_rows: "aggregateChannelsByTag cs = map (\<lambda>t. row_for t (tagged t cs)) (uniq (map tag_of cs))"
proof (induction cs rule: rev_induct)
  case (snoc c cs)
  let ?u = "uniq (map tag_of cs)" and ?t = "tag_of c"
  have step: "aggregateChannelsByTag (cs @ [c]) = aggregate_step (aggregateChannelsByTag cs) c"
    by (simp add: aggregateChannelsByTag_def)
  have tags: "map row_tag (aggregateChannelsByTag cs) = ?u" by (simp add: snoc comp_def)
  have other: "row_for t (tagged t (cs @ [c])) = row_for t (tagged t cs)" if "t \<noteq> ?t" for t using that by simp
  have same: "row_for ?t (tagged ?t (cs @ [c])) = (if tagged ?t cs = [] then add_child (new_row ?t c) c else add_child (row_for ?t (tagged ?t cs)) c)"
    using row_for_snoc [of "tagged ?t cs" ?t c] by (simp add: row_for_def)
  show ?case
  proof (cases "?t \<in> set (map tag_of cs)")
    case True
    then have "tagged ?t cs \<noteq> []" by (auto simp: filter_empty_conv)
    then have "map (\<lambda>r. if row_tag r = ?t then add_child r c else r) (aggregateChannelsByTag cs) =
        map (\<lambda>t. row_for t (tagged t (cs @ [c]))) ?u"
      using same by (auto simp: snoc)
    moreover have "?t \<in> set (map row_tag (aggregateChannelsByTag cs))" unfolding tags using True by simp
    ultimately show ?thesis using True unfolding step aggregate_step_def Let_def by simp
  next
    case False
    then have ne: "tag_of x \<noteq> ?t" if "x \<in> set cs" for x using that by (metis image_eqI set_map)
    from ne have e: "tagged ?t cs = []" by (simp add: filter_empty_conv)
    have n: "?t \<notin> set (map row_tag (aggregateChannelsByTag cs))" unfolding tags using False by simp
    have "map (\<lambda>r. if row_tag r = ?t then add_child r c else r) (aggregateChannelsByTag cs) =
        map (\<lambda>t. row_for t (tagged t (cs @ [c]))) ?u"
      unfolding snoc map_map comp_def by (rule map_cong) (use ne in fastforce)+
    moreover have "row_for ?t (tagged ?t (cs @ [c])) = add_child (new_row ?t c) c" using same e by simp
    ultimately show ?thesis using False n unfolding step aggregate_step_def Let_def by simp
  qed
qed (simp add: aggregateChannelsByTag_def)

lemma children_fold: "tr_children (foldl add_child r cs) = tr_children r @ cs"
  by (induction cs arbitrary: r) (simp_all add: add_child_def Let_def)

lemma children_row_for: "tr_children (row_for t cs) = cs"
  by (simp add: row_for_def children_fold new_row_def)

lemma status_fold:
  "c_status (tr_channel (foldl add_child r cs)) = Some (Fin 1) \<longleftrightarrow>
    c_status (tr_channel r) = Some (Fin 1) \<or> list_ex isChannelEnabled cs"
proof (induction cs arbitrary: r)
  case (Cons c cs)
  have "c_status (tr_channel (add_child r c)) = Some (Fin 1) \<longleftrightarrow> c_status (tr_channel r) = Some (Fin 1) \<or> isChannelEnabled c"
    by (simp add: add_child_def Let_def isChannelEnabled_def)
  with Cons show ?case by auto
qed simp

lemma split_on_append: "split_on c (a @ c # b) = split_on c a @ split_on c b"
  by (induction a) (auto split: list.split)

lemma group_names_append: "group_names (a @ 44 # b) = group_names a @ group_names b"
  by (simp add: group_names_def split_on_append)

lemma group_names_one: "44 \<notin> set x \<Longrightarrow> x \<noteq> [] \<Longrightarrow> group_names x = [x]"
  by (simp add: group_names_def split_on_no_sep)

lemma group_names_names: "x \<in> set (group_names s) \<Longrightarrow> 44 \<notin> set x \<and> x \<noteq> []"
  using split_on_pieces by (fastforce simp: group_names_def)

lemma group_names_added:
  "(\<And>x. x \<in> set xs \<Longrightarrow> 44 \<notin> set x \<and> x \<noteq> []) \<Longrightarrow> group_names (acc @ concat (map (\<lambda>x. 44 # x) xs)) = group_names acc @ xs"
proof (induction xs arbitrary: acc)
  case (Cons x xs)
  have "group_names ((acc @ 44 # x) @ concat (map (\<lambda>x. 44 # x) xs)) = group_names (acc @ 44 # x) @ xs"
    using Cons.prems by (intro Cons.IH) auto
  then show ?case using Cons.prems by (simp add: group_names_append group_names_one)
qed simp

lemma set_merge_group: "set (group_names (merge_group acc g)) = set (group_names acc) \<union> set (group_names g)"
proof (cases "acc = []")
  case False
  have "group_names (merge_group acc g) = group_names acc @ filter (\<lambda>x. x \<notin> set (group_names acc)) (group_names g)"
    unfolding merge_group_def if_not_P [OF False] by (rule group_names_added) (auto dest: group_names_names)
  then show ?thesis by auto
qed (simp add: merge_group_def group_names_def)

lemma group_fold:
  "set (group_names (c_group (tr_channel (foldl add_child r cs)))) =
    set (group_names (c_group (tr_channel r))) \<union> (\<Union>c \<in> set cs. set (group_names (c_group c)))"
  by (induction cs arbitrary: r) (auto simp: add_child_def Let_def set_merge_group)

text \<open>
  C12: in tag mode the rows are the groups of the channels by tag, in the order of the first channel of
  each; every channel is a child of exactly the row of its tag. A row is enabled when one of its
  children is, and its groups are those of its children.
\<close>

theorem tag_rows:
  "map (\<lambda>r. (row_tag r, tr_children r)) (aggregateChannelsByTag cs) = map (\<lambda>t. (t, filter (\<lambda>c. tag_of c = t) cs)) (uniq (map tag_of cs))
   \<and> list_all (\<lambda>r. (c_status (tr_channel r) = Some (Fin 1) \<longleftrightarrow> list_ex isChannelEnabled (tr_children r))
       \<and> set (group_names (c_group (tr_channel r))) = (\<Union>c \<in> set (tr_children r). set (group_names (c_group c))))
     (aggregateChannelsByTag cs)"
proof -
  have "c_status (tr_channel (new_row t c)) = None" "group_names (c_group (tr_channel (new_row t c))) = []" for t c
    by (simp_all add: new_row_def group_names_def)
  then have "(c_status (tr_channel (row_for t xs)) = Some (Fin 1) \<longleftrightarrow> list_ex isChannelEnabled xs)
      \<and> set (group_names (c_group (tr_channel (row_for t xs)))) = (\<Union>c \<in> set xs. set (group_names (c_group c)))" for t xs
    unfolding row_for_def by (simp add: status_fold group_fold)
  then show ?thesis by (simp add: aggregate_rows comp_def children_row_for list_all_iff)
qed

text \<open>The quota of a row is the sum over its children while that sum is an exact double.\<close>

lemma tag_row_quota:
  assumes "\<And>c. c \<in> set cs \<Longrightarrow> c_used_quota c = Fin (of_nat (quota c))" "sum_list (map quota cs) < 2 ^ 53"
    "r \<in> set (aggregateChannelsByTag cs)"
  shows "c_used_quota (tr_channel r) = Fin (of_nat (sum_list (map quota (tr_children r))))"
proof -
  have f: "c_used_quota (tr_channel (foldl add_child r xs)) = Fin (of_nat (n + sum_list (map quota xs)))"
    if "c_used_quota (tr_channel r) = Fin (of_nat n)" "\<And>c. c \<in> set xs \<Longrightarrow> c_used_quota c = Fin (of_nat (quota c))"
      "n + sum_list (map quota xs) < 2 ^ 53" for r n xs
    using that
  proof (induction xs arbitrary: r n)
    case (Cons x xs)
    have "c_used_quota (tr_channel (add_child r x)) = Fin (of_nat (n + quota x))"
      using Cons.prems num_add_nat [of n "quota x"] by (simp add: add_child_def Let_def)
    from Cons.IH [OF this] Cons.prems(2,3) show ?case by (simp add: add.assoc)
  qed simp
  obtain t where r: "r = row_for t (tagged t cs)" using assms(3) by (auto simp: aggregate_rows)
  have "sum_list (map quota (tagged t cs)) \<le> sum_list (map quota cs)" by (induction cs) auto
  then have "c_used_quota (tr_channel r) = Fin (of_nat (0 + sum_list (map quota (tagged t cs))))"
    unfolding r row_for_def using assms by (intro f) (auto simp: new_row_def)
  then show ?thesis by (simp add: r children_row_for)
qed

text \<open>
  A priority of -1 is taken for a missing one: the row of two channels with the priorities -1 and 5
  shows 5, while different priorities are meant to show none.
\<close>

lemma priority_sentinel:
  assumes "c_tag a = c_tag b" "c_priority a = Some (Fin (- 1))" "c_priority b = Some (Fin 5)"
  shows "map (\<lambda>r. c_priority (tr_channel r)) (aggregateChannelsByTag [a, b]) = [Some (Fin 5)]"
  using assms by (simp add: aggregateChannelsByTag_def aggregate_step_def tag_of_def Let_def)
    (simp add: add_child_def new_row_def Let_def same_or_null_def)

subsection \<open>Keys without duplicates\<close>

lemma dedup_lines: "foldl dedup_line [] ls = uniq (filter (\<lambda>k. k \<noteq> []) (map trim ls))"
  by (induction ls rule: rev_induct) (auto simp: dedup_line_def Let_def)

lemma blank_names: "trim s = [] \<Longrightarrow> split_names sep s = []"
proof -
  assume "trim s = []"
  then have ws: "\<forall>c \<in> set s. is_ws c" by (simp add: trim_eq_Nil)
  have "trim p = []" if "p \<in> set (split_on sep s)" for p
    using split_on_pieces [OF that] ws by (auto simp: trim_eq_Nil)
  then show ?thesis by (simp add: split_names_def filter_empty_conv)
qed

lemma deduplicated_text: "dr_deduplicatedText (deduplicateKeys t) = join [10] (uniq (split_names 10 t))"
  by (auto simp: deduplicateKeys_def Let_def dedup_lines split_names_def [symmetric] blank_names)

lemma after_count: "dr_afterCount (deduplicateKeys t) = length (uniq (split_names 10 t))"
  by (auto simp: deduplicateKeys_def Let_def dedup_lines split_names_def [symmetric] blank_names)

lemma removed_count: "dr_removedCount (deduplicateKeys t) =
    (if trim t = [] then 0 else int (length (split_on 10 t)) - int (dr_afterCount (deduplicateKeys t)))"
  by (auto simp: deduplicateKeys_def Let_def)

lemma names_deduplicated: "split_names 10 (dr_deduplicatedText (deduplicateKeys t)) = uniq (split_names 10 t)"
  unfolding deduplicated_text by (rule split_names_join) (auto dest: split_names_names)

lemma key_lines_names: "map trim (key_lines s) = split_names 10 s"
  by (induction "split_on 10 s") (auto simp: key_lines_def split_names_def filter_map comp_def)

lemma count_names: "countKeys s = length (split_names 10 s)"
proof -
  have "length (key_lines s) = length (split_names 10 s)" by (metis key_lines_names length_map)
  then show ?thesis by (auto simp: countKeys_def) (simp add: split_names_def)
qed

text \<open>
  Removing duplicate keys keeps every key once, in order; the reported count is the number of keys
  of the new text, and doing it again removes nothing.
\<close>

theorem deduplicate_keys:
  "let r = deduplicateKeys t in
    split_names 10 (dr_deduplicatedText r) = uniq (split_names 10 t)
    \<and> dr_afterCount r = countKeys (dr_deduplicatedText r)
    \<and> dr_deduplicatedText (deduplicateKeys (dr_deduplicatedText r)) = dr_deduplicatedText r
    \<and> dr_removedCount (deduplicateKeys (dr_deduplicatedText r)) = 0"
proof -
  let ?x = "dr_deduplicatedText (deduplicateKeys t)" and ?u = "uniq (split_names 10 t)"
  have n: "split_names 10 ?x = ?u" by (rule names_deduplicated)
  have again: "dr_deduplicatedText (deduplicateKeys ?x) = ?x" by (simp add: deduplicated_text [of ?x] n) (simp add: deduplicated_text)
  have "dr_removedCount (deduplicateKeys ?x) = 0"
  proof (cases "?u = []")
    case True
    then have "?x = []" by (simp add: deduplicated_text)
    then show ?thesis by (simp add: deduplicateKeys_def)
  next
    case False
    then have "split_on 10 ?x = ?u"
      unfolding deduplicated_text using split_names_names by (intro split_on_join) fastforce+
    then show ?thesis by (simp add: removed_count after_count [of ?x] n)
  qed
  with n again show ?thesis by (simp add: Let_def after_count count_names)
qed

text \<open>
  The mask of a key of four to eight units shows all of it: the part before the dots and the part
  after them together hold every unit of the key.
\<close>

theorem short_key_revealed:
  assumes "4 \<le> length key" "length key \<le> 8"
  shows "\<exists>a b. formatChannelKey key False = a @ js ''...'' @ b \<and> key = a @ drop (8 - length key) b"
proof (intro exI conjI)
  show "formatChannelKey key False = take 4 key @ js ''...'' @ slice_last 4 key" using assms by (auto simp: formatChannelKey_def)
  show "key = take 4 key @ drop (8 - length key) (slice_last 4 key)" using assms by (simp add: slice_last_def)
qed

theorem short_key_revealed_witness:
  "\<exists>a b. formatChannelKey (js ''sk-12345'') False = a @ js ''...'' @ b \<and> js ''sk-12345'' = a @ b"
  using short_key_revealed [of "js ''sk-12345''"] by simp

subsection \<open>Groups, types and attention\<close>

lemma consistent_groups:
  assumes "consistent_on A (\<lambda>a b. cmp a b \<le> 0)"
  shows "consistent_on A (group_before cmp)"
proof -
  have total: "cmp x y \<le> 0 \<or> cmp y x \<le> 0" if "x \<in> A" "y \<in> A" for x y using assms that unfolding consistent_on_def by blast
  have trans: "cmp x z \<le> 0" if "x \<in> A" "y \<in> A" "z \<in> A" "cmp x y \<le> 0" "cmp y z \<le> 0" for x y z
    using assms that unfolding consistent_on_def by blast
  show ?thesis
    unfolding consistent_on_def
  proof (intro conjI ballI impI)
    fix x y
    assume "x \<in> A" "y \<in> A"
    then show "group_before cmp x y \<or> group_before cmp y x" using total by (simp add: group_before_def)
  next
    fix x y z
    assume "x \<in> A" "y \<in> A" "z \<in> A" "group_before cmp x y" "group_before cmp y z"
    then show "group_before cmp x z" using trans [of x y z] by (simp add: group_before_def split: if_splits)
  qed
qed

lemma groups_sorted:
  assumes "consistent_on (set (split_names 44 s)) (\<lambda>a b. cmp a b \<le> 0)"
  shows "mset (parseGroupsList cmp s) = mset (split_names 44 s) \<and> sorted_wrt (group_before cmp) (parseGroupsList cmp s)"
  using sorted_sort_with [OF consistent_groups [OF assms]] by (simp add: parseGroupsList_def) (simp add: split_names_def)

lemma default_first:
  assumes "sorted_wrt (group_before cmp) gs" "js ''default'' \<in> set gs"
  shows "hd gs = js ''default''"
  using assms by (cases gs) (auto simp: group_before_def split: if_splits)

lemma distinct_types: "distinct (map fst CHANNEL_TYPES)"
  by (simp add: CHANNEL_TYPES_def)

lemma ordered_iff: "(i, l) \<in> set ordered_options \<longleftrightarrow> i \<in> set CHANNEL_TYPE_DISPLAY_ORDER \<and> (i, l) \<in> set CHANNEL_TYPES"
proof -
  have "(i, l) \<in> set (List.map_filter (\<lambda>i. map_option (\<lambda>l. (i, l)) (m i)) ks) \<longleftrightarrow> i \<in> set ks \<and> m i = Some l" for m :: "nat \<rightharpoonup> jsstr" and ks
    by (induction ks) (auto simp: map_filter_simps split: option.split)
  then show ?thesis using distinct_types by (simp add: ordered_options_def)
qed

lemma keys_ordered: "i \<in> fst ` set ordered_options \<longleftrightarrow> i \<in> set CHANNEL_TYPE_DISPLAY_ORDER \<and> i \<in> fst ` set CHANNEL_TYPES"
  by (force simp: ordered_iff)

text \<open>Every channel type but the unknown one is offered once, with its own label.\<close>

lemma type_options:
  "distinct (map fst CHANNEL_TYPE_OPTIONS) \<and> set CHANNEL_TYPE_OPTIONS = {(i, l) \<in> set CHANNEL_TYPES. i \<noteq> 0}"
proof -
  have "distinct (List.map_filter (\<lambda>i. map_option (\<lambda>l. i) (map_of CHANNEL_TYPES i)) ks)" if "distinct ks" for ks
    using that by (induction ks) (auto simp: map_filter_simps List.map_filter_def split: option.split)
  moreover have "map fst (List.map_filter (\<lambda>i. map_option (\<lambda>l. (i, l)) (map_of CHANNEL_TYPES i)) ks) =
      List.map_filter (\<lambda>i. map_option (\<lambda>l. i) (map_of CHANNEL_TYPES i)) ks" for ks
    by (induction ks) (simp_all add: map_filter_simps split: option.split)
  moreover have "distinct CHANNEL_TYPE_DISPLAY_ORDER" by (simp add: CHANNEL_TYPE_DISPLAY_ORDER_def)
  ultimately have "distinct (map fst ordered_options)" by (simp add: ordered_options_def)
  moreover have "set (map fst (filter (\<lambda>(i, _). i \<noteq> 0 \<and> i \<notin> K) xs)) \<inter> K = {}" for K :: "nat set" and xs :: "(nat \<times> jsstr) list" by auto
  moreover have "distinct (map fst (filter P CHANNEL_TYPES))" for P using distinct_types by (rule distinct_map_filter)
  ultimately have "distinct (map fst CHANNEL_TYPE_OPTIONS)"
    unfolding CHANNEL_TYPE_OPTIONS_def map_append distinct_append by blast
  moreover have "0 \<notin> set CHANNEL_TYPE_DISPLAY_ORDER" by (simp add: CHANNEL_TYPE_DISPLAY_ORDER_def)
  ultimately show ?thesis by (auto simp: CHANNEL_TYPE_OPTIONS_def ordered_iff keys_ordered)
qed

lemma attention_reason: "channelNeedsAttention c \<longleftrightarrow> getAttentionReason c \<noteq> None"
  by (simp add: channelNeedsAttention_def getAttentionReason_def)

end
