(* ===== verification/PricingCatalog.thy ===== *)
theory PricingCatalog
  imports JsObject JsArith
begin

text \<open>
  The model catalogue (\<^verbatim>\<open>features/pricing/lib\<close>: \<^verbatim>\<open>model-display-name.ts\<close>, \<^verbatim>\<open>filters.ts\<close>,
  \<^verbatim>\<open>enrich-pricing-models.ts\<close>, \<^verbatim>\<open>model-helpers.ts\<close> and the calculations of \<^verbatim>\<open>price.ts\<close>).
  \<^verbatim>\<open>toLowerCase\<close> and \<^verbatim>\<open>localeCompare\<close> depend on the Unicode and locale data and are the arguments
  \<open>lower\<close> and \<open>cmp\<close>.
\<close>

subsection \<open>Models\<close>

record pricing_model =
  pm_model_name :: jsstr
  pm_description :: "jsstr option"
  pm_vendor_id :: "jsnum option"
  pm_vendor_name :: "jsstr option"
  pm_vendor_icon :: "jsstr option"
  pm_vendor_description :: "jsstr option"
  pm_quota_type :: jsnum
  pm_model_ratio :: jsnum
  pm_completion_ratio :: jsnum
  pm_model_price :: "jsnum option"
  pm_cache_ratio :: "jsnum option"
  pm_create_cache_ratio :: "jsnum option"
  pm_image_ratio :: "jsnum option"
  pm_audio_ratio :: "jsnum option"
  pm_audio_completion_ratio :: "jsnum option"
  pm_enable_groups :: "jsstr list"
  pm_tags :: "jsstr option"
  pm_supported_endpoint_types :: "jsstr list option"
  pm_key :: "jsstr option"
  pm_group_ratio :: "(jsstr \<times> jsnum) list option"
  pm_billing_mode :: "jsstr option"
  pm_request_unit :: "jsstr option"
  pm_billing_expr :: "jsstr option"
  pm_display_name :: "jsstr option"
  pm_model_aliases :: "jsstr list option"
  pm_image_profile :: "jsstr option"

record pricing_vendor =
  pv_id :: jsnum
  pv_name :: jsstr
  pv_icon :: "jsstr option"
  pv_description :: "jsstr option"

definition TOKEN_QUOTA :: jsnum where "TOKEN_QUOTA = Fin 0"
definition REQUEST_QUOTA :: jsnum where "REQUEST_QUOTA = Fin 1"

definition num_true :: "jsnum option \<Rightarrow> bool" where
  "num_true v = js_true (map_option JNum v)"

definition str_true :: "jsstr option \<Rightarrow> bool" where
  "str_true v \<longleftrightarrow> v \<noteq> None \<and> v \<noteq> Some []"

text \<open>A \<^verbatim>\<open>Map\<close> built from a list keeps the last entry of a key.\<close>

definition enrichPricingModels ::
  "pricing_model list \<Rightarrow> pricing_vendor list \<Rightarrow> (jsstr \<times> jsnum) list \<Rightarrow> pricing_model list" where
  "enrichPricingModels models vendors group_ratio =
     (let vendorMap = map_of (rev (map (\<lambda>v. (pv_id v, v)) vendors)) in
      map (\<lambda>m. let vendor = (if num_true (pm_vendor_id m) then vendorMap (the (pm_vendor_id m)) else None) in
        m\<lparr>pm_key := Some (pm_model_name m), pm_display_name := Some (pm_model_name m),
          pm_vendor_name := map_option pv_name vendor, pm_vendor_icon := Option.bind vendor pv_icon,
          pm_vendor_description := Option.bind vendor pv_description, pm_group_ratio := Some group_ratio\<rparr>) models)"

definition isBoundImageProfile :: "pricing_model \<Rightarrow> bool" where
  "isBoundImageProfile m = (case pm_image_profile m of
      None \<Rightarrow> False
    | Some profileId \<Rightarrow> profileId \<noteq> [] \<and> \<not> starts_with profileId (js ''default-'') \<and> starts_with profileId (js ''image-tpl''))"

definition has_endpoint :: "pricing_model \<Rightarrow> jsstr \<Rightarrow> bool" where
  "has_endpoint m e = (case pm_supported_endpoint_types m of None \<Rightarrow> False | Some es \<Rightarrow> e \<in> set es)"

definition isVideoDocModel :: "pricing_model \<Rightarrow> bool" where
  "isVideoDocModel m = (if isBoundImageProfile m then False else has_endpoint m (js ''openai-video''))"

definition isImageDocModel :: "pricing_model \<Rightarrow> bool" where
  "isImageDocModel m = (if has_endpoint m (js ''image-generation'') then True else isBoundImageProfile m)"

definition getAvailableGroups :: "pricing_model \<Rightarrow> jsstr list \<Rightarrow> jsstr list" where
  "getAvailableGroups m usable = filter (\<lambda>g. g \<in> set (pm_enable_groups m)) (filter (\<lambda>g. g \<notin> {[], js ''auto''}) usable)"

definition isTokenBasedModel :: "pricing_model \<Rightarrow> bool" where
  "isTokenBasedModel m \<longleftrightarrow> pm_quota_type m = TOKEN_QUOTA"

subsection \<open>Display names\<close>

definition MODEL_FAMILY_FIRST_SEGMENTS :: "jsstr list" where
  "MODEL_FAMILY_FIRST_SEGMENTS =
     [js ''gpt'', js ''claude'', js ''gemini'', js ''gemma'', js ''grok'', js ''imagen'', js ''veo'', js ''palm'',
      js ''o1'', js ''o2'', js ''o3'', js ''o4'', js ''omni'', js ''sora'', js ''dall'', js ''dalle'',
      js ''whisper'', js ''tts'', js ''davinci'', js ''babbage'', js ''text'', js ''embed'', js ''embedding'',
      js ''llama'', js ''codellama'', js ''mistral'', js ''mixtral'', js ''codestral'', js ''magistral'',
      js ''pixtral'', js ''qwen'', js ''qwq'', js ''qvq'', js ''deepseek'', js ''command'', js ''cohere'',
      js ''aya'', js ''ernie'', js ''wenxin'', js ''hunyuan'', js ''hunyuanvideo'', js ''glm'', js ''chatglm'',
      js ''cogview'', js ''cogvideo'', js ''kimi'', js ''moonshot'', js ''abab'', js ''minimax'', js ''hailuo'',
      js ''doubao'', js ''seedance'', js ''seedream'', js ''jimeng'', js ''kling'', js ''wan'', js ''pika'',
      js ''runway'', js ''luma'', js ''flux'', js ''ideogram'', js ''recraft'', js ''midjourney'', js ''niji'',
      js ''sd'', js ''sdxl'', js ''stable'', js ''suno'', js ''udio'', js ''mureka'', js ''meta'']"

definition PUBLIC_MODEL_PREFIX_FIRST_SEGMENTS :: "jsstr list" where
  "PUBLIC_MODEL_PREFIX_FIRST_SEGMENTS = [js ''sd5'']"

definition getNameFirstSegment :: "(jsstr \<Rightarrow> jsstr) \<Rightarrow> jsstr \<Rightarrow> jsstr option" where
  "getNameFirstSegment lower modelName =
     (let s = trim modelName in
      case index_of s [45] of None \<Rightarrow> None | Some dash \<Rightarrow> if dash = 0 then None else Some (lower (take dash s)))"

definition isModelFamilyFirstSegment :: "(jsstr \<Rightarrow> jsstr) \<Rightarrow> jsstr \<Rightarrow> bool" where
  "isModelFamilyFirstSegment lower segment =
     (let normalized = lower segment in
      normalized \<in> set MODEL_FAMILY_FIRST_SEGMENTS \<or> normalized \<in> set PUBLIC_MODEL_PREFIX_FIRST_SEGMENTS)"

definition hasChannelRegistrationPrefix :: "(jsstr \<Rightarrow> jsstr) \<Rightarrow> jsstr \<Rightarrow> bool" where
  "hasChannelRegistrationPrefix lower modelName = (case getNameFirstSegment lower modelName of
      None \<Rightarrow> False
    | Some first \<Rightarrow> if first = [] then False else \<not> isModelFamilyFirstSegment lower first)"

definition stripModelVendorPrefix :: "(jsstr \<Rightarrow> jsstr) \<Rightarrow> jsstr \<Rightarrow> jsstr" where
  "stripModelVendorPrefix lower modelName =
     (let s = trim modelName in
      if \<not> hasChannelRegistrationPrefix lower s then s
      else (case index_of s [45] of None \<Rightarrow> trim s | Some dash \<Rightarrow> trim (drop (dash + 1) s)))"

definition formatModelDisplayName :: "(jsstr \<Rightarrow> jsstr) \<Rightarrow> jsstr \<Rightarrow> jsstr" where
  "formatModelDisplayName lower modelName = stripModelVendorPrefix lower (trim modelName)"

definition getModelDisplayName :: "(jsstr \<Rightarrow> jsstr) \<Rightarrow> pricing_model \<Rightarrow> jsstr" where
  "getModelDisplayName lower m =
     (if str_true (pm_display_name m) then the (pm_display_name m) else formatModelDisplayName lower (pm_model_name m))"

subsection \<open>Prices\<close>

definition hasRatio :: "jsnum option \<Rightarrow> bool" where
  "hasRatio v = (case v of Some (Fin _) \<Rightarrow> True | _ \<Rightarrow> False)"

datatype price_type = Input | Output | Cache | CreateCache | Image | AudioInput | AudioOutput

definition times_ratio :: "jsnum \<Rightarrow> jsnum option \<Rightarrow> jsnum" where
  "times_ratio base r = (if hasRatio r then num_mul base (the r) else NaN)"

definition calculateTokenPrice :: "pricing_model \<Rightarrow> price_type \<Rightarrow> jsnum \<Rightarrow> jsnum" where
  "calculateTokenPrice m ty ratio =
     (let base = num_mul (num_mul (pm_model_ratio m) (Fin 2)) ratio in
      case ty of
        Input \<Rightarrow> base
      | Output \<Rightarrow> num_mul base (pm_completion_ratio m)
      | Cache \<Rightarrow> times_ratio base (pm_cache_ratio m)
      | CreateCache \<Rightarrow> times_ratio base (pm_create_cache_ratio m)
      | Image \<Rightarrow> times_ratio base (pm_image_ratio m)
      | AudioInput \<Rightarrow> times_ratio base (pm_audio_ratio m)
      | AudioOutput \<Rightarrow> if hasRatio (pm_audio_ratio m) \<and> hasRatio (pm_audio_completion_ratio m)
          then num_mul (num_mul base (the (pm_audio_ratio m))) (the (pm_audio_completion_ratio m)) else NaN)"

fun min_ratio_loop :: "jsstr list \<Rightarrow> (jsstr \<times> jsnum) list \<Rightarrow> jsnum \<Rightarrow> jsnum" where
  "min_ratio_loop [] groupRatio minRatio = minRatio"
| "min_ratio_loop (g # gs) groupRatio minRatio =
     min_ratio_loop gs groupRatio (case map_of groupRatio g of
       Some ratio \<Rightarrow> if num_less ratio minRatio then ratio else minRatio | None \<Rightarrow> minRatio)"

definition getMinGroupRatio :: "jsstr list \<Rightarrow> (jsstr \<times> jsnum) list \<Rightarrow> jsnum" where
  "getMinGroupRatio enableGroups groupRatio =
     (if length enableGroups = 0 then Fin 1
      else (let minRatio = min_ratio_loop enableGroups groupRatio (Infinity True)
        in if minRatio = Infinity True then Fin 1 else minRatio))"

definition applyRechargeRate :: "jsnum \<Rightarrow> bool \<Rightarrow> jsnum \<Rightarrow> jsnum \<Rightarrow> jsnum" where
  "applyRechargeRate price showWithRecharge priceRate usdExchangeRate =
     (if \<not> showWithRecharge then price else num_div (num_mul price priceRate) usdExchangeRate)"




subsection \<open>Merging by display name\<close>











definition display_before :: "(jsstr \<Rightarrow> jsstr) \<Rightarrow> (jsstr \<Rightarrow> jsstr \<Rightarrow> int) \<Rightarrow> pricing_model \<Rightarrow> pricing_model \<Rightarrow> bool" where
  "display_before lower cmp a b \<longleftrightarrow> cmp (getModelDisplayName lower a) (getModelDisplayName lower b) \<le> 0"


subsection \<open>Filters\<close>

definition FILTER_ALL :: jsstr where "FILTER_ALL = js ''all''"

definition opt_includes :: "(jsstr \<Rightarrow> jsstr) \<Rightarrow> jsstr option \<Rightarrow> jsstr \<Rightarrow> bool" where
  "opt_includes lower v q = (case v of None \<Rightarrow> False | Some s \<Rightarrow> str_includes (lower s) q)"

definition matches_search :: "(jsstr \<Rightarrow> jsstr) \<Rightarrow> jsstr \<Rightarrow> pricing_model \<Rightarrow> bool" where
  "matches_search lower lowerQuery m \<longleftrightarrow>
     str_includes (lower (getModelDisplayName lower m)) lowerQuery
     \<or> str_includes (lower (pm_model_name m)) lowerQuery
     \<or> (case pm_model_aliases m of None \<Rightarrow> False | Some as \<Rightarrow> list_ex (\<lambda>a. str_includes (lower a) lowerQuery) as)
     \<or> opt_includes lower (pm_description m) lowerQuery \<or> opt_includes lower (pm_tags m) lowerQuery
     \<or> opt_includes lower (pm_vendor_name m) lowerQuery"

definition filterBySearch :: "(jsstr \<Rightarrow> jsstr) \<Rightarrow> pricing_model list \<Rightarrow> jsstr \<Rightarrow> pricing_model list" where
  "filterBySearch lower models query = (if query = [] then models else filter (matches_search lower (lower query)) models)"

definition filterByVendor :: "pricing_model list \<Rightarrow> jsstr \<Rightarrow> pricing_model list" where
  "filterByVendor models vendor = (if vendor = FILTER_ALL then models else filter (\<lambda>m. pm_vendor_name m = Some vendor) models)"

definition filterByGroup :: "pricing_model list \<Rightarrow> jsstr \<Rightarrow> pricing_model list" where
  "filterByGroup models grp = (if grp = FILTER_ALL then models else filter (\<lambda>m. grp \<in> set (pm_enable_groups m)) models)"

definition filterByQuotaType :: "pricing_model list \<Rightarrow> jsstr \<Rightarrow> pricing_model list" where
  "filterByQuotaType models quotaType =
     (if quotaType = js ''all'' then models
      else filter (\<lambda>m. pm_quota_type m = (if quotaType = js ''token'' then TOKEN_QUOTA else REQUEST_QUOTA)) models)"

definition filterByEndpointType :: "pricing_model list \<Rightarrow> jsstr \<Rightarrow> pricing_model list" where
  "filterByEndpointType models endpointType =
     (if endpointType = js ''all'' then models else filter (\<lambda>m. has_endpoint m endpointType) models)"

text \<open>Splitting at runs of separators, as \<^verbatim>\<open>split(/[...]+/)\<close> does.\<close>

function split_runs :: "(nat \<Rightarrow> bool) \<Rightarrow> jsstr \<Rightarrow> jsstr list" where
  "split_runs P [] = [[]]"
| "split_runs P (x # xs) =
     (if P x then [] # split_runs P (dropWhile P xs)
      else (case split_runs P xs of [] \<Rightarrow> [[x]] | p # ps \<Rightarrow> (x # p) # ps))"
  by pat_completeness auto
termination
  by (relation "measure (length \<circ> snd)") (simp_all add: le_imp_less_Suc length_dropWhile_le)

definition tag_separator :: "nat \<Rightarrow> bool" where
  "tag_separator c \<longleftrightarrow> c = 44 \<or> c = 59 \<or> c = 124 \<or> is_ws c"

definition parseTags :: "jsstr option \<Rightarrow> jsstr list" where
  "parseTags tagsString = (case tagsString of
      None \<Rightarrow> []
    | Some s \<Rightarrow> if s = [] then [] else filter (\<lambda>t. t \<noteq> []) (map trim (split_runs tag_separator s)))"

definition extractAllTags :: "(jsstr \<Rightarrow> jsstr) \<Rightarrow> (jsstr \<Rightarrow> jsstr \<Rightarrow> int) \<Rightarrow> pricing_model list \<Rightarrow> jsstr list" where
  "extractAllTags lower cmp models =
     sort_with (\<lambda>a b. cmp a b \<le> 0) (uniq (concat (map (\<lambda>m. map lower (parseTags (pm_tags m))) models)))"

definition filterByTag :: "(jsstr \<Rightarrow> jsstr) \<Rightarrow> pricing_model list \<Rightarrow> jsstr \<Rightarrow> pricing_model list" where
  "filterByTag lower models tag =
     (if tag = FILTER_ALL then models
      else filter (\<lambda>m. str_true (pm_tags m) \<and> lower tag \<in> set (map lower (parseTags (pm_tags m)))) models)"

definition getModelPrice :: "pricing_model \<Rightarrow> jsnum" where
  "getModelPrice m =
     (if pm_quota_type m = Fin 0 then pm_model_ratio m
      else if num_true (pm_model_price m) then the (pm_model_price m) else Fin 0)"

text \<open>The comparison \<^verbatim>\<open>a - b\<close> is not positive.\<close>

definition price_before :: "pricing_model \<Rightarrow> pricing_model \<Rightarrow> bool" where
  "price_before a b \<longleftrightarrow> \<not> num_less (Fin 0) (num_sub (getModelPrice a) (getModelPrice b))"

definition sortModels :: "(jsstr \<Rightarrow> jsstr) \<Rightarrow> (jsstr \<Rightarrow> jsstr \<Rightarrow> int) \<Rightarrow> pricing_model list \<Rightarrow> jsstr \<Rightarrow> pricing_model list" where
  "sortModels lower cmp models sortBy =
     (if sortBy = js ''name'' then sort_with (display_before lower cmp) models
      else if sortBy = js ''price-low'' then sort_with price_before models
      else if sortBy = js ''price-high'' then sort_with (\<lambda>a b. price_before b a) models
      else models)"

record model_filters =
  mf_search :: jsstr
  mf_vendor :: jsstr
  mf_group :: jsstr
  mf_quotaType :: jsstr
  mf_endpointType :: jsstr
  mf_tag :: jsstr
  mf_sortBy :: jsstr

definition filterAndSortModels ::
  "(jsstr \<Rightarrow> jsstr) \<Rightarrow> (jsstr \<Rightarrow> jsstr \<Rightarrow> int) \<Rightarrow> pricing_model list \<Rightarrow> model_filters \<Rightarrow> pricing_model list" where
  "filterAndSortModels lower cmp models fs =
     sortModels lower cmp
       (filterByTag lower
         (filterByEndpointType
           (filterByQuotaType
             (filterByGroup (filterByVendor (filterBySearch lower models (mf_search fs)) (mf_vendor fs)) (mf_group fs))
             (mf_quotaType fs))
           (mf_endpointType fs))
         (mf_tag fs))
       (mf_sortBy fs)"

subsection \<open>What the filters select\<close>

definition price_value :: "pricing_model \<Rightarrow> rat" where
  "price_value m = (case getModelPrice m of Fin x \<Rightarrow> x | _ \<Rightarrow> 0)"

definition selected :: "(jsstr \<Rightarrow> jsstr) \<Rightarrow> model_filters \<Rightarrow> pricing_model \<Rightarrow> bool" where
  "selected lower fs m \<longleftrightarrow>
     (mf_search fs = [] \<or> matches_search lower (lower (mf_search fs)) m)
     \<and> (mf_vendor fs = FILTER_ALL \<or> pm_vendor_name m = Some (mf_vendor fs))
     \<and> (mf_group fs = FILTER_ALL \<or> mf_group fs \<in> set (pm_enable_groups m))
     \<and> (mf_quotaType fs = js ''all'' \<or> pm_quota_type m = (if mf_quotaType fs = js ''token'' then TOKEN_QUOTA else REQUEST_QUOTA))
     \<and> (mf_endpointType fs = js ''all'' \<or> has_endpoint m (mf_endpointType fs))
     \<and> (mf_tag fs = FILTER_ALL \<or> (str_true (pm_tags m) \<and> lower (mf_tag fs) \<in> set (map lower (parseTags (pm_tags m)))))"

lemma filters_select:
  "filterAndSortModels lower cmp models fs = sortModels lower cmp (filter (selected lower fs) models) (mf_sortBy fs)"
proof -
  have "filterByTag lower (filterByEndpointType (filterByQuotaType (filterByGroup (filterByVendor (filterBySearch lower models
      (mf_search fs)) (mf_vendor fs)) (mf_group fs)) (mf_quotaType fs)) (mf_endpointType fs)) (mf_tag fs) = filter (selected lower fs) models"
    by (simp add: filterByTag_def filterByEndpointType_def filterByQuotaType_def filterByGroup_def filterByVendor_def
        filterBySearch_def selected_def conj_comms cong: filter_cong)
  then show ?thesis by (simp add: filterAndSortModels_def)
qed

lemma price_before_le:
  assumes "getModelPrice a = Fin x" "double x" "getModelPrice b = Fin y" "double y"
  shows "price_before a b \<longleftrightarrow> price_value a \<le> price_value b"
  using assms by (simp add: price_before_def price_value_def num_sub_sign not_less)

lemma consistent_key:
  assumes "\<And>a b. a \<in> A \<Longrightarrow> b \<in> A \<Longrightarrow> before a b \<longleftrightarrow> (f a :: rat) \<le> f b"
  shows "consistent_on A before" "consistent_on A (\<lambda>a b. before b a)"
  using assms by (auto simp: consistent_on_def)

text \<open>
  C32: the catalogue shows exactly the models that all six filters select, ordered as chosen: by name
  in the order of the locale, or by price, rising or falling.
\<close>

theorem catalog_filter:
  assumes "consistent_on UNIV (\<lambda>a b. cmp a b \<le> 0)"
    "\<And>m. m \<in> set models \<Longrightarrow> \<exists>x. getModelPrice m = Fin x \<and> double x"
  shows "mset (filterAndSortModels lower cmp models fs) = mset (filter (selected lower fs) models)
    \<and> (mf_sortBy fs = js ''name'' \<longrightarrow> sorted_wrt (display_before lower cmp) (filterAndSortModels lower cmp models fs))
    \<and> (mf_sortBy fs = js ''price-low'' \<longrightarrow> sorted_wrt (\<lambda>a b. price_value a \<le> price_value b) (filterAndSortModels lower cmp models fs))
    \<and> (mf_sortBy fs = js ''price-high'' \<longrightarrow> sorted_wrt (\<lambda>a b. price_value b \<le> price_value a) (filterAndSortModels lower cmp models fs))"
proof -
  let ?ms = "filter (selected lower fs) models"
  have p: "price_before a b \<longleftrightarrow> price_value a \<le> price_value b" if "a \<in> set ?ms" "b \<in> set ?ms" for a b
  proof -
    from that have "a \<in> set models" "b \<in> set models" by simp_all
    then show ?thesis using assms(2) [of a] assms(2) [of b] price_before_le by blast
  qed
  have s: "sorted_wrt R (sort_with R' ?ms)" if "consistent_on (set ?ms) R'" "\<And>a b. a \<in> set ?ms \<Longrightarrow> b \<in> set ?ms \<Longrightarrow> R' a b \<Longrightarrow> R a b" for R R'
    using sorted_sort_with [OF that(1)] that(2) by (auto intro: sorted_wrt_mono_rel [rotated])
  have "consistent_on (set ?ms) (display_before lower cmp)"
    using assms(1) unfolding consistent_on_def display_before_def by blast
  then have "sorted_wrt (display_before lower cmp) (sort_with (display_before lower cmp) ?ms)" by (rule s)
  moreover have "sorted_wrt (\<lambda>a b. price_value a \<le> price_value b) (sort_with price_before ?ms)"
    using p by (intro s consistent_key(1) [where f = price_value]) auto
  moreover have "sorted_wrt (\<lambda>a b. price_value b \<le> price_value a) (sort_with (\<lambda>a b. price_before b a) ?ms)"
    using p by (intro s consistent_key(2) [where f = price_value]) auto
  ultimately show ?thesis by (simp add: filters_select sortModels_def)
qed

subsection \<open>Entries are groups\<close>













subsection \<open>The smallest group ratio\<close>

definition ratios_of :: "jsstr list \<Rightarrow> (jsstr \<times> jsnum) list \<Rightarrow> rat set" where
  "ratios_of gs ratios = {x. \<exists>g \<in> set gs. map_of ratios g = Some (Fin x)}"

lemma ratios_of_Cons:
  "ratios_of (g # gs) ratios = (case map_of ratios g of Some (Fin x) \<Rightarrow> insert x (ratios_of gs ratios) | _ \<Rightarrow> ratios_of gs ratios)"
  by (auto simp: ratios_of_def split: option.split jsnum.split)

lemma finite_ratios_of [simp]: "finite (ratios_of gs ratios)"
  by (induction gs) (simp_all add: ratios_of_Cons split: option.split jsnum.split, simp add: ratios_of_def)

lemma min_ratio_loop_Fin:
  "(\<And>g r. g \<in> set gs \<Longrightarrow> map_of ratios g = Some r \<Longrightarrow> \<exists>x. r = Fin x) \<Longrightarrow>
    min_ratio_loop gs ratios (Fin y) = Fin (Min (insert y (ratios_of gs ratios)))"
proof (induction gs arbitrary: y)
  case (Cons g gs)
  have IH: "min_ratio_loop gs ratios (Fin z) = Fin (Min (insert z (ratios_of gs ratios)))" for z
    using Cons.prems by (intro Cons.IH) auto
  show ?case
  proof (cases "map_of ratios g")
    case (Some r)
    then obtain x where x: "map_of ratios g = Some (Fin x)" using Cons.prems [of g r] by auto
    have "Min (insert (min x y) (ratios_of gs ratios)) = Min (insert y (insert x (ratios_of gs ratios)))"
      by (cases "ratios_of gs ratios = {}") (simp_all add: min.commute min.left_commute)
    moreover have "min_ratio_loop (g # gs) ratios (Fin y) = min_ratio_loop gs ratios (Fin (min x y))"
      by (simp add: x min_def)
    ultimately show ?thesis by (simp only: IH) (simp add: x ratios_of_Cons)
  qed (simp add: IH ratios_of_Cons)
qed (simp add: ratios_of_def)

lemma min_ratio_loop_start:
  "(\<And>g r. g \<in> set gs \<Longrightarrow> map_of ratios g = Some r \<Longrightarrow> \<exists>x. r = Fin x) \<Longrightarrow>
    min_ratio_loop gs ratios (Infinity True) = (if ratios_of gs ratios = {} then Infinity True else Fin (Min (ratios_of gs ratios)))"
proof (induction gs)
  case (Cons g gs)
  show ?case
  proof (cases "map_of ratios g")
    case None
    moreover have "min_ratio_loop gs ratios (Infinity True) = (if ratios_of gs ratios = {} then Infinity True else Fin (Min (ratios_of gs ratios)))"
      using Cons.prems by (intro Cons.IH) auto
    ultimately show ?thesis by (simp add: ratios_of_Cons)
  next
    case (Some r)
    then obtain x where x: "map_of ratios g = Some (Fin x)" using Cons.prems [of g r] by auto
    have "min_ratio_loop gs ratios (Fin x) = Fin (Min (insert x (ratios_of gs ratios)))"
      using Cons.prems by (intro min_ratio_loop_Fin) auto
    then show ?thesis by (simp add: x ratios_of_Cons)
  qed
qed (simp add: ratios_of_def)

text \<open>The ratio shown for a model is the smallest one of its groups, or 1 when none of them has a ratio.\<close>

lemma min_group_ratio:
  assumes "\<And>g r. g \<in> set gs \<Longrightarrow> map_of ratios g = Some r \<Longrightarrow> \<exists>x. r = Fin x"
  shows "getMinGroupRatio gs ratios = Fin (if ratios_of gs ratios = {} then 1 else Min (ratios_of gs ratios))"
  using min_ratio_loop_start [OF assms] by (auto simp: getMinGroupRatio_def Let_def) (simp add: ratios_of_def)

subsection \<open>Witnesses\<close>

definition by_length :: "jsstr \<Rightarrow> jsstr \<Rightarrow> int" where
  "by_length a b = int (length a) - int (length b)"

definition sample_model :: pricing_model where
  "sample_model = \<lparr>pm_model_name = js ''gpt-4o'', pm_description = None, pm_vendor_id = None, pm_vendor_name = None,
     pm_vendor_icon = None, pm_vendor_description = None, pm_quota_type = Fin 0, pm_model_ratio = Fin 1, pm_completion_ratio = Fin 1,
     pm_model_price = None, pm_cache_ratio = None, pm_create_cache_ratio = None, pm_image_ratio = None, pm_audio_ratio = None,
     pm_audio_completion_ratio = None, pm_enable_groups = [js ''default''], pm_tags = None, pm_supported_endpoint_types = None,
     pm_key = None, pm_group_ratio = None, pm_billing_mode = None, pm_request_unit = None, pm_billing_expr = None,
     pm_display_name = None, pm_model_aliases = None, pm_image_profile = None\<rparr>"

lemma consistent_by_length: "consistent_on UNIV (\<lambda>a b. by_length a b \<le> 0)"
  by (auto simp: consistent_on_def by_length_def)

theorem catalog_filter_witness:
  "mset (filterAndSortModels id by_length [sample_model] \<lparr>mf_search = [], mf_vendor = FILTER_ALL, mf_group = FILTER_ALL,
      mf_quotaType = js ''all'', mf_endpointType = js ''all'', mf_tag = FILTER_ALL, mf_sortBy = js ''price-low''\<rparr>) = {#sample_model#}"
proof -
  have "double 1" using rnd_int [of 1] by (simp add: double_def)
  then have "\<exists>x. getModelPrice m = Fin x \<and> double x" if "m \<in> set [sample_model]" for m
    using that by (simp add: sample_model_def getModelPrice_def)
  then show ?thesis
    using catalog_filter [OF consistent_by_length, of "[sample_model]" id "\<lparr>mf_search = [], mf_vendor = FILTER_ALL, mf_group = FILTER_ALL,
      mf_quotaType = js ''all'', mf_endpointType = js ''all'', mf_tag = FILTER_ALL, mf_sortBy = js ''price-low''\<rparr>"]
    by (simp add: selected_def)
qed



end
