(* ===== verification/JsFixed.thy ===== *)
theory JsFixed
  imports JsArith
begin

text \<open>
  Fixed point texts and rounding: \<^verbatim>\<open>Number.prototype.toFixed\<close>, \<^verbatim>\<open>Math.round\<close>, \<^verbatim>\<open>Math.floor\<close>,
  \<^verbatim>\<open>Math.abs\<close>, \<^verbatim>\<open>parseFloat\<close>, and the relative error of one rounding. \<^verbatim>\<open>Math.pow(10, -n)\<close> is the double
  next to the power.
\<close>

subsection \<open>Operations\<close>

fun math_round :: "jsnum \<Rightarrow> jsnum" where
  "math_round (Fin x) = Fin (of_int \<lfloor>x + 1 / 2\<rfloor>)"
| "math_round v = v"

fun math_floor :: "jsnum \<Rightarrow> jsnum" where
  "math_floor (Fin x) = Fin (of_int \<lfloor>x\<rfloor>)"
| "math_floor v = v"

fun math_abs :: "jsnum \<Rightarrow> jsnum" where
  "math_abs (Fin x) = Fin \<bar>x\<bar>"
| "math_abs (Infinity _) = Infinity True"
| "math_abs NaN = NaN"

text \<open>\<^verbatim>\<open>x % y\<close> for a positive divisor: the sign follows the dividend.\<close>

definition num_mod :: "jsnum \<Rightarrow> nat \<Rightarrow> jsnum" where
  "num_mod v n = (case v of
      Fin x \<Rightarrow> Fin (if 0 \<le> x then x - of_nat n * of_int \<lfloor>x / of_nat n\<rfloor> else - (- x - of_nat n * of_int \<lfloor>- x / of_nat n\<rfloor>))
    | _ \<Rightarrow> NaN)"

definition is_finite_num :: "jsnum \<Rightarrow> bool" where
  "is_finite_num v = (case v of Fin _ \<Rightarrow> True | _ \<Rightarrow> False)"

definition pow10_neg :: "nat \<Rightarrow> jsnum" where
  "pow10_neg n = rnd (powz 10 (- int n))"

text \<open>The digits of an integer with the point before the last \<open>f\<close> of them.\<close>

definition fixed_digits :: "nat \<Rightarrow> nat \<Rightarrow> jsstr" where
  "fixed_digits f n =
     (let m = show_nat n; d = replicate (Suc f - length m) 48 @ m
      in if f = 0 then m else take (length d - f) d @ 46 # drop (length d - f) d)"

text \<open>The nearest multiple of the last place, the larger of two; from \<^verbatim>\<open>1e21\<close> on the shortest text.\<close>

definition fixed_pos :: "nat \<Rightarrow> rat \<Rightarrow> jsstr" where
  "fixed_pos f x = (if 10 ^ 21 \<le> x then num_to_string (Fin x) else fixed_digits f (nat \<lfloor>x * 10 ^ f + 1 / 2\<rfloor>))"

definition to_fixed :: "nat \<Rightarrow> jsnum \<Rightarrow> jsstr" where
  "to_fixed f v = (case v of
      Fin x \<Rightarrow> if x < 0 then 45 # fixed_pos f (- x) else fixed_pos f x
    | _ \<Rightarrow> num_to_string v)"

definition parse_float :: "jsstr \<Rightarrow> jsnum" where
  "parse_float s = (case split_sign (dropWhile is_ws s) of (neg, r) \<Rightarrow>
     if starts_with r (js ''Infinity'') then Infinity (\<not> neg)
     else (case decimal_prefix r of None \<Rightarrow> NaN | Some (v, _) \<Rightarrow> rnd (if neg then - v else v)))"

subsection \<open>The error of one rounding\<close>

definition normal :: "rat \<Rightarrow> bool" where
  "normal x \<longleftrightarrow> powz 2 (- 1022) \<le> \<bar>x\<bar> \<and> \<bar>x\<bar> \<le> 2 ^ 1022"

lemma rnd_pos_relative:
  assumes "powz 2 (- 1022) \<le> a"
  shows "\<bar>rnd_pos a - a\<bar> \<le> a / 2 ^ 53"
proof -
  have a: "0 < a" using assms powz_pos [of 2 "- 1022"] by simp
  have "- 1022 \<le> flog 2 a" using flog_ge [of 2 "- 1022" a] assms by simp
  then have "max (flog 2 a - 52) (- 1074) = flog 2 a + - 52" by simp
  then have "\<bar>rnd_pos a - a\<bar> \<le> powz 2 (flog 2 a + - 52) / 2" using rnd_pos_error [of a] by simp
  also have "\<dots> = powz 2 (flog 2 a) / 2 ^ 53" by (subst powz_add) (simp_all add: powz_def)
  also have "\<dots> \<le> a / 2 ^ 53" using flog_bounds(1) [of 2 a] a by (simp add: divide_right_mono)
  finally show ?thesis .
qed

lemma rnd_relative:
  assumes "normal x"
  shows "\<exists>d. rnd x = Fin (x * (1 + d)) \<and> \<bar>d\<bar> \<le> 1 / 2 ^ 53"
proof -
  let ?a = "\<bar>x\<bar>"
  have n: "powz 2 (- 1022) \<le> ?a" "?a \<le> 2 ^ 1022" using assms by (simp_all add: normal_def)
  then have a: "0 < ?a" using powz_pos [of 2 "- 1022"] by linarith
  define d where "d = (rnd_pos ?a - ?a) / ?a"
  have v: "rnd_pos ?a = ?a * (1 + d)" using a by (simp add: d_def field_simps)
  have d: "\<bar>d\<bar> \<le> 1 / 2 ^ 53"
    using rnd_pos_relative [OF n(1)] a by (simp add: d_def abs_divide field_simps)
  have "1 / 2 ^ 53 \<le> (1 :: rat)" by simp
  then have "1 + d \<le> 2" using d by linarith
  moreover have "1 + d > 0" using d by (simp add: abs_le_iff)
  ultimately have "?a * (1 + d) \<le> 2 ^ 1022 * 2" using n(2) by (intro mult_mono) auto
  also have "\<dots> < 2 ^ 1024" by simp
  finally have "rnd x = Fin (x * (1 + d))" using a v by (auto simp: rnd_def Let_def abs_if split: if_splits)
  with d show ?thesis by blast
qed

text \<open>A number close enough to an integer is rounded to it.\<close>

lemma round_near:
  assumes "\<bar>x - of_int n\<bar> < 1 / 2"
  shows "math_round (Fin x) = Fin (of_int n)"
proof -
  have "\<lfloor>x + 1 / 2\<rfloor> = n" using assms by (intro floor_unique) linarith+
  then show ?thesis by simp
qed

subsection \<open>Reading printed numbers\<close>

text \<open>Rounding gives a double, and what \<^verbatim>\<open>parseFloat\<close> reads from a printed double is the double.\<close>

lemma rnd_pos_idem:
  assumes "0 < a"
  shows "rnd_pos a = 0 \<or> 0 < rnd_pos a \<and> rnd_pos (rnd_pos a) = rnd_pos a"
proof -
  define e where "e = max (flog 2 a - 52) (- 1074)"
  define m where "m = round_half_even (a / powz 2 e)"
  have r: "rnd_pos a = of_int m * powz 2 e" by (simp add: rnd_pos_def e_def m_def Let_def)
  have p: "0 < powz 2 e" by (simp add: powz_pos)
  have "a < powz 2 (flog 2 a + 1)" using assms flog_bounds [of 2 a] by simp
  also have "\<dots> \<le> powz 2 (53 + e)" by (intro powz_mono) (simp_all add: e_def)
  also have "\<dots> = 2 ^ 53 * powz 2 e" by (subst powz_add) (simp_all add: powz_def)
  finally have "a / powz 2 e < 2 ^ 53" using p by (simp add: pos_divide_less_eq)
  then have "of_int m < (2 ^ 53 + 1 :: rat)" using round_half_even_error [of "a / powz 2 e"] unfolding m_def by linarith
  then have "(of_int m :: rat) < of_int (2 ^ 53 + 1)" by simp
  then have m: "m \<le> 2 ^ 53" unfolding of_int_less_iff by simp
  have "0 \<le> m" using assms p by (simp add: m_def round_half_even_def Let_def)
  with m consider "m = 0" | "0 < m" "m < 2 ^ 53" | "m = 2 ^ 53" by linarith
  then show ?thesis
  proof cases
    case 2
    then show ?thesis using rnd_pos_exact [OF r 2] p by (simp add: r e_def)
  next
    case 3
    then have "rnd_pos a = of_int 1 * powz 2 (53 + e)" using r by (subst powz_add) (simp_all add: powz_def)
    then show ?thesis using rnd_pos_exact [of "rnd_pos a" 1 "53 + e"] powz_pos [of 2 "53 + e"] by (simp add: e_def)
  qed (simp add: r)
qed

lemma rnd_double: "rnd y = Fin x \<Longrightarrow> double x"
proof (cases "y = 0")
  case True
  assume "rnd y = Fin x"
  with True show ?thesis by (simp add: rnd_def double_def)
next
  case False
  assume h: "rnd y = Fin x"
  then have x: "x = rnd_pos \<bar>y\<bar> \<or> x = - rnd_pos \<bar>y\<bar>" "rnd_pos \<bar>y\<bar> < 2 ^ 1024" using False by (auto simp: rnd_def Let_def split: if_splits)
  have "0 < \<bar>y\<bar>" using False by simp
  from rnd_pos_idem [OF this] x show ?thesis by (auto simp: double_def rnd_def Let_def)
qed

lemma parse_float_double: "parse_float s = Fin x \<Longrightarrow> double x"
  by (auto simp: parse_float_def split: prod.splits if_splits option.splits dest: rnd_double)

lemma parse_float_string:
  assumes "double x"
  shows "parse_float (num_to_string (Fin x)) = Fin x"
proof -
  have pos: "parse_float (show_pos y) = Fin y" "parse_float (45 # show_pos y) = Fin (- y)" if y: "double y" "0 < y" for y
  proof -
    note p = show_pos_props [OF y]
    obtain v where v: "decimal_prefix (show_pos y) = Some (v, [])" "rnd v = Fin y" using p(1) by blast
    obtain c r where s: "show_pos y = c # r" "is_digit c" "num_char c" using p(2) by (cases "show_pos y") auto
    have "\<not> starts_with (show_pos y) (js ''Infinity'')" using s(2) by (auto simp: s(1) lit is_digit_def starts_with_def)
    moreover have "split_sign (show_pos y) = (False, show_pos y)" using s(2) by (auto simp: s(1) split_sign_def is_digit_def)
    moreover have "dropWhile is_ws (show_pos y) = show_pos y" using num_char_not [OF s(3)] by (simp add: s(1))
    ultimately show "parse_float (show_pos y) = Fin y" using v by (simp add: parse_float_def)
    have "dropWhile is_ws (45 # show_pos y) = 45 # show_pos y" by (simp add: is_ws_def)
    with \<open>\<not> starts_with (show_pos y) (js ''Infinity'')\<close> show "parse_float (45 # show_pos y) = Fin (- y)"
      using v by (simp add: parse_float_def split_sign_def rnd_minus)
  qed
  have "double (- x)" using assms by (simp add: double_def rnd_minus)
  then show ?thesis
    using assms pos [of x] pos [of "- x"] by (cases "0 < x"; cases "x = 0") (auto simp: parse_float_def is_ws_def lit starts_with_def
        split_sign_def decimal_prefix_def span_digits_def is_digit_def exponent_part_def read_nat_def powz_def rnd_def)
qed

end
