(* ===== verification/Currency.thy ===== *)
theory Currency
  imports JsObject JsFixed "HOL-Library.Word"
begin

text \<open>
  Amounts on screen (\<^verbatim>\<open>lib/currency.ts\<close>, \<^verbatim>\<open>lib/format.ts\<close> and the defaults of
  \<^verbatim>\<open>stores/system-config-store.ts\<close>). The store is the argument \<open>settings\<close>. \<^verbatim>\<open>Intl.NumberFormat\<close> depends
  on the locale data and is the argument \<open>intl\<close>; \<^verbatim>\<open>dayjs\<close> and \<^verbatim>\<open>Date\<close> depend on the time zone and are
  the arguments \<open>dayjs\<close> and \<open>get_time\<close>.
\<close>

subsection \<open>Configuration\<close>

record currency_config =
  cc_displayInCurrency :: bool
  cc_quotaDisplayType :: jsstr
  cc_quotaPerUnit :: jsnum
  cc_usdExchangeRate :: jsnum
  cc_customCurrencySymbol :: jsstr
  cc_customCurrencyExchangeRate :: jsnum

text \<open>What the store may hold: any of the properties can be missing.\<close>

record currency_settings =
  cs_displayInCurrency :: "bool option"
  cs_quotaDisplayType :: "jsstr option"
  cs_quotaPerUnit :: "jsnum option"
  cs_usdExchangeRate :: "jsnum option"
  cs_customCurrencySymbol :: "jsstr option"
  cs_customCurrencyExchangeRate :: "jsnum option"

definition DEFAULT_CURRENCY_CONFIG :: currency_config where
  "DEFAULT_CURRENCY_CONFIG = \<lparr>cc_displayInCurrency = True, cc_quotaDisplayType = js ''USD'', cc_quotaPerUnit = Fin 500000,
     cc_usdExchangeRate = Fin 1, cc_customCurrencySymbol = [164], cc_customCurrencyExchangeRate = Fin 1\<rparr>"

definition DISPLAY_TYPE_VALUES :: "jsstr list" where
  "DISPLAY_TYPE_VALUES = [js ''USD'', js ''CNY'', js ''TOKENS'', js ''CUSTOM'']"

definition isCurrencyDisplayType :: "json option \<Rightarrow> bool" where
  "isCurrencyDisplayType v = (case v of Some (JStr s) \<Rightarrow> s \<in> set DISPLAY_TYPE_VALUES | _ \<Rightarrow> False)"

definition parseCurrencyDisplayType :: "json option \<Rightarrow> jsstr \<Rightarrow> jsstr" where
  "parseCurrencyDisplayType v fallback = (case v of
      Some (JStr s) \<Rightarrow> if isCurrencyDisplayType v then s else fallback | _ \<Rightarrow> fallback)"

definition positive_or :: "jsnum option \<Rightarrow> jsnum \<Rightarrow> jsnum" where
  "positive_or v d = (case v of Some x \<Rightarrow> if num_less (Fin 0) x then x else d | None \<Rightarrow> d)"

definition symbol_or :: "jsstr option \<Rightarrow> jsstr \<Rightarrow> jsstr" where
  "symbol_or v d = (case v of Some s \<Rightarrow> if trim s \<noteq> [] then trim s else d | None \<Rightarrow> d)"

definition getConfig :: "currency_settings option \<Rightarrow> currency_config" where
  "getConfig settings = (case settings of
      None \<Rightarrow> DEFAULT_CURRENCY_CONFIG
    | Some s \<Rightarrow> \<lparr>
        cc_displayInCurrency = (case cs_displayInCurrency s of Some b \<Rightarrow> b | None \<Rightarrow> cc_displayInCurrency DEFAULT_CURRENCY_CONFIG),
        cc_quotaDisplayType = (case cs_quotaDisplayType s of Some t \<Rightarrow> t | None \<Rightarrow> cc_quotaDisplayType DEFAULT_CURRENCY_CONFIG),
        cc_quotaPerUnit = positive_or (cs_quotaPerUnit s) (cc_quotaPerUnit DEFAULT_CURRENCY_CONFIG),
        cc_usdExchangeRate = positive_or (cs_usdExchangeRate s) (cc_usdExchangeRate DEFAULT_CURRENCY_CONFIG),
        cc_customCurrencySymbol = symbol_or (cs_customCurrencySymbol s) (cc_customCurrencySymbol DEFAULT_CURRENCY_CONFIG),
        cc_customCurrencyExchangeRate =
          positive_or (cs_customCurrencyExchangeRate s) (cc_customCurrencyExchangeRate DEFAULT_CURRENCY_CONFIG)\<rparr>)"

datatype display_meta =
    CurrencyMeta (meta_symbol: jsstr) (meta_code: jsstr) (meta_rate: jsnum)
  | CustomMeta (meta_symbol: jsstr) (meta_rate: jsnum)
  | TokensMeta (meta_quotaPerUnit: jsnum)

definition usd_meta :: display_meta where
  "usd_meta = CurrencyMeta (js ''$'') (js ''USD'') (Fin 1)"

definition getDisplayMeta :: "currency_config \<Rightarrow> display_meta" where
  "getDisplayMeta config =
     (if cc_quotaDisplayType config = js ''CNY'' then CurrencyMeta [165] (js ''CNY'') (cc_usdExchangeRate config)
      else if cc_quotaDisplayType config = js ''CUSTOM'' then
        CustomMeta (cc_customCurrencySymbol config) (cc_customCurrencyExchangeRate config)
      else if cc_quotaDisplayType config = js ''TOKENS'' then TokensMeta (cc_quotaPerUnit config)
      else usd_meta)"

definition getBillingDisplayMeta :: "currency_config \<Rightarrow> display_meta" where
  "getBillingDisplayMeta config = (case getDisplayMeta config of TokensMeta _ \<Rightarrow> usd_meta | meta \<Rightarrow> meta)"

definition getCurrencyDisplay :: "currency_settings option \<Rightarrow> currency_config \<times> display_meta" where
  "getCurrencyDisplay settings = (let config = getConfig settings in (config, getDisplayMeta config))"

subsection \<open>Options and digits\<close>

record format_options =
  fo_digitsLarge :: "nat option"
  fo_digitsSmall :: "nat option"
  fo_abbreviate :: "bool option"
  fo_minimumNonZero :: "jsnum option"

record merged_options =
  mo_digitsLarge :: nat
  mo_digitsSmall :: nat
  mo_abbreviate :: bool
  mo_minimumNonZero :: jsnum

definition DEFAULT_FORMAT_OPTIONS :: merged_options where
  "DEFAULT_FORMAT_OPTIONS = \<lparr>mo_digitsLarge = 2, mo_digitsSmall = 4, mo_abbreviate = True, mo_minimumNonZero = Fin 0\<rparr>"

definition mergeOptions :: "format_options option \<Rightarrow> merged_options" where
  "mergeOptions options = (case options of
      None \<Rightarrow> DEFAULT_FORMAT_OPTIONS
    | Some p \<Rightarrow> \<lparr>
        mo_digitsLarge = (case fo_digitsLarge p of Some d \<Rightarrow> d | None \<Rightarrow> mo_digitsLarge DEFAULT_FORMAT_OPTIONS),
        mo_digitsSmall = (case fo_digitsSmall p of Some d \<Rightarrow> d | None \<Rightarrow> mo_digitsSmall DEFAULT_FORMAT_OPTIONS),
        mo_abbreviate = (case fo_abbreviate p of Some b \<Rightarrow> b | None \<Rightarrow> mo_abbreviate DEFAULT_FORMAT_OPTIONS),
        mo_minimumNonZero = (case fo_minimumNonZero p of Some d \<Rightarrow> d | None \<Rightarrow> mo_minimumNonZero DEFAULT_FORMAT_OPTIONS)\<rparr>)"

definition digit_options :: "nat \<Rightarrow> nat \<Rightarrow> bool \<Rightarrow> format_options option" where
  "digit_options large small abbreviate =
     Some \<lparr>fo_digitsLarge = Some large, fo_digitsSmall = Some small, fo_abbreviate = Some abbreviate, fo_minimumNonZero = None\<rparr>"

text \<open>
  \<^verbatim>\<open>/(\.[0-9]*?)0+$/\<close> matches at a point that is followed by digits to the end, the last of them 0,
  and the lazy run leaves all final zeros to the second part.
\<close>

fun drop_fraction_zeros :: "jsstr \<Rightarrow> jsstr" where
  "drop_fraction_zeros [] = []"
| "drop_fraction_zeros (c # cs) =
     (if c = 46 \<and> cs \<noteq> [] \<and> list_all is_digit cs \<and> last cs = 48 then c # rev (dropWhile (\<lambda>d. d = 48) (rev cs))
      else c # drop_fraction_zeros cs)"

definition drop_final_point :: "jsstr \<Rightarrow> jsstr" where
  "drop_final_point s = (if s \<noteq> [] \<and> last s = 46 then butlast s else s)"

definition removeTrailingZeros :: "jsstr \<Rightarrow> jsstr" where
  "removeTrailingZeros s = (if 46 \<notin> set s then s else drop_final_point (drop_fraction_zeros s))"

definition formatNumberWithSuffix :: "jsnum \<Rightarrow> nat \<Rightarrow> nat \<Rightarrow> bool \<Rightarrow> jsstr" where
  "formatNumberWithSuffix v digitsLarge digitsSmall abbreviate =
     (if abbreviate \<and> num_le (Fin 1000) (math_abs v) then removeTrailingZeros (to_fixed 1 (num_div v (Fin 1000))) @ js ''k''
      else removeTrailingZeros (to_fixed (if num_le (Fin 1) (math_abs v) then digitsLarge else digitsSmall) v))"

definition adjustForMinimum :: "jsnum \<Rightarrow> nat \<Rightarrow> jsnum \<Rightarrow> jsnum" where
  "adjustForMinimum v digits minimumNonZero =
     (if v = Fin 0 then v
      else (let threshold = (if num_less (Fin 0) minimumNonZero then minimumNonZero else pow10_neg digits); a = math_abs v in
        if num_less (Fin 0) a \<and> num_less a threshold then (if num_less (Fin 0) v then threshold else num_neg threshold) else v))"

datatype number_style = NfCurrency jsstr | NfDecimal | NfPercent | NfCompact

record number_format =
  nf_style :: number_style
  nf_minimumFractionDigits :: "nat option"
  nf_maximumFractionDigits :: nat

type_synonym intl = "number_format \<Rightarrow> jsnum \<Rightarrow> jsstr"

definition formatCurrencyValue :: "intl \<Rightarrow> jsnum \<Rightarrow> merged_options \<Rightarrow> display_meta \<Rightarrow> jsstr" where
  "formatCurrencyValue intl v options meta =
     (let digits = (if num_le (Fin 1) (math_abs v) then mo_digitsLarge options else mo_digitsSmall options);
          adjustedValue = adjustForMinimum v digits (mo_minimumNonZero options) in
      case meta of
        TokensMeta _ \<Rightarrow> formatNumberWithSuffix v (mo_digitsLarge options) (mo_digitsSmall options) (mo_abbreviate options)
      | CurrencyMeta _ code _ \<Rightarrow>
          intl \<lparr>nf_style = NfCurrency code, nf_minimumFractionDigits = Some 0, nf_maximumFractionDigits = digits\<rparr> adjustedValue
      | CustomMeta symbol _ \<Rightarrow>
          symbol @ js '' '' @ intl \<lparr>nf_style = NfDecimal, nf_minimumFractionDigits = Some 0, nf_maximumFractionDigits = digits\<rparr> adjustedValue)"

subsection \<open>Amounts\<close>

definition no_number :: "jsnum option \<Rightarrow> bool" where
  "no_number v \<longleftrightarrow> v = None \<or> v = Some NaN"

definition formatCurrencyFromUSD :: "intl \<Rightarrow> currency_settings option \<Rightarrow> jsnum option \<Rightarrow> format_options option \<Rightarrow> jsstr" where
  "formatCurrencyFromUSD intl settings amountUSD options =
     (if no_number amountUSD then js ''-''
      else (case getCurrencyDisplay settings of (config, meta) \<Rightarrow>
        let merged = mergeOptions options; amount = the amountUSD in
        case meta of
          TokensMeta _ \<Rightarrow> formatNumberWithSuffix (num_mul amount (cc_quotaPerUnit config)) 0 (mo_digitsSmall merged) (mo_abbreviate merged)
        | _ \<Rightarrow> formatCurrencyValue intl (num_mul amount (meta_rate meta)) merged meta))"

definition formatBillingCurrencyFromUSD :: "intl \<Rightarrow> currency_settings option \<Rightarrow> jsnum option \<Rightarrow> format_options option \<Rightarrow> jsstr" where
  "formatBillingCurrencyFromUSD intl settings amountUSD options =
     (if no_number amountUSD then js ''-''
      else (let config = fst (getCurrencyDisplay settings); meta = getBillingDisplayMeta config; merged = mergeOptions options;
                amount = the amountUSD
        in formatCurrencyValue intl (case meta of TokensMeta _ \<Rightarrow> amount | _ \<Rightarrow> num_mul amount (meta_rate meta)) merged meta))"

definition formatQuotaWithCurrency :: "intl \<Rightarrow> currency_settings option \<Rightarrow> jsnum option \<Rightarrow> format_options option \<Rightarrow> jsstr" where
  "formatQuotaWithCurrency intl settings quota options =
     (if no_number quota then js ''-''
      else (let config = fst (getCurrencyDisplay settings); amountUSD = num_div (the quota) (cc_quotaPerUnit config)
        in formatCurrencyFromUSD intl settings (Some amountUSD) options))"

definition getCurrencyLabel :: "currency_settings option \<Rightarrow> jsstr" where
  "getCurrencyLabel settings = (case getCurrencyDisplay settings of (config, meta) \<Rightarrow>
     case meta of
       TokensMeta _ \<Rightarrow> js ''Tokens''
     | _ \<Rightarrow> if cc_quotaDisplayType config = js ''CNY'' then js ''CNY''
         else if cc_quotaDisplayType config = js ''CUSTOM'' then
           (case meta of CustomMeta symbol _ \<Rightarrow> symbol | _ \<Rightarrow> js ''Custom'')
         else js ''USD'')"

definition isCurrencyDisplayEnabled :: "currency_settings option \<Rightarrow> bool" where
  "isCurrencyDisplayEnabled settings = (case snd (getCurrencyDisplay settings) of TokensMeta _ \<Rightarrow> False | _ \<Rightarrow> True)"

definition formatLocalCurrencyAmount :: "intl \<Rightarrow> currency_settings option \<Rightarrow> jsnum option \<Rightarrow> format_options option \<Rightarrow> jsstr" where
  "formatLocalCurrencyAmount intl settings amount options =
     (if no_number amount then js ''-''
      else (let config = fst (getCurrencyDisplay settings); meta = getBillingDisplayMeta config
        in formatCurrencyValue intl (the amount) (mergeOptions options) meta))"

subsection \<open>Numbers, quota and time\<close>

definition formatNumber :: "intl \<Rightarrow> jsnum option \<Rightarrow> jsstr" where
  "formatNumber intl v = (if no_number v then js ''-''
     else intl \<lparr>nf_style = NfDecimal, nf_minimumFractionDigits = None, nf_maximumFractionDigits = 2\<rparr> (the v))"

definition formatCompactNumber :: "intl \<Rightarrow> jsnum option \<Rightarrow> jsstr" where
  "formatCompactNumber intl v = (if no_number v then js ''-''
     else intl \<lparr>nf_style = NfCompact, nf_minimumFractionDigits = None, nf_maximumFractionDigits = 1\<rparr> (the v))"

definition formatPercent :: "intl \<Rightarrow> jsnum option \<Rightarrow> jsstr" where
  "formatPercent intl v = (if no_number v then js ''-''
     else intl \<lparr>nf_style = NfPercent, nf_minimumFractionDigits = None, nf_maximumFractionDigits = 2\<rparr> (num_div (the v) (Fin 100)))"

definition formatCurrencyUSD :: "intl \<Rightarrow> currency_settings option \<Rightarrow> jsnum option \<Rightarrow> jsstr" where
  "formatCurrencyUSD intl settings v = formatCurrencyFromUSD intl settings v None"

definition formatQuota :: "intl \<Rightarrow> currency_settings option \<Rightarrow> jsnum \<Rightarrow> jsstr" where
  "formatQuota intl settings quota = formatQuotaWithCurrency intl settings (Some quota) (digit_options 2 4 True)"

definition formatLogQuota :: "intl \<Rightarrow> currency_settings option \<Rightarrow> jsnum \<Rightarrow> jsstr" where
  "formatLogQuota intl settings quota = formatQuotaWithCurrency intl settings (Some quota) (digit_options 4 6 False)"

definition parseQuotaFromDollars :: "currency_settings option \<Rightarrow> jsnum \<Rightarrow> jsnum" where
  "parseQuotaFromDollars settings amount =
     (if \<not> is_finite_num amount then Fin 0
      else (case getCurrencyDisplay settings of (config, meta) \<Rightarrow>
        case meta of
          TokensMeta _ \<Rightarrow> math_round amount
        | _ \<Rightarrow> (let exchangeRate = meta_rate meta;
                   usdAmount = (if num_less (Fin 0) exchangeRate then num_div amount exchangeRate else amount)
                in math_round (num_mul usdAmount (cc_quotaPerUnit config)))))"

definition quotaUnitsToDollars :: "currency_settings option \<Rightarrow> jsnum \<Rightarrow> jsnum" where
  "quotaUnitsToDollars settings units =
     (case getCurrencyDisplay settings of (config, meta) \<Rightarrow>
        case meta of
          TokensMeta _ \<Rightarrow> units
        | _ \<Rightarrow> num_mul (num_div units (cc_quotaPerUnit config)) (meta_rate meta))"

definition formatTokens :: "jsnum \<Rightarrow> jsstr" where
  "formatTokens tokens =
     (if tokens = Fin 0 then js ''-''
      else if num_less tokens (Fin 1000) then num_to_string tokens
      else if num_less tokens (Fin 1000000) then to_fixed 1 (num_div tokens (Fin 1000)) @ js ''K''
      else to_fixed 2 (num_div tokens (Fin 1000000)) @ js ''M'')"

definition formatUseTime :: "jsnum \<Rightarrow> jsstr" where
  "formatUseTime seconds =
     (if num_less seconds (Fin 60) then to_fixed 1 seconds @ js ''s''
      else num_to_string (math_floor (num_div seconds (Fin 60))) @ js ''m '' @ to_fixed 0 (num_mod seconds 60) @ js ''s'')"

type_synonym dayjs = "jsnum \<Rightarrow> jsstr \<Rightarrow> jsstr"

definition formatTimestampToDate :: "dayjs \<Rightarrow> jsnum option \<Rightarrow> bool \<Rightarrow> jsstr" where
  "formatTimestampToDate dayjs timestamp seconds = (case timestamp of
      None \<Rightarrow> js ''-''
    | Some t \<Rightarrow> if t = NaN \<or> t = Fin (- 1) \<or> t = Fin 0 then js ''-''
        else dayjs (if seconds then num_mul t (Fin 1000) else t) (js ''YYYY-MM-DD HH:mm:ss''))"

definition formatTimestamp :: "dayjs \<Rightarrow> jsnum \<Rightarrow> jsstr" where
  "formatTimestamp dayjs timestamp = (if timestamp = Fin (- 1) then js ''Never'' else formatTimestampToDate dayjs (Some timestamp) True)"

definition formatDateTimeStr :: "dayjs \<Rightarrow> jsnum \<Rightarrow> jsstr" where
  "formatDateTimeStr dayjs date = dayjs date (js ''YYYY-MM-DD HH:mm:ss'')"

definition formatDateStr :: "dayjs \<Rightarrow> jsnum \<Rightarrow> jsstr" where
  "formatDateStr dayjs date = dayjs date (js ''YYYY-MM-DD'')"

definition formatTimeStr :: "dayjs \<Rightarrow> jsnum \<Rightarrow> jsstr" where
  "formatTimeStr dayjs date = dayjs date (js ''HH:mm:ss'')"

definition formatTimestampForInput :: "dayjs \<Rightarrow> jsnum \<Rightarrow> jsstr" where
  "formatTimestampForInput dayjs timestamp =
     (if timestamp = Fin (- 1) then [] else dayjs (num_mul timestamp (Fin 1000)) (js ''YYYY-MM-DDTHH:mm''))"

definition parseTimestampFromInput :: "(jsstr \<Rightarrow> jsnum) \<Rightarrow> jsstr \<Rightarrow> jsnum" where
  "parseTimestampFromInput get_time v = (if v = [] then Fin (- 1) else math_floor (num_div (get_time v) (Fin 1000)))"

subsection \<open>Colours of names\<close>

text \<open>The operands of the bitwise operators are converted to 32 bit integers.\<close>

definition to_int32 :: "int \<Rightarrow> int" where
  "to_int32 x = sint (word_of_int x :: 32 word)"

definition hash_step :: "int \<Rightarrow> nat \<Rightarrow> int" where
  "hash_step hash c = to_int32 (int c + (to_int32 (hash * 2 ^ 5) - hash))"

definition string_hash :: "jsstr \<Rightarrow> int" where
  "string_hash s = foldl hash_step 0 s"

definition hsl_of :: "jsstr \<Rightarrow> nat \<times> nat \<times> nat" where
  "hsl_of s = (let hash = string_hash s in
     (nat (\<bar>hash\<bar> mod 360), 65 + nat (\<bar>hash\<bar> mod 10), 55 + nat (\<bar>hash div 2 ^ 8\<bar> mod 10)))"

definition stringToColor :: "jsstr \<Rightarrow> jsstr" where
  "stringToColor s =
     (if s = [] then js ''gray''
      else (case hsl_of s of (hue, saturation, lightness) \<Rightarrow>
        js ''hsl('' @ show_nat hue @ js '', '' @ show_nat saturation @ js ''%, '' @ show_nat lightness @ js ''%)''))"

subsection \<open>Editing a quota\<close>

text \<open>Magnitudes far from the smallest and the largest double.\<close>

definition mag :: "nat \<Rightarrow> rat \<Rightarrow> bool" where
  "mag k x \<longleftrightarrow> 1 \<le> 2 ^ k * \<bar>x\<bar> \<and> \<bar>x\<bar> \<le> 2 ^ k"

lemma mag_mult: "mag j x \<Longrightarrow> mag k y \<Longrightarrow> mag (j + k) (x * y)"
proof -
  assume a: "mag j x" "mag k y"
  have "1 * 1 \<le> (2 ^ j * \<bar>x\<bar>) * (2 ^ k * \<bar>y\<bar>)" using a by (intro mult_mono) (auto simp: mag_def)
  moreover have "\<bar>x\<bar> * \<bar>y\<bar> \<le> 2 ^ j * 2 ^ k" using a by (intro mult_mono) (auto simp: mag_def)
  ultimately show ?thesis by (simp add: mag_def abs_mult power_add algebra_simps)
qed

lemma mag_inverse: "mag k x \<Longrightarrow> mag k (1 / x)"
proof -
  assume a: "mag k x"
  then have "0 < \<bar>x\<bar>" by (auto simp: mag_def)
  with a show ?thesis by (simp add: mag_def field_simps)
qed

lemma mag_divide: "mag j x \<Longrightarrow> mag k y \<Longrightarrow> mag (j + k) (x / y)"
  using mag_mult [of j x k "1 / y"] mag_inverse [of k y] by simp

lemma mag_error: "\<bar>d\<bar> \<le> 1 / 2 ^ 53 \<Longrightarrow> mag 1 (1 + d)"
proof -
  assume "\<bar>d\<bar> \<le> 1 / 2 ^ 53"
  moreover have "1 / 2 ^ 53 \<le> (1 / 2 :: rat)" by simp
  ultimately have "\<bar>1 + d\<bar> = 1 + d" "1 / 2 \<le> 1 + d" "1 + d \<le> 2" by linarith+
  then show ?thesis by (simp add: mag_def)
qed

lemma mag_int: "n \<noteq> 0 \<Longrightarrow> \<bar>n\<bar> \<le> 2 ^ 49 \<Longrightarrow> mag 49 (of_int n)"
proof -
  assume n: "n \<noteq> 0" "\<bar>n\<bar> \<le> 2 ^ 49"
  have "1 \<le> \<bar>n\<bar>" using n(1) by linarith
  then have "(of_int 1 :: rat) \<le> of_int \<bar>n\<bar>" by (simp only: of_int_le_iff)
  moreover have "of_int \<bar>n\<bar> \<le> (of_int (2 ^ 49) :: rat)" using n(2) by (simp only: of_int_le_iff)
  ultimately show ?thesis by (simp add: mag_def)
qed

lemma mag_normal: "mag k x \<Longrightarrow> k \<le> 1022 \<Longrightarrow> normal x"
proof -
  assume a: "mag k x" "k \<le> 1022"
  have p: "(2 :: rat) ^ k \<le> 2 ^ 1022" using a(2) by (rule power_increasing) simp
  have "1 \<le> 2 ^ k * \<bar>x\<bar>" "\<bar>x\<bar> \<le> 2 ^ k" using a(1) by (simp_all add: mag_def)
  moreover have "2 ^ k * \<bar>x\<bar> \<le> 2 ^ 1022 * \<bar>x\<bar>" using p by (rule mult_right_mono) simp
  ultimately have "1 \<le> 2 ^ 1022 * \<bar>x\<bar>" "\<bar>x\<bar> \<le> 2 ^ 1022" using p by linarith+
  then show ?thesis by (simp add: normal_def powz_def field_simps)
qed

lemma rounded_mag:
  assumes "mag k x" "k \<le> 1000"
  shows "\<exists>d. rnd x = Fin (x * (1 + d)) \<and> \<bar>d\<bar> \<le> 1 / 2 ^ 53 \<and> mag (k + 1) (x * (1 + d))"
proof -
  obtain d where d: "rnd x = Fin (x * (1 + d))" "\<bar>d\<bar> \<le> 1 / 2 ^ 53"
    using rnd_relative [of x] mag_normal [OF assms(1)] assms(2) by auto
  with mag_mult [OF assms(1) mag_error [OF d(2)]] show ?thesis by blast
qed

lemma error_step:
  assumes "\<bar>p - 1\<bar> \<le> e" "\<bar>d\<bar> \<le> (u :: rat)"
  shows "\<bar>p * (1 + d) - 1\<bar> \<le> (1 + e) * (1 + u) - 1"
proof -
  have "\<bar>p * d\<bar> \<le> (1 + e) * u" unfolding abs_mult using assms by (intro mult_mono) auto
  then show ?thesis using assms(1) by (simp add: algebra_simps abs_le_iff)
qed

lemma four_roundings:
  assumes "\<And>i. \<bar>d i\<bar> \<le> 1 / 2 ^ 53" "\<bar>n\<bar> \<le> 2 ^ 49"
  shows "\<bar>of_int n * ((1 + d 0) * (1 + d 1) * (1 + d 2) * (1 + d (3 :: nat))) - of_int n\<bar> < (1 / 2 :: rat)"
proof -
  let ?u = "1 / 2 ^ 53 :: rat" and ?p = "(1 + d 0) * (1 + d 1) * (1 + d 2) * (1 + d 3)"
  have "\<bar>1 * (1 + d 0) - 1\<bar> \<le> (1 + 0) * (1 + ?u) - 1" using assms(1) by (intro error_step) auto
  from error_step [OF error_step [OF error_step [OF this assms(1) [of 1]] assms(1) [of 2]] assms(1) [of 3]]
  have p: "\<bar>?p - 1\<bar> \<le> (1 + ?u) * (1 + ?u) * (1 + ?u) * (1 + ?u) - 1" by simp
  have n: "\<bar>of_int n\<bar> \<le> (2 ^ 49 :: rat)"
  proof -
    have "(of_int \<bar>n\<bar> :: rat) \<le> of_int (2 ^ 49)" using assms(2) by (simp only: of_int_le_iff)
    then show ?thesis by simp
  qed
  have "of_int n * ?p - of_int n = of_int n * (?p - 1)" by (simp add: algebra_simps)
  then have "\<bar>of_int n * ?p - of_int n\<bar> = \<bar>of_int n\<bar> * \<bar>?p - 1\<bar>" by (simp add: abs_mult)
  also have "\<dots> \<le> 2 ^ 49 * ((1 + ?u) * (1 + ?u) * (1 + ?u) * (1 + ?u) - 1)" using n p by (intro mult_mono) auto
  also have "\<dots> < 1 / 2" by (simp add: field_simps)
  finally show ?thesis .
qed

text \<open>Dividing by the unit, multiplying by the rate and going back, each step rounded.\<close>

lemma there_and_back:
  assumes "\<bar>n\<bar> \<le> 2 ^ 49" "mag 200 q" "mag 200 r"
  shows "\<exists>x. num_mul (num_div (Fin (of_int n)) (Fin q)) (Fin r) = Fin x
    \<and> math_round (num_mul (num_div (Fin x) (Fin r)) (Fin q)) = Fin (of_int n)"
proof (cases "n = 0")
  case True
  have "q \<noteq> 0" "r \<noteq> 0" using assms by (auto simp: mag_def)
  with True show ?thesis using round_near [of 0 0] by (simp add: rnd_def del: math_round.simps)
next
  case False
  have z: "q \<noteq> 0" "r \<noteq> 0" using assms by (auto simp: mag_def)
  let ?n = "of_int n :: rat"
  obtain d0 where 0: "rnd (?n / q) = Fin (?n / q * (1 + d0))" "\<bar>d0\<bar> \<le> 1 / 2 ^ 53" "mag (49 + 200 + 1) (?n / q * (1 + d0))"
    using rounded_mag [OF mag_divide [OF mag_int [OF False assms(1)] assms(2)]] by auto
  let ?x0 = "?n / q * (1 + d0)"
  obtain d1 where 1: "rnd (?x0 * r) = Fin (?x0 * r * (1 + d1))" "\<bar>d1\<bar> \<le> 1 / 2 ^ 53" "mag (49 + 200 + 1 + 200 + 1) (?x0 * r * (1 + d1))"
    using rounded_mag [OF mag_mult [OF 0(3) assms(3)]] by auto
  let ?x1 = "?x0 * r * (1 + d1)"
  obtain d2 where 2: "rnd (?x1 / r) = Fin (?x1 / r * (1 + d2))" "\<bar>d2\<bar> \<le> 1 / 2 ^ 53" "mag (49 + 200 + 1 + 200 + 1 + 200 + 1) (?x1 / r * (1 + d2))"
    using rounded_mag [OF mag_divide [OF 1(3) assms(3)]] by auto
  let ?x2 = "?x1 / r * (1 + d2)"
  obtain d3 where 3: "rnd (?x2 * q) = Fin (?x2 * q * (1 + d3))" "\<bar>d3\<bar> \<le> 1 / 2 ^ 53"
    using rounded_mag [OF mag_mult [OF 2(3) assms(2)]] by auto
  define d where "d i = (if i = 0 then d0 else if i = 1 then d1 else if i = 2 then d2 else d3)" for i :: nat
  have "?x2 * q * (1 + d3) = ?n * ((1 + d 0) * (1 + d 1) * (1 + d 2) * (1 + d 3))"
    using z by (simp add: d_def field_simps)
  moreover have "\<bar>d i\<bar> \<le> 1 / 2 ^ 53" for i using 0(2) 1(2) 2(2) 3(2) by (simp add: d_def)
  ultimately have "\<bar>?x2 * q * (1 + d3) - ?n\<bar> < 1 / 2" using four_roundings [of d n] assms(1) by simp
  from round_near [OF this] have "math_round (num_mul (num_div (Fin ?x1) (Fin r)) (Fin q)) = Fin ?n"
    using z 2(1) 3(1) by simp
  then show ?thesis using z 0(1) 1(1) by auto
qed

definition rate_ok :: "jsnum \<Rightarrow> bool" where
  "rate_ok v = (case v of Fin r \<Rightarrow> 0 < r \<and> 1 \<le> 2 ^ 200 * r \<and> r \<le> 2 ^ 200 | _ \<Rightarrow> False)"

lemma rate_ok_mag: "rate_ok v \<Longrightarrow> \<exists>r. v = Fin r \<and> 0 < r \<and> mag 200 r"
  by (auto simp: rate_ok_def mag_def split: jsnum.splits)

lemma round_int [simp]: "math_round (Fin (of_int n)) = Fin (of_int n)"
  by (rule round_near) simp

text \<open>
  C14: a quota shown in the display currency for editing and read back without a change is the same
  number of units, in every display mode, although each of the four conversions rounds.
\<close>

theorem quota_roundtrip:
  assumes "rate_ok (cc_quotaPerUnit (getConfig settings))" "rate_ok (cc_usdExchangeRate (getConfig settings))"
    "rate_ok (cc_customCurrencyExchangeRate (getConfig settings))" "\<bar>n\<bar> \<le> 2 ^ 49"
  shows "parseQuotaFromDollars settings (quotaUnitsToDollars settings (Fin (of_int n))) = Fin (of_int n)"
proof -
  obtain q where q: "cc_quotaPerUnit (getConfig settings) = Fin q" "mag 200 q" using rate_ok_mag [OF assms(1)] by blast
  show ?thesis
  proof (cases "getDisplayMeta (getConfig settings)")
    case (TokensMeta u)
    then show ?thesis
      by (simp add: parseQuotaFromDollars_def quotaUnitsToDollars_def getCurrencyDisplay_def is_finite_num_def Let_def del: math_round.simps)
  next
    case (CurrencyMeta s c v)
    have "rate_ok (Fin 1)" by (simp add: rate_ok_def)
    then have "rate_ok v" using CurrencyMeta assms(2) by (auto simp: getDisplayMeta_def usd_meta_def split: if_splits)
    then obtain r where r: "v = Fin r" "0 < r" "mag 200 r" using rate_ok_mag by blast
    with there_and_back [OF assms(4) q(2) r(3)] CurrencyMeta q(1) show ?thesis
      by (auto simp: parseQuotaFromDollars_def quotaUnitsToDollars_def getCurrencyDisplay_def is_finite_num_def Let_def)
  next
    case (CustomMeta s v)
    then have "rate_ok v" using assms(3) by (auto simp: getDisplayMeta_def usd_meta_def split: if_splits)
    then obtain r where r: "v = Fin r" "0 < r" "mag 200 r" using rate_ok_mag by blast
    with there_and_back [OF assms(4) q(2) r(3)] CustomMeta q(1) show ?thesis
      by (auto simp: parseQuotaFromDollars_def quotaUnitsToDollars_def getCurrencyDisplay_def is_finite_num_def Let_def)
  qed
qed

theorem quota_roundtrip_witness:
  "parseQuotaFromDollars None (quotaUnitsToDollars None (Fin (of_int 123457))) = Fin (of_int 123457)"
  by (rule quota_roundtrip) (simp_all add: getConfig_def DEFAULT_CURRENCY_CONFIG_def rate_ok_def)

subsection \<open>Quota as tokens\<close>

lemma fraction_zeros:
  "(\<And>c. c \<in> set ds \<Longrightarrow> is_digit c) \<Longrightarrow> drop_fraction_zeros (ds @ 46 # replicate (Suc f) 48) = ds @ [46]"
proof (induction ds)
  case Nil
  have "rev (replicate f (48 :: nat) @ [48]) = replicate (Suc f) 48" by (simp add: replicate_append_same)
  moreover have "dropWhile (\<lambda>d. d = 48) (replicate (Suc f) (48 :: nat)) = []" by simp
  ultimately show ?case by (simp add: is_digit_def list_all_iff)
next
  case (Cons c ds)
  then have "c \<noteq> 46" by (force simp: is_digit_def)
  with Cons show ?case by simp
qed

lemma whole_fixed_text: "removeTrailingZeros (fixed_digits (Suc f) (m * 10 ^ Suc f)) = show_nat m"
proof -
  have "fixed_digits (Suc f) (m * 10 ^ Suc f) = show_nat m @ 46 # replicate (Suc f) 48"
  proof (cases "m = 0")
    case True
    have "show_nat 0 = [48]" by (simp add: show_nat.simps)
    moreover have "replicate f (48 :: nat) @ [48] = 48 # replicate f 48" by (simp add: replicate_append_same)
    ultimately show ?thesis using True by (simp add: fixed_digits_def Let_def)
  next
    case False
    then have "show_nat (m * 10 ^ Suc f) = show_nat m @ replicate (Suc f) 48" by (intro show_nat_zeros) simp
    moreover have "Suc (Suc f) - length (show_nat m @ replicate (Suc f) 48) = 0" by (cases "show_nat m") auto
    ultimately show ?thesis by (simp add: fixed_digits_def Let_def del: replicate_Suc)
  qed
  moreover have "drop_fraction_zeros (show_nat m @ 46 # replicate (Suc f) 48) = show_nat m @ [46]"
    by (rule fraction_zeros) (rule show_nat_digits)
  ultimately show ?thesis by (simp add: removeTrailingZeros_def drop_final_point_def)
qed

lemma digits_no_point: "46 \<notin> set (show_nat n)"
  using show_nat_digits [of 46 n] by (auto simp: is_digit_def)

lemma near_integer_text:
  assumes "\<bar>x - of_nat n\<bar> * 2 ^ 51 \<le> of_nat n" "n \<le> 2 ^ 49"
  shows "formatNumberWithSuffix (Fin x) 0 6 False = show_nat n"
proof -
  have nn: "(of_nat n :: rat) \<le> 2 ^ 49" using assms(2) by (metis of_nat_le_iff of_nat_numeral of_nat_power)
  have a: "\<bar>x - of_nat n\<bar> \<le> 1 / 4" using assms(1) nn by simp
  have x0: "0 \<le> x"
  proof (cases "n = 0")
    case False
    then have "(1 :: rat) \<le> of_nat n" by simp
    with a show ?thesis by linarith
  qed (use assms(1) in simp)
  have "x \<le> 2 ^ 49 + 1 / 4" using a nn by linarith
  also have "\<dots> < 10 ^ 21" by simp
  finally have x21: "x < 10 ^ 21" .
  show ?thesis
  proof (cases "1 \<le> x")
    case True
    have "of_nat n \<le> x + 1 / 2" "x + 1 / 2 < of_nat n + 1" using a by linarith+
    then have "\<lfloor>x + 1 / 2\<rfloor> = int n" by (intro floor_unique) auto
    then show ?thesis using True x21 x0
      by (auto simp: formatNumberWithSuffix_def num_le_def to_fixed_def fixed_pos_def fixed_digits_def Let_def removeTrailingZeros_def digits_no_point)
  next
    case False
    then have "(of_nat n :: rat) < 2" using a by linarith
    then have "n < 2" by simp
    then have "\<bar>x - of_nat n\<bar> * 2 ^ 51 \<le> 1" using assms(1) by (cases n) auto
    then have "\<bar>x - of_nat n\<bar> \<le> 1 / 2 ^ 51" by (simp add: field_simps)
    moreover have "1 / 2 ^ 51 \<le> (1 / 10000000 :: rat)" by simp
    ultimately have "\<bar>x - of_nat n\<bar> \<le> 1 / 10000000" by linarith
    then have "x - of_nat n \<le> 1 / 10000000" "of_nat n - x \<le> 1 / 10000000" by linarith+
    then have "of_nat n * 10 ^ 6 \<le> x * 10 ^ 6 + 1 / 2" "x * 10 ^ 6 + 1 / 2 < of_nat n * 10 ^ 6 + 1" by simp_all
    then have "\<lfloor>x * 10 ^ 6 + 1 / 2\<rfloor> = int (n * 10 ^ 6)" by (intro floor_unique) auto
    then have "nat \<lfloor>x * 10 ^ 6 + 1 / 2\<rfloor> = n * 10 ^ 6" by (simp only: nat_int)
    then have "fixed_pos 6 x = fixed_digits (Suc 5) (n * 10 ^ Suc 5)" using x21 by (simp add: fixed_pos_def)
    then show ?thesis using False x0 whole_fixed_text [of 5 n]
      by (auto simp: formatNumberWithSuffix_def num_le_def to_fixed_def)
  qed
qed

lemma scaled_quota:
  assumes "n \<le> 2 ^ 49" "mag 200 q"
  shows "\<exists>x. num_mul (num_div (Fin (of_nat n)) (Fin q)) (Fin q) = Fin x \<and> \<bar>x - of_nat n\<bar> * 2 ^ 51 \<le> of_nat n"
proof (cases "n = 0")
  case True
  have "q \<noteq> 0" using assms by (auto simp: mag_def)
  with True show ?thesis by (simp add: rnd_def)
next
  case False
  have z: "q \<noteq> 0" using assms by (auto simp: mag_def)
  let ?n = "of_nat n :: rat"
  have "mag 49 ?n" using mag_int [of "int n"] False assms(1) by simp
  from rounded_mag [OF mag_divide [OF this assms(2)]]
  obtain d0 where 0: "rnd (?n / q) = Fin (?n / q * (1 + d0))" "\<bar>d0\<bar> \<le> 1 / 2 ^ 53" "mag (49 + 200 + 1) (?n / q * (1 + d0))"
    by auto
  obtain d1 where 1: "rnd (?n / q * (1 + d0) * q) = Fin (?n / q * (1 + d0) * q * (1 + d1))" "\<bar>d1\<bar> \<le> 1 / 2 ^ 53"
    using rounded_mag [OF mag_mult [OF 0(3) assms(2)]] by auto
  let ?u = "1 / 2 ^ 53 :: rat"
  have "\<bar>1 * (1 + d0) - 1\<bar> \<le> (1 + 0) * (1 + ?u) - 1" using 0(2) by (intro error_step) auto
  from error_step [OF this 1(2)] have "\<bar>(1 + d0) * (1 + d1) - 1\<bar> \<le> (1 + ?u) * (1 + ?u) - 1" by simp
  also have "\<dots> \<le> 1 / 2 ^ 51" by simp
  finally have p: "\<bar>(1 + d0) * (1 + d1) - 1\<bar> * 2 ^ 51 \<le> 1" by simp
  have "?n / q * (1 + d0) * q * (1 + d1) - ?n = ?n * ((1 + d0) * (1 + d1) - 1)" using z by (simp add: field_simps)
  then have "\<bar>?n / q * (1 + d0) * q * (1 + d1) - ?n\<bar> * 2 ^ 51 = ?n * (\<bar>(1 + d0) * (1 + d1) - 1\<bar> * 2 ^ 51)"
    by (simp add: abs_mult)
  also have "\<dots> \<le> ?n * 1" using p by (intro mult_left_mono) auto
  finally show ?thesis using z 0(1) 1(1) by auto
qed

text \<open>
  When quotas are displayed as tokens, the usage log shows the exact number of units in decimal
  digits, although the number is divided by the quota of a dollar and multiplied by it again.
\<close>

theorem token_log_exact:
  assumes "cc_quotaDisplayType (getConfig settings) = js ''TOKENS''" "rate_ok (cc_quotaPerUnit (getConfig settings))" "n \<le> 2 ^ 49"
  shows "formatLogQuota intl settings (Fin (of_nat n)) = show_nat n"
proof -
  obtain q where q: "cc_quotaPerUnit (getConfig settings) = Fin q" "mag 200 q" using rate_ok_mag [OF assms(2)] by blast
  obtain x where x: "num_mul (num_div (Fin (of_nat n)) (Fin q)) (Fin q) = Fin x" "\<bar>x - of_nat n\<bar> * 2 ^ 51 \<le> of_nat n"
    using scaled_quota [OF assms(3) q(2)] by blast
  have "num_div (Fin (of_nat n)) (Fin q) \<noteq> NaN" using x(1) by auto
  then show ?thesis using assms(1) near_integer_text [OF x(2) assms(3)]
    by (simp add: formatLogQuota_def formatQuotaWithCurrency_def formatCurrencyFromUSD_def getCurrencyDisplay_def getDisplayMeta_def
        no_number_def q(1) x(1) digit_options_def mergeOptions_def Let_def del: num_div.simps num_mul.simps)
qed

definition token_settings :: "currency_settings option" where
  "token_settings = Some \<lparr>cs_displayInCurrency = None, cs_quotaDisplayType = Some (js ''TOKENS''), cs_quotaPerUnit = Some (Fin 500000),
     cs_usdExchangeRate = None, cs_customCurrencySymbol = None, cs_customCurrencyExchangeRate = None\<rparr>"

theorem token_log_exact_witness: "formatLogQuota (\<lambda>_ _. []) token_settings (Fin (of_nat 1234)) = show_nat 1234"
  by (rule token_log_exact)
    (simp_all add: token_settings_def getConfig_def DEFAULT_CURRENCY_CONFIG_def rate_ok_def positive_or_def)

subsection \<open>Colours\<close>

definition poly_hash :: "jsstr \<Rightarrow> int" where
  "poly_hash s = foldl (\<lambda>h c. 31 * h + int c) 0 s"

lemma to_int32_range: "- (2 ^ 31) \<le> to_int32 x \<and> to_int32 x < 2 ^ 31"
  unfolding to_int32_def using sint_greater_eq [of "word_of_int x :: 32 word"] sint_less [of "word_of_int x :: 32 word"] by simp

lemma word_to_int32 [simp]: "(word_of_int (to_int32 x) :: 32 word) = word_of_int x"
  by (simp add: to_int32_def)

lemma hash_step_word: "(word_of_int (hash_step h c) :: 32 word) = 31 * word_of_int h + word_of_int (int c)"
proof -
  have "(word_of_int (hash_step h c) :: 32 word) = word_of_int (int c) + (word_of_int (to_int32 (h * 2 ^ 5)) - word_of_int h)"
    unfolding hash_step_def word_to_int32 by simp
  also have "\<dots> = word_of_int (int c) + (word_of_int (h * 2 ^ 5) - word_of_int h)" by (simp only: word_to_int32)
  also have "\<dots> = 31 * word_of_int h + word_of_int (int c)" by simp
  finally show ?thesis .
qed

lemma hash_fold:
  "(word_of_int (foldl hash_step a s) :: 32 word) = word_of_int (foldl (\<lambda>h c. 31 * h + int c) a' s)"
  if "(word_of_int a :: 32 word) = word_of_int a'"
  using that
proof (induction s arbitrary: a a')
  case (Cons c s)
  have "(word_of_int (hash_step a c) :: 32 word) = word_of_int (31 * a' + int c)"
    using Cons.prems by (simp add: hash_step_word)
  from Cons.IH [OF this] show ?case by simp
qed simp

lemma string_hash_poly: "string_hash s = to_int32 (poly_hash s)"
proof (cases s rule: rev_cases)
  case (snoc t c)
  have "string_hash s = to_int32 (string_hash s)" by (simp add: snoc string_hash_def hash_step_def to_int32_def)
  moreover have "(word_of_int (string_hash s) :: 32 word) = word_of_int (poly_hash s)"
    unfolding string_hash_def poly_hash_def by (rule hash_fold) simp
  ultimately show ?thesis by (metis to_int32_def)
qed (simp add: string_hash_def poly_hash_def to_int32_def)

text \<open>
  The hash behind the colour of a name is the polynomial hash with base 31, reduced to a signed 32 bit
  integer, and every colour has a hue below 360, a saturation from 65 to 74 and a lightness from 55 to 64.
\<close>

theorem color_hash:
  "string_hash s = to_int32 (foldl (\<lambda>h c. 31 * h + int c) 0 s)
   \<and> (case hsl_of s of (hue, saturation, lightness) \<Rightarrow> hue < 360 \<and> 65 \<le> saturation \<and> saturation \<le> 74 \<and> 55 \<le> lightness \<and> lightness \<le> 64)"
proof -
  have "nat (x mod 10) \<le> 9" "nat (x mod 360) < 360" for x :: int by (simp_all add: nat_less_iff)
  then show ?thesis by (simp add: string_hash_poly poly_hash_def hsl_of_def Let_def)
qed

end
