(* ===== verification/BillingTiers.thy ===== *)
theory BillingTiers
  imports RequestRules JsArith
begin

text \<open>
  Tiered prices: the variables and the tier parser of \<^verbatim>\<open>pricing/lib/billing-expr.ts\<close>, and the visual
  editor's printer and parser in \<^verbatim>\<open>pricing/lib/tier-expr.ts\<close>. \<^verbatim>\<open>toLowerCase\<close> is the argument \<open>lower\<close>.
\<close>

subsection \<open>Global matching and splitting\<close>

text \<open>
  \<^verbatim>\<open>while ((m = re.exec(s)) !== null)\<close> for a pattern that never matches the empty text: the captures of
  the successive matches.
\<close>

function exec_all :: "regex \<Rightarrow> jsstr \<Rightarrow> jsstr \<Rightarrow> (nat \<times> jsstr) list list" where
  "exec_all r p xs = (case search_from r p xs of
      None \<Rightarrow> []
    | Some s \<Rightarrow> if length (rs_rest s) < length xs then rs_caps s # exec_all r (rs_pre s) (rs_rest s) else [])"
  by pat_completeness auto
termination
  by (relation "measure (\<lambda>(r, p, xs). length xs)") auto

declare exec_all.simps [simp del]

text \<open>The text before the first match, and the state after it.\<close>

fun find_from :: "regex \<Rightarrow> jsstr \<Rightarrow> jsstr \<Rightarrow> (jsstr \<times> rstate) option" where
  "find_from r p [] = map_option (\<lambda>s. ([], s)) (mt r Some (RS p [] []))"
| "find_from r p (x # xs) = (case mt r Some (RS p (x # xs) []) of
      Some s \<Rightarrow> Some ([], s)
    | None \<Rightarrow> map_option (\<lambda>(b, s). (x # b, s)) (find_from r (x # p) xs))"

text \<open>\<^verbatim>\<open>s.split(re)\<close> for a pattern without groups that never matches the empty text.\<close>

function re_split :: "regex \<Rightarrow> jsstr \<Rightarrow> jsstr \<Rightarrow> jsstr list" where
  "re_split r p xs = (case find_from r p xs of
      None \<Rightarrow> [xs]
    | Some (b, s) \<Rightarrow> if length (rs_rest s) < length xs then b # re_split r (rs_pre s) (rs_rest s) else [xs])"
  by pat_completeness auto
termination
  by (relation "measure (\<lambda>(r, p, xs). length xs)") auto

declare re_split.simps [simp del]

abbreviation WS :: regex where "WS \<equiv> Star (Cls is_ws)"

abbreviation lits :: "jsstr list \<Rightarrow> regex" where "lits ws \<equiv> Alts (map Str ws)"

subsection \<open>Variables\<close>

record billing_var =
  bv_key :: jsstr
  bv_field :: "jsstr option"
  bv_tierField :: "jsstr option"
  bv_label :: jsstr
  bv_shortLabel :: jsstr
  bv_side :: jsstr
  bv_isBase :: bool
  bv_isConditionOnly :: bool
  bv_group :: "jsstr option"

definition BILLING_VARS :: "billing_var list" where
  "BILLING_VARS = [
     \<lparr>bv_key = js ''p'', bv_field = Some (js ''inputPrice''), bv_tierField = Some (js ''input_unit_cost''),
      bv_label = js ''Input price'', bv_shortLabel = js ''Input'', bv_side = js ''input'', bv_isBase = True,
      bv_isConditionOnly = False, bv_group = None\<rparr>,
     \<lparr>bv_key = js ''c'', bv_field = Some (js ''outputPrice''), bv_tierField = Some (js ''output_unit_cost''),
      bv_label = js ''Completion price'', bv_shortLabel = js ''Output'', bv_side = js ''output'', bv_isBase = True,
      bv_isConditionOnly = False, bv_group = None\<rparr>,
     \<lparr>bv_key = js ''len'', bv_field = None, bv_tierField = None,
      bv_label = js ''Input length'', bv_shortLabel = js ''Length'', bv_side = js ''condition'', bv_isBase = False,
      bv_isConditionOnly = True, bv_group = None\<rparr>,
     \<lparr>bv_key = js ''cr'', bv_field = Some (js ''cacheReadPrice''), bv_tierField = Some (js ''cache_read_unit_cost''),
      bv_label = js ''Cache read price'', bv_shortLabel = js ''Cache Read'', bv_side = js ''input'', bv_isBase = False,
      bv_isConditionOnly = False, bv_group = Some (js ''cache'')\<rparr>,
     \<lparr>bv_key = js ''cc'', bv_field = Some (js ''cacheCreatePrice''), bv_tierField = Some (js ''cache_create_unit_cost''),
      bv_label = js ''Cache create price'', bv_shortLabel = js ''Cache Write'', bv_side = js ''input'', bv_isBase = False,
      bv_isConditionOnly = False, bv_group = Some (js ''cache'')\<rparr>,
     \<lparr>bv_key = js ''cc1h'', bv_field = Some (js ''cacheCreate1hPrice''), bv_tierField = Some (js ''cache_create_1h_unit_cost''),
      bv_label = js ''Cache create (1h) price'', bv_shortLabel = js ''Cache Write (1h)'', bv_side = js ''input'', bv_isBase = False,
      bv_isConditionOnly = False, bv_group = Some (js ''cache'')\<rparr>,
     \<lparr>bv_key = js ''img'', bv_field = Some (js ''imagePrice''), bv_tierField = Some (js ''image_unit_cost''),
      bv_label = js ''Image input price'', bv_shortLabel = js ''Image In'', bv_side = js ''input'', bv_isBase = False,
      bv_isConditionOnly = False, bv_group = Some (js ''media'')\<rparr>,
     \<lparr>bv_key = js ''img_o'', bv_field = Some (js ''imageOutputPrice''), bv_tierField = Some (js ''image_output_unit_cost''),
      bv_label = js ''Image output price'', bv_shortLabel = js ''Image Out'', bv_side = js ''output'', bv_isBase = False,
      bv_isConditionOnly = False, bv_group = Some (js ''media'')\<rparr>,
     \<lparr>bv_key = js ''ai'', bv_field = Some (js ''audioInputPrice''), bv_tierField = Some (js ''audio_input_unit_cost''),
      bv_label = js ''Audio input price'', bv_shortLabel = js ''Audio In'', bv_side = js ''input'', bv_isBase = False,
      bv_isConditionOnly = False, bv_group = Some (js ''media'')\<rparr>,
     \<lparr>bv_key = js ''ao'', bv_field = Some (js ''audioOutputPrice''), bv_tierField = Some (js ''audio_output_unit_cost''),
      bv_label = js ''Audio output price'', bv_shortLabel = js ''Audio Out'', bv_side = js ''output'', bv_isBase = False,
      bv_isConditionOnly = False, bv_group = Some (js ''media'')\<rparr>]"

definition BILLING_PRICING_VARS :: "billing_var list" where
  "BILLING_PRICING_VARS = filter (\<lambda>v. \<not> bv_isConditionOnly v) BILLING_VARS"

definition BILLING_CONDITION_VARS :: "jsstr list" where
  "BILLING_CONDITION_VARS = map bv_key (filter (\<lambda>v. bv_isBase v \<or> bv_isConditionOnly v) BILLING_VARS)"

definition BILLING_VAR_KEY_TO_FIELD :: "(jsstr \<times> jsstr) list" where
  "BILLING_VAR_KEY_TO_FIELD = map (\<lambda>v. (bv_key v, the (bv_field v))) BILLING_PRICING_VARS"

definition BILLING_EXTRA_VARS :: "billing_var list" where
  "BILLING_EXTRA_VARS = filter (\<lambda>v. \<not> bv_isBase v \<and> \<not> bv_isConditionOnly v) BILLING_VARS"

text \<open>The field and the variable of each extra price.\<close>

definition BILLING_CACHE_VAR_MAP :: "(jsstr \<times> jsstr) list" where
  "BILLING_CACHE_VAR_MAP = map (\<lambda>v. (the (bv_tierField v), bv_key v)) BILLING_EXTRA_VARS"

definition BILLING_VAR_REGEX :: regex where
  "BILLING_VAR_REGEX = Seqs [WordB, Grp 1 (lits (map bv_key BILLING_PRICING_VARS)), WS, Str (js ''*''), WS, Grp 2 NUM]"

subsection \<open>Conditions\<close>

datatype tier_value = NumVal jsnum | StrVal jsstr

record tier_condition =
  cond_var :: jsstr
  cond_op :: jsstr
  cond_value :: "tier_value option"

text \<open>\<^verbatim>\<open>[\d.eE+]\<close>\<close>

definition cond_unit :: "nat \<Rightarrow> bool" where
  "cond_unit c \<longleftrightarrow> is_digit c \<or> c = 46 \<or> c = 101 \<or> c = 69 \<or> c = 43"

abbreviation COND_VARS :: regex where "COND_VARS \<equiv> lits [js ''p'', js ''c'', js ''len'']"
abbreviation COND_OPS :: regex where "COND_OPS \<equiv> lits [js ''<'', js ''<='', js ''>'', js ''>='']"
abbreviation COND_NUM :: regex where "COND_NUM \<equiv> Plus (Cls cond_unit)"

definition CONDITION :: regex where
  "CONDITION = Seqs [COND_VARS, WS, COND_OPS, WS, COND_NUM]"

definition COND_GROUP :: regex where
  "COND_GROUP = Grp 1 (Seq CONDITION (Star (Seqs [WS, Str (js ''&&''), WS, CONDITION])))"

definition COND_SPLIT :: regex where
  "COND_SPLIT = Seqs [WS, Str (js ''&&''), WS]"

definition COND_ONE :: regex where
  "COND_ONE = Seq Bol (Seqs [Grp 1 COND_VARS, WS, Grp 2 COND_OPS, WS, Grp 3 COND_NUM, Eol])"

definition read_condition :: "jsstr \<Rightarrow> tier_condition option" where
  "read_condition cp = (case re_match COND_ONE (trim cp) of
      None \<Rightarrow> None
    | Some cm \<Rightarrow> Some \<lparr>cond_var = grp cm 1, cond_op = grp cm 2, cond_value = Some (NumVal (to_number (grp cm 3)))\<rparr>)"

definition read_conditions :: "jsstr \<Rightarrow> tier_condition list" where
  "read_conditions condStr = (if condStr = [] then [] else List.map_filter read_condition (re_split COND_SPLIT [] condStr))"

subsection \<open>The tier parser\<close>

record parsed_tier =
  pt_label :: jsstr
  pt_conditions :: "tier_condition list"
  pt_prices :: "(jsstr \<times> jsnum) list"

definition VERSION :: regex where
  "VERSION = Seq Bol (Seqs [Str (js ''v''), Grp 1 (Plus DIGIT), Str (js '':''), Grp 2 (Star (Cls (\<lambda>_. True))), Eol])"

definition stripExprVersion :: "jsstr \<Rightarrow> jsnum \<times> jsstr" where
  "stripExprVersion exprStr =
     (if exprStr = [] then (Fin 1, [])
      else (case re_match VERSION exprStr of Some m \<Rightarrow> (to_number (grp m 1), grp m 2) | None \<Rightarrow> (Fin 1, exprStr)))"

text \<open>\<^verbatim>\<open>Number(v) || 0\<close>; a missing value is \<open>None\<close>.\<close>

definition num_or_zero :: "jsnum option \<Rightarrow> jsnum" where
  "num_or_zero v = (case v of None \<Rightarrow> Fin 0 | Some x \<Rightarrow> if x = NaN then Fin 0 else x)"

definition first_coeff :: "(jsstr \<times> jsnum) list \<Rightarrow> (nat \<times> jsstr) list \<Rightarrow> (jsstr \<times> jsnum) list" where
  "first_coeff coeffs m = (if map_of coeffs (grp m 1) = None then coeffs @ [(grp m 1, to_number (grp m 2))] else coeffs)"

definition parseTierBody :: "jsstr \<Rightarrow> (jsstr \<times> jsnum) list" where
  "parseTierBody bodyStr =
     (let coeffs = foldl first_coeff [] (exec_all BILLING_VAR_REGEX [] bodyStr)
      in map (\<lambda>(varName, field). (field, num_or_zero (map_of coeffs varName))) BILLING_VAR_KEY_TO_FIELD)"

definition TIER_RE :: regex where
  "TIER_RE = Seqs [Opt (Seqs [COND_GROUP, WS, Str (js ''?''), WS]), Str (js ''tier(\"''), Grp 2 (Star (Cls (\<lambda>c. c \<noteq> 34))),
     Str (js ''\",''), WS, Grp 3 (Plus (Cls (\<lambda>c. c \<noteq> 41))), Str (js '')'')]"

definition read_tier :: "(nat \<times> jsstr) list \<Rightarrow> parsed_tier" where
  "read_tier m = \<lparr>pt_label = grp m 2, pt_conditions = read_conditions (grp m 1), pt_prices = parseTierBody (grp m 3)\<rparr>"

definition parseTiersFromExpr :: "jsstr \<Rightarrow> parsed_tier list" where
  "parseTiersFromExpr exprStr =
     (if exprStr = [] then [] else map read_tier (exec_all TIER_RE [] (snd (stripExprVersion exprStr))))"

text \<open>\<^verbatim>\<open>/<[=]?|.../g\<close>: the sign \<open>a\<close>, its full width form \<open>w\<close>, each with an optional equality sign, and the sign \<open>e\<close>.\<close>

fun norm_sign :: "nat \<Rightarrow> nat \<Rightarrow> nat \<Rightarrow> jsstr \<Rightarrow> jsstr" where
  "norm_sign a w e [] = []"
| "norm_sign a w e [c] = [if c = a \<or> c = w \<or> c = e then a else c]"
| "norm_sign a w e (c # d # cs) =
     (if c = a \<or> c = w then (if d = 61 \<or> d = 65309 then a # norm_sign a w e cs else a # norm_sign a w e (d # cs))
      else (if c = e then a else c) # norm_sign a w e (d # cs))"

definition normalizeTierLabel :: "(jsstr \<Rightarrow> jsstr) \<Rightarrow> jsstr option \<Rightarrow> jsstr" where
  "normalizeTierLabel lower label = (case label of
      None \<Rightarrow> []
    | Some l \<Rightarrow> if l = [] then [] else lower (remove_ws (norm_sign 62 65310 8805 (norm_sign 60 65308 8804 l))))"

subsection \<open>The visual editor\<close>

definition CACHE_MODE_TIMED :: jsstr where "CACHE_MODE_TIMED = js ''timed''"
definition CACHE_MODE_GENERIC :: jsstr where "CACHE_MODE_GENERIC = js ''generic''"

record visual_tier =
  vt_label :: jsstr
  vt_conditions :: "tier_condition list"
  vt_input_unit_cost :: jsnum
  vt_output_unit_cost :: jsnum
  vt_cache_mode :: jsstr
  vt_cache_read_unit_cost :: jsnum
  vt_cache_create_unit_cost :: jsnum
  vt_cache_create_1h_unit_cost :: jsnum
  vt_image_unit_cost :: jsnum
  vt_image_output_unit_cost :: jsnum
  vt_audio_input_unit_cost :: jsnum
  vt_audio_output_unit_cost :: jsnum

record partial_tier =
  pv_label :: "jsstr option"
  pv_conditions :: "tier_condition list option"
  pv_input_unit_cost :: "jsnum option"
  pv_output_unit_cost :: "jsnum option"
  pv_cache_mode :: "jsstr option"
  pv_extra :: "(jsstr \<times> jsnum) list"

definition getTierCacheMode :: "partial_tier \<Rightarrow> jsstr" where
  "getTierCacheMode tier =
     (if pv_cache_mode tier = Some CACHE_MODE_TIMED then CACHE_MODE_TIMED
      else if pv_cache_mode tier = Some CACHE_MODE_GENERIC then CACHE_MODE_GENERIC
      else if num_less (Fin 0) (num_or_zero (map_of (pv_extra tier) (js ''cache_create_1h_unit_cost'')))
      then CACHE_MODE_TIMED else CACHE_MODE_GENERIC)"

text \<open>The spread of the tier comes after the first five properties and overrides them where it has them.\<close>

definition normalizeVisualTier :: "partial_tier \<Rightarrow> visual_tier" where
  "normalizeVisualTier tier = \<lparr>
     vt_label = (case pv_label tier of Some l \<Rightarrow> l | None \<Rightarrow> []),
     vt_conditions = (case pv_conditions tier of Some cs \<Rightarrow> cs | None \<Rightarrow> []),
     vt_input_unit_cost = (case pv_input_unit_cost tier of Some x \<Rightarrow> x | None \<Rightarrow> Fin 0),
     vt_output_unit_cost = (case pv_output_unit_cost tier of Some x \<Rightarrow> x | None \<Rightarrow> Fin 0),
     vt_cache_mode = (case pv_cache_mode tier of Some c \<Rightarrow> c | None \<Rightarrow> getTierCacheMode tier),
     vt_cache_read_unit_cost = num_or_zero (map_of (pv_extra tier) (js ''cache_read_unit_cost'')),
     vt_cache_create_unit_cost = num_or_zero (map_of (pv_extra tier) (js ''cache_create_unit_cost'')),
     vt_cache_create_1h_unit_cost = num_or_zero (map_of (pv_extra tier) (js ''cache_create_1h_unit_cost'')),
     vt_image_unit_cost = num_or_zero (map_of (pv_extra tier) (js ''image_unit_cost'')),
     vt_image_output_unit_cost = num_or_zero (map_of (pv_extra tier) (js ''image_output_unit_cost'')),
     vt_audio_input_unit_cost = num_or_zero (map_of (pv_extra tier) (js ''audio_input_unit_cost'')),
     vt_audio_output_unit_cost = num_or_zero (map_of (pv_extra tier) (js ''audio_output_unit_cost''))\<rparr>"

text \<open>A full tier as an argument of \<^verbatim>\<open>normalizeVisualTier\<close>.\<close>

definition extras_of :: "visual_tier \<Rightarrow> (jsstr \<times> jsnum) list" where
  "extras_of t = [(js ''cache_read_unit_cost'', vt_cache_read_unit_cost t), (js ''cache_create_unit_cost'', vt_cache_create_unit_cost t),
     (js ''cache_create_1h_unit_cost'', vt_cache_create_1h_unit_cost t), (js ''image_unit_cost'', vt_image_unit_cost t),
     (js ''image_output_unit_cost'', vt_image_output_unit_cost t), (js ''audio_input_unit_cost'', vt_audio_input_unit_cost t),
     (js ''audio_output_unit_cost'', vt_audio_output_unit_cost t)]"

definition as_partial :: "visual_tier \<Rightarrow> partial_tier" where
  "as_partial t = \<lparr>pv_label = Some (vt_label t), pv_conditions = Some (vt_conditions t),
     pv_input_unit_cost = Some (vt_input_unit_cost t), pv_output_unit_cost = Some (vt_output_unit_cost t),
     pv_cache_mode = Some (vt_cache_mode t), pv_extra = extras_of t\<rparr>"

text \<open>A configuration is the list of its tiers.\<close>

definition createDefaultVisualConfig :: "visual_tier list" where
  "createDefaultVisualConfig = [normalizeVisualTier \<lparr>pv_label = Some (js ''base''), pv_conditions = Some [],
     pv_input_unit_cost = Some (Fin 0), pv_output_unit_cost = Some (Fin 0), pv_cache_mode = Some CACHE_MODE_GENERIC, pv_extra = []\<rparr>]"

definition normalizeVisualConfig :: "visual_tier list option \<Rightarrow> visual_tier list" where
  "normalizeVisualConfig config = (case config of
      None \<Rightarrow> createDefaultVisualConfig
    | Some tiers \<Rightarrow> if tiers = [] then createDefaultVisualConfig else map (\<lambda>t. normalizeVisualTier (as_partial t)) tiers)"

definition value_text :: "tier_value \<Rightarrow> jsstr" where
  "value_text v = (case v of NumVal x \<Rightarrow> num_to_string x | StrVal s \<Rightarrow> s)"

definition complete_condition :: "tier_condition \<Rightarrow> bool" where
  "complete_condition c \<longleftrightarrow> cond_var c \<noteq> [] \<and> cond_op c \<noteq> [] \<and> cond_value c \<noteq> None \<and> cond_value c \<noteq> Some (StrVal [])"

definition condition_text :: "tier_condition \<Rightarrow> jsstr" where
  "condition_text c = cond_var c @ js '' '' @ cond_op c @ js '' '' @ value_text (the (cond_value c))"

definition buildConditionStr :: "tier_condition list \<Rightarrow> jsstr" where
  "buildConditionStr conds = join (js '' && '') (map condition_text (filter complete_condition conds))"

definition buildTierBodyExpr :: "visual_tier \<Rightarrow> jsstr" where
  "buildTierBodyExpr tier = join (js '' + '')
     ([js ''p * '' @ num_to_string (num_or_zero (Some (vt_input_unit_cost tier))),
       js ''c * '' @ num_to_string (num_or_zero (Some (vt_output_unit_cost tier)))]
      @ List.map_filter (\<lambda>(field, exprVar). let v = num_or_zero (map_of (extras_of tier) field)
          in if v \<noteq> Fin 0 then Some (exprVar @ js '' * '' @ num_to_string v) else None) BILLING_CACHE_VAR_MAP)"

definition tier_text :: "jsstr \<Rightarrow> visual_tier \<Rightarrow> jsstr" where
  "tier_text default_label tier =
     js ''tier(\"'' @ (if vt_label tier \<noteq> [] then vt_label tier else default_label) @ js ''\", '' @ buildTierBodyExpr tier @ js '')''"

definition tier_part :: "nat \<Rightarrow> nat \<Rightarrow> visual_tier \<Rightarrow> jsstr" where
  "tier_part n i tier =
     (let body = tier_text (js ''tier_'' @ show_nat (i + 1)) tier; cond = buildConditionStr (vt_conditions tier)
      in if i < n - 1 \<and> cond \<noteq> [] then cond @ js '' ? '' @ body else body)"

definition generateExprFromVisualConfig :: "visual_tier list option \<Rightarrow> jsstr" where
  "generateExprFromVisualConfig config = (case config of
      None \<Rightarrow> js ''p * 0 + c * 0''
    | Some [] \<Rightarrow> js ''p * 0 + c * 0''
    | Some [tier] \<Rightarrow>
        (let body = tier_text (js ''default'') tier; cond = buildConditionStr (vt_conditions tier)
         in if cond \<noteq> [] then cond @ js '' ? '' @ body @ js '' : p * 0 + c * 0'' else body)
    | Some tiers \<Rightarrow> join (js '' : '') (map (\<lambda>(i, tier). tier_part (length tiers) i tier) (enumerate 0 tiers)))"

subsection \<open>Reading an expression into the editor\<close>

abbreviation seq_all :: "regex list \<Rightarrow> regex \<Rightarrow> regex" where
  "seq_all rs r \<equiv> foldr Seq rs r"

text \<open>The optional price of a variable, captured in group \<open>n\<close>.\<close>

definition OPT_PRICE :: "nat \<Rightarrow> jsstr \<Rightarrow> regex" where
  "OPT_PRICE n v = Opt (Seqs [WS, Str (js ''+''), WS, Str v, WS, Str (js ''*''), WS, Grp n NUM])"

text \<open>The prices of a tier, captured from group \<open>n\<close> on, and what follows.\<close>

definition BODY_THEN :: "nat \<Rightarrow> regex \<Rightarrow> regex" where
  "BODY_THEN n r = seq_all
     ([Str (js ''p''), WS, Str (js ''*''), WS, Grp n NUM, WS, Str (js ''+''), WS, Str (js ''c''), WS, Str (js ''*''), WS, Grp (n + 1) NUM]
      @ map (\<lambda>(i, (_, v)). OPT_PRICE (n + 2 + i) v) (enumerate 0 BILLING_CACHE_VAR_MAP)) r"

definition TIER_THEN :: "nat \<Rightarrow> regex \<Rightarrow> regex" where
  "TIER_THEN n r = seq_all [Str (js ''tier(\"''), Grp n (Star (Cls (\<lambda>c. c \<noteq> 34))), Str (js ''\",''), WS] (BODY_THEN (n + 1) (Seq (Str (js '')'')) r))"

definition SINGLE_RE :: regex where
  "SINGLE_RE = Seq Bol (TIER_THEN 1 Eol)"

definition VISUAL_TIER_RE :: regex where
  "VISUAL_TIER_RE = Seq (Opt (Seqs [COND_GROUP, WS, Str (js ''?''), WS])) (TIER_THEN 2 (Str []))"

definition VISUAL_VERSION :: regex where
  "VISUAL_VERSION = Seq Bol (Seqs [Str (js ''v''), Plus DIGIT, Str (js '':''), Grp 1 (Star (Cls (\<lambda>_. True))), Eol])"

definition captured_extras :: "nat \<Rightarrow> (nat \<times> jsstr) list \<Rightarrow> (jsstr \<times> jsnum) list" where
  "captured_extras n m = List.map_filter (\<lambda>(i, (field, _)). map_option (\<lambda>v. (field, to_number v)) (capture m (n + i)))
     (enumerate 0 BILLING_CACHE_VAR_MAP)"

definition read_visual_tier :: "nat \<Rightarrow> tier_condition list \<Rightarrow> (nat \<times> jsstr) list \<Rightarrow> visual_tier" where
  "read_visual_tier n conds m = normalizeVisualTier \<lparr>pv_label = Some (grp m n), pv_conditions = Some conds,
     pv_input_unit_cost = Some (to_number (grp m (n + 1))), pv_output_unit_cost = Some (to_number (grp m (n + 2))),
     pv_cache_mode = None, pv_extra = captured_extras (n + 3) m\<rparr>"

definition tryParseVisualConfig :: "jsstr \<Rightarrow> visual_tier list option" where
  "tryParseVisualConfig exprStr =
     (if exprStr = [] then None
      else (let body = (case re_match VISUAL_VERSION exprStr of Some m \<Rightarrow> grp m 1 | None \<Rightarrow> exprStr) in
        case re_match SINGLE_RE body of
          Some m \<Rightarrow> Some (normalizeVisualConfig (Some [read_visual_tier 1 [] m]))
        | None \<Rightarrow>
            (let tiers = map (\<lambda>m. read_visual_tier 2 (read_conditions (grp m 1)) m) (exec_all VISUAL_TIER_RE [] body) in
             if tiers = [] then None
             else (let cfg = normalizeVisualConfig (Some tiers); regenerated = generateExprFromVisualConfig (Some cfg)
               in if remove_ws regenerated \<noteq> remove_ws body then None else Some cfg))))"

definition ESTIMATOR_VARS :: "(jsstr \<times> jsstr) list" where
  "ESTIMATOR_VARS = [(js ''cr'', js ''cacheReadTokens''), (js ''cc'', js ''cacheCreateTokens''), (js ''cc1h'', js ''cacheCreate1hTokens''),
     (js ''img'', js ''imageTokens''), (js ''img_o'', js ''imageOutputTokens''), (js ''ai'', js ''audioInputTokens''),
     (js ''ao'', js ''audioOutputTokens'')]"

definition exprUsesExtraVars :: "jsstr \<Rightarrow> bool" where
  "exprUsesExtraVars exprStr =
     (if exprStr = [] then False else re_test (Seqs [WordB, Grp 1 (lits (map fst ESTIMATOR_VARS)), WordB]) exprStr)"

end
