(* ===== verification/BillingTiersMatch.thy ===== *)
theory BillingTiersMatch
  imports BillingTiers
begin

text \<open>
  What the patterns of the tier parsers do on the texts that the visual editor prints
  (\<^verbatim>\<open>pricing/lib/tier-expr.ts\<close>): numbers, prices, tiers and conditions, and reading them back.
\<close>

subsection \<open>Spaces and numbers\<close>

lemma not_ws_units [simp]: "\<not> is_ws 42" "\<not> is_ws 43" "\<not> is_ws 99" "\<not> is_ws 112" "\<not> is_ws 41" "\<not> is_ws 63" "\<not> is_ws 38"
    "\<not> is_ws 60" "\<not> is_ws 62" "\<not> is_ws 61" "\<not> is_ws 108" "\<not> is_ws 116" "\<not> is_ws 58" "\<not> is_ws 34" "is_ws 32"
  by (simp_all add: is_ws_def)

lemma ws_space: "\<not> is_ws x \<Longrightarrow> mt WS k (RS p (32 # x # r) c) =
    (case k (RS (32 # p) (x # r) c) of Some y \<Rightarrow> Some y | None \<Rightarrow> k (RS p (32 # x # r) c))"
  by (simp add: mt_Star_Cls split: option.split)

lemma ws_none: "\<not> is_ws x \<Longrightarrow> mt WS k (RS p (x # r) c) = k (RS p (x # r) c)"
  by (simp add: mt_Star_Cls)

text \<open>A text that a number pattern reads completely.\<close>

definition num_text :: "jsstr \<Rightarrow> bool" where
  "num_text u \<longleftrightarrow> u \<noteq> [] \<and> (\<forall>x \<in> set u. num_unit x)"

lemma num_char_unit: "num_char c \<Longrightarrow> num_unit c"
  by (auto simp: num_char_def num_unit_def)

lemma num_text_double: "double x \<Longrightarrow> num_text (num_to_string (Fin x))"
proof -
  assume d: "double x"
  then have "double (- x)" by (simp add: double_def rnd_minus)
  then show ?thesis using d show_pos_props(2) [of x] show_pos_props(2) [of "- x"]
    by (cases "0 < x"; cases "x = 0") (auto simp: num_text_def lit num_char_unit num_unit_def [of 45] num_unit_def [of 48] is_digit_def)
qed

lemma num_some:
  assumes "num_text u" "\<not> num_unit z" "k (RS (rev u @ p) (z # r) ((n, u) # c)) = Some y"
  shows "mt (Grp n NUM) k (RS p (u @ z # r) c) = Some y"
  using assms by (intro mt_Grp_Plus_greedy) (auto simp: num_text_def)

lemma num_hd: "num_text u \<Longrightarrow> \<exists>x v. u = x # v \<and> \<not> is_ws x"
  by (cases u) (auto simp: num_text_def num_unit_def is_ws_def is_digit_def)

lemma ws_num:
  assumes "num_text u" "k (RS (32 # p) (u @ r) c) = Some y"
  shows "mt WS k (RS p (32 # u @ r) c) = Some y"
  using num_hd [OF assms(1)] assms(2) by (auto simp: ws_space)

lemma not_num [simp]: "\<not> num_unit 32" "\<not> num_unit 41"
  by (simp_all add: num_unit_def is_digit_def)

subsection \<open>The prices of a tier\<close>

definition ends_price :: "jsstr \<Rightarrow> bool" where
  "ends_price r \<longleftrightarrow> r \<noteq> [] \<and> (hd r = 32 \<or> hd r = 41)"

lemma ends_price_cases: "ends_price r \<Longrightarrow> \<exists>z t. r = z # t \<and> (z = 32 \<or> z = 41)"
  by (cases r) (auto simp: ends_price_def)

definition price_text :: "jsstr \<Rightarrow> jsstr \<Rightarrow> jsstr" where
  "price_text v u = js '' + '' @ v @ js '' * '' @ u"

lemma ws_key:
  assumes "w \<noteq> []" "\<not> is_ws (hd w)" "k (RS (32 # p) (w @ r) c) = Some y"
  shows "mt WS k (RS p (32 # w @ r) c) = Some y"
  using assms by (cases w) (auto simp: ws_space)

lemma opt_price_some:
  assumes "num_text u" "ends_price r" "v \<noteq> []" "\<not> is_ws (hd v)"
    and "k (RS (rev (price_text v u) @ p) r ((n, u) # c)) = Some y"
  shows "mt (OPT_PRICE n v) k (RS p (price_text v u @ r) c) = Some y"
proof -
  obtain z t where r: "r = z # t" "\<not> num_unit z" using ends_price_cases [OF assms(2)] by auto
  let ?s = "rev v @ 32 # 43 # 32 # p"
  have "mt (Grp n NUM) k (RS (32 # 42 # 32 # ?s) (u @ z # t) c) = Some y"
    using assms(5) r by (intro num_some [OF assms(1)]) (simp_all add: price_text_def lit)
  then have "mt WS (mt (Grp n NUM) k) (RS (42 # 32 # ?s) (32 # u @ z # t) c) = Some y" by (rule ws_num [OF assms(1)])
  then have "mt WS (mt (Seqs [Str (js ''*''), WS, Grp n NUM]) k) (RS ?s (32 # 42 # 32 # u @ z # t) c) = Some y"
    by (simp add: ws_space mt_Seq mt_Str lit)
  then have "mt (Seqs [Str v, WS, Str (js ''*''), WS, Grp n NUM]) k (RS (32 # 43 # 32 # p) (v @ 32 # 42 # 32 # u @ z # t) c) = Some y"
    by (simp add: mt_Seq mt_Str)
  then have "mt WS (mt (Seqs [Str v, WS, Str (js ''*''), WS, Grp n NUM]) k) (RS (43 # 32 # p) (32 # v @ 32 # 42 # 32 # u @ z # t) c) = Some y"
    by (rule ws_key [OF assms(3,4)])
  then have "mt (Seqs [WS, Str (js ''+''), WS, Str v, WS, Str (js ''*''), WS, Grp n NUM]) k (RS p (price_text v u @ r) c) = Some y"
    by (simp add: price_text_def r ws_space mt_Seq mt_Str lit)
  then show ?thesis by (simp only: OPT_PRICE_def mt_Opt option.case)
qed

text \<open>A key that does not match where another stands.\<close>

definition differs :: "jsstr \<Rightarrow> jsstr \<Rightarrow> bool" where
  "differs v w \<longleftrightarrow> (\<forall>r. case strip_prefix v (w @ 32 # r) of None \<Rightarrow> True | Some t \<Rightarrow> t \<noteq> [] \<and> hd t \<noteq> 42 \<and> \<not> is_ws (hd t))"

lemma key_fails:
  assumes "differs v w" "w \<noteq> []" "\<not> is_ws (hd w)" "v \<noteq> []" "\<not> is_ws (hd v)"
  shows "mt WS (mt (Seq (Str v) (Seq WS (Seq (Str (js ''*'')) R))) k) (RS p (32 # w @ 32 # r) c) = None"
proof -
  have "mt (Seq (Str v) (Seq WS (Seq (Str (js ''*'')) R))) k (RS (32 # p) (w @ 32 # r) c) = None"
  proof (cases "strip_prefix v (w @ 32 # r)")
    case (Some t)
    then have "t \<noteq> []" "hd t \<noteq> 42" "\<not> is_ws (hd t)" using assms(1) by (auto simp: differs_def split: option.splits)
    with Some show ?thesis by (cases t) (simp_all add: mt_Seq mt_Str ws_none lit)
  qed (simp add: mt_Seq mt_Str)
  moreover have "strip_prefix v (32 # w @ 32 # r) = None" using assms(4,5) by (cases v) auto
  ultimately show ?thesis using assms(2,3) by (cases w) (auto simp: ws_space mt_Seq mt_Str)
qed

lemma opt_price_skip:
  assumes "differs v w" "w \<noteq> []" "\<not> is_ws (hd w)" "v \<noteq> []" "\<not> is_ws (hd v)"
  shows "mt (OPT_PRICE n v) k (RS p (price_text w u @ r) c) = k (RS p (price_text w u @ r) c)"
proof -
  have "mt (Seqs [WS, Str (js ''+''), WS, Str v, WS, Str (js ''*''), WS, Grp n NUM]) k (RS p (price_text w u @ r) c) = None"
    using key_fails [OF assms, where R = "Seq WS (Grp n NUM)" and k = k and p = "43 # 32 # p" and r = "42 # 32 # u @ r" and c = c]
    by (simp add: price_text_def ws_space mt_Seq mt_Str lit)
  then show ?thesis by (simp only: OPT_PRICE_def mt_Opt option.case)
qed

lemma opt_price_end: "mt (OPT_PRICE n v) k (RS p (41 # t) c) = k (RS p (41 # t) c)"
  by (simp add: OPT_PRICE_def mt_Opt mt_Seq mt_Str ws_none lit)

type_synonym price = "nat \<times> jsstr \<times> jsstr option"

definition prices_text :: "price list \<Rightarrow> jsstr" where
  "prices_text xs = concat (map (\<lambda>(_, v, u). case u of None \<Rightarrow> [] | Some u \<Rightarrow> price_text v u) xs)"

fun prices_caps :: "price list \<Rightarrow> (nat \<times> jsstr) list \<Rightarrow> (nat \<times> jsstr) list" where
  "prices_caps [] c = c"
| "prices_caps ((n, v, None) # xs) c = prices_caps xs c"
| "prices_caps ((n, v, Some u) # xs) c = prices_caps xs ((n, u) # c)"

definition price_ok :: "price \<Rightarrow> bool" where
  "price_ok = (\<lambda>(_, v, u). v \<noteq> [] \<and> \<not> is_ws (hd v) \<and> (case u of None \<Rightarrow> True | Some u \<Rightarrow> num_text u))"

lemma prices_head:
  "prices_text xs @ 41 # t = 41 # t \<or> (\<exists>n w u u' r. (n, w, u') \<in> set xs \<and> prices_text xs @ 41 # t = price_text w u @ r)"
proof (induction xs)
  case (Cons x xs)
  obtain n v u where x: "x = (n, v, u)" by (cases x)
  show ?case
  proof (cases u)
    case None
    with Cons x show ?thesis by (auto simp: prices_text_def)
  next
    case (Some w)
    then have "prices_text (x # xs) @ 41 # t = price_text v w @ prices_text xs @ 41 # t" by (simp add: prices_text_def x)
    with x show ?thesis by (metis list.set_intros(1))
  qed
qed (simp add: prices_text_def)

lemma prices_ends: "ends_price (prices_text xs @ 41 # t)"
  using prices_head [of xs t] by (auto simp: ends_price_def price_text_def lit)

lemma opts_match:
  assumes "sorted_wrt (\<lambda>(_, v, _) (_, w, _). differs v w) xs" "\<forall>x \<in> set xs. price_ok x"
    "mt R k (RS (rev (prices_text xs) @ p) (41 # t) (prices_caps xs c)) = Some y"
  shows "mt (foldr Seq (map (\<lambda>(n, v, _). OPT_PRICE n v) xs) R) k (RS p (prices_text xs @ 41 # t) c) = Some y"
  using assms
proof (induction xs arbitrary: p c)
  case (Cons x xs)
  obtain n v u where x: "x = (n, v, u)" by (cases x)
  let ?R = "foldr Seq (map (\<lambda>(n, v, _). OPT_PRICE n v) xs) R"
  have v: "v \<noteq> []" "\<not> is_ws (hd v)" using Cons.prems(2) by (auto simp: x price_ok_def)
  show ?case
  proof (cases u)
    case None
    have "mt ?R k (RS p (prices_text xs @ 41 # t) c) = Some y"
      using Cons.prems by (intro Cons.IH) (auto simp: x None prices_text_def)
    moreover have "mt (OPT_PRICE n v) (mt ?R k) (RS p (prices_text xs @ 41 # t) c) = mt ?R k (RS p (prices_text xs @ 41 # t) c)"
      using prices_head [of xs t]
    proof (elim disjE exE conjE)
      fix m w u u' r
      assume h: "(m, w, u') \<in> set xs" "prices_text xs @ 41 # t = price_text w u @ r"
      have "differs v w" using Cons.prems(1) h(1) by (auto simp: x)
      moreover have "w \<noteq> []" "\<not> is_ws (hd w)" using Cons.prems(2) h(1) by (auto simp: price_ok_def)
      ultimately show ?thesis unfolding h(2) using v by (intro opt_price_skip)
    qed (simp add: opt_price_end)
    ultimately show ?thesis by (simp add: x None prices_text_def mt_Seq)
  next
    case (Some w)
    have "mt ?R k (RS (rev (price_text v w) @ p) (prices_text xs @ 41 # t) ((n, w) # c)) = Some y"
      using Cons.prems by (intro Cons.IH) (auto simp: x Some prices_text_def)
    moreover have "num_text w" using Cons.prems(2) by (simp add: x Some price_ok_def)
    ultimately have "mt (OPT_PRICE n v) (mt ?R k) (RS p (price_text v w @ prices_text xs @ 41 # t) c) = Some y"
      using prices_ends v by (intro opt_price_some) auto
    then show ?thesis by (simp add: x Some prices_text_def mt_Seq)
  qed
qed (simp add: prices_text_def)

subsection \<open>A printed tier\<close>

definition cost_ok :: "jsnum \<Rightarrow> bool" where
  "cost_ok v = (case v of Fin x \<Rightarrow> double x | _ \<Rightarrow> False)"

definition tier_ok :: "visual_tier \<Rightarrow> bool" where
  "tier_ok t \<longleftrightarrow> vt_label t \<noteq> [] \<and> 34 \<notin> set (vt_label t) \<and> cost_ok (vt_input_unit_cost t) \<and> cost_ok (vt_output_unit_cost t)
     \<and> list_all (\<lambda>(_, v). cost_ok v) (extras_of t)"

definition tier_prices :: "nat \<Rightarrow> visual_tier \<Rightarrow> price list" where
  "tier_prices n t = map (\<lambda>(i, (f, v)). (n + i, v, let x = num_or_zero (map_of (extras_of t) f)
     in if x \<noteq> Fin 0 then Some (num_to_string x) else None)) (enumerate 0 BILLING_CACHE_VAR_MAP)"

definition tier_caps :: "nat \<Rightarrow> visual_tier \<Rightarrow> (nat \<times> jsstr) list \<Rightarrow> (nat \<times> jsstr) list" where
  "tier_caps n t c = prices_caps (tier_prices (n + 3) t) ((n + 2, num_to_string (vt_output_unit_cost t))
     # (n + 1, num_to_string (vt_input_unit_cost t)) # (n, vt_label t) # c)"

lemma cost_ok_num: "cost_ok v \<Longrightarrow> num_text (num_to_string v)" "cost_ok v \<Longrightarrow> to_number (num_to_string v) = v"
    "cost_ok v \<Longrightarrow> num_or_zero (Some v) = v"
  by (auto simp: cost_ok_def num_or_zero_def num_text_double number_string simp del: num_to_string.simps split: jsnum.splits)

lemma cache_vars: "BILLING_CACHE_VAR_MAP = [(js ''cache_read_unit_cost'', js ''cr''), (js ''cache_create_unit_cost'', js ''cc''),
    (js ''cache_create_1h_unit_cost'', js ''cc1h''), (js ''image_unit_cost'', js ''img''), (js ''image_output_unit_cost'', js ''img_o''),
    (js ''audio_input_unit_cost'', js ''ai''), (js ''audio_output_unit_cost'', js ''ao'')]"
  by (simp add: BILLING_CACHE_VAR_MAP_def BILLING_EXTRA_VARS_def BILLING_VARS_def)

lemma keys_differ: "sorted_wrt differs (map snd BILLING_CACHE_VAR_MAP)"
  by (simp add: cache_vars differs_def lit is_ws_def)

lemma keys_start: "v \<in> set (map snd BILLING_CACHE_VAR_MAP) \<Longrightarrow> v \<noteq> [] \<and> \<not> is_ws (hd v)"
  by (auto simp: cache_vars lit is_ws_def)

lemma map_snd_enumerate: "map (\<lambda>(i, x). f x) (enumerate n xs) = map f xs"
  by (induction xs arbitrary: n) simp_all

lemma tier_prices_sorted: "sorted_wrt (\<lambda>(_, v, _) (_, w, _). differs v w) (tier_prices n t)"
proof -
  have "map (\<lambda>(_, v, _). v) (tier_prices n t) = map snd BILLING_CACHE_VAR_MAP"
    using map_snd_enumerate [of snd 0 BILLING_CACHE_VAR_MAP] by (simp add: tier_prices_def comp_def split_def)
  then have "sorted_wrt differs (map (\<lambda>(_, v, _). v) (tier_prices n t))" using keys_differ by simp
  then show ?thesis unfolding sorted_wrt_map by (simp add: split_def)
qed

lemma enumerate_snd: "x \<in> set (enumerate n xs) \<Longrightarrow> snd x \<in> set xs"
  by (metis enumerate_eq_zip in_set_zipE surj_pair snd_conv)

lemma extra_cost: "tier_ok t \<Longrightarrow> num_or_zero (map_of (extras_of t) f) = Fin 0 \<or> cost_ok (num_or_zero (map_of (extras_of t) f))"
proof (cases "map_of (extras_of t) f")
  case (Some v)
  assume "tier_ok t"
  moreover from Some have "(f, v) \<in> set (extras_of t)" by (rule map_of_SomeD)
  ultimately have "cost_ok v" by (auto simp: tier_ok_def list_all_iff)
  with Some show ?thesis by (simp add: cost_ok_num)
qed (simp add: num_or_zero_def)

lemma tier_prices_ok: "tier_ok t \<Longrightarrow> \<forall>x \<in> set (tier_prices n t). price_ok x"
proof
  fix x
  assume t: "tier_ok t" and "x \<in> set (tier_prices n t)"
  then obtain i f v where x: "(i, f, v) \<in> set (enumerate 0 BILLING_CACHE_VAR_MAP)" "x = (n + i, v, let x = num_or_zero (map_of (extras_of t) f)
     in if x \<noteq> Fin 0 then Some (num_to_string x) else None)" by (auto simp: tier_prices_def)
  have "v \<noteq> [] \<and> \<not> is_ws (hd v)" using keys_start enumerate_snd [OF x(1)] by (metis image_eqI list.set_map snd_conv)
  with extra_cost [OF t, of f] show "price_ok x" by (auto simp: x(2) price_ok_def Let_def cost_ok_num)
qed

lemma join_terms: "join (js '' + '') (a # b # zs) = a @ js '' + '' @ b @ concat (map (\<lambda>z. js '' + '' @ z) zs)"
  by (induction zs arbitrary: a b) simp_all

lemma body_text:
  assumes "tier_ok t"
  shows "buildTierBodyExpr t = js ''p * '' @ num_to_string (vt_input_unit_cost t) @ js '' + c * '' @ num_to_string (vt_output_unit_cost t)
    @ prices_text (tier_prices n t)"
proof -
  have "concat (map (\<lambda>z. js '' + '' @ z) (List.map_filter (\<lambda>(f, v). let x = num_or_zero (map_of (extras_of t) f)
      in if x \<noteq> Fin 0 then Some (v @ js '' * '' @ num_to_string x) else None) vs)) =
    prices_text (map (\<lambda>(i, (f, v)). (n + i, v, let x = num_or_zero (map_of (extras_of t) f)
      in if x \<noteq> Fin 0 then Some (num_to_string x) else None)) (enumerate m vs))" for vs m
    by (induction vs arbitrary: m) (auto simp: prices_text_def price_text_def Let_def)
  moreover have "cost_ok (vt_input_unit_cost t)" "cost_ok (vt_output_unit_cost t)" using assms by (simp_all add: tier_ok_def)
  ultimately show ?thesis
    unfolding buildTierBodyExpr_def append_Cons append_Nil join_terms tier_prices_def by (simp add: cost_ok_num) (simp add: lit)
qed

lemma label_match:
  assumes "34 \<notin> set l"
  shows "mt (Grp n (Star (Cls (\<lambda>c. c \<noteq> 34)))) (mt (Seq (Str (js ''\",'')) R) k) (RS p (l @ 34 # t) c) =
    mt (Seq (Str (js ''\",'')) R) k (RS (rev l @ p) (34 # t) ((n, l) # c))"
proof -
  let ?k = "\<lambda>s'. mt (Seq (Str (js ''\",'')) R) k (RS (rs_pre s') (rs_rest s') ((n, take (length (l @ 34 # t) - length (rs_rest s')) (l @ 34 # t)) # rs_caps s'))"
  have "mt (Star (Cls (\<lambda>c. c \<noteq> 34))) ?k (RS p (l @ 34 # t) c) = ?k (RS (rev l @ p) (34 # t) c)"
    by (rule mt_Star_Cls_stop) (use assms in \<open>auto simp: mt_Seq mt_Str lit\<close>)
  then show ?thesis by (simp add: mt_Grp)
qed

lemma base_prices:
  assumes "num_text a" "num_text b" "ends_price r" "mt R k (RS (rev (js ''p * '' @ a @ js '' + c * '' @ b) @ p) r ((n + 1, b) # (n, a) # c)) = Some y"
  shows "mt (foldr Seq [Str (js ''p''), WS, Str (js ''*''), WS, Grp n NUM, WS, Str (js ''+''), WS, Str (js ''c''), WS, Str (js ''*''), WS, Grp (n + 1) NUM] R) k
    (RS p (js ''p * '' @ a @ js '' + c * '' @ b @ r) c) = Some y"
proof -
  obtain z t where r: "r = z # t" "\<not> num_unit z" using ends_price_cases [OF assms(3)] by auto
  let ?s = "rev a @ 32 # 42 # 32 # 112 # p"
  have "mt (Grp (n + 1) NUM) (mt R k) (RS (32 # 42 # 32 # 99 # 32 # 43 # 32 # ?s) (b @ z # t) ((n, a) # c)) = Some y"
    using assms(4) r by (intro num_some [OF assms(2)]) (simp_all add: lit)
  then have "mt WS (mt (Grp (n + 1) NUM) (mt R k)) (RS (42 # 32 # 99 # 32 # 43 # 32 # ?s) (32 # b @ z # t) ((n, a) # c)) = Some y"
    by (rule ws_num [OF assms(2)])
  then have "mt (foldr Seq [WS, Str (js ''+''), WS, Str (js ''c''), WS, Str (js ''*''), WS, Grp (n + 1) NUM] R) k
      (RS ?s (32 # 43 # 32 # 99 # 32 # 42 # 32 # b @ z # t) ((n, a) # c)) = Some y"
    by (simp add: ws_space mt_Seq mt_Str lit)
  then have "mt (Grp n NUM) (mt (foldr Seq [WS, Str (js ''+''), WS, Str (js ''c''), WS, Str (js ''*''), WS, Grp (n + 1) NUM] R) k)
      (RS (32 # 42 # 32 # 112 # p) (a @ 32 # 43 # 32 # 99 # 32 # 42 # 32 # b @ z # t) c) = Some y"
    by (intro num_some [OF assms(1)]) simp_all
  then have "mt WS (mt (Grp n NUM) (mt (foldr Seq [WS, Str (js ''+''), WS, Str (js ''c''), WS, Str (js ''*''), WS, Grp (n + 1) NUM] R) k))
      (RS (42 # 32 # 112 # p) (32 # a @ 32 # 43 # 32 # 99 # 32 # 42 # 32 # b @ z # t) c) = Some y"
    by (rule ws_num [OF assms(1)])
  then show ?thesis by (simp add: ws_space mt_Seq mt_Str lit r(1))
qed

lemma opt_prices_map: "map (\<lambda>(i, (_, v)). OPT_PRICE (n + i) v) (enumerate 0 BILLING_CACHE_VAR_MAP) = map (\<lambda>(n, v, _). OPT_PRICE n v) (tier_prices n t)"
  by (simp add: tier_prices_def comp_def split_def)

lemma tier_match:
  assumes "tier_ok t" "mt R k (RS (rev (tier_text d t) @ p) r (tier_caps n t c)) = Some y"
  shows "mt (TIER_THEN n R) k (RS p (tier_text d t @ r) c) = Some y"
proof -
  let ?a = "num_to_string (vt_input_unit_cost t)" and ?b = "num_to_string (vt_output_unit_cost t)" and ?l = "vt_label t"
  let ?ps = "tier_prices (n + 3) t" and ?h = "js ''tier(\"'' @ vt_label t @ js ''\", ''"
  have nums: "num_text ?a" "num_text ?b" using assms(1) by (simp_all add: tier_ok_def cost_ok_num)
  have text_eq: "tier_text d t = ?h @ js ''p * '' @ ?a @ js '' + c * '' @ ?b @ prices_text ?ps @ [41]"
    using assms(1) body_text [OF assms(1), of "n + 3"] by (simp add: tier_text_def tier_ok_def lit)
  let ?p = "rev ?h @ p" and ?c = "(n, ?l) # c"
  have "mt (foldr Seq (map (\<lambda>(n, v, _). OPT_PRICE n v) ?ps) (Seq (Str (js '')'')) R)) k
      (RS (rev (js ''p * '' @ ?a @ js '' + c * '' @ ?b) @ ?p) (prices_text ?ps @ 41 # r) ((n + 2, ?b) # (n + 1, ?a) # ?c)) = Some y"
    using assms(2) tier_prices_sorted tier_prices_ok [OF assms(1)]
    by (intro opts_match) (simp_all add: mt_Seq mt_Str lit text_eq tier_caps_def)
  from base_prices [where n = "n + 1" and r = "prices_text ?ps @ 41 # r", OF nums prices_ends] this
  have "mt (BODY_THEN (n + 1) (Seq (Str (js '')'')) R)) k (RS ?p (js ''p * '' @ ?a @ js '' + c * '' @ ?b @ prices_text ?ps @ 41 # r) ?c) = Some y"
    using opt_prices_map [of "n + 3" t] by (simp add: BODY_THEN_def add.commute [of _ "Suc 0"] numeral_3_eq_3 foldr_append)
  then show ?thesis
    using assms(1) label_match [of ?l n] by (simp add: TIER_THEN_def text_eq mt_Seq mt_Str lit ws_space tier_ok_def)
qed

subsection \<open>Reading a tier back\<close>

lemma map_of_prices_caps:
  "distinct (map fst xs) \<Longrightarrow> map_of (prices_caps xs c) k = (case map_of xs k of Some (_, Some u) \<Rightarrow> Some u | _ \<Rightarrow> map_of c k)"
proof (induction xs c rule: prices_caps.induct)
  case (3 n v u xs c)
  then have "map_of xs n = None" by (simp add: map_of_eq_None_iff)
  with 3 show ?case by (auto split: option.split)
next
  case (2 n v xs c)
  then have "map_of xs n = None" by (simp add: map_of_eq_None_iff)
  with 2 show ?case by (auto split: option.split)
qed simp

lemma map_of_enumerate: "map_of (map (\<lambda>(i, x). (n + i, f x)) (enumerate m xs)) (n + j) =
    (if m \<le> j \<and> j < m + length xs then Some (f (xs ! (j - m))) else None)"
  by (induction xs arbitrary: m) (auto simp: nth_Cons')

lemma distinct_enumerate: "distinct (map (\<lambda>(i, x). (n + i :: nat)) (enumerate m xs))"
proof -
  have "map (\<lambda>(i, x). n + i) (enumerate m xs) = map ((+) n) (map fst (enumerate m xs))" by (simp only: map_map comp_def split_def)
  then have "map (\<lambda>(i, x). n + i) (enumerate m xs) = map ((+) n) [m..<m + length xs]" by simp
  then show ?thesis by (simp add: distinct_map)
qed

lemma tier_prices_fst: "distinct (map fst (tier_prices n t))"
  using distinct_enumerate [of n 0 BILLING_CACHE_VAR_MAP] by (simp add: tier_prices_def comp_def split_def)

lemma map_of_tier_prices:
  "map_of (tier_prices n t) (n + j) = (if j < length BILLING_CACHE_VAR_MAP
     then Some (snd (BILLING_CACHE_VAR_MAP ! j), let x = num_or_zero (map_of (extras_of t) (fst (BILLING_CACHE_VAR_MAP ! j)))
       in if x \<noteq> Fin 0 then Some (num_to_string x) else None) else None)"
  using map_of_enumerate [of n "\<lambda>(f, v). (v, let x = num_or_zero (map_of (extras_of t) f) in if x \<noteq> Fin 0 then Some (num_to_string x) else None)"
      0 BILLING_CACHE_VAR_MAP j]
  by (simp add: tier_prices_def split_def)

lemma map_of_tier_prices_below: "k < n \<Longrightarrow> map_of (tier_prices n t) k = None"
  by (auto simp: map_of_eq_None_iff tier_prices_def)

lemma tier_caps_below: "k < n + 3 \<Longrightarrow> capture (tier_caps n t c) k = capture ((n + 2, num_to_string (vt_output_unit_cost t))
     # (n + 1, num_to_string (vt_input_unit_cost t)) # (n, vt_label t) # c) k"
  by (simp add: capture_def tier_caps_def map_of_prices_caps tier_prices_fst map_of_tier_prices_below)

lemma grp_capture: "grp m n = (case capture m n of None \<Rightarrow> [] | Some w \<Rightarrow> w)"
  by (simp add: grp_def capture_def)

lemma map_of_captured:
  assumes "distinct (map fst vs)" "i < length vs"
  shows "map_of (List.map_filter (\<lambda>(i, (f, _)). map_option (\<lambda>v. (f, g v)) (h i)) (enumerate m vs)) (fst (vs ! i)) = map_option g (h (m + i))"
  using assms
proof (induction vs arbitrary: m i)
  case (Cons x vs)
  have k: "map_of (List.map_filter (\<lambda>(i, (f, _)). map_option (\<lambda>v. (f, g v)) (h i)) (enumerate m' vs)) (fst x) = None" for m'
    using Cons.prems(1)
  proof (induction vs arbitrary: m')
    case (Cons y vs)
    then show ?case by (cases x; cases y) (auto split: option.split)
  qed simp
  show ?case
  proof (cases i)
    case 0
    then show ?thesis using k [of "Suc m"] by (cases x) (auto split: option.split)
  next
    case (Suc j)
    then have "vs ! j \<in> set vs" using Cons.prems(2) by simp
    then have "fst (vs ! j) \<noteq> fst x" using Cons.prems(1) by (metis distinct.simps(2) image_eqI list.set_map list.simps(9))
    with Suc Cons.IH [of j "Suc m"] Cons.prems show ?thesis by (cases x) (auto split: option.split)
  qed
qed simp

lemma extras_back:
  assumes "tier_ok t" "i < length BILLING_CACHE_VAR_MAP" "\<And>k. n + 3 \<le> k \<Longrightarrow> capture c k = None"
  shows "num_or_zero (map_of (captured_extras (n + 3) (tier_caps n t c)) (fst (BILLING_CACHE_VAR_MAP ! i))) =
    num_or_zero (map_of (extras_of t) (fst (BILLING_CACHE_VAR_MAP ! i)))"
proof -
  let ?f = "fst (BILLING_CACHE_VAR_MAP ! i)"
  let ?x = "num_or_zero (map_of (extras_of t) ?f)"
  have "distinct (map fst BILLING_CACHE_VAR_MAP)" by (simp add: cache_vars)
  then have "map_of (captured_extras (n + 3) (tier_caps n t c)) ?f = map_option to_number (capture (tier_caps n t c) (n + 3 + i))"
    unfolding captured_extras_def using assms(2) by (subst map_of_captured) simp_all
  also have "capture (tier_caps n t c) (n + 3 + i) = (if ?x \<noteq> Fin 0 then Some (num_to_string ?x) else None)"
    using assms(2) assms(3) [of "n + 3 + i"]
    by (simp add: capture_def tier_caps_def map_of_prices_caps tier_prices_fst map_of_tier_prices Let_def)
  finally show ?thesis using extra_cost [OF assms(1), of ?f] by (auto simp: cost_ok_num) (auto simp: num_or_zero_def)
qed

definition read_mode :: "visual_tier \<Rightarrow> jsstr" where
  "read_mode t = (if num_less (Fin 0) (vt_cache_create_1h_unit_cost t) then CACHE_MODE_TIMED else CACHE_MODE_GENERIC)"

lemma read_tier_back:
  assumes "tier_ok t" "\<And>k. n + 3 \<le> k \<Longrightarrow> capture c k = None"
  shows "read_visual_tier n cs (tier_caps n t c) = t\<lparr>vt_conditions := cs, vt_cache_mode := read_mode t\<rparr>"
proof -
  have x: "num_or_zero (map_of (captured_extras (n + 3) (tier_caps n t c)) (fst (BILLING_CACHE_VAR_MAP ! i))) =
      num_or_zero (map_of (extras_of t) (fst (BILLING_CACHE_VAR_MAP ! i)))" if "i < 7" for i
    using extras_back [OF assms(1) _ assms(2)] that by (simp add: cache_vars)
  have "cost_ok (vt_cache_read_unit_cost t)" "cost_ok (vt_cache_create_unit_cost t)" "cost_ok (vt_cache_create_1h_unit_cost t)"
    "cost_ok (vt_image_unit_cost t)" "cost_ok (vt_image_output_unit_cost t)" "cost_ok (vt_audio_input_unit_cost t)"
    "cost_ok (vt_audio_output_unit_cost t)" "cost_ok (vt_input_unit_cost t)" "cost_ok (vt_output_unit_cost t)"
    using assms(1) by (simp_all add: tier_ok_def extras_of_def)
  moreover have "grp (tier_caps n t c) n = vt_label t" "grp (tier_caps n t c) (n + 1) = num_to_string (vt_input_unit_cost t)"
      "grp (tier_caps n t c) (n + 2) = num_to_string (vt_output_unit_cost t)"
    by (simp_all add: grp_capture tier_caps_below)
  ultimately show ?thesis
    using x [of 0] x [of 1] x [of 2] x [of 3] x [of 4] x [of 5] x [of 6]
    by (simp add: read_visual_tier_def normalizeVisualTier_def cost_ok_num cache_vars extras_of_def getTierCacheMode_def read_mode_def)
qed

subsection \<open>Printed conditions\<close>

definition cond_ok :: "tier_condition \<Rightarrow> bool" where
  "cond_ok c \<longleftrightarrow> cond_var c \<in> {js ''p'', js ''c'', js ''len''} \<and> cond_op c \<in> {js ''<'', js ''<='', js ''>'', js ''>=''}
     \<and> (case cond_value c of Some (NumVal (Fin x)) \<Rightarrow> double x \<and> 45 \<notin> set (num_to_string (Fin x)) | _ \<Rightarrow> False)"

definition cond_text :: "jsstr \<Rightarrow> bool" where
  "cond_text u \<longleftrightarrow> u \<noteq> [] \<and> (\<forall>x \<in> set u. cond_unit x)"

lemma cond_ok_cases:
  assumes "cond_ok c"
  obtains x where "cond_value c = Some (NumVal (Fin x))" "double x" "cond_text (num_to_string (Fin x))"
proof -
  obtain x where x: "cond_value c = Some (NumVal (Fin x))" "double x" "45 \<notin> set (num_to_string (Fin x))"
    using assms by (auto simp: cond_ok_def split: option.splits tier_value.splits jsnum.splits)
  have "\<forall>d \<in> set (num_to_string (Fin x)). num_char d"
    using x(2) show_pos_props(2) [of x] x(3) by (cases "0 < x"; cases "x = 0") (auto simp: lit num_char_def is_digit_def)
  then have "cond_text (num_to_string (Fin x))"
    using x(3) num_text_double [OF x(2)] by (fastforce simp: cond_text_def num_text_def num_char_def cond_unit_def simp del: num_to_string.simps)
  with x that show ?thesis by blast
qed

lemma cond_num:
  assumes "cond_text u" "r = [] \<or> \<not> cond_unit (hd r)" "k (RS (rev u @ p) r c) = Some y"
  shows "mt COND_NUM k (RS p (u @ r) c) = Some y"
proof -
  obtain x v where u: "u = x # v" "cond_unit x" using assms(1) by (cases u) (auto simp: cond_text_def)
  have "mt (Star (Cls cond_unit)) k (RS (x # p) (v @ r) c) = Some y"
    using assms u by (intro mt_Star_Cls_greedy) (auto simp: cond_text_def)
  with u show ?thesis by (simp add: mt_Seq mt_Cls)
qed

lemma cond_hd: "cond_text u \<Longrightarrow> \<exists>x v. u = x # v \<and> \<not> is_ws x \<and> x \<noteq> 61"
  by (cases u) (auto simp: cond_text_def cond_unit_def is_ws_def is_digit_def)

lemma ws_cond: "cond_text u \<Longrightarrow> k (RS (32 # p) (u @ r) c) = Some y \<Longrightarrow> mt WS k (RS p (32 # u @ r) c) = Some y"
  using cond_hd [of u] by (auto simp: ws_space)

lemma not_cond_units [simp]: "\<not> cond_unit 32" "\<not> cond_unit 61"
  by (simp_all add: cond_unit_def is_digit_def)

lemma condition_some:
  assumes "cond_ok d" "k (RS (rev (condition_text d) @ p) (32 # r) c) = Some y"
  shows "mt CONDITION k (RS p (condition_text d @ 32 # r) c) = Some y"
proof -
  obtain x where x: "cond_value d = Some (NumVal (Fin x))" "cond_text (num_to_string (Fin x))" using cond_ok_cases [OF assms(1)] by blast
  define u where "u = num_to_string (Fin x)"
  have u: "cond_text u" "condition_text d = cond_var d @ 32 # cond_op d @ 32 # u"
    using x by (simp_all add: u_def condition_text_def value_text_def lit del: num_to_string.simps)
  let ?q = "rev (cond_op d) @ 32 # rev (cond_var d) @ p"
  have "mt COND_NUM k (RS (32 # ?q) (u @ 32 # r) c) = Some y" using assms(2) u by (intro cond_num) auto
  then have "mt WS (mt COND_NUM k) (RS ?q (32 # u @ 32 # r) c) = Some y" by (rule ws_cond [OF u(1)])
  then show ?thesis
    using assms(1) unfolding cond_ok_def
    by (elim conjE insertE emptyE) (simp_all add: CONDITION_def u(2) mt_Seq mt_Alt mt_Str mt_Cls ws_space ws_none lit)
qed

definition more_conditions :: "tier_condition list \<Rightarrow> jsstr" where
  "more_conditions cs = concat (map (\<lambda>c. js '' && '' @ condition_text c) cs)"

lemma more_conditions_Cons: "more_conditions (c # cs) = 32 # 38 # 38 # 32 # condition_text c @ more_conditions cs"
  by (simp add: more_conditions_def lit)

lemma more_conditions_start: "\<exists>r'. more_conditions cs @ 32 # r = 32 # r'"
  by (cases cs) (simp_all add: more_conditions_Cons, simp add: more_conditions_def)

lemma condition_hd: "cond_ok c \<Longrightarrow> \<exists>x r. condition_text c = x # r \<and> x \<in> {112, 99, 108} \<and> \<not> is_ws x"
  by (auto simp: cond_ok_def condition_text_def lit)

abbreviation AND_CONDITION :: regex where
  "AND_CONDITION \<equiv> Seqs [WS, Str (js ''&&''), WS, CONDITION]"

lemma star_conditions:
  assumes "\<forall>c \<in> set cs. cond_ok c" "length cs \<le> n" "k (RS (rev (more_conditions cs) @ p) (32 # 63 # r) c) = Some y"
  shows "star_mt (mt AND_CONDITION) n k (RS p (more_conditions cs @ 32 # 63 # r) c) = Some y"
  using assms
proof (induction cs arbitrary: n p)
  case Nil
  have "mt AND_CONDITION k' (RS p (32 # 63 # r) c) = None" for k' by (simp add: mt_Seq mt_Str ws_space lit)
  with Nil show ?case by (cases n) (simp_all add: more_conditions_def)
next
  case (Cons d cs)
  then obtain m where n: "n = Suc m" by (cases n) auto
  let ?t = "more_conditions cs @ 32 # 63 # r" and ?q = "32 # 38 # 38 # 32 # p" and ?s = "RS p (more_conditions (d # cs) @ 32 # 63 # r) c"
  let ?k = "\<lambda>s'. if length (rs_rest s') < length (rs_rest ?s) then star_mt (mt AND_CONDITION) m k s' else None"
  have "star_mt (mt AND_CONDITION) m k (RS (rev (condition_text d) @ ?q) ?t c) = Some y"
    using Cons.prems n by (intro Cons.IH) (auto simp: more_conditions_Cons)
  then have "?k (RS (rev (condition_text d) @ ?q) ?t c) = Some y" by (simp add: more_conditions_Cons)
  moreover obtain r' where r': "?t = 32 # r'" using more_conditions_start by blast
  ultimately have "mt CONDITION ?k (RS ?q (condition_text d @ 32 # r') c) = Some y"
    using Cons.prems(1) unfolding r' by (intro condition_some) auto
  moreover obtain x v where "condition_text d = x # v" "\<not> is_ws x" using condition_hd [of d] Cons.prems(1) by auto
  ultimately have "mt AND_CONDITION ?k ?s = Some y"
    unfolding more_conditions_Cons append_Cons append_assoc r' by (simp add: mt_Seq mt_Str ws_space lit)
  then show ?case unfolding n star_mt.simps by (simp only: option.case)
qed

lemma conditions_text: "buildConditionStr (c # cs) = condition_text c @ more_conditions cs" if "\<forall>d \<in> set (c # cs). cond_ok d"
proof -
  have "cond_ok d \<Longrightarrow> complete_condition d" for d
    by (auto simp: cond_ok_def complete_condition_def split: option.splits tier_value.splits)
  then have "filter complete_condition (c # cs) = c # cs" using that by (simp add: filter_id_conv)
  moreover have "join (js '' && '') (map condition_text (c # cs)) = condition_text c @ more_conditions cs"
    by (induction cs arbitrary: c) (simp_all add: more_conditions_def)
  ultimately show ?thesis by (simp add: buildConditionStr_def)
qed

lemma condition_group:
  assumes "\<forall>d \<in> set (c # cs). cond_ok d"
    "k (RS (rev (buildConditionStr (c # cs)) @ p) (32 # 63 # r) ((1, buildConditionStr (c # cs)) # cc)) = Some y"
  shows "mt COND_GROUP k (RS p (buildConditionStr (c # cs) @ 32 # 63 # r) cc) = Some y"
proof -
  let ?b = "buildConditionStr (c # cs)" and ?t = "more_conditions cs @ 32 # 63 # r"
  let ?k = "\<lambda>s'. k (RS (rs_pre s') (rs_rest s') ((1, take (length (?b @ 32 # 63 # r) - length (rs_rest s')) (?b @ 32 # 63 # r)) # rs_caps s'))"
  have b: "?b = condition_text c @ more_conditions cs" using assms(1) by (rule conditions_text)
  have "star_mt (mt AND_CONDITION) (length ?t) ?k (RS (rev (condition_text c) @ p) ?t cc) = Some y"
  proof (rule star_conditions)
    have "length cs \<le> length (more_conditions cs)" by (induction cs) (simp_all add: more_conditions_def lit)
    then show "length cs \<le> length ?t" by simp
  qed (use assms b in auto)
  then have "mt (Star AND_CONDITION) ?k (RS (rev (condition_text c) @ p) ?t cc) = Some y" by (simp only: mt_Star)
  moreover obtain r' where r': "?t = 32 # r'" using more_conditions_start by blast
  ultimately have "mt CONDITION (mt (Star AND_CONDITION) ?k) (RS p (condition_text c @ ?t) cc) = Some y"
    using assms(1) unfolding r' by (intro condition_some) auto
  then show ?thesis unfolding COND_GROUP_def mt_Grp mt_Seq b append_assoc by simp
qed

subsection \<open>Reading conditions back\<close>

lemma split_fails:
  assumes "dropWhile is_ws xs = [] \<or> hd (dropWhile is_ws xs) \<noteq> 38"
  shows "mt COND_SPLIT k (RS p xs c) = None"
proof -
  have "mt (Seq (Str (js ''&&'')) WS) k (RS q (drop i xs) c) = None" if "i \<le> length (takeWhile is_ws xs)" for i q
  proof (cases "i = length (takeWhile is_ws xs)")
    case True
    then have "drop i xs = dropWhile is_ws xs" by (simp add: dropWhile_eq_drop)
    with assms show ?thesis by (cases "dropWhile is_ws xs") (simp_all add: mt_Seq mt_Str lit)
  next
    case False
    then have i: "i < length (takeWhile is_ws xs)" using that by simp
    then have "is_ws (xs ! i)" by (metis nth_mem set_takeWhileD takeWhile_nth)
    moreover have "drop i xs = xs ! i # drop (Suc i) xs" using i length_takeWhile_le [of is_ws xs] by (intro Cons_nth_drop_Suc [symmetric]) linarith
    moreover have "\<not> is_ws 38" by simp
    ultimately show ?thesis by (auto simp: mt_Seq mt_Str lit)
  qed
  then have "try_down (\<lambda>i. mt (Seq (Str (js ''&&'')) WS) k (RS (rev (take i xs) @ p) (drop i xs) c)) (length (takeWhile is_ws xs)) = None"
    by (intro try_down_None)
  then show ?thesis by (simp add: COND_SPLIT_def mt_Seq [of WS] mt_Star_Cls)
qed

definition solid :: "jsstr \<Rightarrow> bool" where
  "solid w \<longleftrightarrow> w \<noteq> [] \<and> \<not> is_ws (last w) \<and> 38 \<notin> set w"

lemma solid_start: "solid w \<Longrightarrow> dropWhile is_ws (w @ r) \<noteq> [] \<and> hd (dropWhile is_ws (w @ r)) \<noteq> 38"
  by (induction w) (auto simp: solid_def split: if_splits)

lemma find_none: "solid w \<Longrightarrow> find_from COND_SPLIT p w = None"
proof (induction w arbitrary: p)
  case (Cons x w)
  have "mt COND_SPLIT Some (RS p (x # w) []) = None" using split_fails solid_start [OF Cons.prems, of "[]"] by simp
  moreover have "find_from COND_SPLIT (x # p) w = None"
  proof (cases "w = []")
    case True
    then show ?thesis using split_fails [of "[]"] by simp
  next
    case False
    then show ?thesis using Cons by (simp add: solid_def)
  qed
  ultimately show ?case by simp
qed (simp add: solid_def)

lemma find_and:
  assumes "\<not> is_ws x"
  shows "solid w \<Longrightarrow> find_from COND_SPLIT p (w @ 32 # 38 # 38 # 32 # x # r) =
    Some (w, RS (32 # 38 # 38 # 32 # rev w @ p) (x # r) [])"
proof (induction w arbitrary: p)
  case (Cons y w)
  have "mt COND_SPLIT Some (RS p (y # w @ 32 # 38 # 38 # 32 # x # r) []) = None"
    using split_fails solid_start [OF Cons.prems, of "32 # 38 # 38 # 32 # x # r"] by simp
  moreover have "find_from COND_SPLIT (y # p) (w @ 32 # 38 # 38 # 32 # x # r) = Some (w, RS (32 # 38 # 38 # 32 # rev w @ y # p) (x # r) [])"
  proof (cases "w = []")
    case True
    then show ?thesis using assms by (simp add: COND_SPLIT_def mt_Seq mt_Str ws_space lit)
  next
    case False
    then show ?thesis using Cons by (simp add: solid_def)
  qed
  ultimately show ?case by simp
qed (simp add: solid_def)

lemma condition_solid: "cond_ok c \<Longrightarrow> solid (condition_text c)"
proof -
  assume c: "cond_ok c"
  obtain x where x: "cond_value c = Some (NumVal (Fin x))" "cond_text (num_to_string (Fin x))" using cond_ok_cases [OF c] by blast
  have "cond_unit d \<Longrightarrow> \<not> is_ws d \<and> d \<noteq> 38" for d by (auto simp: cond_unit_def is_ws_def is_digit_def)
  then have "\<not> is_ws (last (num_to_string (Fin x)))" "38 \<notin> set (num_to_string (Fin x))" "num_to_string (Fin x) \<noteq> []"
    using x(2) last_in_set unfolding cond_text_def by blast+
  then show ?thesis using c x(1) by (auto simp: solid_def condition_text_def value_text_def cond_ok_def lit simp del: num_to_string.simps)
qed

lemma split_conditions:
  assumes "\<forall>d \<in> set (c # cs). cond_ok d"
  shows "re_split COND_SPLIT p (condition_text c @ more_conditions cs) = map condition_text (c # cs)"
  using assms
proof (induction cs arbitrary: c p)
  case Nil
  then show ?case by (subst re_split.simps) (simp add: more_conditions_def find_none condition_solid)
next
  case (Cons d cs)
  obtain x v where x: "condition_text d = x # v" "\<not> is_ws x" using condition_hd [of d] Cons.prems by auto
  let ?r = "condition_text d @ more_conditions cs"
  have "find_from COND_SPLIT p (condition_text c @ more_conditions (d # cs)) = Some (condition_text c, RS (32 # 38 # 38 # 32 # rev (condition_text c) @ p) ?r [])"
    using find_and [OF x(2) condition_solid, of c p "v @ more_conditions cs"] Cons.prems by (simp add: more_conditions_Cons x(1))
  then show ?case using Cons by (subst re_split.simps) (simp add: more_conditions_Cons)
qed

lemma read_condition_back:
  assumes "cond_ok c"
  shows "read_condition (condition_text c) = Some c"
proof -
  obtain x where x: "cond_value c = Some (NumVal (Fin x))" "double x" "cond_text (num_to_string (Fin x))" using cond_ok_cases [OF assms] by blast
  define u where "u = num_to_string (Fin x)"
  have u: "cond_text u" "condition_text c = cond_var c @ 32 # cond_op c @ 32 # u"
    using x by (simp_all add: u_def condition_text_def value_text_def lit del: num_to_string.simps)
  have tr: "trim (condition_text c) = condition_text c"
    using condition_hd [OF assms] condition_solid [OF assms] by (intro trim_id) (auto simp: trimmed_def solid_def)
  have n: "mt (Grp 3 COND_NUM) (mt Eol Some) (RS q (u @ []) cc) = Some (RS (rev u @ q) [] ((3, u) # cc))" for q cc
    using u(1) by (intro mt_Grp_Plus_greedy) (auto simp: cond_text_def mt_Eol)
  have w: "mt WS (mt (Grp 3 COND_NUM) (mt Eol Some)) (RS q (32 # u) cc) = Some (RS (rev u @ 32 # q) [] ((3, u) # cc))" for q cc
    using ws_cond [OF u(1), of "mt (Grp 3 COND_NUM) (mt Eol Some)" q "[]" cc] n [of "32 # q" cc] by simp
  have "\<exists>q. mt (Seqs [Grp 1 COND_VARS, WS, Grp 2 COND_OPS, WS, Grp 3 COND_NUM, Eol]) Some (RS [] (condition_text c) []) =
      Some (RS q [] [(3, u), (2, cond_op c), (1, cond_var c)])"
    using assms unfolding cond_ok_def
    by (elim conjE insertE emptyE) (simp_all add: u(2) mt_Seq [of "Grp a b" for a b] mt_Seq [of WS] mt_Grp [of _ "Alt a b" for a b] mt_Alt mt_Str ws_space ws_none w lit
        mt_Grp [of 3] mt_Seq mt_Cls)
  then have "re_match COND_ONE (trim (condition_text c)) = Some [(3, u), (2, cond_op c), (1, cond_var c)]"
    by (auto simp: tr COND_ONE_def re_match_Bol)
  moreover have "to_number u = Fin x" unfolding u_def by (rule number_string [OF x(2)])
  ultimately show ?thesis using x(1) by (simp add: read_condition_def)
qed

lemma read_conditions_back:
  assumes "\<forall>d \<in> set cs. cond_ok d"
  shows "read_conditions (buildConditionStr cs) = cs"
proof (cases cs)
  case Nil
  then show ?thesis by (simp add: read_conditions_def buildConditionStr_def)
next
  case (Cons d ds)
  have "List.map_filter read_condition (map condition_text es) = es" if "\<forall>e \<in> set es. cond_ok e" for es
    using that by (induction es) (simp_all add: read_condition_back)
  moreover have "buildConditionStr cs \<noteq> []" using Cons assms conditions_text [of d ds] condition_hd [of d] by auto
  ultimately show ?thesis using assms Cons conditions_text [of d ds] split_conditions [of d ds "[]"] by (simp add: read_conditions_def del: list.map)
qed

end
