(* ===== verification/BillingTiersProps.thy ===== *)
theory BillingTiersProps
  imports BillingTiersMatch
begin

text \<open>
  The visual editor of tiered prices reads back the expressions it writes, and the price page shows
  the tiers and prices of such an expression. The locale \<open>tier_reader\<close> is what both parsers know of a
  tier: a pattern that reads a printed tier and what it captures.
\<close>

subsection \<open>Tiers in an expression\<close>

definition config_ok :: "visual_tier list \<Rightarrow> bool" where
  "config_ok ts \<longleftrightarrow> ts \<noteq> [] \<and> list_all (\<lambda>t. tier_ok t \<and> list_all cond_ok (vt_conditions t)) ts
     \<and> (1 < length ts \<longrightarrow> vt_conditions (last ts) = [])"

definition part_ok :: "visual_tier \<Rightarrow> bool" where
  "part_ok t \<longleftrightarrow> tier_ok t \<and> (\<forall>c \<in> set (vt_conditions t). cond_ok c)"

definition printed_part :: "visual_tier \<Rightarrow> jsstr" where
  "printed_part t = (let b = buildConditionStr (vt_conditions t) in if b \<noteq> [] then b @ js '' ? '' @ tier_text [] t else tier_text [] t)"

text \<open>What the condition of a tier captures.\<close>

definition cond_caps :: "visual_tier \<Rightarrow> (nat \<times> jsstr) list" where
  "cond_caps t = (let b = buildConditionStr (vt_conditions t) in if b \<noteq> [] then [(1, b)] else [])"

definition maybe_condition :: "regex \<Rightarrow> regex" where
  "maybe_condition T = Seq (Opt (Seqs [COND_GROUP, WS, Str (js ''?''), WS])) T"

lemma tier_text_start: "\<exists>r'. tier_text d t = 116 # 105 # r'"
  by (simp add: tier_text_def lit)

lemma not_a_condition: "x \<notin> {112, 99, 108} \<Longrightarrow> mt (Seqs [COND_GROUP, WS, Str (js ''?''), WS]) k (RS p (x # r) c) = None"
  by (simp add: COND_GROUP_def CONDITION_def mt_Grp mt_Seq mt_Alt mt_Str lit)

lemma label_default: "tier_ok t \<Longrightarrow> tier_text d t = tier_text [] t"
  by (simp add: tier_text_def tier_ok_def)

lemma conditions_Nil: "\<forall>c \<in> set cs. cond_ok c \<Longrightarrow> buildConditionStr cs = [] \<longleftrightarrow> cs = []"
proof (cases cs)
  case (Cons d ds)
  assume "\<forall>c \<in> set cs. cond_ok c"
  then show ?thesis using Cons conditions_text [of d ds] condition_hd [of d] by auto
qed (simp add: buildConditionStr_def)

lemma part_nonempty: "printed_part t \<noteq> []"
  using tier_text_start [of "[]" t] by (auto simp: printed_part_def Let_def)

lemma exec_none: "search_from r p xs = None \<Longrightarrow> exec_all r p xs = []"
  by (simp add: exec_all.simps)

lemma exec_some:
  assumes "mt r Some (RS p xs []) = Some (RS p' ys c)" "length ys < length xs"
  shows "exec_all r p xs = c # exec_all r p' ys"
proof -
  have "search_from r p xs = Some (RS p' ys c)" using assms by (cases xs) simp_all
  with assms(2) show ?thesis by (subst exec_all.simps) simp
qed

lemma with_condition:
  assumes "mt (Seqs [COND_GROUP, WS, Str (js ''?''), WS]) (mt T Some) s = Some y"
  shows "mt (maybe_condition T) Some s = Some y"
  using assms by (simp only: maybe_condition_def mt_Seq [of "Opt a" for a] mt_Opt option.case)

lemma without_condition: "x \<notin> {112, 99, 108} \<Longrightarrow> mt (maybe_condition T) k (RS p (x # r) c) = mt T k (RS p (x # r) c)"
  unfolding maybe_condition_def mt_Seq [of "Opt a" for a] mt_Opt by (subst not_a_condition) simp_all

lemma without_price:
  "mt (maybe_condition T) k (RS p (112 # 32 # 42 # r) c) = mt T k (RS p (112 # 32 # 42 # r) c)"
  "mt (maybe_condition T) k (RS p (99 # 32 # 42 # r) c) = mt T k (RS p (99 # 32 # 42 # r) c)"
  "mt (maybe_condition T) k (RS p [] c) = mt T k (RS p [] c)"
  by (simp_all add: maybe_condition_def COND_GROUP_def CONDITION_def mt_Grp mt_Seq mt_Opt mt_Alt mt_Str ws_space lit)

locale tier_reader =
  fixes T :: regex and caps :: "visual_tier \<Rightarrow> (nat \<times> jsstr) list \<Rightarrow> (nat \<times> jsstr) list"
  assumes reads_tier: "tier_ok t \<Longrightarrow> mt T Some (RS p (tier_text [] t @ r) c) = Some (RS (rev (tier_text [] t) @ p) r (caps t c))"
    and no_tier: "x \<noteq> 116 \<Longrightarrow> mt T k (RS p (x # r) c) = None"
    and no_tier_end: "mt T k (RS p [] c) = None"
begin

lemma part_match:
  assumes "part_ok t"
  shows "mt (maybe_condition T) Some (RS p (printed_part t @ r) []) = Some (RS (rev (printed_part t) @ p) r (caps t (cond_caps t)))"
proof -
  obtain r' where r': "tier_text [] t = 116 # r'" using tier_text_start by blast
  show ?thesis
  proof (cases "vt_conditions t")
    case Nil
    then show ?thesis using assms reads_tier [of t p r "[]"] without_condition [of 116 T Some p "r' @ r" "[]"]
      by (simp add: printed_part_def cond_caps_def part_ok_def buildConditionStr_def r')
  next
    case (Cons c cs)
    define b where "b = buildConditionStr (c # cs)"
    have cs: "\<forall>d \<in> set (c # cs). cond_ok d" and t: "tier_ok t" using assms Cons by (simp_all add: part_ok_def)
    then have "b \<noteq> []" using conditions_Nil [of "c # cs"] by (simp add: b_def)
    then have part: "printed_part t = b @ js '' ? '' @ tier_text [] t" "cond_caps t = [(1, b)]"
      using Cons by (simp_all add: printed_part_def cond_caps_def b_def)
    let ?y = "RS (rev (printed_part t) @ p) r (caps t [(1, b)])"
    have "mt T Some (RS (rev (b @ js '' ? '') @ p) (tier_text [] t @ r) [(1, b)]) = Some ?y"
      using reads_tier [OF t] by (simp add: part(1))
    then have "mt WS (mt T Some) (RS (63 # 32 # rev b @ p) (32 # tier_text [] t @ r) [(1, b)]) = Some ?y"
      by (simp add: r' ws_space lit)
    then have "mt (Seqs [WS, Str (js ''?''), WS]) (mt T Some) (RS (rev b @ p) (32 # 63 # 32 # tier_text [] t @ r) [(1, b)]) = Some ?y"
      by (simp add: mt_Seq mt_Str ws_space lit)
    then have "mt COND_GROUP (mt (Seqs [WS, Str (js ''?''), WS]) (mt T Some)) (RS p (b @ 32 # 63 # 32 # tier_text [] t @ r) []) = Some ?y"
      unfolding b_def by (intro condition_group [OF cs])
    then have "mt (Seqs [COND_GROUP, WS, Str (js ''?''), WS]) (mt T Some) (RS p (printed_part t @ r) []) = Some ?y"
      by (simp add: mt_Seq part(1) lit)
    then show ?thesis unfolding part(2) by (rule with_condition)
  qed
qed

lemma no_part: "x \<noteq> 116 \<Longrightarrow> x \<notin> {112, 99, 108} \<Longrightarrow> mt (maybe_condition T) k (RS p (x # r) c) = None"
  by (simp add: without_condition no_tier)

lemma exec_separator:
  assumes "mt (maybe_condition T) Some (RS (32 # 58 # 32 # p) xs []) = Some (RS p' ys c)" "length ys < length xs"
  shows "exec_all (maybe_condition T) p (32 # 58 # 32 # xs) = c # exec_all (maybe_condition T) p' ys"
proof -
  have "search_from (maybe_condition T) (32 # 58 # 32 # p) xs = Some (RS p' ys c)" using assms by (cases xs) simp_all
  then have "search_from (maybe_condition T) p (32 # 58 # 32 # xs) = Some (RS p' ys c)" by (simp add: no_part)
  with assms(2) show ?thesis by (subst exec_all.simps) simp
qed

lemma exec_more:
  "\<forall>t \<in> set ts. part_ok t \<Longrightarrow>
    exec_all (maybe_condition T) p (concat (map (\<lambda>t. 32 # 58 # 32 # printed_part t) ts)) = map (\<lambda>t. caps t (cond_caps t)) ts"
proof (induction ts arbitrary: p)
  case Nil
  show ?case using exec_none [of "maybe_condition T" p "[]"] by (simp add: without_price no_tier_end)
next
  case (Cons t ts)
  let ?r = "concat (map (\<lambda>t. 32 # 58 # 32 # printed_part t) ts)"
  have "exec_all (maybe_condition T) p (32 # 58 # 32 # printed_part t @ ?r) =
      caps t (cond_caps t) # exec_all (maybe_condition T) (rev (printed_part t) @ 32 # 58 # 32 # p) ?r"
    using Cons.prems part_nonempty by (intro exec_separator part_match) auto
  with Cons show ?case by simp
qed

lemma exec_parts:
  "\<forall>t \<in> set (t # ts). part_ok t \<Longrightarrow> exec_all (maybe_condition T) p (printed_part t @ concat (map (\<lambda>t. 32 # 58 # 32 # printed_part t) ts)) =
    map (\<lambda>t. caps t (cond_caps t)) (t # ts)"
  by (subst exec_some [OF part_match]) (simp_all add: part_nonempty exec_more)

lemma exec_fallback:
  assumes "part_ok t"
  shows "exec_all (maybe_condition T) p (printed_part t @ js '' : p * 0 + c * 0'') = [caps t (cond_caps t)]"
proof -
  have "exec_all (maybe_condition T) q (js '' : p * 0 + c * 0'') = []" for q
    by (rule exec_none) (simp add: lit no_part without_price no_tier no_tier_end)
  then show ?thesis using assms part_nonempty by (subst exec_some [OF part_match]) auto
qed

end

interpretation visual: tier_reader "TIER_THEN 2 (Str [])" "tier_caps 2"
proof unfold_locales
  show "mt (TIER_THEN 2 (Str [])) Some (RS p (tier_text [] t @ r) c) = Some (RS (rev (tier_text [] t) @ p) r (tier_caps 2 t c))" if "tier_ok t" for t p r c
    using that by (intro tier_match) (simp_all add: mt_Str)
qed (simp_all add: TIER_THEN_def mt_Seq mt_Str lit)

lemma visual_tier_re: "VISUAL_TIER_RE = maybe_condition (TIER_THEN 2 (Str []))"
  by (simp add: VISUAL_TIER_RE_def maybe_condition_def)

lemma config_ok_parts: "config_ok ts \<Longrightarrow> \<forall>t \<in> set ts. part_ok t"
  by (simp add: config_ok_def part_ok_def list_all_iff)

lemma tier_part_printed:
  assumes "part_ok t" "i < n - 1 \<or> vt_conditions t = []"
  shows "tier_part n i t = printed_part t"
  using assms label_default [of t "js ''tier_'' @ show_nat (i + 1)"]
  by (auto simp: tier_part_def printed_part_def Let_def part_ok_def buildConditionStr_def)

lemma parts_printed:
  assumes "config_ok ts" "1 < length ts"
  shows "map (\<lambda>(i, t). tier_part (length ts) i t) (enumerate 0 ts) = map printed_part ts"
proof (rule nth_equalityI)
  fix i
  assume "i < length (map (\<lambda>(i, t). tier_part (length ts) i t) (enumerate 0 ts))"
  then have i: "i < length ts" by simp
  have "i < length ts - 1 \<or> vt_conditions (ts ! i) = []"
  proof (cases "i = length ts - 1")
    case True
    then have "ts ! i = last ts" using i by (cases ts) (simp_all add: last_conv_nth)
    with assms show ?thesis by (simp add: config_ok_def)
  qed (use i in auto)
  then show "map (\<lambda>(i, t). tier_part (length ts) i t) (enumerate 0 ts) ! i = map printed_part ts ! i"
    using i config_ok_parts [OF assms(1)] by (simp add: nth_enumerate_eq tier_part_printed)
qed simp

lemma join_colon: "join (js '' : '') (x # xs) = x @ concat (map (\<lambda>y. 32 # 58 # 32 # y) xs)"
  by (induction xs arbitrary: x) (simp_all add: lit)

lemma generate_many:
  assumes "config_ok (t # t' # ts)"
  shows "generateExprFromVisualConfig (Some (t # t' # ts)) = printed_part t @ concat (map (\<lambda>t. 32 # 58 # 32 # printed_part t) (t' # ts))"
proof -
  have "generateExprFromVisualConfig (Some (t # t' # ts)) = join (js '' : '') (map printed_part (t # t' # ts))"
    using parts_printed [OF assms] by (simp add: generateExprFromVisualConfig_def)
  then show ?thesis by (simp only: list.map join_colon) (simp add: comp_def)
qed

lemma generate_one:
  assumes "part_ok t"
  shows "generateExprFromVisualConfig (Some [t]) =
    (if vt_conditions t = [] then tier_text [] t else printed_part t @ js '' : p * 0 + c * 0'')"
  using assms conditions_Nil [of "vt_conditions t"] label_default [of t "js ''default''"]
  by (auto simp: generateExprFromVisualConfig_def printed_part_def Let_def part_ok_def buildConditionStr_def)

text \<open>What both parsers find in a generated expression, tier after tier.\<close>

context tier_reader
begin

lemma exec_generated:
  assumes "config_ok ts"
  shows "exec_all (maybe_condition T) p (generateExprFromVisualConfig (Some ts)) = map (\<lambda>t. caps t (cond_caps t)) ts"
proof -
  have parts: "\<forall>t \<in> set ts. part_ok t" "ts \<noteq> []" using assms config_ok_parts by (auto simp: config_ok_def)
  then obtain t us where ts: "ts = t # us" by (cases ts) auto
  show ?thesis
  proof (cases us)
    case Nil
    have t: "part_ok t" using parts ts by simp
    have "printed_part t = tier_text [] t" if "vt_conditions t = []" using that by (simp add: printed_part_def buildConditionStr_def)
    then show ?thesis using ts Nil t exec_fallback [of t p] exec_parts [of t "[]" p] by (auto simp: generate_one)
  next
    case (Cons u vs)
    then show ?thesis using ts assms parts generate_many [of t u vs] exec_parts [of t us p] by simp
  qed
qed

end

subsection \<open>Reading into the editor\<close>

lemma read_part:
  assumes "part_ok t"
  shows "read_visual_tier 2 (read_conditions (grp (tier_caps 2 t (cond_caps t)) 1)) (tier_caps 2 t (cond_caps t)) = t\<lparr>vt_cache_mode := read_mode t\<rparr>"
proof -
  have "grp (tier_caps 2 t (cond_caps t)) 1 = buildConditionStr (vt_conditions t)"
    by (simp add: grp_capture cond_caps_def tier_caps_below Let_def)
  then have c: "read_conditions (grp (tier_caps 2 t (cond_caps t)) 1) = vt_conditions t" using assms by (simp add: read_conditions_back part_ok_def)
  have "read_visual_tier 2 (vt_conditions t) (tier_caps 2 t (cond_caps t)) = t\<lparr>vt_conditions := vt_conditions t, vt_cache_mode := read_mode t\<rparr>"
    unfolding cond_caps_def Let_def using assms by (intro read_tier_back) (auto simp: part_ok_def)
  then show ?thesis unfolding c by simp
qed

lemma mt_seq_all: "mt (foldr Seq rs r) k = mt (foldr Seq rs (Str [])) (mt r k)"
proof (induction rs)
  case Nil
  show ?case
  proof
    fix s
    show "mt (foldr Seq [] r) k s = mt (foldr Seq [] (Str [])) (mt r k) s" by (cases s) (simp add: mt_Str)
  qed
qed (simp add: mt_Seq)

lemma single_fails:
  assumes "34 \<notin> set l" "58 \<in> set r"
  shows "mt (TIER_THEN 1 Eol) Some (RS [] (js ''tier(\"'' @ l @ js ''\",'' @ r) []) = None"
proof (rule ccontr)
  let ?B = "BODY_THEN 2 (Str [])" and ?E = "mt (Seq (Str (js '')'')) Eol) Some"
  assume "\<not> ?thesis"
  then obtain y where "mt (TIER_THEN 1 Eol) Some (RS [] (js ''tier(\"'' @ l @ js ''\",'' @ r) []) = Some y" by blast
  moreover have "mt (BODY_THEN 2 (Seq (Str (js '')'')) Eol)) Some = mt ?B ?E" unfolding BODY_THEN_def by (rule mt_seq_all)
  ultimately have "mt (Seq WS ?B) ?E (RS (rev (js ''tier(\"'' @ l @ js ''\",'')) r [(1, l)]) = Some y"
    using label_match [OF assms(1), of 1] by (simp add: TIER_THEN_def mt_Seq mt_Str lit del: One_nat_def)
  moreover have "made_of (\<lambda>c. c \<noteq> 58) (Seq WS ?B)"
    by (auto simp: BODY_THEN_def OPT_PRICE_def cache_vars lit is_ws_def num_unit_def is_digit_def)
  ultimately obtain s' where s': "reads (\<lambda>c. c \<noteq> 58) (RS (rev (js ''tier(\"'' @ l @ js ''\",'')) r [(1, l)]) s'" "?E s' = Some y"
    using mt_reads by blast
  then have "rs_rest s' = [41]" by (cases s') (auto simp: mt_Seq mt_Str mt_Eol lit strip_prefix_Some split: option.splits if_splits)
  with s'(1) assms(2) show False by (auto simp: reads_def)
qed

lemma enumerate_map: "enumerate n (map g xs) = map (\<lambda>(i, x). (i, g x)) (enumerate n xs)"
  by (induction xs arbitrary: n) simp_all

lemma generate_mode: "generateExprFromVisualConfig (Some (map (\<lambda>t. t\<lparr>vt_cache_mode := f t\<rparr>) ts)) = generateExprFromVisualConfig (Some ts)"
proof -
  have "tier_text d (t\<lparr>vt_cache_mode := m\<rparr>) = tier_text d t" for d t m
    by (simp add: tier_text_def buildTierBodyExpr_def extras_of_def)
  then have "tier_part n i (t\<lparr>vt_cache_mode := m\<rparr>) = tier_part n i t" "tier_text d (t\<lparr>vt_cache_mode := m\<rparr>) = tier_text d t" for n i d t m
    by (simp_all add: tier_part_def)
  then show ?thesis
    by (cases ts rule: list.exhaust; cases "tl ts") (auto simp: generateExprFromVisualConfig_def enumerate_map comp_def split_def)
qed

lemma normalize_read:
  assumes "\<forall>t \<in> set ts. part_ok t" "ts \<noteq> []"
  shows "normalizeVisualConfig (Some (map (\<lambda>t. t\<lparr>vt_cache_mode := read_mode t\<rparr>) ts)) = map (\<lambda>t. t\<lparr>vt_cache_mode := read_mode t\<rparr>) ts"
proof -
  have "normalizeVisualTier (as_partial (t\<lparr>vt_cache_mode := m\<rparr>)) = t\<lparr>vt_cache_mode := m\<rparr>" if "tier_ok t" for t m
    using that by (simp add: normalizeVisualTier_def as_partial_def extras_of_def tier_ok_def cost_ok_num)
  then show ?thesis using assms by (auto simp: normalizeVisualConfig_def part_ok_def)
qed

lemma no_version: "x \<noteq> 118 \<Longrightarrow> re_match VISUAL_VERSION (x # r) = None"
  by (simp add: VISUAL_VERSION_def re_match_Bol mt_Seq mt_Str lit)

lemma part_hd: "part_ok t \<Longrightarrow> \<exists>x r. printed_part t = x # r \<and> x \<in> {116, 112, 99, 108} \<and> (vt_conditions t \<noteq> [] \<longrightarrow> x \<noteq> 116)"
proof (cases "vt_conditions t")
  case Nil
  then show ?thesis using tier_text_start [of "[]" t] by (auto simp: printed_part_def buildConditionStr_def)
next
  case (Cons c cs)
  assume "part_ok t"
  then show ?thesis using Cons conditions_text [of c cs] condition_hd [of c] by (auto simp: printed_part_def part_ok_def)
qed

lemma single_no_match:
  assumes "part_ok t" "58 \<in> set r"
  shows "re_match SINGLE_RE (printed_part t @ r) = None"
proof (cases "vt_conditions t = []")
  case True
  then have "printed_part t @ r = js ''tier(\"'' @ vt_label t @ js ''\",'' @ (32 # buildTierBodyExpr t @ 41 # r)"
    using assms(1) by (simp add: printed_part_def buildConditionStr_def tier_text_def part_ok_def tier_ok_def lit)
  then show ?thesis using single_fails [of "vt_label t" "32 # buildTierBodyExpr t @ 41 # r"] assms
    by (simp add: SINGLE_RE_def re_match_Bol part_ok_def tier_ok_def del: One_nat_def)
next
  case False
  then obtain x v where "printed_part t = x # v" "x \<noteq> 116" using part_hd [OF assms(1)] by auto
  then show ?thesis by (simp add: SINGLE_RE_def re_match_Bol TIER_THEN_def mt_Seq mt_Str lit)
qed

lemma parse_parts:
  assumes ok: "config_ok ts" and r: "58 \<in> set r" and body: "generateExprFromVisualConfig (Some ts) = printed_part (hd ts) @ r"
  shows "tryParseVisualConfig (generateExprFromVisualConfig (Some ts)) = Some (map (\<lambda>t. t\<lparr>vt_cache_mode := read_mode t\<rparr>) ts)"
proof -
  have parts: "\<forall>t \<in> set ts. part_ok t" "ts \<noteq> []" using ok config_ok_parts by (auto simp: config_ok_def)
  then have h: "part_ok (hd ts)" by simp
  obtain x v where x: "printed_part (hd ts) = x # v" "x \<in> {116, 112, 99, 108}" using part_hd [OF h] by blast
  have ex: "exec_all VISUAL_TIER_RE [] (printed_part (hd ts) @ r) = map (\<lambda>t. tier_caps 2 t (cond_caps t)) ts"
    using visual.exec_generated [OF ok, of "[]"] by (simp add: visual_tier_re body)
  have "map (\<lambda>m. read_visual_tier 2 (read_conditions (grp m 1)) m) (map (\<lambda>t. tier_caps 2 t (cond_caps t)) ts) =
      map (\<lambda>t. t\<lparr>vt_cache_mode := read_mode t\<rparr>) ts"
    using parts(1) by (simp add: read_part del: One_nat_def)
  moreover have "re_match VISUAL_VERSION (printed_part (hd ts) @ r) = None" using x by (auto simp: no_version)
  ultimately show ?thesis
    using single_no_match [OF h r] normalize_read [OF parts] parts(2) body generate_mode [of read_mode ts]
    by (simp add: tryParseVisualConfig_def Let_def ex part_nonempty del: One_nat_def map_map)
qed

lemma config_read_back:
  assumes "config_ok ts"
  shows "tryParseVisualConfig (generateExprFromVisualConfig (Some ts)) = Some (map (\<lambda>t. t\<lparr>vt_cache_mode := read_mode t\<rparr>) ts)"
proof -
  have parts: "\<forall>t \<in> set ts. part_ok t" "ts \<noteq> []" using assms config_ok_parts by (auto simp: config_ok_def)
  show ?thesis
  proof (cases ts rule: list.exhaust)
    case (Cons t us)
    have t: "part_ok t" using parts Cons by simp
    show ?thesis
    proof (cases us)
      case (Cons u vs)
      with \<open>ts = t # us\<close> assms generate_many [of t u vs] show ?thesis
        by (intro parse_parts [where r = "concat (map (\<lambda>t. 32 # 58 # 32 # printed_part t) us)"]) simp_all
    next
      case Nil
      show ?thesis
      proof (cases "vt_conditions t = []")
        case False
        then show ?thesis using \<open>ts = t # us\<close> Nil generate_one [OF t] assms
          by (intro parse_parts [where r = "js '' : p * 0 + c * 0''"]) (simp_all add: lit)
      next
        case True
        have ok: "tier_ok t" using t by (simp add: part_ok_def)
        obtain r' where r': "tier_text [] t = 116 # r'" using tier_text_start by blast
        have "mt (TIER_THEN 1 Eol) Some (RS [] (tier_text [] t @ []) []) = Some (RS (rev (tier_text [] t)) [] (tier_caps 1 t []))"
          using ok by (intro tier_match) (simp_all add: mt_Eol)
        then have "re_match SINGLE_RE (tier_text [] t) = Some (tier_caps 1 t [])" by (simp add: SINGLE_RE_def re_match_Bol del: One_nat_def)
        moreover have "read_visual_tier 1 [] (tier_caps 1 t []) = t\<lparr>vt_cache_mode := read_mode t\<rparr>"
          using read_tier_back [OF ok, of 1 "[]" "[]"] True by simp
        moreover have "re_match VISUAL_VERSION (tier_text [] t) = None" by (simp add: r' no_version)
        ultimately show ?thesis using \<open>ts = t # us\<close> Nil True generate_one [OF t] normalize_read [OF parts] r'
          by (simp add: tryParseVisualConfig_def Let_def del: One_nat_def)
      qed
    qed
  qed (use parts in simp)
qed

text \<open>
  C1: the visual editor reads back the price expression it writes: for any number of tiers with
  labels free of quotes, conditions on \<^verbatim>\<open>p\<close>, \<^verbatim>\<open>c\<close> and \<^verbatim>\<open>len\<close> and prices that are doubles, parsing the generated
  text gives the same tiers; only the cache mode is derived anew from the one hour price.
\<close>

theorem visual_config_roundtrip:
  assumes "config_ok ts"
  shows "tryParseVisualConfig (generateExprFromVisualConfig (Some ts)) = Some (map (\<lambda>t. t\<lparr>vt_cache_mode := read_mode t\<rparr>) ts)"
  using assms by (rule config_read_back)

definition sample_tier :: "jsstr \<Rightarrow> tier_condition list \<Rightarrow> jsnum \<Rightarrow> visual_tier" where
  "sample_tier l cs x = normalizeVisualTier \<lparr>pv_label = Some l, pv_conditions = Some cs, pv_input_unit_cost = Some (Fin (of_nat 3)),
     pv_output_unit_cost = Some (Fin (of_nat 15)), pv_cache_mode = None, pv_extra = [(js ''cache_create_1h_unit_cost'', x)]\<rparr>"

definition sample_config :: "visual_tier list" where
  "sample_config = [sample_tier (js ''short'') [\<lparr>cond_var = js ''len'', cond_op = js ''<='', cond_value = Some (NumVal (Fin (of_nat 200000)))\<rparr>] (Fin (of_nat 6)),
     sample_tier (js ''long'') [] (Fin 0)]"

lemma sample_tier_ok: "l \<noteq> [] \<Longrightarrow> 34 \<notin> set l \<Longrightarrow> cost_ok x \<Longrightarrow> tier_ok (sample_tier l cs x) \<and> vt_conditions (sample_tier l cs x) = cs"
proof -
  assume l: "l \<noteq> []" "34 \<notin> set l" and x: "cost_ok x"
  have d: "double 0" "double (of_nat 3)" "double (of_nat 15)" using rnd_nat [of 0] rnd_nat [of 3] rnd_nat [of 15] by (simp_all add: double_def)
  have "num_or_zero (Some x) = x" "num_or_zero None = Fin 0" using x by (simp_all add: cost_ok_num) (simp add: num_or_zero_def)
  with l x d show ?thesis by (simp add: sample_tier_def normalizeVisualTier_def tier_ok_def extras_of_def) (simp add: cost_ok_def)
qed

lemma sample_config_ok: "config_ok sample_config"
proof -
  have n: "45 \<notin> set (show_nat m)" for m using show_nat_digits [of 45 m] by (auto simp: is_digit_def)
  have c: "cost_ok (Fin (of_nat 6))" "cost_ok (Fin 0)" "double (of_nat 200000)"
    using rnd_nat [of 6] rnd_nat [of 0] rnd_nat [of 200000] by (simp_all add: cost_ok_def double_def)
  have "cond_ok \<lparr>cond_var = js ''len'', cond_op = js ''<='', cond_value = Some (NumVal (Fin (of_nat 200000)))\<rparr>"
    using c(3) n [of 200000] num_to_string_nat [of 200000] by (simp add: cond_ok_def del: num_to_string.simps)
  moreover have "tier_ok (sample_tier (js ''short'') cs (Fin (of_nat 6)))" "tier_ok (sample_tier (js ''long'') cs (Fin 0))"
      "vt_conditions (sample_tier (js ''short'') cs (Fin (of_nat 6))) = cs" "vt_conditions (sample_tier (js ''long'') cs (Fin 0)) = cs" for cs
    using sample_tier_ok [of _ "Fin (of_nat 6)"] sample_tier_ok [of _ "Fin 0"] c(1,2) by (simp_all add: lit)
  ultimately show ?thesis unfolding config_ok_def sample_config_def by simp
qed

theorem visual_config_roundtrip_witness:
  "tryParseVisualConfig (generateExprFromVisualConfig (Some sample_config)) = Some (map (\<lambda>t. t\<lparr>vt_cache_mode := read_mode t\<rparr>) sample_config)"
  by (rule visual_config_roundtrip [OF sample_config_ok])

end
