(* ===== verification/ShownTiers.thy ===== *)
theory ShownTiers
  imports BillingTiersProps
begin

text \<open>
  The price page on the expressions of the visual editor: \<^verbatim>\<open>parseTiersFromExpr\<close> of
  \<^verbatim>\<open>pricing/lib/billing-expr.ts\<close> after \<^verbatim>\<open>generateExprFromVisualConfig\<close> of \<^verbatim>\<open>pricing/lib/tier-expr.ts\<close>.
\<close>

subsection \<open>The terms of a body\<close>

definition term_text :: "jsstr \<times> jsnum \<Rightarrow> jsstr" where
  "term_text = (\<lambda>(v, x). v @ js '' * '' @ num_to_string x)"

definition body_terms :: "visual_tier \<Rightarrow> (jsstr \<times> jsnum) list" where
  "body_terms t = (js ''p'', vt_input_unit_cost t) # (js ''c'', vt_output_unit_cost t)
     # List.map_filter (\<lambda>(f, v). let x = num_or_zero (map_of (extras_of t) f) in if x \<noteq> Fin 0 then Some (v, x) else None) BILLING_CACHE_VAR_MAP"

lemma map_map_filter: "map g (List.map_filter f xs) = List.map_filter (\<lambda>x. map_option g (f x)) xs"
  by (induction xs) (auto split: option.split)

lemma body_as_terms: "tier_ok t \<Longrightarrow> buildTierBodyExpr t = join (js '' + '') (map term_text (body_terms t))"
proof -
  assume "tier_ok t"
  then have "cost_ok (vt_input_unit_cost t)" "cost_ok (vt_output_unit_cost t)" by (simp_all add: tier_ok_def)
  moreover have "js ''p * '' = js ''p'' @ js '' * ''" "js ''c * '' = js ''c'' @ js '' * ''" by (simp_all add: lit)
  ultimately show ?thesis
    by (simp add: buildTierBodyExpr_def body_terms_def cost_ok_num map_map_filter term_text_def Let_def split_def if_distrib [of "map_option f" for f] cong: if_cong)
qed

definition price_keys :: "jsstr list" where
  "price_keys = [js ''p'', js ''c'', js ''cr'', js ''cc'', js ''cc1h'', js ''img'', js ''img_o'', js ''ai'', js ''ao'']"

lemma pricing_keys: "map bv_key BILLING_PRICING_VARS = price_keys"
  by (simp add: BILLING_PRICING_VARS_def BILLING_VARS_def price_keys_def)

lemma term_match:
  assumes "v \<in> set price_keys" "num_text u" "p = [] \<or> hd p = 32" "r = [] \<or> hd r = 32"
  shows "mt BILLING_VAR_REGEX Some (RS p (v @ js '' * '' @ u @ r) []) = Some (RS (rev (v @ js '' * '' @ u) @ p) r [(2, u), (1, v)])"
proof -
  have num: "mt (Grp 2 NUM) Some (RS q (u @ r) c) = Some (RS (rev u @ q) r ((2, u) # c))" for q c
    using assms(2,4) by (intro mt_Grp_Plus_greedy) (auto simp: num_text_def)
  have ws: "mt WS (mt (Grp 2 NUM) Some) (RS q (32 # u @ r) c) = Some (RS (rev u @ 32 # q) r ((2, u) # c))" for q c
    using num by (intro ws_num [OF assms(2)])
  have b: "\<not> (case p of [] \<Rightarrow> False | c # _ \<Rightarrow> is_word c)" using assms(3) by (cases p) (simp_all add: is_word_def is_digit_def)
  show ?thesis
    using assms(1) b ws unfolding price_keys_def
    by (auto simp: BILLING_VAR_REGEX_def pricing_keys price_keys_def boundary_def mt_Seq mt_WordB mt_Grp mt_Alt mt_Str ws_space ws_none is_ws_def is_word_def is_digit_def lit)
qed

lemma no_term: "x = 32 \<or> x = 43 \<Longrightarrow> mt BILLING_VAR_REGEX k (RS p (x # r) c) = None"
  by (auto simp: BILLING_VAR_REGEX_def pricing_keys price_keys_def mt_Seq mt_WordB mt_Grp mt_Alt mt_Str lit)

lemma no_term_end: "mt BILLING_VAR_REGEX k (RS p [] c) = None"
  by (simp add: BILLING_VAR_REGEX_def pricing_keys price_keys_def mt_Seq mt_WordB mt_Grp mt_Alt mt_Str lit)

definition term_ok :: "jsstr \<times> jsnum \<Rightarrow> bool" where
  "term_ok = (\<lambda>(v, x). v \<in> set price_keys \<and> cost_ok x)"

definition term_caps :: "jsstr \<times> jsnum \<Rightarrow> (nat \<times> jsstr) list" where
  "term_caps = (\<lambda>(v, x). [(2, num_to_string x), (1, v)])"

lemma exec_term:
  assumes "term_ok t" "p = [] \<or> hd p = 32" "r = [] \<or> hd r = 32"
  shows "exec_all BILLING_VAR_REGEX p (term_text t @ r) = term_caps t # exec_all BILLING_VAR_REGEX (rev (term_text t) @ p) r"
proof -
  obtain v x where t: "t = (v, x)" by (cases t)
  have "mt BILLING_VAR_REGEX Some (RS p (term_text t @ r) []) = Some (RS (rev (term_text t) @ p) r (term_caps t))"
    using term_match [of v "num_to_string x" p r] assms by (simp add: t term_ok_def term_text_def term_caps_def cost_ok_num)
  then show ?thesis by (rule exec_some) (simp add: t term_text_def lit)
qed

lemma exec_skip:
  assumes "mt r Some (RS p (x # xs) []) = None" "search_from r (x # p) xs = Some s" "length (rs_rest s) < length xs"
  shows "exec_all r p (x # xs) = exec_all r (x # p) xs"
  using assms by (simp add: exec_all.simps [of r p] exec_all.simps [of r "x # p"])

lemma exec_terms:
  "\<forall>t \<in> set (t # ts). term_ok t \<Longrightarrow> p = [] \<or> hd p = 32 \<Longrightarrow>
    exec_all BILLING_VAR_REGEX p (join (js '' + '') (map term_text (t # ts))) = map term_caps (t # ts)"
proof (induction ts arbitrary: t p)
  case Nil
  have "exec_all BILLING_VAR_REGEX q [] = []" for q by (rule exec_none) (simp add: no_term_end)
  with Nil exec_term [of t p "[]"] show ?case by simp
next
  case (Cons u us)
  let ?r = "join (js '' + '') (map term_text (u # us))" and ?q = "rev (term_text t) @ p"
  have u: "exec_all BILLING_VAR_REGEX (32 # 43 # 32 # ?q) ?r = map term_caps (u # us)" using Cons.prems by (intro Cons.IH) simp_all
  then obtain s where s: "search_from BILLING_VAR_REGEX (32 # 43 # 32 # ?q) ?r = Some s" "length (rs_rest s) < length ?r"
    by (subst (asm) exec_all.simps) (auto split: option.splits if_splits)
  then have "exec_all BILLING_VAR_REGEX ?q (32 # 43 # 32 # ?r) = exec_all BILLING_VAR_REGEX (32 # 43 # 32 # ?q) ?r"
    by (subst exec_skip [where s = s], simp_all add: no_term)+
  then show ?case using Cons.prems u exec_term [of t p "32 # 43 # 32 # ?r"] by (simp add: lit)
qed

lemma first_coeffs:
  "distinct (map fst (cs @ ts)) \<Longrightarrow> \<forall>t \<in> set ts. term_ok t \<Longrightarrow> foldl first_coeff cs (map term_caps ts) = cs @ ts"
proof (induction ts arbitrary: cs)
  case (Cons t ts)
  obtain v x where t: "t = (v, x)" by (cases t)
  have "map_of cs v = None" using Cons.prems(1) by (auto simp: t map_of_eq_None_iff)
  then have "first_coeff cs (term_caps t) = cs @ [t]"
    using Cons.prems(2) by (simp add: t first_coeff_def term_caps_def term_ok_def cost_ok_num grp_capture)
  with Cons show ?case by simp
qed simp

lemma filter_keys: "set (map fst (List.map_filter (\<lambda>(f, v). if P f then Some (v, g f) else None) vs)) \<subseteq> set (map snd vs)"
  by (induction vs) (force split: if_splits)+

lemma distinct_filter_keys: "distinct (map snd vs) \<Longrightarrow> distinct (map fst (List.map_filter (\<lambda>(f, v). if P f then Some (v, g f) else None) vs))"
proof (induction vs)
  case (Cons a vs)
  obtain f v where a: "a = (f, v)" by (cases a)
  have "v \<notin> set (map fst (List.map_filter (\<lambda>(f, v). if P f then Some (v, g f) else None) vs))"
    using Cons.prems filter_keys [of P g vs] by (auto simp: a)
  with Cons show ?case by (simp add: a)
qed simp

lemma map_of_filter_keys:
  "distinct (map snd vs) \<Longrightarrow> (f, v) \<in> set vs \<Longrightarrow>
    map_of (List.map_filter (\<lambda>(f, v). if P f then Some (v, g f) else None) vs) v = (if P f then Some (g f) else None)"
proof (induction vs)
  case (Cons a vs)
  obtain f' v' where a: "a = (f', v')" by (cases a)
  have none: "map_of (List.map_filter (\<lambda>(f, v). if P f then Some (v, g f) else None) vs) v = None" if "v \<notin> set (map snd vs)"
    using that filter_keys [of P g vs] by (auto simp: map_of_eq_None_iff)
  show ?case
  proof (cases "v = v'")
    case True
    moreover have "v \<notin> set (map snd vs)" using Cons.prems(1) True by (simp add: a)
    moreover from this have "f = f'" using Cons.prems(2) True by (force simp: a)
    ultimately show ?thesis using none by (simp add: a)
  next
    case False
    with Cons show ?thesis by (simp add: a)
  qed
qed simp

lemma keys_distinct: "distinct (map snd BILLING_CACHE_VAR_MAP)" "set (map snd BILLING_CACHE_VAR_MAP) \<subseteq> set price_keys - {js ''p'', js ''c''}"
  by (simp_all add: cache_vars price_keys_def lit)

lemma body_terms_ok:
  assumes "tier_ok t"
  shows "distinct (map fst (body_terms t))" "\<forall>x \<in> set (body_terms t). term_ok x"
proof -
  let ?g = "\<lambda>f. num_or_zero (map_of (extras_of t) f)"
  let ?e = "List.map_filter (\<lambda>(f, v). if ?g f \<noteq> Fin 0 then Some (v, ?g f) else None) BILLING_CACHE_VAR_MAP"
  have k: "set (map fst ?e) \<subseteq> set price_keys - {js ''p'', js ''c''}" using filter_keys keys_distinct(2) by (rule subset_trans)
  then show "distinct (map fst (body_terms t))"
    using distinct_filter_keys [OF keys_distinct(1)] by (auto simp: body_terms_def Let_def lit)
  have "cost_ok x" if "(v, x) \<in> set ?e" for v x
    using that by (auto simp: map_filter_def split: if_splits) (use extra_cost [OF assms] in blast)
  with k assms show "\<forall>x \<in> set (body_terms t). term_ok x"
    by (force simp: body_terms_def Let_def term_ok_def tier_ok_def price_keys_def)
qed

lemma extra_term:
  assumes "(f, v) \<in> set BILLING_CACHE_VAR_MAP"
  shows "num_or_zero (map_of (body_terms t) v) = num_or_zero (map_of (extras_of t) f)"
proof -
  have "v \<noteq> js ''p''" "v \<noteq> js ''c''" using assms keys_distinct(2) by force+
  then have "map_of (body_terms t) v = (let x = num_or_zero (map_of (extras_of t) f) in if x \<noteq> Fin 0 then Some x else None)"
    by (simp add: body_terms_def Let_def map_of_filter_keys [OF keys_distinct(1) assms])
  then show ?thesis by (simp add: Let_def num_or_zero_def split: option.split)
qed

definition shown_prices :: "visual_tier \<Rightarrow> (jsstr \<times> jsnum) list" where
  "shown_prices t = [(js ''inputPrice'', vt_input_unit_cost t), (js ''outputPrice'', vt_output_unit_cost t),
     (js ''cacheReadPrice'', vt_cache_read_unit_cost t), (js ''cacheCreatePrice'', vt_cache_create_unit_cost t),
     (js ''cacheCreate1hPrice'', vt_cache_create_1h_unit_cost t), (js ''imagePrice'', vt_image_unit_cost t),
     (js ''imageOutputPrice'', vt_image_output_unit_cost t), (js ''audioInputPrice'', vt_audio_input_unit_cost t),
     (js ''audioOutputPrice'', vt_audio_output_unit_cost t)]"

lemma key_fields: "BILLING_VAR_KEY_TO_FIELD = (js ''p'', js ''inputPrice'') # (js ''c'', js ''outputPrice'') #
    zip (map snd BILLING_CACHE_VAR_MAP) [js ''cacheReadPrice'', js ''cacheCreatePrice'', js ''cacheCreate1hPrice'', js ''imagePrice'',
      js ''imageOutputPrice'', js ''audioInputPrice'', js ''audioOutputPrice'']"
  by (simp add: cache_vars BILLING_VAR_KEY_TO_FIELD_def BILLING_PRICING_VARS_def BILLING_VARS_def)

lemma body_prices:
  assumes "tier_ok t"
  shows "parseTierBody (buildTierBodyExpr t) = shown_prices t"
proof -
  obtain a ts where b: "body_terms t = a # ts" by (simp add: body_terms_def)
  have "foldl first_coeff [] (exec_all BILLING_VAR_REGEX [] (buildTierBodyExpr t)) = body_terms t"
    using exec_terms [of a ts "[]"] first_coeffs [of "[]" "body_terms t"] body_terms_ok [OF assms] by (simp add: body_as_terms [OF assms] b)
  then have "parseTierBody (buildTierBodyExpr t) = map (\<lambda>(v, f). (f, num_or_zero (map_of (body_terms t) v))) BILLING_VAR_KEY_TO_FIELD"
    by (simp add: parseTierBody_def)
  moreover have "num_or_zero (map_of (body_terms t) (js ''p'')) = vt_input_unit_cost t" "num_or_zero (map_of (body_terms t) (js ''c'')) = vt_output_unit_cost t"
    using assms by (simp_all add: body_terms_def tier_ok_def cost_ok_num)
  ultimately show ?thesis
    using assms extra_term [of _ _ t]
    by (simp add: key_fields cache_vars shown_prices_def extras_of_def tier_ok_def cost_ok_num)
qed

subsection \<open>The tiers of an expression\<close>

abbreviation SHOWN_TIER :: regex where
  "SHOWN_TIER \<equiv> Seqs [Str (js ''tier(\"''), Grp 2 (Star (Cls (\<lambda>c. c \<noteq> 34))), Str (js ''\",''), WS, Grp 3 (Plus (Cls (\<lambda>c. c \<noteq> 41))), Str (js '')'')]"

lemma tier_re: "TIER_RE = maybe_condition SHOWN_TIER"
  by (simp add: TIER_RE_def maybe_condition_def)

definition shown_caps :: "visual_tier \<Rightarrow> (nat \<times> jsstr) list \<Rightarrow> (nat \<times> jsstr) list" where
  "shown_caps t c = (3, buildTierBodyExpr t) # (2, vt_label t) # c"

lemma term_units: "term_ok x \<Longrightarrow> c \<in> set (term_text x) \<Longrightarrow> c \<noteq> 41"
proof -
  assume x: "term_ok x" and c: "c \<in> set (term_text x)"
  then have "41 \<notin> set (num_to_string (snd x))" using cost_ok_num(1) [of "snd x"] not_num(2) unfolding term_ok_def num_text_def split_def by blast
  then show ?thesis using x c by (auto simp: term_ok_def term_text_def price_keys_def lit)
qed

lemma set_join: "set (join s xs) \<subseteq> set s \<union> \<Union> (set (map set xs))"
  by (induction s xs rule: join.induct) auto

lemma body_units:
  assumes "tier_ok t"
  shows "\<forall>c \<in> set (buildTierBodyExpr t). c \<noteq> 41" "\<exists>r. buildTierBodyExpr t = 112 # r"
proof -
  have "41 \<notin> (\<Union>x \<in> set (body_terms t). set (term_text x))" using body_terms_ok(2) [OF assms] term_units by blast
  then show "\<forall>c \<in> set (buildTierBodyExpr t). c \<noteq> 41"
    using set_join [of "js '' + ''" "map term_text (body_terms t)"] by (auto simp: body_as_terms [OF assms] lit)
  show "\<exists>r. buildTierBodyExpr t = 112 # r" by (simp add: body_text [OF assms, of 0] lit)
qed

lemma shown_match:
  assumes "tier_ok t"
  shows "mt SHOWN_TIER Some (RS p (tier_text [] t @ r) c) = Some (RS (rev (tier_text [] t) @ p) r (shown_caps t c))"
proof -
  let ?b = "buildTierBodyExpr t" and ?q = "rev (js ''tier(\"'' @ vt_label t @ js ''\", '') @ p"
  obtain b where b: "?b = 112 # b" using body_units(2) [OF assms] by blast
  have "mt (Grp 3 (Plus (Cls (\<lambda>c. c \<noteq> 41)))) (mt (Str (js '')'')) Some) (RS ?q (?b @ 41 # r) ((2, vt_label t) # c)) =
      Some (RS (41 # rev ?b @ ?q) r (shown_caps t c))"
    using body_units(1) [OF assms] by (intro mt_Grp_Plus_greedy) (auto simp: b mt_Str lit shown_caps_def)
  then show ?thesis
    using assms label_match [of "vt_label t" 2] by (simp add: tier_text_def b mt_Seq mt_Str ws_space lit tier_ok_def)
qed

interpretation shown: tier_reader SHOWN_TIER shown_caps
  by unfold_locales (simp only: shown_match, simp_all add: mt_Seq mt_Str lit)

definition shown_tier :: "visual_tier \<Rightarrow> parsed_tier" where
  "shown_tier t = \<lparr>pt_label = vt_label t, pt_conditions = vt_conditions t, pt_prices = shown_prices t\<rparr>"

lemma read_shown:
  assumes "part_ok t"
  shows "read_tier (shown_caps t (cond_caps t)) = shown_tier t"
proof -
  have "grp (shown_caps t (cond_caps t)) 1 = buildConditionStr (vt_conditions t)"
    by (simp add: grp_capture shown_caps_def cond_caps_def Let_def)
  then show ?thesis using assms
    by (simp add: read_tier_def shown_tier_def grp_capture shown_caps_def body_prices read_conditions_back part_ok_def)
qed

lemma generated_start:
  assumes "config_ok ts"
  shows "\<exists>x r. generateExprFromVisualConfig (Some ts) = x # r \<and> x \<in> {116, 112, 99, 108}"
proof -
  obtain t us where ts: "ts = t # us" using assms by (cases ts) (simp_all add: config_ok_def)
  then have t: "part_ok t" using config_ok_parts [OF assms] by simp
  have "\<exists>r. generateExprFromVisualConfig (Some ts) = printed_part t @ r"
    using assms t ts generate_many [of t "hd us" "tl us"] by (cases us) (auto simp: generate_one printed_part_def buildConditionStr_def)
  with part_hd [OF t] show ?thesis by auto
qed

text \<open>
  C15: the tiers that the price page reads from an expression of the visual editor
  (\<^verbatim>\<open>parseTiersFromExpr\<close> after \<^verbatim>\<open>generateExprFromVisualConfig\<close>) are the tiers of the editor, in
  order, each with its label, its conditions and every one of its nine prices.
\<close>

theorem generated_tiers_shown:
  assumes "config_ok ts"
  shows "parseTiersFromExpr (generateExprFromVisualConfig (Some ts)) = map shown_tier ts"
proof -
  obtain x r where g: "generateExprFromVisualConfig (Some ts) = x # r" "x \<noteq> 118" using generated_start [OF assms] by auto
  then have "re_match VERSION (x # r) = None" by (simp add: VERSION_def re_match_Bol mt_Seq mt_Str lit)
  then have "snd (stripExprVersion (generateExprFromVisualConfig (Some ts))) = generateExprFromVisualConfig (Some ts)"
    by (simp add: stripExprVersion_def g)
  moreover have "map read_tier (map (\<lambda>t. shown_caps t (cond_caps t)) ts) = map shown_tier ts"
    using config_ok_parts [OF assms] by (simp add: read_shown)
  ultimately show ?thesis using shown.exec_generated [OF assms, of "[]"]
    by (simp add: parseTiersFromExpr_def tier_re g(1) del: map_map)
qed

theorem generated_tiers_shown_witness:
  "config_ok sample_config \<and> parseTiersFromExpr (generateExprFromVisualConfig (Some sample_config)) = map shown_tier sample_config"
  using generated_tiers_shown [OF sample_config_ok] sample_config_ok by simp

end
