(* ===== verification/JsExpr.thy ===== *)
theory JsExpr
  imports JsArith
begin

text \<open>
  The expressions that billing configurations evaluate with \<^verbatim>\<open>new Function\<close>: numbers, strings, variables,
  products, sums, comparisons, conjunctions, conditional expressions and calls of \<^verbatim>\<open>tier\<close>, with the
  lexical grammar, the precedence and the evaluation order of the language. Every function returns
  \<open>None\<close> on what is outside of this part of the language.
\<close>

subsection \<open>Tokens\<close>

datatype token = TNum jsnum | TStr jsstr | TId jsstr | TOp jsstr

definition ident_start :: "nat \<Rightarrow> bool" where
  "ident_start c \<longleftrightarrow> (is_word c \<and> \<not> is_digit c) \<or> c = 36"

definition ident_part :: "nat \<Rightarrow> bool" where
  "ident_part c \<longleftrightarrow> is_word c \<or> c = 36"

text \<open>The units of a string literal without escapes.\<close>

definition plain_unit :: "nat \<Rightarrow> bool" where
  "plain_unit c \<longleftrightarrow> c \<notin> {34, 92, 10, 13}"

text \<open>The operators, the longest first, each with the units that make it another token or a comment.\<close>

definition OPERATORS :: "(jsstr \<times> nat list) list" where
  "OPERATORS = [(js ''&&'', [61]), (js ''<='', []), (js ''>='', []), (js ''<'', [60, 33]), (js ''>'', [62]), (js ''+'', [43, 61]),
     (js ''-'', [45, 61]), (js ''*'', [42, 61]), (js ''?'', [46, 63]), (js '':'', []), (js ''('', []), (js '')'', []), (js '','', [])]"

definition read_op :: "jsstr \<Rightarrow> (jsstr \<times> jsstr) option" where
  "read_op s = (case find (\<lambda>(w, _). starts_with s w) OPERATORS of
      None \<Rightarrow> None
    | Some (w, bad) \<Rightarrow> let r = drop (length w) s in if r \<noteq> [] \<and> hd r \<in> set bad then None else Some (w, r))"

text \<open>A decimal literal is not followed by an identifier, and a leading zero not by a digit.\<close>

definition read_num :: "jsstr \<Rightarrow> (jsnum \<times> jsstr) option" where
  "read_num s =
     (if hd s = 48 \<and> tl s \<noteq> [] \<and> is_digit (hd (tl s)) then None
      else (case decimal_prefix s of
          None \<Rightarrow> None
        | Some (v, r) \<Rightarrow> if r \<noteq> [] \<and> ident_part (hd r) then None else Some (rnd v, r)))"

definition read_token :: "jsstr \<Rightarrow> (token \<times> jsstr) option" where
  "read_token s =
     (if is_digit (hd s) then map_option (\<lambda>(x, r). (TNum x, r)) (read_num s)
      else if hd s = 34 then
        (case dropWhile plain_unit (tl s) of
           [] \<Rightarrow> None
         | q # r \<Rightarrow> if q = 34 then Some (TStr (takeWhile plain_unit (tl s)), r) else None)
      else if ident_start (hd s) then Some (TId (takeWhile ident_part s), dropWhile ident_part s)
      else map_option (\<lambda>(w, r). (TOp w, r)) (read_op s))"

function tokenize :: "jsstr \<Rightarrow> token list option" where
  "tokenize s =
     (if s = [] then Some []
      else if is_ws (hd s) then tokenize (tl s)
      else (case read_token s of
          None \<Rightarrow> None
        | Some (t, r) \<Rightarrow> if length r < length s then map_option ((#) t) (tokenize r) else None))"
  by pat_completeness auto
termination
  by (relation "measure length") (auto simp: neq_Nil_conv)

declare tokenize.simps [simp del]

subsection \<open>Grammar\<close>

datatype expr = ENum jsnum | EStr jsstr | EVar jsstr | ENeg expr | EBin jsstr expr expr
  | ECond expr expr expr | ETier expr expr

type_synonym parser = "token list \<Rightarrow> (expr \<times> token list) option"

text \<open>A chain of operands of one level, associating to the left.\<close>

fun operands :: "nat \<Rightarrow> parser \<Rightarrow> jsstr list \<Rightarrow> expr \<Rightarrow> parser" where
  "operands (Suc n) sub ops e (TOp w # ts) =
     (if w \<in> set ops
      then (case sub ts of None \<Rightarrow> None | Some (e', ts') \<Rightarrow> operands n sub ops (EBin w e e') ts')
      else Some (e, TOp w # ts))"
| "operands n sub ops e ts = Some (e, ts)"

definition chain :: "jsstr list \<Rightarrow> parser \<Rightarrow> parser" where
  "chain ops sub ts = (case sub ts of None \<Rightarrow> None | Some (e, ts') \<Rightarrow> operands (length ts') sub ops e ts')"

definition expect :: "jsstr \<Rightarrow> token list \<Rightarrow> token list option" where
  "expect w ts = (case ts of TOp v # r \<Rightarrow> if v = w then Some r else None | _ \<Rightarrow> None)"

fun primary :: "parser \<Rightarrow> parser" where
  "primary p (TNum x # ts) = Some (ENum x, ts)"
| "primary p (TStr s # ts) = Some (EStr s, ts)"
| "primary p (TId v # ts) = (case expect (js ''('') ts of
      None \<Rightarrow> Some (EVar v, ts)
    | Some ts \<Rightarrow> if v = js ''tier'' then
        (case p ts of None \<Rightarrow> None | Some (a, ts) \<Rightarrow>
         case expect (js '','') ts of None \<Rightarrow> None | Some ts \<Rightarrow>
         case p ts of None \<Rightarrow> None | Some (b, ts) \<Rightarrow>
         case expect (js '')'') ts of None \<Rightarrow> None | Some ts \<Rightarrow> Some (ETier a b, ts))
      else None)"
| "primary p (TOp w # ts) = (if w = js ''('' then
      (case p ts of None \<Rightarrow> None | Some (e, ts) \<Rightarrow> map_option (\<lambda>ts. (e, ts)) (expect (js '')'') ts)) else None)"
| "primary p [] = None"

fun unary :: "parser \<Rightarrow> parser" where
  "unary p (TOp w # ts) = (if w = js ''-'' then map_option (\<lambda>(e, r). (ENeg e, r)) (unary p ts) else primary p (TOp w # ts))"
| "unary p ts = primary p ts"

definition binary :: "parser \<Rightarrow> parser" where
  "binary p = chain [js ''&&''] (chain [js ''<'', js ''<='', js ''>'', js ''>=''] (chain [js ''+'', js ''-''] (chain [js ''*''] (unary p))))"

text \<open>A conditional expression; the first argument bounds the depth of the nesting.\<close>

fun conditional :: "nat \<Rightarrow> parser" where
  "conditional 0 ts = None"
| "conditional (Suc n) ts = (case binary (conditional n) ts of None \<Rightarrow> None | Some (c, ts) \<Rightarrow>
     (case expect (js ''?'') ts of
        None \<Rightarrow> Some (c, ts)
      | Some ts \<Rightarrow>
        (case conditional n ts of None \<Rightarrow> None | Some (a, ts) \<Rightarrow>
         case expect (js '':'') ts of None \<Rightarrow> None | Some ts \<Rightarrow>
         case conditional n ts of None \<Rightarrow> None | Some (b, ts) \<Rightarrow> Some (ECond c a b, ts))))"

definition parse_expr :: "jsstr \<Rightarrow> expr option" where
  "parse_expr s = (case tokenize s of
      None \<Rightarrow> None
    | Some ts \<Rightarrow> (case conditional (Suc (length ts)) ts of Some (e, []) \<Rightarrow> Some e | _ \<Rightarrow> None))"

subsection \<open>Evaluation\<close>

datatype exprval = VNum jsnum | VStr jsstr | VBool bool

fun truthy_val :: "exprval \<Rightarrow> bool" where
  "truthy_val (VNum x) = (x \<noteq> NaN \<and> x \<noteq> Fin 0)"
| "truthy_val (VStr s) = (s \<noteq> [])"
| "truthy_val (VBool b) = b"

definition apply_op :: "jsstr \<Rightarrow> jsnum \<Rightarrow> jsnum \<Rightarrow> exprval option" where
  "apply_op w x y =
     (if w = js ''*'' then Some (VNum (num_mul x y)) else if w = js ''+'' then Some (VNum (num_add x y))
      else if w = js ''-'' then Some (VNum (num_sub x y)) else if w = js ''<'' then Some (VBool (num_less x y))
      else if w = js ''<='' then Some (VBool (num_le x y)) else if w = js ''>'' then Some (VBool (num_less y x))
      else if w = js ''>='' then Some (VBool (num_le y x)) else None)"

text \<open>The value of an expression and the name in the last call of \<^verbatim>\<open>tier\<close>.\<close>

fun eval_expr :: "(jsstr \<times> jsnum) list \<Rightarrow> expr \<Rightarrow> jsstr \<Rightarrow> (exprval \<times> jsstr) option" where
  "eval_expr env (ENum x) m = Some (VNum x, m)"
| "eval_expr env (EStr s) m = Some (VStr s, m)"
| "eval_expr env (EVar v) m = map_option (\<lambda>x. (VNum x, m)) (map_of env v)"
| "eval_expr env (ENeg e) m = (case eval_expr env e m of Some (VNum x, m) \<Rightarrow> Some (VNum (num_neg x), m) | _ \<Rightarrow> None)"
| "eval_expr env (EBin w a b) m = (case eval_expr env a m of
      None \<Rightarrow> None
    | Some (x, m) \<Rightarrow>
        if w = js ''&&'' then (if truthy_val x then eval_expr env b m else Some (x, m))
        else (case (x, eval_expr env b m) of
            (VNum x, Some (VNum y, m)) \<Rightarrow> map_option (\<lambda>v. (v, m)) (apply_op w x y)
          | _ \<Rightarrow> None))"
| "eval_expr env (ECond c a b) m = (case eval_expr env c m of
      None \<Rightarrow> None
    | Some (x, m) \<Rightarrow> if truthy_val x then eval_expr env a m else eval_expr env b m)"
| "eval_expr env (ETier a b) m = (case eval_expr env a m of
      Some (VStr s, m) \<Rightarrow> map_option (\<lambda>(v, _). (v, s)) (eval_expr env b m)
    | _ \<Rightarrow> None)"

subsection \<open>The bound on the nesting\<close>

text \<open>A parser that reads at least one token, and two parsers that agree on short inputs.\<close>

definition consumes :: "parser \<Rightarrow> bool" where
  "consumes p \<longleftrightarrow> (\<forall>ts e r. p ts = Some (e, r) \<longrightarrow> length r < length ts)"

definition agree :: "nat \<Rightarrow> parser \<Rightarrow> parser \<Rightarrow> bool" where
  "agree k p q \<longleftrightarrow> (\<forall>ts. length ts \<le> k \<longrightarrow> p ts = q ts)"

lemma consumesD: "consumes p \<Longrightarrow> p ts = Some (e, r) \<Longrightarrow> length r < length ts"
  by (simp add: consumes_def)

lemma expect_length: "expect w ts = Some r \<Longrightarrow> length r < length ts"
  by (auto simp: expect_def split: list.splits token.splits if_splits)

lemma operands_length: "consumes sub \<Longrightarrow> operands n sub ops e ts = Some (e', r) \<Longrightarrow> length r \<le> length ts"
proof (induction n sub ops e ts rule: operands.induct)
  case (1 n sub ops e w ts)
  then show ?case by (fastforce split: if_splits option.splits dest: consumesD)
qed auto

lemma consumes_chain: "consumes sub \<Longrightarrow> consumes (chain ops sub)"
  using operands_length [of sub] by (fastforce simp: consumes_def chain_def split: option.splits)

lemma consumes_primary: "consumes p \<Longrightarrow> consumes (primary p)"
proof -
  assume p: "consumes p"
  have "primary p ts = Some (e, r) \<Longrightarrow> length r < length ts" for ts e r
    by (cases "(p, ts)" rule: primary.cases) (fastforce split: option.splits if_splits dest!: expect_length consumesD [OF p])+
  then show ?thesis by (simp add: consumes_def)
qed

lemma consumes_unary: "consumes p \<Longrightarrow> consumes (unary p)"
proof -
  assume "consumes p"
  note q = consumesD [OF consumes_primary [OF this]]
  have "unary p ts = Some (e, r) \<Longrightarrow> length r < length ts" for ts e r
  proof (induction ts arbitrary: e)
    case (Cons t ts)
    show ?case
    proof (cases "t = TOp (js ''-'')")
      case True
      with Cons show ?thesis by fastforce
    next
      case False
      then have "unary p (t # ts) = primary p (t # ts)" by (cases t) simp_all
      with Cons.prems q [of "t # ts"] show ?thesis by simp
    qed
  qed (simp add: q)
  then show ?thesis by (simp add: consumes_def)
qed

lemma consumes_binary: "consumes p \<Longrightarrow> consumes (binary p)"
  unfolding binary_def by (intro consumes_chain consumes_unary)

lemma consumes_conditional: "consumes (conditional n)"
proof (induction n)
  case (Suc n)
  have "conditional (Suc n) ts = Some (e, r) \<Longrightarrow> length r < length ts" for ts e r
    by (auto split: option.splits dest!: expect_length consumesD [OF consumes_binary [OF Suc]] consumesD [OF Suc])
  then show ?case by (simp add: consumes_def)
qed (simp add: consumes_def)

lemma agreeD: "agree k p q \<Longrightarrow> length ts \<le> k \<Longrightarrow> p ts = q ts"
  by (simp add: agree_def)

lemma operands_agree:
  "consumes sub \<Longrightarrow> agree k sub sub' \<Longrightarrow> length ts \<le> k \<Longrightarrow> operands n sub ops e ts = operands n sub' ops e ts"
proof (induction n sub ops e ts rule: operands.induct)
  case (1 n sub ops e w ts)
  have s: "sub ts = sub' ts" using "1.prems" by (intro agreeD) auto
  have "operands n sub ops (EBin w e e') ts' = operands n sub' ops (EBin w e e') ts'" if "w \<in> set ops" "sub ts = Some (e', ts')" for e' ts'
    using that "1.prems" consumesD [OF "1.prems"(1), of ts e' ts'] by (intro "1.IH") auto
  then show ?case using s by (simp split: option.split)
qed simp_all

lemma chain_agree: "consumes sub \<Longrightarrow> agree k sub sub' \<Longrightarrow> agree k (chain ops sub) (chain ops sub')"
proof -
  assume c: "consumes sub" and a: "agree k sub sub'"
  have "chain ops sub ts = chain ops sub' ts" if "length ts \<le> k" for ts
    using agreeD [OF a that] operands_agree [OF c a] consumesD [OF c] that unfolding chain_def
    by (auto split: option.split dest!: consumesD [OF c])
  then show ?thesis by (simp add: agree_def)
qed

lemma primary_agree:
  assumes c: "consumes p" and a: "agree k p q"
  shows "agree (Suc k) (primary p) (primary q)"
proof -
  have "primary p ts = primary q ts" if "length ts \<le> Suc k" for ts
  proof (cases ts)
    case (Cons t us)
    have s: "p xs = q xs" if "length xs \<le> length us" for xs using that \<open>length ts \<le> Suc k\<close> Cons by (intro agreeD [OF a]) simp
    show ?thesis
    proof (cases t)
      case (TId v)
      have "p xs = q xs" if "expect (js ''('') us = Some xs" for xs using that by (intro s) (auto dest!: expect_length)
      moreover have "p ys = q ys" if "expect (js ''('') us = Some xs" "p xs = Some (e, zs)" "expect (js '','') zs = Some ys" for xs ys zs e
        using that by (intro s) (fastforce dest!: expect_length consumesD [OF c])
      ultimately show ?thesis using Cons TId by (auto split: option.split)
    qed (use Cons s in auto)
  qed simp
  then show ?thesis by (simp add: agree_def)
qed

lemma unary_agree:
  assumes "consumes p" "agree k p q"
  shows "agree (Suc k) (unary p) (unary q)"
proof -
  note q = agreeD [OF primary_agree [OF assms]]
  have "length ts \<le> Suc k \<Longrightarrow> unary p ts = unary q ts" for ts
  proof (induction ts)
    case (Cons t ts)
    then show ?case using q [of "t # ts"] by (cases t) auto
  qed (simp add: q)
  then show ?thesis by (simp add: agree_def)
qed

lemma binary_agree: "consumes p \<Longrightarrow> agree k p q \<Longrightarrow> agree (Suc k) (binary p) (binary q)"
  unfolding binary_def by (intro chain_agree consumes_chain consumes_unary unary_agree)

text \<open>A bound above the number of tokens is enough: a larger one gives the same result.\<close>

lemma conditional_bound:
  "length ts < n \<Longrightarrow> length ts < m \<Longrightarrow> conditional n ts = conditional m ts"
proof (induction n arbitrary: m ts)
  case (Suc n)
  then obtain l where m: "m = Suc l" by (cases m) auto
  show ?case
  proof (cases ts)
    case (Cons t us)
    define k where "k = length us"
    have a: "agree k (conditional n) (conditional l)" using Suc Cons by (auto simp: agree_def m k_def)
    have b: "binary (conditional n) ts = binary (conditional l) ts"
      using agreeD [OF binary_agree [OF consumes_conditional a]] Cons by (simp add: k_def)
    have s: "conditional n xs = conditional l xs" if "length xs < length ts" for xs using that Cons by (intro agreeD [OF a]) (simp add: k_def)
    have x: "conditional n xs = conditional l xs" if "binary (conditional l) ts = Some (e, ys)" "expect w ys = Some xs" for e ys w xs
      using that by (intro s) (fastforce dest!: expect_length consumesD [OF consumes_binary [OF consumes_conditional]])
    have y: "conditional n xs = conditional l xs"
      if "binary (conditional l) ts = Some (e, ys)" "expect w ys = Some zs" "conditional l zs = Some (e', us')" "expect w' us' = Some xs" for e ys w zs e' us' w' xs
      using that by (intro s) (fastforce dest!: expect_length consumesD [OF consumes_binary [OF consumes_conditional]] consumesD [OF consumes_conditional])
    show ?thesis unfolding m by (auto simp: b x y split: option.split)
  qed (simp add: m binary_def chain_def)
qed simp

end
