(* ===== verification/CostEstimator.thy ===== *)
theory CostEstimator
  imports ShownTiers JsExpr JsJsonPrint
begin

text \<open>
  The local cost estimate of \<^verbatim>\<open>pricing/lib/tier-expr.ts\<close>: \<^verbatim>\<open>evalExprLocally\<close> compiles a billing expression
  and evaluates it on token counts. The expressions outside of the grammar of \<open>JsExpr\<close> are
  evaluated by the argument \<open>other\<close>: an error message, or a value and the tier that was matched.
\<close>

subsection \<open>The estimator\<close>

record eval_result =
  er_cost :: jsnum
  er_matchedTier :: jsstr
  er_error :: "jsstr option"

type_synonym token_counts = "(jsstr \<times> jsnum) list"

definition extra_count :: "token_counts \<Rightarrow> jsstr \<Rightarrow> jsnum" where
  "extra_count extraTokenValues stateKey = num_or_zero (map_of extraTokenValues stateKey)"

definition token_env :: "jsnum \<Rightarrow> jsnum \<Rightarrow> token_counts \<Rightarrow> (jsstr \<times> jsnum) list" where
  "token_env promptTokens completionTokens extraTokenValues =
     (let len = num_add (num_add (num_add promptTokens (extra_count extraTokenValues (js ''cacheReadTokens'')))
            (extra_count extraTokenValues (js ''cacheCreateTokens''))) (extra_count extraTokenValues (js ''cacheCreate1hTokens''))
      in (js ''p'', promptTokens) # (js ''c'', completionTokens) # (js ''len'', len)
         # map (\<lambda>(v, stateKey). (v, extra_count extraTokenValues stateKey)) ESTIMATOR_VARS)"

type_synonym other_exprs = "jsstr \<Rightarrow> (jsstr \<times> jsnum) list \<Rightarrow> jsstr + exprval \<times> jsstr"

definition run_expr :: "other_exprs \<Rightarrow> jsstr \<Rightarrow> (jsstr \<times> jsnum) list \<Rightarrow> jsstr + exprval \<times> jsstr" where
  "run_expr other exprStr env = (case parse_expr exprStr of
      None \<Rightarrow> other exprStr env
    | Some e \<Rightarrow> (case eval_expr env e [] of None \<Rightarrow> other exprStr env | Some r \<Rightarrow> Inr r))"

fun val_number :: "exprval \<Rightarrow> jsnum" where
  "val_number (VNum x) = x"
| "val_number (VStr s) = to_number s"
| "val_number (VBool b) = Fin (if b then 1 else 0)"

definition evalExprLocally :: "other_exprs \<Rightarrow> jsstr \<Rightarrow> jsnum \<Rightarrow> jsnum \<Rightarrow> token_counts \<Rightarrow> eval_result" where
  "evalExprLocally other exprStr promptTokens completionTokens extraTokenValues =
     (if exprStr = [] \<or> trim exprStr = [] then \<lparr>er_cost = Fin 0, er_matchedTier = [], er_error = None\<rparr>
      else (case run_expr other exprStr (token_env promptTokens completionTokens extraTokenValues) of
          Inl message \<Rightarrow> \<lparr>er_cost = Fin 0, er_matchedTier = [], er_error = Some message\<rparr>
        | Inr (v, matchedTier) \<Rightarrow> \<lparr>er_cost = num_or_zero (Some (val_number v)), er_matchedTier = matchedTier, er_error = None\<rparr>))"

subsection \<open>The tokens of a printed expression\<close>

definition stops :: "jsstr \<Rightarrow> bool" where
  "stops r \<longleftrightarrow> r = [] \<or> hd r \<in> {32, 40, 41, 44}"

definition reads :: "jsstr \<Rightarrow> token list \<Rightarrow> bool" where
  "reads w ts \<longleftrightarrow> w \<noteq> [] \<and> (\<forall>r. stops r \<longrightarrow> tokenize (w @ r) = map_option ((@) ts) (tokenize r))"

lemma readsD: "reads w ts \<Longrightarrow> stops r \<Longrightarrow> tokenize (w @ r) = map_option ((@) ts) (tokenize r)"
  by (simp add: reads_def)

lemma tokenize_space: "tokenize (32 # r) = tokenize r"
  by (simp add: tokenize.simps [of "32 # r"])

lemma reads_space: "reads u ts \<Longrightarrow> reads w us \<Longrightarrow> reads (u @ 32 # w) (ts @ us)"
proof -
  assume u: "reads u ts" and w: "reads w us"
  have "tokenize ((u @ 32 # w) @ r) = map_option ((@) (ts @ us)) (tokenize r)" if "stops r" for r
    using readsD [OF u, of "32 # w @ r"] readsD [OF w that] by (cases "tokenize r") (simp_all add: stops_def tokenize_space)
  then show ?thesis using u by (simp add: reads_def)
qed

lemma readsI:
  assumes "w \<noteq> []" "\<not> is_ws (hd w)" "\<And>r. stops r \<Longrightarrow> read_token (w @ r) = Some (t, r)"
  shows "reads w [t]"
proof -
  have "tokenize (w @ r) = map_option ((@) [t]) (tokenize r)" if "stops r" for r
    using assms(1,2) assms(3) [OF that] by (subst tokenize.simps) (cases "tokenize r"; simp)
  then show ?thesis using assms(1) by (simp add: reads_def)
qed

lemma stop_units: "stops r \<Longrightarrow> r = [] \<or> \<not> ident_part (hd r) \<and> hd r \<notin> {46, 101, 69} \<and> \<not> is_digit (hd r)"
  by (auto simp: stops_def ident_part_def is_word_def is_digit_def)

lemma reads_ident:
  assumes "v \<noteq> []" "ident_start (hd v)" "\<forall>c \<in> set v. ident_part c"
  shows "reads v [TId v]"
proof (rule readsI)
  show "\<not> is_ws (hd v)" using assms(2) by (auto simp: ident_start_def is_word_def is_ws_def is_digit_def)
  fix r
  assume r: "stops r"
  have "takeWhile ident_part (v @ r) = v" "dropWhile ident_part (v @ r) = r"
    using assms(3) stop_units [OF r] by (cases r; simp)+
  moreover have "hd (v @ r) = hd v" "\<not> is_digit (hd v)" "hd v \<noteq> 34"
    using assms(1,2) by (auto simp: ident_start_def is_word_def is_digit_def)
  ultimately show "read_token (v @ r) = Some (TId v, r)" using assms(2) by (simp add: read_token_def)
qed (rule assms(1))

lemma reads_op:
  assumes "w \<in> {js ''&&'', js ''<'', js ''<='', js ''>'', js ''>='', js ''+'', js ''*'', js ''?'', js '':''}"
  shows "reads w [TOp w]"
proof (rule readsI)
  show "w \<noteq> []" "\<not> is_ws (hd w)" using assms by (auto simp: lit is_ws_def)
  fix r
  assume "stops r"
  then have r: "r = [] \<or> hd r \<notin> {61, 60, 33, 62, 43, 45, 42, 46, 63}" by (auto simp: stops_def)
  from assms show "read_token (w @ r) = Some (TOp w, r)"
    by (elim insertE emptyE; cases r; use r in \<open>simp add: read_token_def read_op_def OPERATORS_def starts_with_def lit is_digit_def ident_start_def is_word_def\<close>)
qed

subsection \<open>Printed numbers\<close>

lemma span_append: "span_digits s = (a, b) \<Longrightarrow> b \<noteq> [] \<or> r = [] \<or> \<not> is_digit (hd r) \<Longrightarrow> span_digits (s @ r) = (a, b @ r)"
proof -
  assume "span_digits s = (a, b)" and r: "b \<noteq> [] \<or> r = [] \<or> \<not> is_digit (hd r)"
  then have ab: "a = takeWhile is_digit s" "b = dropWhile is_digit s" by (simp_all add: span_digits_def)
  show ?thesis
  proof (cases "b = []")
    case True
    then have all: "\<forall>c \<in> set s. is_digit c" using ab(2) by (simp add: dropWhile_eq_Nil_conv)
    then have "takeWhile is_digit s = s" by simp
    with True ab r all show ?thesis by (cases r) (simp_all add: span_digits_def)
  next
    case False
    then obtain c where c: "c \<in> set s" "\<not> is_digit c" using ab(2) by (auto simp: dropWhile_eq_Nil_conv)
    then show ?thesis using ab by (simp add: span_digits_def)
  qed
qed

lemma exponent_append:
  assumes "exponent_part s = Some (e, [])" "r = [] \<or> \<not> is_digit (hd r)"
  shows "exponent_part (s @ r) = Some (e, r)"
proof -
  obtain c t where s: "s = c # t" "c = 101 \<or> c = 69" using assms(1) by (auto simp: exponent_part_def split: list.splits if_splits)
  obtain neg t' where t: "split_sign t = (neg, t')" by (cases "split_sign t")
  obtain ds where ds: "span_digits t' = (ds, [])" "ds \<noteq> []" "e = (if neg then - int (read_nat ds) else int (read_nat ds))"
    using assms(1) s t by (auto simp: exponent_part_def split: prod.splits if_splits)
  have "t \<noteq> []" using ds t by (auto simp: split_sign_def span_digits_def)
  then have "split_sign (t @ r) = (neg, t' @ r)" using t by (cases t) (auto simp: split_sign_def split: if_splits)
  then show ?thesis using s ds span_append [OF ds(1), of r] assms(2) by (auto simp: exponent_part_def)
qed

lemma exponent_none: "s = [] \<or> hd s \<notin> {101, 69} \<Longrightarrow> exponent_part s = None"
  by (cases s) (auto simp: exponent_part_def)

lemma decimal_append:
  assumes "decimal_prefix s = Some (v, [])" "r = [] \<or> \<not> is_digit (hd r) \<and> hd r \<notin> {46, 101, 69}"
  shows "decimal_prefix (s @ r) = Some (v, r)"
proof -
  obtain ip q where s: "span_digits s = (ip, q)" by (cases "span_digits s")
  have r: "b \<noteq> [] \<or> r = [] \<or> \<not> is_digit (hd r)" for b :: jsstr using assms(2) by auto
  have e: "exponent_part r = None" using assms(2) by (intro exponent_none) auto
  define f where "f = (\<lambda>r. case r of [] \<Rightarrow> ([], []) | c # r' \<Rightarrow> if c = 46 then span_digits r' else ([], r :: jsstr))"
  obtain fp r1 where q: "f q = (fp, r1)" by (cases "f q")
  have d: "decimal_prefix t = (case span_digits t of (ip, r) \<Rightarrow> case f r of (fp, r1) \<Rightarrow> if ip = [] \<and> fp = [] then None
      else (case exponent_part r1 of
          None \<Rightarrow> Some (of_nat (read_nat (ip @ fp)) * powz 10 (- int (length fp)), r1)
        | Some (e, r2) \<Rightarrow> Some (of_nat (read_nat (ip @ fp)) * powz 10 (e - int (length fp)), r2)))" for t
    by (simp add: decimal_prefix_def f_def)
  have fr: "f (q @ r) = (fp, r1 @ r)"
  proof (cases q)
    case Nil
    then show ?thesis using q assms(2) by (cases r) (auto simp: f_def)
  next
    case (Cons c t)
    then show ?thesis using q span_append [of t fp r1 r] r by (auto simp: f_def split: if_splits)
  qed
  have "exponent_part (r1 @ r) = (case exponent_part r1 of None \<Rightarrow> None | Some (e, _) \<Rightarrow> Some (e, r)) \<and> (exponent_part r1 = None \<longrightarrow> r1 = [])"
  proof (cases "exponent_part r1")
    case None
    then have "r1 = []" using assms(1) s q by (auto simp: d split: if_splits)
    with None e show ?thesis by simp
  next
    case (Some x)
    then have "snd x = []" using assms(1) s q by (auto simp: d split: if_splits prod.splits)
    then show ?thesis using Some exponent_append [of r1 "fst x" r] r by (cases x) auto
  qed
  then show ?thesis using assms(1) s q fr span_append [OF s, of r] r by (auto simp: d split: if_splits option.splits)
qed

lemma shape_zero: "num_shape s v \<Longrightarrow> hd s = 48 \<Longrightarrow> tl s = [] \<or> \<not> is_digit (hd (tl s))"
  using exp_text_hd by (fastforce simp: num_shape_def is_digit_def split: if_splits)

lemma read_num_pos:
  assumes "double x" "0 < x" "stops r"
  shows "read_num (show_pos x @ r) = Some (Fin x, r)"
proof -
  obtain v where v: "decimal_prefix (show_pos x) = Some (v, [])" "rnd v = Fin x" using show_pos_props(1) [OF assms(1,2)] by blast
  have s: "show_pos x \<noteq> []" using show_pos_props(2) [OF assms(1,2)] by simp
  obtain w where w: "num_shape (show_pos x) w" using show_pos_shape [OF assms(1,2)] by blast
  note r = stop_units [OF assms(3)]
  have "\<not> (hd (show_pos x @ r) = 48 \<and> tl (show_pos x @ r) \<noteq> [] \<and> is_digit (hd (tl (show_pos x @ r))))"
    using shape_zero [OF w] s r by (cases "show_pos x"; cases "tl (show_pos x)") auto
  moreover have "decimal_prefix (show_pos x @ r) = Some (v, r)" using decimal_append [OF v(1)] r by auto
  ultimately show ?thesis using v(2) r by (auto simp: read_num_def)
qed

lemma reads_pos:
  assumes "double x" "0 \<le> x"
  shows "reads (num_to_string (Fin x)) [TNum (Fin x)]" "is_digit (hd (num_to_string (Fin x)))"
proof -
  have d: "is_digit (hd (num_to_string (Fin x)))" "num_to_string (Fin x) \<noteq> []"
    using show_pos_props(2) [OF assms(1)] assms(2) by (auto simp: lit is_digit_def)
  show "reads (num_to_string (Fin x)) [TNum (Fin x)]"
  proof (rule readsI)
    show "num_to_string (Fin x) \<noteq> []" by (rule d)
    show "\<not> is_ws (hd (num_to_string (Fin x)))" using d(1) by (auto simp: is_digit_def is_ws_def)
    fix r
    assume r: "stops r"
    have "read_num (num_to_string (Fin x) @ r) = Some (Fin x, r)"
    proof (cases "x = 0")
      case True
      have "decimal_prefix ([48] @ r) = Some (0, r)"
        using stop_units [OF r] by (intro decimal_append) (auto simp: decimal_prefix_def span_digits_def is_digit_def exponent_part_def read_nat_def powz_def)
      then show ?thesis using True stop_units [OF r] by (auto simp: lit read_num_def rnd_def)
    next
      case False
      then show ?thesis using read_num_pos [OF assms(1) _ r] assms(2) by simp
    qed
    then show "read_token (num_to_string (Fin x) @ r) = Some (TNum (Fin x), r)"
      using d by (simp add: read_token_def del: num_to_string.simps)
  qed
  show "is_digit (hd (num_to_string (Fin x)))" by (rule d)
qed

definition num_toks :: "rat \<Rightarrow> token list" where
  "num_toks x = (if x < 0 then [TOp (js ''-''), TNum (Fin (- x))] else [TNum (Fin x)])"

lemma reads_num:
  assumes "double x"
  shows "reads (num_to_string (Fin x)) (num_toks x)"
proof (cases "x < 0")
  case True
  let ?w = "num_to_string (Fin (- x))"
  have n: "double (- x)" using assms by (simp add: double_def rnd_minus)
  note w = reads_pos [OF n]
  have w0: "?w \<noteq> []" using w(1) True by (simp add: reads_def)
  have "tokenize (45 # ?w @ r) = map_option ((@) (num_toks x)) (tokenize r)" if r: "stops r" for r
  proof -
    obtain c u where c: "?w = c # u" "is_digit c" using w(2) w0 True by (cases ?w) auto
    have "read_token (45 # ?w @ r) = Some (TOp (js ''-''), ?w @ r)"
      using c(2) unfolding c(1) by (auto simp: read_token_def read_op_def OPERATORS_def starts_with_def lit is_digit_def ident_start_def is_word_def)
    then show ?thesis using readsD [OF w(1) r] True
      by (subst tokenize.simps) (cases "tokenize r"; simp add: num_toks_def is_ws_def del: num_to_string.simps)
  qed
  moreover have "num_to_string (Fin x) = 45 # ?w" using True by simp
  ultimately show ?thesis by (simp add: reads_def)
qed (use reads_pos [OF assms] in \<open>simp add: num_toks_def\<close>)

subsection \<open>Printed tiers and conditions\<close>

lemma tokenize_bracket: "c \<in> {40, 41, 44} \<Longrightarrow> tokenize (c # r) = map_option ((#) (TOp [c])) (tokenize r)"
  by (elim insertE emptyE; subst tokenize.simps;
      simp add: is_ws_def read_token_def read_op_def OPERATORS_def starts_with_def lit is_digit_def ident_start_def is_word_def)

lemma tokenize_literal:
  assumes "\<forall>c \<in> set l. plain_unit c"
  shows "tokenize (34 # l @ 34 # r) = map_option ((#) (TStr l)) (tokenize r)"
proof -
  have "takeWhile plain_unit (l @ 34 # r) = l" "dropWhile plain_unit (l @ 34 # r) = 34 # r"
    using assms by (simp_all add: plain_unit_def [of 34])
  then have "read_token (34 # l @ 34 # r) = Some (TStr l, r)" by (simp add: read_token_def is_digit_def)
  then show ?thesis by (subst tokenize.simps) simp
qed

lemma reads_join:
  assumes "reads w [TOp w]" "\<And>x. x \<in> set (x0 # xs) \<Longrightarrow> reads (f x) (g x)"
  shows "reads (join (32 # w @ [32]) (map f (x0 # xs))) (join [TOp w] (map g (x0 # xs)))"
  using assms(2)
proof (induction xs arbitrary: x0)
  case (Cons y ys)
  have "reads (join (32 # w @ [32]) (map f (y # ys))) (join [TOp w] (map g (y # ys)))" by (rule Cons.IH) (simp add: Cons.prems)
  from reads_space [OF Cons.prems [of x0] reads_space [OF assms(1) this]] show ?case by simp
qed simp

definition term_toks :: "jsstr \<times> jsnum \<Rightarrow> token list" where
  "term_toks = (\<lambda>(v, x). TId v # TOp (js ''*'') # (case x of Fin y \<Rightarrow> num_toks y | _ \<Rightarrow> []))"

lemma reads_term: "term_ok a \<Longrightarrow> reads (term_text a) (term_toks a)"
proof -
  assume a: "term_ok a"
  obtain v y where v: "a = (v, Fin y)" "double y" "v \<in> set price_keys"
    using a by (cases a; cases "snd a") (auto simp: term_ok_def cost_ok_def)
  have "reads v [TId v]" using v(3) by (intro reads_ident) (auto simp: price_keys_def lit ident_start_def ident_part_def is_word_def is_digit_def)
  from reads_space [OF this reads_space [OF reads_op [of "js ''*''"] reads_num [OF v(2)]]]
  show ?thesis by (simp add: v(1) term_text_def term_toks_def lit del: num_to_string.simps)
qed

definition tier_toks :: "visual_tier \<Rightarrow> token list" where
  "tier_toks t = [TId (js ''tier''), TOp (js ''(''), TStr (vt_label t), TOp (js '','')] @ join [TOp (js ''+'')] (map term_toks (body_terms t)) @ [TOp (js '')'')]"

definition plain_label :: "visual_tier \<Rightarrow> bool" where
  "plain_label t \<longleftrightarrow> list_all plain_unit (vt_label t)"

lemma body_terms_Cons: "\<exists>a as. body_terms t = a # as"
  by (simp add: body_terms_def)

lemma reads_tier:
  assumes "tier_ok t" "plain_label t"
  shows "reads (tier_text [] t) (tier_toks t)"
proof -
  obtain a as where b: "body_terms t = a # as" using body_terms_Cons by blast
  have body: "reads (buildTierBodyExpr t) (join [TOp (js ''+'')] (map term_toks (body_terms t)))"
    using reads_join [OF reads_op [of "js ''+''"], of a as term_text term_toks] reads_term body_terms_ok(2) [OF assms(1)]
    by (simp add: body_as_terms [OF assms(1)] b lit)
  have id: "reads (js ''tier'') [TId (js ''tier'')]"
    by (rule reads_ident) (auto simp: lit ident_start_def ident_part_def is_word_def is_digit_def)
  have "tokenize (tier_text [] t @ r) = map_option ((@) (tier_toks t)) (tokenize r)" if "stops r" for r
  proof -
    let ?b = "buildTierBodyExpr t"
    have "tokenize (?b @ 41 # r) = map_option ((@) (join [TOp (js ''+'')] (map term_toks (body_terms t)) @ [TOp [41]])) (tokenize r)"
      using readsD [OF body, of "41 # r"] by (cases "tokenize r") (simp_all add: stops_def tokenize_bracket)
    then have "tokenize (34 # vt_label t @ 34 # 44 # 32 # ?b @ 41 # r) =
        map_option ((@) (TStr (vt_label t) # TOp [44] # join [TOp (js ''+'')] (map term_toks (body_terms t)) @ [TOp [41]])) (tokenize r)"
      using assms(2) by (cases "tokenize r") (simp_all add: tokenize_literal plain_label_def list_all_iff tokenize_bracket tokenize_space)
    then have "tokenize (js ''tier'' @ 40 # 34 # vt_label t @ 34 # 44 # 32 # ?b @ 41 # r) = map_option ((@) (tier_toks t)) (tokenize r)"
      using readsD [OF id, of "40 # 34 # vt_label t @ 34 # 44 # 32 # ?b @ 41 # r"]
      by (cases "tokenize r") (simp_all add: stops_def tokenize_bracket tier_toks_def lit)
    then show ?thesis using assms(1) by (simp add: tier_text_def tier_ok_def lit)
  qed
  then show ?thesis by (simp add: reads_def tier_text_def lit)
qed

definition cond_toks :: "tier_condition \<Rightarrow> token list" where
  "cond_toks c = [TId (cond_var c), TOp (cond_op c), case cond_value c of Some (NumVal x) \<Rightarrow> TNum x | _ \<Rightarrow> TNum NaN]"

lemma cond_ok_pos: "cond_ok c \<Longrightarrow> \<exists>x. cond_value c = Some (NumVal (Fin x)) \<and> double x \<and> 0 \<le> x"
  by (auto simp: cond_ok_def not_less [symmetric] split: option.splits tier_value.splits jsnum.splits)

lemma reads_condition: "cond_ok c \<Longrightarrow> reads (condition_text c) (cond_toks c)"
proof -
  assume c: "cond_ok c"
  obtain x where x: "cond_value c = Some (NumVal (Fin x))" "double x" "0 \<le> x" using cond_ok_pos [OF c] by blast
  have "reads (cond_var c) [TId (cond_var c)]"
    using c by (intro reads_ident) (auto simp: cond_ok_def lit ident_start_def ident_part_def is_word_def is_digit_def)
  moreover have "reads (cond_op c) [TOp (cond_op c)]" using c by (intro reads_op) (auto simp: cond_ok_def)
  ultimately have "reads (cond_var c @ 32 # cond_op c @ 32 # num_to_string (Fin x)) ([TId (cond_var c)] @ [TOp (cond_op c)] @ [TNum (Fin x)])"
    by (intro reads_space reads_pos(1) [OF x(2,3)])
  then show ?thesis by (simp add: condition_text_def cond_toks_def value_text_def x(1) lit del: num_to_string.simps)
qed

lemma cond_complete: "cond_ok c \<Longrightarrow> complete_condition c"
  using cond_ok_pos [of c] by (auto simp: cond_ok_def complete_condition_def lit)

lemma reads_conditions:
  assumes "\<forall>d \<in> set (c # cs). cond_ok d"
  shows "reads (buildConditionStr (c # cs)) (join [TOp (js ''&&'')] (map cond_toks (c # cs)))"
proof -
  have "filter complete_condition (c # cs) = c # cs"
    using assms cond_complete by (intro filter_True) blast
  then show ?thesis
    using reads_join [OF reads_op [of "js ''&&''"], of c cs condition_text cond_toks] reads_condition assms
    by (simp add: buildConditionStr_def lit)
qed

subsection \<open>Parsing the tokens\<close>

text \<open>The tokens after an operand end a chain of the operators \<open>ops\<close>.\<close>

definition halts :: "jsstr list \<Rightarrow> token list \<Rightarrow> bool" where
  "halts ops r \<longleftrightarrow> r = [] \<or> (\<exists>w r'. r = TOp w # r' \<and> w \<notin> set ops)"

lemma operands_halt: "halts ops r \<Longrightarrow> operands n sub ops e r = Some (e, r)"
  by (cases n) (auto simp: halts_def)

lemma operands_all:
  assumes "w \<in> set ops" "\<And>x r. x \<in> set xs \<Longrightarrow> Q r \<Longrightarrow> sub (f x @ r) = Some (g x, r)" "\<And>r. Q (TOp w # r)" "Q r" "halts ops r" "length xs \<le> n"
  shows "operands n sub ops e (concat (map (\<lambda>x. TOp w # f x) xs) @ r) = Some (foldl (\<lambda>e x. EBin w e (g x)) e xs, r)"
  using assms(2,6)
proof (induction xs arbitrary: n e)
  case Nil
  then show ?case using assms(5) by (simp add: operands_halt)
next
  case (Cons x xs)
  obtain m where n: "n = Suc m" "length xs \<le> m" using Cons.prems(2) by (cases n) auto
  have "Q (concat (map (\<lambda>x. TOp w # f x) xs) @ r)" using assms(3,4) by (cases xs) auto
  then have "sub (f x @ concat (map (\<lambda>x. TOp w # f x) xs) @ r) = Some (g x, concat (map (\<lambda>x. TOp w # f x) xs) @ r)"
    by (intro Cons.prems(1)) simp_all
  then show ?case using Cons.IH [OF Cons.prems(1) n(2), of "EBin w e (g x)"] assms(1) by (simp add: n(1))
qed

lemma join_single: "join [s] (map f (x # xs)) = f x @ concat (map (\<lambda>x. s # f x) xs)"
  by (induction xs arbitrary: x) simp_all

lemma length_concat_le: "length xs \<le> length (concat (map (\<lambda>x. s # f x) xs) @ r)"
  by (induction xs) simp_all

lemma chain_all:
  assumes "w \<in> set ops" "\<And>x r. x \<in> set (x0 # xs) \<Longrightarrow> Q r \<Longrightarrow> sub (f x @ r) = Some (g x, r)" "\<And>r. Q (TOp w # r)" "Q r" "halts ops r"
  shows "chain ops sub (join [TOp w] (map f (x0 # xs)) @ r) = Some (foldl (\<lambda>e x. EBin w e (g x)) (g x0) xs, r)"
proof -
  let ?t = "concat (map (\<lambda>x. TOp w # f x) xs) @ r"
  have "Q ?t" using assms(3,4) by (cases xs) auto
  then have "sub (f x0 @ ?t) = Some (g x0, ?t)" by (intro assms(2)) simp_all
  moreover have "operands (length ?t) sub ops (g x0) ?t = Some (foldl (\<lambda>e x. EBin w e (g x)) (g x0) xs, r)"
    using assms length_concat_le by (intro operands_all [where Q = Q]) simp_all
  ultimately show ?thesis by (simp only: chain_def join_single append_assoc option.case prod.case)
qed

lemma chain_one: "sub ts = Some (e, r) \<Longrightarrow> halts ops r \<Longrightarrow> chain ops sub ts = Some (e, r)"
  by (simp add: chain_def operands_halt)

abbreviation product_level :: "parser \<Rightarrow> parser" where "product_level p \<equiv> chain [js ''*''] (unary p)"
abbreviation sum_level :: "parser \<Rightarrow> parser" where "sum_level p \<equiv> chain [js ''+'', js ''-''] (product_level p)"

definition num_ast :: "jsnum \<Rightarrow> expr" where
  "num_ast x = (case x of Fin y \<Rightarrow> if y < 0 then ENeg (ENum (Fin (- y))) else ENum (Fin y) | _ \<Rightarrow> ENum x)"

definition term_ast :: "jsstr \<times> jsnum \<Rightarrow> expr" where
  "term_ast = (\<lambda>(v, x). EBin (js ''*'') (EVar v) (num_ast x))"

lemma parse_term:
  assumes "term_ok a" "halts [js ''*''] r"
  shows "product_level p (term_toks a @ r) = Some (term_ast a, r)"
proof -
  obtain v y where v: "a = (v, Fin y)" using assms(1) by (cases a; cases "snd a") (auto simp: term_ok_def cost_ok_def)
  have "unary p (num_toks y @ r) = Some (num_ast (Fin y), r)" by (simp add: num_toks_def num_ast_def)
  then show ?thesis
    using operands_halt [OF assms(2)] by (simp add: v term_toks_def term_ast_def chain_def expect_def lit)
qed

definition body_ast :: "visual_tier \<Rightarrow> expr" where
  "body_ast t = (case map term_ast (body_terms t) of e # es \<Rightarrow> foldl (EBin (js ''+'')) e es | [] \<Rightarrow> ENum NaN)"

abbreviation ARITH :: "jsstr list" where "ARITH \<equiv> [js ''*'', js ''+'', js ''-'']"
abbreviation COMPARE :: "jsstr list" where "COMPARE \<equiv> [js ''<'', js ''<='', js ''>'', js ''>='']"
abbreviation BINARY :: "jsstr list" where "BINARY \<equiv> ARITH @ COMPARE @ [js ''&&'']"

lemma halts_subset: "halts ops r \<Longrightarrow> set ops' \<subseteq> set ops \<Longrightarrow> halts ops' r"
  by (auto simp: halts_def)

lemma binary_sums:
  assumes "sum_level p ts = Some (e, r)" "halts BINARY r"
  shows "binary p ts = Some (e, r)"
  unfolding binary_def by (intro chain_one assms(1) halts_subset [OF assms(2)]) auto

lemma conditional_binary:
  assumes "binary (conditional n) ts = Some (e, r)" "halts [js ''?''] r"
  shows "conditional (Suc n) ts = Some (e, r)"
proof -
  have "expect (js ''?'') r = None" using assms(2) by (auto simp: halts_def expect_def)
  then show ?thesis using assms(1) by simp
qed

lemma parse_body:
  assumes "tier_ok t" "halts BINARY r"
  shows "binary p (join [TOp (js ''+'')] (map term_toks (body_terms t)) @ r) = Some (body_ast t, r)"
proof (rule binary_sums [OF _ assms(2)])
  obtain a as where b: "body_terms t = a # as" using body_terms_Cons by blast
  have "sum_level p (join [TOp (js ''+'')] (map term_toks (a # as)) @ r) = Some (foldl (\<lambda>e x. EBin (js ''+'') e (term_ast x)) (term_ast a) as, r)"
  proof (rule chain_all [where Q = "halts [js ''*'']"])
    show "product_level p (term_toks x @ q) = Some (term_ast x, q)" if "x \<in> set (a # as)" "halts [js ''*''] q" for x q
      using that body_terms_ok(2) [OF assms(1)] by (intro parse_term) (auto simp: b)
    show "halts [js ''*''] r" "halts [js ''+'', js ''-''] r" by (rule halts_subset [OF assms(2)], simp)+
  qed (simp_all add: halts_def lit)
  then show "sum_level p (join [TOp (js ''+'')] (map term_toks (body_terms t)) @ r) = Some (body_ast t, r)"
    by (simp add: b body_ast_def foldl_map)
qed

definition tier_ast :: "visual_tier \<Rightarrow> expr" where
  "tier_ast t = ETier (EStr (vt_label t)) (body_ast t)"

lemma parse_tier:
  assumes "tier_ok t" "halts BINARY r"
  shows "binary (conditional (Suc n)) (tier_toks t @ r) = Some (tier_ast t, r)"
proof (rule binary_sums [OF _ assms(2)])
  let ?p = "conditional (Suc n)" and ?b = "join [TOp (js ''+'')] (map term_toks (body_terms t))"
  have name: "?p (TStr (vt_label t) # TOp (js '','') # us) = Some (EStr (vt_label t), TOp (js '','') # us)" for us
    by (intro conditional_binary binary_sums chain_one) (simp_all add: halts_def lit)
  have body: "?p (?b @ TOp (js '')'') # r) = Some (body_ast t, TOp (js '')'') # r)"
    by (intro conditional_binary parse_body assms(1)) (simp_all add: halts_def lit)
  have "unary ?p (tier_toks t @ r) = Some (tier_ast t, r)"
    using name [of "?b @ TOp (js '')'') # r"] body by (simp add: tier_toks_def tier_ast_def expect_def del: conditional.simps)
  then show "sum_level ?p (tier_toks t @ r) = Some (tier_ast t, r)"
    by (intro chain_one halts_subset [OF assms(2)]) auto
qed

definition cond_ast :: "tier_condition \<Rightarrow> expr" where
  "cond_ast c = EBin (cond_op c) (EVar (cond_var c)) (ENum (case cond_value c of Some (NumVal x) \<Rightarrow> x | _ \<Rightarrow> NaN))"

definition conds_ast :: "tier_condition list \<Rightarrow> expr" where
  "conds_ast cs = (case map cond_ast cs of e # es \<Rightarrow> foldl (EBin (js ''&&'')) e es | [] \<Rightarrow> ENum NaN)"

abbreviation compare_level :: "parser \<Rightarrow> parser" where "compare_level p \<equiv> chain COMPARE (sum_level p)"

lemma parse_condition:
  assumes "cond_ok c" "halts (ARITH @ COMPARE) r"
  shows "compare_level p (cond_toks c @ r) = Some (cond_ast c, r)"
proof -
  obtain x where x: "cond_value c = Some (NumVal (Fin x))" using cond_ok_pos [OF assms(1)] by blast
  have w: "cond_op c \<in> set COMPARE" "cond_op c \<notin> set ARITH" "cond_op c \<noteq> js ''(''" using assms(1) by (auto simp: cond_ok_def lit)
  have "sum_level p (TId (cond_var c) # TOp (cond_op c) # us) = Some (EVar (cond_var c), TOp (cond_op c) # us)" for us
    using w by (intro chain_one) (auto simp: halts_def expect_def)
  moreover have "sum_level p (TNum (Fin x) # r) = Some (ENum (Fin x), r)"
    by (intro chain_one halts_subset [OF assms(2)]) auto
  moreover have "operands n (sum_level p) COMPARE e r = Some (e, r)" for n e by (rule operands_halt [OF halts_subset [OF assms(2)]]) simp
  ultimately show ?thesis using w(1) by (simp add: cond_toks_def cond_ast_def x chain_def [of COMPARE])
qed

lemma parse_conditions:
  assumes "\<forall>d \<in> set (c # cs). cond_ok d"
  shows "binary p (join [TOp (js ''&&'')] (map cond_toks (c # cs)) @ TOp (js ''?'') # r) = Some (conds_ast (c # cs), TOp (js ''?'') # r)"
proof -
  have "chain [js ''&&''] (compare_level p) (join [TOp (js ''&&'')] (map cond_toks (c # cs)) @ TOp (js ''?'') # r) =
      Some (foldl (\<lambda>e x. EBin (js ''&&'') e (cond_ast x)) (cond_ast c) cs, TOp (js ''?'') # r)"
  proof (rule chain_all [where Q = "halts (ARITH @ COMPARE)"])
    show "compare_level p (cond_toks d @ q) = Some (cond_ast d, q)" if "d \<in> set (c # cs)" "halts (ARITH @ COMPARE) q" for d q
      using that assms by (intro parse_condition) auto
  qed (simp_all add: halts_def lit)
  then show ?thesis by (simp add: binary_def conds_ast_def foldl_map)
qed

subsection \<open>Printed expressions\<close>

text \<open>Every tier but the last has a condition; a single tier may have one.\<close>

definition complete_config :: "visual_tier list \<Rightarrow> bool" where
  "complete_config ts \<longleftrightarrow> config_ok ts \<and> list_all plain_label ts \<and> list_all (\<lambda>t. vt_conditions t \<noteq> []) (butlast ts)"

definition tier_part_ok :: "visual_tier \<Rightarrow> bool" where
  "tier_part_ok t \<longleftrightarrow> part_ok t \<and> plain_label t"

abbreviation fallback_toks :: "token list" where
  "fallback_toks \<equiv> [TId (js ''p''), TOp (js ''*''), TNum (Fin 0), TOp (js ''+''), TId (js ''c''), TOp (js ''*''), TNum (Fin 0)]"

abbreviation fallback_ast :: expr where
  "fallback_ast \<equiv> EBin (js ''+'') (EBin (js ''*'') (EVar (js ''p'')) (ENum (Fin 0))) (EBin (js ''*'') (EVar (js ''c'')) (ENum (Fin 0)))"

fun expr_text :: "visual_tier list \<Rightarrow> jsstr" where
  "expr_text [] = js ''p * 0 + c * 0''"
| "expr_text (t # ts) = (if vt_conditions t = [] then tier_text [] t else printed_part t @ js '' : '' @ expr_text ts)"

fun expr_toks :: "visual_tier list \<Rightarrow> token list" where
  "expr_toks [] = fallback_toks"
| "expr_toks (t # ts) = (if vt_conditions t = [] then tier_toks t
     else join [TOp (js ''&&'')] (map cond_toks (vt_conditions t)) @ TOp (js ''?'') # tier_toks t @ TOp (js '':'') # expr_toks ts)"

fun expr_ast :: "visual_tier list \<Rightarrow> expr" where
  "expr_ast [] = fallback_ast"
| "expr_ast (t # ts) = (if vt_conditions t = [] then tier_ast t else ECond (conds_ast (vt_conditions t)) (tier_ast t) (expr_ast ts))"

lemma generated_text:
  assumes "complete_config ts"
  shows "generateExprFromVisualConfig (Some ts) = expr_text ts"
proof -
  have ok: "config_ok ts" and c: "\<forall>t \<in> set (butlast ts). vt_conditions t \<noteq> []" using assms by (auto simp: complete_config_def list_all_iff)
  have many: "printed_part t @ concat (map (\<lambda>t. 32 # 58 # 32 # printed_part t) us) = expr_text (t # us)"
    if "\<forall>u \<in> set (butlast (t # us)). vt_conditions u \<noteq> []" "vt_conditions (last (t # us)) = []" for t us
    using that
  proof (induction us arbitrary: t)
    case Nil
    then show ?case by (simp add: printed_part_def buildConditionStr_def)
  next
    case (Cons u us)
    then show ?case using Cons.IH [of u] by (simp add: lit)
  qed
  obtain t us where ts: "ts = t # us" using ok by (cases ts) (simp_all add: config_ok_def)
  show ?thesis
  proof (cases us)
    case Nil
    then show ?thesis using generate_one [of t] config_ok_parts [OF ok] by (simp add: ts lit)
  next
    case (Cons u vs)
    then show ?thesis using generate_many [of t u vs] many [of t us] ok c by (simp add: ts config_ok_def)
  qed
qed

lemma reads_expr:
  "\<forall>t \<in> set ts. tier_part_ok t \<Longrightarrow> reads (expr_text ts) (expr_toks ts)"
proof (induction ts)
  case Nil
  have "reads (js ''p'') [TId (js ''p'')]" "reads (js ''c'') [TId (js ''c'')]" "reads (js ''0'') [TNum (Fin 0)]"
    using reads_pos(1) [of 0] rnd_nat [of 0]
    by (auto intro!: reads_ident simp: double_def ident_start_def ident_part_def is_word_def is_digit_def lit)
  moreover have "reads (js ''*'') [TOp (js ''*'')]" "reads (js ''+'') [TOp (js ''+'')]" by (intro reads_op, simp)+
  ultimately have "reads (js ''p'' @ 32 # js ''*'' @ 32 # js ''0'' @ 32 # js ''+'' @ 32 # js ''c'' @ 32 # js ''*'' @ 32 # js ''0'')
      ([TId (js ''p'')] @ [TOp (js ''*'')] @ [TNum (Fin 0)] @ [TOp (js ''+'')] @ [TId (js ''c'')] @ [TOp (js ''*'')] @ [TNum (Fin 0)])"
    by (intro reads_space)
  then show ?case by (simp add: lit)
next
  case (Cons t ts)
  then have t: "tier_ok t" "plain_label t" "\<forall>c \<in> set (vt_conditions t). cond_ok c" by (simp_all add: tier_part_ok_def part_ok_def)
  note tier = reads_tier [OF t(1,2)]
  show ?case
  proof (cases "vt_conditions t")
    case Nil
    then show ?thesis using tier by simp
  next
    case (Cons c cs)
    have "reads (buildConditionStr (c # cs) @ 32 # js ''?'' @ 32 # tier_text [] t @ 32 # js '':'' @ 32 # expr_text ts)
        (join [TOp (js ''&&'')] (map cond_toks (c # cs)) @ [TOp (js ''?'')] @ tier_toks t @ [TOp (js '':'')] @ expr_toks ts)"
      using t(3) Cons.prems Cons.IH \<open>vt_conditions t = c # cs\<close>
      by (intro reads_space reads_conditions tier reads_op) simp_all
    moreover have "buildConditionStr (c # cs) \<noteq> []" using conditions_Nil [OF t(3)] Cons by simp
    ultimately show ?thesis using Cons by (simp add: printed_part_def lit)
  qed
qed

lemma parse_fallback: "conditional (Suc n) (fallback_toks @ []) = Some (fallback_ast, [])"
  by (simp add: binary_def chain_def expect_def lit)

lemma parse_tokens:
  "\<forall>t \<in> set ts. tier_part_ok t \<Longrightarrow> length (expr_toks ts) < n \<Longrightarrow> conditional n (expr_toks ts) = Some (expr_ast ts, [])"
proof (induction ts arbitrary: n)
  case Nil
  then show ?case using parse_fallback by (cases n) auto
next
  case (Cons t ts)
  have "3 < n" using Cons.prems(2) by (auto simp: tier_toks_def split: if_splits)
  then obtain k where n: "n = Suc (Suc (Suc k))" by (metis Suc_lessE numeral_3_eq_3 less_imp_Suc_add)
  have t: "tier_ok t" "\<forall>c \<in> set (vt_conditions t). cond_ok c" using Cons.prems by (simp_all add: tier_part_ok_def part_ok_def)
  show ?case
  proof (cases "vt_conditions t")
    case Nil
    have "conditional n (tier_toks t @ []) = Some (tier_ast t, [])"
      unfolding n by (intro conditional_binary parse_tier [OF t(1)]) (simp_all add: halts_def)
    with Nil show ?thesis by simp
  next
    case (Cons c cs)
    let ?r = "tier_toks t @ TOp (js '':'') # expr_toks ts"
    have "binary (conditional (Suc (Suc k))) (join [TOp (js ''&&'')] (map cond_toks (c # cs)) @ TOp (js ''?'') # ?r) =
        Some (conds_ast (c # cs), TOp (js ''?'') # ?r)"
      using t(2) Cons by (intro parse_conditions) simp
    moreover have "conditional (Suc (Suc k)) ?r = Some (tier_ast t, TOp (js '':'') # expr_toks ts)"
      by (intro conditional_binary parse_tier [OF t(1)]) (simp_all add: halts_def lit)
    moreover have "conditional (Suc (Suc k)) (expr_toks ts) = Some (expr_ast ts, [])" using Cons.IH [of "Suc (Suc k)"] Cons.prems Cons by (simp add: n del: conditional.simps)
    ultimately have "conditional n (join [TOp (js ''&&'')] (map cond_toks (c # cs)) @ TOp (js ''?'') # ?r) =
        Some (ECond (conds_ast (c # cs)) (tier_ast t) (expr_ast ts), [])"
      unfolding n by (subst conditional.simps) (simp add: expect_def del: conditional.simps)
    with Cons show ?thesis by (simp add: n del: conditional.simps)
  qed
qed

lemma parse_generated:
  assumes "complete_config ts"
  shows "parse_expr (generateExprFromVisualConfig (Some ts)) = Some (expr_ast ts)"
proof -
  have ok: "\<forall>t \<in> set ts. tier_part_ok t"
    using assms config_ok_parts [of ts] by (auto simp: complete_config_def tier_part_ok_def list_all_iff)
  have "tokenize (expr_text ts) = Some (expr_toks ts)"
    using readsD [OF reads_expr [OF ok], of "[]"] by (simp add: stops_def tokenize.simps [of "[]"])
  then show ?thesis using parse_tokens [OF ok lessI] by (simp add: parse_expr_def generated_text [OF assms] del: conditional.simps)
qed

subsection \<open>Evaluation\<close>

definition holds :: "(jsstr \<times> jsnum) list \<Rightarrow> tier_condition \<Rightarrow> bool" where
  "holds env c =
     (let x = the (map_of env (cond_var c)); y = (case cond_value c of Some (NumVal y) \<Rightarrow> y | _ \<Rightarrow> NaN)
      in if cond_op c = js ''<'' then num_less x y else if cond_op c = js ''<='' then num_le x y
         else if cond_op c = js ''>'' then num_less y x else num_le y x)"

text \<open>The token counts times the prices, added in the order of the variables; prices of zero are left out.\<close>

definition body_cost :: "(jsstr \<times> jsnum) list \<Rightarrow> visual_tier \<Rightarrow> jsnum" where
  "body_cost env t = (case map (\<lambda>(v, x). num_mul (the (map_of env v)) x) (body_terms t) of y # ys \<Rightarrow> foldl num_add y ys | [] \<Rightarrow> NaN)"

definition env_ok :: "(jsstr \<times> jsnum) list \<Rightarrow> bool" where
  "env_ok env \<longleftrightarrow> (\<forall>v \<in> insert (js ''len'') (set price_keys). map_of env v \<noteq> None)"

lemma token_env_ok: "env_ok (token_env p c extras)"
  by (simp add: env_ok_def token_env_def price_keys_def ESTIMATOR_VARS_def Let_def lit)

lemma eval_num: "eval_expr env (num_ast (Fin y)) m = Some (VNum (Fin y), m)"
  by (simp add: num_ast_def)

lemma eval_term:
  assumes "term_ok a" "env_ok env"
  shows "eval_expr env (term_ast a) m = Some (VNum (num_mul (the (map_of env (fst a))) (snd a)), m)"
proof -
  obtain v y where v: "a = (v, Fin y)" "v \<in> set price_keys" using assms(1) by (cases a; cases "snd a") (auto simp: term_ok_def cost_ok_def)
  then obtain x where "map_of env v = Some x" using assms(2) by (auto simp: env_ok_def)
  then show ?thesis by (simp add: v(1) term_ast_def eval_num apply_op_def)
qed

lemma eval_sum:
  assumes "env_ok env"
  shows "\<forall>a \<in> set as. term_ok a \<Longrightarrow> eval_expr env e m = Some (VNum x, m) \<Longrightarrow>
    eval_expr env (foldl (EBin (js ''+'')) e (map term_ast as)) m =
      Some (VNum (foldl num_add x (map (\<lambda>(v, y). num_mul (the (map_of env v)) y) as)), m)"
proof (induction as arbitrary: e x)
  case (Cons a as)
  have "eval_expr env (EBin (js ''+'') e (term_ast a)) m = Some (VNum (num_add x (num_mul (the (map_of env (fst a))) (snd a))), m)"
    using Cons.prems eval_term [OF _ assms, of a m] by (simp add: apply_op_def)
  then show ?case using Cons.IH Cons.prems(1) by (simp add: split_def)
qed simp

lemma eval_tier:
  assumes "tier_ok t" "env_ok env"
  shows "eval_expr env (tier_ast t) m = Some (VNum (body_cost env t), vt_label t)"
proof -
  obtain a as where b: "body_terms t = a # as" using body_terms_Cons by blast
  have "eval_expr env (body_ast t) m = Some (VNum (body_cost env t), m)"
    using eval_sum [OF assms(2), of as "term_ast a" m] eval_term [OF _ assms(2), of a m] body_terms_ok(2) [OF assms(1)]
    by (simp add: body_ast_def body_cost_def b split_def)
  then show ?thesis by (simp add: tier_ast_def)
qed

lemma eval_condition:
  assumes "cond_ok c" "env_ok env"
  shows "eval_expr env (cond_ast c) m = Some (VBool (holds env c), m)"
proof -
  have "map_of env (cond_var c) \<noteq> None" using assms by (auto simp: cond_ok_def env_ok_def price_keys_def)
  moreover have "cond_op c \<in> set COMPARE" using assms(1) by (auto simp: cond_ok_def)
  ultimately show ?thesis by (auto simp: cond_ast_def holds_def apply_op_def Let_def lit)
qed

lemma eval_conjunction:
  assumes "env_ok env"
  shows "\<forall>c \<in> set cs. cond_ok c \<Longrightarrow> eval_expr env e m = Some (VBool b, m) \<Longrightarrow>
    eval_expr env (foldl (EBin (js ''&&'')) e (map cond_ast cs)) m = Some (VBool (b \<and> list_all (holds env) cs), m)"
proof (induction cs arbitrary: e b)
  case (Cons c cs)
  have "eval_expr env (EBin (js ''&&'') e (cond_ast c)) m = Some (VBool (b \<and> holds env c), m)"
    using Cons.prems eval_condition [OF _ assms, of c m] by simp
  then show ?case using Cons.IH Cons.prems(1) by simp
qed simp

lemma eval_conditions:
  "\<forall>d \<in> set (c # cs). cond_ok d \<Longrightarrow> env_ok env \<Longrightarrow> eval_expr env (conds_ast (c # cs)) m = Some (VBool (list_all (holds env) (c # cs)), m)"
  using eval_conjunction [of env cs "cond_ast c" m] by (simp add: conds_ast_def eval_condition)

lemma eval_expr_ast:
  assumes env: "env_ok env"
  shows "\<forall>t \<in> set ts. tier_part_ok t \<Longrightarrow> eval_expr env (expr_ast ts) m =
    (case find (\<lambda>t. list_all (holds env) (vt_conditions t)) ts of
       Some t \<Rightarrow> Some (VNum (body_cost env t), vt_label t)
     | None \<Rightarrow> eval_expr env fallback_ast m)"
proof (induction ts)
  case (Cons t ts)
  then have t: "tier_ok t" "\<forall>c \<in> set (vt_conditions t). cond_ok c" by (simp_all add: tier_part_ok_def part_ok_def)
  show ?case
  proof (cases "vt_conditions t")
    case Nil
    then show ?thesis using eval_tier [OF t(1) env] by simp
  next
    case (Cons c cs)
    then show ?thesis using eval_conditions [OF _ env, of c cs m] eval_tier [OF t(1) env] t(2) Cons.IH Cons.prems by simp
  qed
qed simp

lemma eval_fallback:
  assumes "env_ok env"
  shows "\<exists>x. eval_expr env fallback_ast m = Some (VNum x, m) \<and> num_or_zero (Some x) = Fin 0"
proof -
  obtain x y where xy: "map_of env (js ''p'') = Some x" "map_of env (js ''c'') = Some y"
    using assms by (auto simp: env_ok_def price_keys_def)
  have z: "num_mul z (Fin 0) = NaN \<or> num_mul z (Fin 0) = Fin 0" for z by (cases z) (simp_all add: rnd_def)
  have "num_or_zero (Some (num_add (num_mul x (Fin 0)) (num_mul y (Fin 0)))) = Fin 0"
    using z [of x] z [of y] by (elim disjE) (simp_all add: num_or_zero_def rnd_def)
  then show ?thesis using xy by (simp add: apply_op_def)
qed

text \<open>
  C2: the cost that the estimator shows for an expression of the visual editor is the cost of the first
  tier whose conditions all hold for the token counts, under the name of this tier: the counts times
  the prices, rounded and added in the order of the variables. A single tier whose condition fails
  costs nothing. Nothing of it depends on how expressions outside of the grammar are evaluated.
\<close>

theorem estimate_first_tier:
  assumes "complete_config ts"
  shows "evalExprLocally other (generateExprFromVisualConfig (Some ts)) p c extras =
    (let env = token_env p c extras in
     case find (\<lambda>t. list_all (holds env) (vt_conditions t)) ts of
       Some t \<Rightarrow> \<lparr>er_cost = num_or_zero (Some (body_cost env t)), er_matchedTier = vt_label t, er_error = None\<rparr>
     | None \<Rightarrow> \<lparr>er_cost = Fin 0, er_matchedTier = [], er_error = None\<rparr>)"
proof -
  let ?s = "generateExprFromVisualConfig (Some ts)" and ?env = "token_env p c extras"
  have ok: "config_ok ts" "\<forall>t \<in> set ts. tier_part_ok t"
    using assms config_ok_parts [of ts] by (auto simp: complete_config_def tier_part_ok_def list_all_iff)
  obtain x r where s: "?s = x # r" "x \<in> {116, 112, 99, 108}" using generated_start [OF ok(1)] by blast
  have ne: "?s \<noteq> []" "trim ?s \<noteq> []" using s by (auto simp: trim_def dropWhile_eq_Nil_conv)
  obtain y where y: "eval_expr ?env fallback_ast [] = Some (VNum y, [])" "num_or_zero (Some y) = Fin 0"
    using eval_fallback [OF token_env_ok] by blast
  then show ?thesis
    using eval_expr_ast [OF token_env_ok ok(2), of p c extras "[]"] ne
    by (auto simp: evalExprLocally_def run_expr_def parse_generated [OF assms] Let_def simp del: eval_expr.simps split: option.split)
qed

lemma sample_complete: "complete_config sample_config"
  using sample_config_ok by (simp add: complete_config_def sample_config_def sample_tier_def normalizeVisualTier_def plain_label_def plain_unit_def lit)

lemma sample_len: "map_of (token_env (Fin (of_nat 1000)) (Fin (of_nat 10)) []) (js ''len'') = Some (Fin (of_nat 1000))"
  using rnd_nat [of 1000] by (simp add: token_env_def extra_count_def num_or_zero_def Let_def lit)

theorem estimate_first_tier_witness:
  "complete_config sample_config \<and>
   er_matchedTier (evalExprLocally (\<lambda>_ _. Inl []) (generateExprFromVisualConfig (Some sample_config)) (Fin (of_nat 1000)) (Fin (of_nat 10)) []) = js ''short''"
  using sample_complete estimate_first_tier [OF sample_complete, of "\<lambda>_ _. Inl []" "Fin (of_nat 1000)" "Fin (of_nat 10)" "[]"] sample_len
  by (simp add: Let_def sample_config_def sample_tier_def normalizeVisualTier_def holds_def num_le_def)

end
