(* ===== verification/TierEditor.thy ===== *)
theory TierEditor
  imports CostEstimator RequestRulesProps
begin

text \<open>
  The editor of tiered prices, \<^verbatim>\<open>system-settings/models/tiered-pricing-editor.tsx\<close>: the number fields,
  the cards of tiers and rules, and the component that keeps a visual and a textual form of one
  expression. A commit is one run of the effects after a rendering; the parent component stores the
  two expressions that it is given. \<^verbatim>\<open>toLocaleString\<close> is the argument \<open>locale\<close>.
\<close>

subsection \<open>Number fields\<close>

definition unitCostToPrice :: "tier_value \<Rightarrow> jsnum" where
  "unitCostToPrice uc = num_or_zero (Some (case uc of NumVal x \<Rightarrow> x | StrVal s \<Rightarrow> to_number s))"

definition priceToUnitCost :: "tier_value \<Rightarrow> jsnum" where
  "priceToUnitCost price = num_or_zero (Some (case price of NumVal x \<Rightarrow> x | StrVal s \<Rightarrow> to_number s))"

definition formatTokenHint :: "(jsnum \<Rightarrow> jsstr) \<Rightarrow> tier_value option \<Rightarrow> jsstr" where
  "formatTokenHint locale n = (case n of
      None \<Rightarrow> []
    | Some x \<Rightarrow>
      let v = (case x of NumVal y \<Rightarrow> y | StrVal s \<Rightarrow> to_number s) in
      if x = StrVal [] \<or> v = NaN then []
      else if v = Fin 0 then js ''= 0''
      else if num_le (Fin 1000000) v then js ''= '' @ locale (num_div v (Fin 1000000)) @ js ''M tokens''
      else if num_le (Fin 1000) v then js ''= '' @ locale (num_div v (Fin 1000)) @ js ''K tokens''
      else js ''= '' @ locale v @ js '' tokens'')"

definition formatNumberDraft :: "tier_value \<Rightarrow> jsstr" where
  "formatNumberDraft v = (case v of
      NumVal x \<Rightarrow> (case x of Fin _ \<Rightarrow> num_to_string x | _ \<Rightarrow> js ''0'')
    | StrVal s \<Rightarrow> s)"

definition parseNumberDraft :: "jsstr \<Rightarrow> jsnum" where
  "parseNumberDraft s = (if trim s = [] then Fin 0 else (case to_number s of Fin x \<Rightarrow> Fin x | _ \<Rightarrow> Fin 0))"

definition isZeroDraft :: "jsstr \<Rightarrow> bool" where
  "isZeroDraft s \<longleftrightarrow> trim s \<noteq> [] \<and> parseNumberDraft s = Fin 0"

text \<open>A number field: the text that is shown, the focus, and the value of the form.\<close>

record draft_field =
  df_draft :: jsstr
  df_focused :: bool
  df_value :: tier_value

definition draft_sync :: "draft_field \<Rightarrow> draft_field" where
  "draft_sync f = (if df_focused f then f else f\<lparr>df_draft := formatNumberDraft (df_value f)\<rparr>)"

definition draft_change :: "jsstr \<Rightarrow> draft_field \<Rightarrow> draft_field" where
  "draft_change nextDraft f = f\<lparr>df_draft := nextDraft, df_value := NumVal (parseNumberDraft nextDraft)\<rparr>"

definition draft_focus :: "draft_field \<Rightarrow> draft_field" where
  "draft_focus f = f\<lparr>df_focused := True\<rparr>"

definition draft_blur :: "draft_field \<Rightarrow> draft_field" where
  "draft_blur f = (let normalized = parseNumberDraft (df_draft f)
     in f\<lparr>df_focused := False, df_draft := num_to_string normalized, df_value := NumVal normalized\<rparr>)"

subsection \<open>The cards of tiers\<close>

definition handleConditionChange :: "nat \<Rightarrow> tier_condition \<Rightarrow> visual_tier \<Rightarrow> visual_tier" where
  "handleConditionChange conditionIndex next_c tier = tier\<lparr>vt_conditions := (vt_conditions tier)[conditionIndex := next_c]\<rparr>"

definition without_index :: "nat \<Rightarrow> 'a list \<Rightarrow> 'a list" where
  "without_index i xs = map snd (filter (\<lambda>(j, _). j \<noteq> i) (enumerate 0 xs))"

definition handleConditionRemove :: "nat \<Rightarrow> visual_tier \<Rightarrow> visual_tier" where
  "handleConditionRemove conditionIndex tier = tier\<lparr>vt_conditions := without_index conditionIndex (vt_conditions tier)\<rparr>"

definition handlePriceChange :: "jsstr \<Rightarrow> jsnum \<Rightarrow> visual_tier \<Rightarrow> visual_tier" where
  "handlePriceChange field v tier =
     (if field = js ''input_unit_cost'' then tier\<lparr>vt_input_unit_cost := v\<rparr>
      else if field = js ''output_unit_cost'' then tier\<lparr>vt_output_unit_cost := v\<rparr>
      else if field = js ''cache_read_unit_cost'' then tier\<lparr>vt_cache_read_unit_cost := v\<rparr>
      else if field = js ''cache_create_unit_cost'' then tier\<lparr>vt_cache_create_unit_cost := v\<rparr>
      else if field = js ''cache_create_1h_unit_cost'' then tier\<lparr>vt_cache_create_1h_unit_cost := v\<rparr>
      else if field = js ''image_unit_cost'' then tier\<lparr>vt_image_unit_cost := v\<rparr>
      else if field = js ''image_output_unit_cost'' then tier\<lparr>vt_image_output_unit_cost := v\<rparr>
      else if field = js ''audio_input_unit_cost'' then tier\<lparr>vt_audio_input_unit_cost := v\<rparr>
      else if field = js ''audio_output_unit_cost'' then tier\<lparr>vt_audio_output_unit_cost := v\<rparr>
      else tier)"

definition handleCacheModeChange :: "jsstr \<Rightarrow> visual_tier \<Rightarrow> visual_tier" where
  "handleCacheModeChange mode tier = tier\<lparr>vt_cache_mode := mode,
     vt_cache_create_1h_unit_cost := (if mode = CACHE_MODE_TIMED then vt_cache_create_1h_unit_cost tier else Fin 0)\<rparr>"

definition handleTierChange :: "nat \<Rightarrow> visual_tier \<Rightarrow> visual_tier list option \<Rightarrow> visual_tier list" where
  "handleTierChange index next_t visualConfig = (normalizeVisualConfig visualConfig)[index := normalizeVisualTier (as_partial next_t)]"

definition default_bound :: "jsstr \<Rightarrow> tier_condition" where
  "default_bound v = \<lparr>cond_var = v, cond_op = js ''<'', cond_value = Some (NumVal (Fin 200000))\<rparr>"

definition handleAddTier :: "visual_tier list option \<Rightarrow> visual_tier list" where
  "handleAddTier visualConfig =
     (let tiers = normalizeVisualConfig visualConfig;
          bounded = (if tiers \<noteq> [] \<and> vt_conditions (last tiers) = []
            then butlast tiers @ [normalizeVisualTier ((as_partial (last tiers))\<lparr>pv_conditions := Some [default_bound (js ''len'')]\<rparr>)]
            else tiers)
      in bounded @ [normalizeVisualTier \<lparr>pv_label = Some (js ''tier_'' @ show_nat (length bounded + 1)), pv_conditions = Some [],
           pv_input_unit_cost = Some (Fin 0), pv_output_unit_cost = Some (Fin 0), pv_cache_mode = None, pv_extra = []\<rparr>])"

definition handleRemoveTier :: "nat \<Rightarrow> visual_tier list option \<Rightarrow> visual_tier list" where
  "handleRemoveTier index visualConfig =
     (let tiers = without_index index (normalizeVisualConfig visualConfig)
      in if tiers \<noteq> [] then tiers else normalizeVisualConfig visualConfig)"

definition handleAddCondition :: "nat \<Rightarrow> visual_tier list option \<Rightarrow> visual_tier list option" where
  "handleAddCondition index visualConfig =
     (let tiers = normalizeVisualConfig visualConfig; tier = tiers ! index in
      if length (vt_conditions tier) \<ge> 2 then visualConfig
      else (let nextVar = (if js ''len'' \<in> cond_var ` set (vt_conditions tier) then js ''c'' else js ''len'')
        in Some (tiers[index := tier\<lparr>vt_conditions := vt_conditions tier @ [default_bound nextVar]\<rparr>])))"

subsection \<open>The cards of request rules\<close>

definition handleSourceChange :: "jsstr \<Rightarrow> request_condition \<Rightarrow> request_condition" where
  "handleSourceChange source condition =
     (if source = SOURCE_TIME then createEmptyTimeCondition
      else if source = SOURCE_HEADER \<or> source = SOURCE_PARAM then ParamHeaderCondition source [] MATCH_EQ []
      else condition)"

fun handleRuleModeChange :: "jsstr \<Rightarrow> request_condition \<Rightarrow> request_condition" where
  "handleRuleModeChange mode (ParamHeaderCondition s p _ v) = ParamHeaderCondition s p mode v"
| "handleRuleModeChange mode (TimeCondition f z _ v a b) = TimeCondition f z mode v a b"

definition handleRuleConditionChange :: "nat \<Rightarrow> request_condition \<Rightarrow> rule_group \<Rightarrow> rule_group" where
  "handleRuleConditionChange conditionIndex next_c g = g\<lparr>conditions := (conditions g)[conditionIndex := next_c]\<rparr>"

definition handleAddRuleCondition :: "bool \<Rightarrow> rule_group \<Rightarrow> rule_group" where
  "handleAddRuleCondition timeMode g =
     g\<lparr>conditions := conditions g @ [if timeMode then createEmptyTimeCondition else createEmptyCondition]\<rparr>"

definition handleRuleConditionRemove :: "nat \<Rightarrow> rule_group \<Rightarrow> rule_group" where
  "handleRuleConditionRemove conditionIndex g = g\<lparr>conditions := without_index conditionIndex (conditions g)\<rparr>"

definition handleMultiplierChange :: "jsnum \<Rightarrow> rule_group \<Rightarrow> rule_group" where
  "handleMultiplierChange v g = g\<lparr>multiplier := num_to_string v\<rparr>"

subsection \<open>The component\<close>

datatype editor_mode = VisualMode | RawMode

record preset =
  pr_key :: jsstr
  pr_expr :: jsstr
  pr_requestRules :: "rule_group list option"

text \<open>
  The state of the component, the properties that the parent passes, and the dependencies with which
  the first two effects last ran.
\<close>

record editor =
  ed_editorMode :: editor_mode
  ed_visualConfig :: "visual_tier list option"
  ed_rawExpr :: jsstr
  ed_requestRuleGroups :: "rule_group list"
  ed_initRef :: bool
  ed_modelName :: "jsstr option"
  ed_currentExpr :: jsstr
  ed_currentRequestRuleExpr :: jsstr
  ed_seenExprs :: "(jsstr \<times> jsstr) option"
  ed_seenModel :: "jsstr option option"

definition groups_or_empty :: "jsstr \<Rightarrow> rule_group list throws" where
  "groups_or_empty r = bind_throws (tryParseRequestRuleExpr r) (\<lambda>gs. Inr (case gs of Some gs \<Rightarrow> gs | None \<Rightarrow> []))"

definition mount :: "jsstr option \<Rightarrow> jsstr \<Rightarrow> jsstr \<Rightarrow> editor throws" where
  "mount modelName currentExpr currentRequestRuleExpr =
     bind_throws (groups_or_empty currentRequestRuleExpr) (\<lambda>gs. Inr \<lparr>
       ed_editorMode = VisualMode, ed_visualConfig = tryParseVisualConfig currentExpr,
       ed_rawExpr = combineBillingExpr currentExpr currentRequestRuleExpr, ed_requestRuleGroups = gs, ed_initRef = False,
       ed_modelName = modelName, ed_currentExpr = currentExpr, ed_currentRequestRuleExpr = currentRequestRuleExpr,
       ed_seenExprs = None, ed_seenModel = None\<rparr>)"

definition effectiveExpr :: "editor \<Rightarrow> jsstr throws" where
  "effectiveExpr s = (case ed_editorMode s of
      VisualMode \<Rightarrow> Inr (generateExprFromVisualConfig (ed_visualConfig s))
    | RawMode \<Rightarrow> bind_throws (splitBillingExprAndRequestRules (ed_rawExpr s)) (\<lambda>(billingExpr, _). Inr billingExpr))"

definition canUseVisualRules :: "editor \<Rightarrow> bool throws" where
  "canUseVisualRules s =
     (if ed_currentRequestRuleExpr s = [] then Inr True
      else bind_throws (tryParseRequestRuleExpr (ed_currentRequestRuleExpr s)) (\<lambda>gs. Inr (gs \<noteq> None)))"

definition init_effect :: "editor \<Rightarrow> editor throws" where
  "init_effect s =
     (let deps = (ed_currentExpr s, ed_currentRequestRuleExpr s); seen = s\<lparr>ed_seenExprs := Some deps\<rparr> in
      if ed_seenExprs s = Some deps \<or> ed_initRef s then Inr seen
      else bind_throws (groups_or_empty (ed_currentRequestRuleExpr s)) (\<lambda>gs.
        let opened = (case tryParseVisualConfig (ed_currentExpr s) of
            Some parsedConfig \<Rightarrow> seen\<lparr>ed_visualConfig := Some parsedConfig, ed_editorMode := VisualMode\<rparr>
          | None \<Rightarrow> if ed_currentExpr s \<noteq> [] then seen\<lparr>ed_visualConfig := None, ed_editorMode := RawMode\<rparr>
                    else seen\<lparr>ed_visualConfig := Some createDefaultVisualConfig\<rparr>)
        in Inr (opened\<lparr>ed_initRef := True, ed_rawExpr := combineBillingExpr (ed_currentExpr s) (ed_currentRequestRuleExpr s),
                  ed_requestRuleGroups := gs\<rparr>)))"

definition model_effect :: "editor \<Rightarrow> editor" where
  "model_effect s = (if ed_seenModel s = Some (ed_modelName s) then s else s\<lparr>ed_seenModel := Some (ed_modelName s), ed_initRef := False\<rparr>)"

text \<open>All effects of a rendering \<open>s\<close>; the last two read the rendered state, not what the first ones set.\<close>

definition commit :: "editor \<Rightarrow> editor throws" where
  "commit s =
     bind_throws (effectiveExpr s) (\<lambda>expr.
     bind_throws (init_effect s) (\<lambda>s1.
     let s2 = model_effect s1; s3 = s2\<lparr>ed_currentExpr := expr\<rparr>; ruleExpr = buildRequestRuleExpr (ed_requestRuleGroups s)
     in Inr (if ed_editorMode s = VisualMode then s3\<lparr>ed_currentRequestRuleExpr := ruleExpr\<rparr> else s3)))"

fun commits :: "nat \<Rightarrow> editor \<Rightarrow> editor throws" where
  "commits 0 s = Inr s"
| "commits (Suc n) s = bind_throws (commit s) (commits n)"

text \<open>The component renders again as long as an effect has changed something; \<open>None\<close> if that never ends.\<close>

partial_function (option) settle :: "editor \<Rightarrow> editor throws option" where
  "settle s = (case commit s of Inl e \<Rightarrow> Some (Inl e) | Inr s' \<Rightarrow> if s' = s then Some (Inr s) else settle s')"

definition handleVisualChange :: "visual_tier list \<Rightarrow> editor \<Rightarrow> editor" where
  "handleVisualChange next_c s = s\<lparr>ed_visualConfig := Some next_c\<rparr>"

definition handleRawChange :: "jsstr \<Rightarrow> editor \<Rightarrow> editor throws" where
  "handleRawChange v s =
     bind_throws (splitBillingExprAndRequestRules v) (\<lambda>(_, ruleStr). Inr (s\<lparr>ed_rawExpr := v, ed_currentRequestRuleExpr := ruleStr\<rparr>))"

definition handleModeChange :: "editor_mode \<Rightarrow> editor \<Rightarrow> editor throws" where
  "handleModeChange next_m s = (case next_m of
      VisualMode \<Rightarrow>
        bind_throws (splitBillingExprAndRequestRules (ed_rawExpr s)) (\<lambda>(billingExpr, ruleStr).
        bind_throws (groups_or_empty ruleStr) (\<lambda>gs.
          Inr (s\<lparr>ed_visualConfig := Some (case tryParseVisualConfig billingExpr of Some parsed \<Rightarrow> parsed | None \<Rightarrow> createDefaultVisualConfig),
                 ed_requestRuleGroups := gs, ed_currentRequestRuleExpr := ruleStr, ed_editorMode := VisualMode\<rparr>)))
    | RawMode \<Rightarrow>
        (let expr = generateExprFromVisualConfig (ed_visualConfig s); combined = combineBillingExpr expr (buildRequestRuleExpr (ed_requestRuleGroups s))
         in Inr (s\<lparr>ed_rawExpr := (if combined \<noteq> [] then combined else expr), ed_editorMode := RawMode\<rparr>)))"

definition applyPreset :: "preset \<Rightarrow> editor \<Rightarrow> editor" where
  "applyPreset p s =
     (let presetGroups = (case pr_requestRules p of Some gs \<Rightarrow> gs | None \<Rightarrow> []); ruleExpr = buildRequestRuleExpr presetGroups;
          combined = combineBillingExpr (pr_expr p) ruleExpr;
          s1 = s\<lparr>ed_rawExpr := (if combined \<noteq> [] then combined else pr_expr p)\<rparr>;
          s2 = (case tryParseVisualConfig (pr_expr p) of
              Some parsed \<Rightarrow> s1\<lparr>ed_visualConfig := Some parsed, ed_editorMode := VisualMode\<rparr>
            | None \<Rightarrow> s1\<lparr>ed_editorMode := RawMode, ed_visualConfig := None\<rparr>)
      in s2\<lparr>ed_requestRuleGroups := presetGroups, ed_currentRequestRuleExpr := ruleExpr\<rparr>)"

definition handleRuleGroupsChange :: "rule_group list \<Rightarrow> editor \<Rightarrow> editor" where
  "handleRuleGroupsChange next_g s = s\<lparr>ed_requestRuleGroups := next_g\<rparr>"

subsection \<open>Printed expressions between rules\<close>

text \<open>Every star of a text stands inside of parentheses, at depth \<open>d\<close> of its start.\<close>

fun shielded :: "int \<Rightarrow> jsstr \<Rightarrow> bool" where
  "shielded d [] = True"
| "shielded d (c # r) = ((c = 42 \<longrightarrow> d \<noteq> 0) \<and> shielded (paren_step d c) r)"

lemma shielded_append: "shielded d (a @ b) \<longleftrightarrow> shielded d a \<and> shielded (depth d a) b"
  by (induction a arbitrary: d) auto

lemma shielded_no_star: "42 \<notin> set w \<Longrightarrow> shielded d w"
  by (induction w arbitrary: d) auto

lemma shielded_inside: "no_parens w \<Longrightarrow> d \<noteq> 0 \<Longrightarrow> shielded d w"
  by (induction w arbitrary: d) auto

lemma shielded_top_free: "shielded d w \<Longrightarrow> top_free (js '' * '') d w"
  by (induction w arbitrary: d) (auto simp: starts_with_iff lit)

lemma shielded_piece:
  assumes "w \<noteq> []" "trimmed w" "last w \<noteq> 42" "balanced w" "shielded 0 w"
  shows "mul.piece w \<and> trimmed w"
proof -
  have "last w \<noteq> 32" using assms(1,2) by (auto simp: trimmed_def)
  then have "last w \<notin> set (js '' * '')" using assms(3) by (simp add: lit)
  then show ?thesis unfolding mul.piece_def using assms shielded_top_free [OF assms(5)] by (simp add: balanced_def)
qed

lemma no_rule_part:
  assumes "mul.piece w \<and> trimmed w" "hd w \<noteq> 40"
  shows "tryParseRequestRuleExpr w = Inr None"
proof -
  obtain c r where w: "w = c # r" "c \<noteq> 40" using assms unfolding mul.piece_def by (cases w) auto
  have "splitTopLevelMultiply w = [w]" unfolding splitTopLevelMultiply_def using mul.split_join [of "[w]"] assms(1) by simp
  moreover have "re_match RULE_FACTOR w = None" using w by (simp add: RULE_FACTOR_def re_match_Bol mt_Seq mt_Str lit)
  ultimately show ?thesis using assms(1) w by (simp add: tryParseRequestRuleExpr_def trim_id tryParseRuleGroupFactor_def)
qed

definition editable :: "visual_tier list \<Rightarrow> bool" where
  "editable ts \<longleftrightarrow> complete_config ts \<and> list_all (\<lambda>t. no_parens (vt_label t)) ts"

lemma body_no_parens:
  assumes "tier_ok t"
  shows "no_parens (buildTierBodyExpr t)"
proof -
  have "40 \<notin> set (term_text x)" if x: "term_ok x" for x
  proof -
    have "40 \<notin> set (num_to_string (snd x))" using x cost_ok_num(1) [of "snd x"] unfolding term_ok_def num_text_def split_def
      by (auto simp: num_unit_def is_digit_def)
    then show ?thesis using x by (auto simp: term_ok_def term_text_def price_keys_def lit)
  qed
  then have "40 \<notin> (\<Union>x \<in> set (body_terms t). set (term_text x))" using body_terms_ok(2) [OF assms] by blast
  then have "40 \<notin> set (buildTierBodyExpr t)"
    using set_join [of "js '' + ''" "map term_text (body_terms t)"] by (auto simp: body_as_terms [OF assms] lit)
  then show ?thesis using body_units(1) [OF assms] by (auto simp: no_parens_def)
qed

lemma tier_shape:
  assumes "tier_ok t" "no_parens (vt_label t)"
  shows "balanced (tier_text [] t)" "shielded 0 (tier_text [] t)" "last (tier_text [] t) = 41"
proof -
  let ?w = "34 # vt_label t @ js ''\", '' @ buildTierBodyExpr t"
  have t: "tier_text [] t = js ''tier'' @ 40 # ?w @ [41]" using assms(1) by (simp add: tier_text_def tier_ok_def lit)
  have w: "no_parens ?w" using assms(2) body_no_parens [OF assms(1)] by (simp add: lit)
  have "balanced (40 # ?w @ [41])" by (rule balanced_wrap [OF balanced_no_parens [OF w]])
  then show "balanced (tier_text [] t)" unfolding t by (intro balanced_append [OF balanced_no_parens]) (simp_all add: lit)
  show "shielded 0 (tier_text [] t)" unfolding t using shielded_inside [OF w, of 1] w by (simp add: shielded_append shielded_no_star lit)
  show "last (tier_text [] t) = 41" by (simp add: t)
qed

lemma condition_units: "cond_ok c \<Longrightarrow> d \<in> set (condition_text c) \<Longrightarrow> d \<notin> {40, 41, 42}"
proof -
  assume c: "cond_ok c" and d: "d \<in> set (condition_text c)"
  obtain x where x: "cond_value c = Some (NumVal (Fin x))" "double x" "cond_text (num_to_string (Fin x))" using c by (rule cond_ok_cases)
  then have "d \<notin> {40, 41, 42}" if "d \<in> set (num_to_string (Fin x))" using that by (auto simp: cond_text_def cond_unit_def is_digit_def)
  then show ?thesis using c d by (auto simp: condition_text_def cond_ok_def value_text_def x(1) lit simp del: num_to_string.simps)
qed

lemma conditions_units:
  assumes "\<forall>c \<in> set cs. cond_ok c"
  shows "no_parens (buildConditionStr cs)" "42 \<notin> set (buildConditionStr cs)"
proof -
  have "d \<notin> {40, 41, 42}" if d: "d \<in> set (buildConditionStr cs)" for d
  proof -
    consider "d \<in> {32, 38}" | c where "c \<in> set cs" "d \<in> set (condition_text c)"
      using d set_join [of "js '' && ''" "map condition_text (filter complete_condition cs)"] unfolding buildConditionStr_def by (auto simp: lit)
    then show ?thesis using condition_units assms by cases auto
  qed
  then show "no_parens (buildConditionStr cs)" "42 \<notin> set (buildConditionStr cs)" by (auto simp: no_parens_def)
qed

lemma part_shape:
  assumes "tier_part_ok t" "no_parens (vt_label t)"
  shows "balanced (printed_part t)" "shielded 0 (printed_part t)" "last (printed_part t) = 41"
proof -
  have t: "tier_ok t" "\<forall>c \<in> set (vt_conditions t). cond_ok c" using assms(1) by (simp_all add: tier_part_ok_def part_ok_def)
  note s = tier_shape [OF t(1) assms(2)] and c = conditions_units [OF t(2)]
  obtain x where x: "tier_text [] t = 116 # x" using tier_text_start by blast
  show "balanced (printed_part t)" using s c by (simp add: printed_part_def Let_def balanced_def no_parens_nonneg lit)
  show "shielded 0 (printed_part t)" using s c by (auto simp: printed_part_def Let_def shielded_append shielded_no_star lit)
  show "last (printed_part t) = 41" using s x by (simp add: printed_part_def Let_def)
qed

lemma text_shape:
  "\<forall>t \<in> set ts. tier_part_ok t \<and> no_parens (vt_label t) \<Longrightarrow> balanced (expr_text ts) \<and> expr_text ts \<noteq> [] \<and> \<not> is_ws (hd (expr_text ts)) \<and> hd (expr_text ts) \<noteq> 40
    \<and> last (expr_text ts) \<in> {41, 48} \<and> (ts \<noteq> [] \<and> vt_conditions (last ts) = [] \<longrightarrow> shielded 0 (expr_text ts))"
proof (induction ts)
  case Nil
  then show ?case by (simp add: balanced_def lit paren_step_def is_ws_def)
next
  case (Cons t ts)
  have t: "tier_part_ok t" "no_parens (vt_label t)" "tier_ok t" "part_ok t" using Cons.prems by (simp_all add: tier_part_ok_def part_ok_def)
  note s = tier_shape [OF t(3,2)] and q = part_shape [OF t(1,2)]
  obtain x r where x: "printed_part t = x # r" "x \<in> {116, 112, 99, 108}" using part_hd [OF t(4)] by blast
  obtain y where y: "tier_text [] t = 116 # y" using tier_text_start by blast
  show ?case
  proof (cases "vt_conditions t = []")
    case True
    then show ?thesis using s y by (simp add: is_ws_def)
  next
    case False
    have "balanced (expr_text ts)" "expr_text ts \<noteq> []" "last (expr_text ts) \<in> {41, 48}" "ts \<noteq> [] \<and> vt_conditions (last ts) = [] \<longrightarrow> shielded 0 (expr_text ts)"
      using Cons by simp_all
    moreover have "depth 0 (printed_part t) = 0" using q(1) by (simp add: balanced_def)
    ultimately show ?thesis using False q x
      by (auto simp: balanced_def shielded_append is_ws_def lit)
  qed
qed

lemma generated_shape:
  assumes "editable ts"
  shows "balanced (generateExprFromVisualConfig (Some ts))" "trimmed (generateExprFromVisualConfig (Some ts))"
    "generateExprFromVisualConfig (Some ts) \<noteq> []" "\<not> ends_with (generateExprFromVisualConfig (Some ts)) (js '' : 1'')"
    "unwrapOuterParens (generateExprFromVisualConfig (Some ts)) = generateExprFromVisualConfig (Some ts)"
proof -
  let ?g = "generateExprFromVisualConfig (Some ts)"
  have c: "complete_config ts" using assms by (simp add: editable_def)
  have "\<forall>t \<in> set ts. tier_part_ok t \<and> no_parens (vt_label t)"
    using assms config_ok_parts [of ts] by (auto simp: editable_def complete_config_def tier_part_ok_def list_all_iff)
  from text_shape [OF this] have s: "balanced ?g" "?g \<noteq> []" "\<not> is_ws (hd ?g)" "hd ?g \<noteq> 40" "last ?g \<in> {41, 48}"
    by (simp_all add: generated_text [OF c])
  then show "balanced ?g" "?g \<noteq> []" by blast+
  have "\<not> is_ws 41" "\<not> is_ws 48" by (simp_all add: is_ws_def)
  then have "\<not> is_ws (last ?g)" using s(5) by auto
  then show t: "trimmed ?g" using s(3) by (simp add: trimmed_def)
  show "\<not> ends_with ?g (js '' : 1'')" using s(5) by (auto simp: ends_with_iff lit)
  show "unwrapOuterParens ?g = ?g" using s by (intro unwrap_none t) (auto simp: hasFullOuterParens_def starts_with_iff lit)
qed

lemma split_plain:
  assumes "editable ts"
  shows "splitBillingExprAndRequestRules (generateExprFromVisualConfig (Some ts)) = Inr (generateExprFromVisualConfig (Some ts), [])"
proof -
  let ?g = "generateExprFromVisualConfig (Some ts)"
  have c: "complete_config ts" using assms by (simp add: editable_def)
  have parts: "\<forall>t \<in> set ts. tier_part_ok t \<and> no_parens (vt_label t)"
    using assms config_ok_parts [of ts] by (auto simp: editable_def complete_config_def tier_part_ok_def list_all_iff)
  note g = generated_shape [OF assms] and s = text_shape [OF parts]
  show ?thesis
  proof (cases "vt_conditions (last ts) = []")
    case True
    have "ts \<noteq> []" using c by (simp add: complete_config_def config_ok_def)
    with True s have "mul.piece ?g \<and> trimmed ?g"
      using g by (intro shielded_piece) (auto simp: generated_text [OF c])
    then have "splitTopLevelMultiply ?g = [?g]" unfolding splitTopLevelMultiply_def using mul.split_join [of "[?g]"] by simp
    then show ?thesis using g by (simp add: splitBillingExprAndRequestRules_def trim_id)
  next
    case False
    then obtain t where t: "ts = [t]" using c by (cases ts; cases "tl ts") (auto simp: complete_config_def config_ok_def)
    note q = part_shape [of t]
    let ?ws = "[printed_part t @ js '' : p'', js ''0 + c'', js ''0'']"
    have e: "?g = join (js '' * '') ?ws" using False generated_text [OF c] by (simp add: t lit)
    obtain x r where x: "printed_part t = x # r" "x \<in> {116, 112, 99, 108}" using part_hd [of t] parts by (auto simp: t tier_part_ok_def)
    have pieces: "mul.piece w \<and> trimmed w" "hd w \<noteq> 40" if w: "w \<in> set ?ws" for w
    proof -
      consider "w = printed_part t @ js '' : p''" | "w \<in> {js ''0 + c'', js ''0''}" using w by auto
      then show "mul.piece w \<and> trimmed w"
      proof cases
        case 1
        have "\<not> is_ws x" using x(2) by (auto simp: is_ws_def)
        then show ?thesis using 1 q parts x t
          by (intro shielded_piece) (simp_all add: trimmed_def is_ws_def [of 112] lit shielded_append balanced_def)
      next
        case 2
        then show ?thesis by (intro shielded_piece) (auto simp: trimmed_def is_ws_def lit balanced_def paren_step_def)
      qed
      show "hd w \<noteq> 40" using w x by (auto simp: lit)
    qed
    have "splitTopLevelMultiply ?g = ?ws" unfolding splitTopLevelMultiply_def e using pieces(1) by (intro mul.split_join) auto
    moreover have "sort_parts ?ws = Inr ([], ?ws)" using pieces no_rule_part by simp
    ultimately show ?thesis using g by (simp add: splitBillingExprAndRequestRules_def trim_id)
  qed
qed

subsection \<open>Switching between the forms\<close>

definition read_config :: "visual_tier list \<Rightarrow> visual_tier list" where
  "read_config ts = map (\<lambda>t. t\<lparr>vt_cache_mode := read_mode t\<rparr>) ts"

definition expr_of :: "visual_tier list \<Rightarrow> jsstr" where
  "expr_of ts = generateExprFromVisualConfig (Some ts)"

definition rules_of :: "rule_group list \<Rightarrow> jsstr" where
  "rules_of gs = buildRequestRuleExpr gs"

lemma expr_of_read [simp]: "expr_of (read_config ts) = expr_of ts"
  by (simp add: expr_of_def read_config_def generate_mode)

lemma parse_expr_of: "editable ts \<Longrightarrow> tryParseVisualConfig (expr_of ts) = Some (read_config ts)"
  by (simp add: expr_of_def read_config_def editable_def complete_config_def config_read_back)

lemma parse_rules_of: "list_all wf_group gs \<Longrightarrow> groups_or_empty (rules_of gs) = Inr gs"
  by (simp add: groups_or_empty_def rules_of_def rules_read_back)

lemma expr_of_nonempty: "editable ts \<Longrightarrow> expr_of ts \<noteq> []"
  by (simp add: expr_of_def generated_shape)

lemma combined_nonempty: "editable ts \<Longrightarrow> combineBillingExpr (expr_of ts) r \<noteq> []"
  using generated_shape(2,3) [of ts] by (simp add: combineBillingExpr_def Let_def expr_of_def trim_id lit)

lemma split_expr_of:
  assumes "editable ts" "list_all wf_group gs"
  shows "splitBillingExprAndRequestRules (combineBillingExpr (expr_of ts) (rules_of gs)) = Inr (expr_of ts, rules_of gs)"
proof (cases "gs = []")
  case True
  then show ?thesis using split_plain [OF assms(1)] generated_shape(2,3) [OF assms(1)]
    by (simp add: rules_of_def expr_of_def buildRequestRuleExpr_def combineBillingExpr_def trim_id)
next
  case False
  then show ?thesis using split_combined [OF _ _ _ _ _ assms(2), of "expr_of ts"] generated_shape [OF assms(1)]
    by (simp add: rules_of_def expr_of_def)
qed

lemma mount_first:
  assumes "editable ts" "list_all wf_group gs"
  shows "bind_throws (mount m (expr_of ts) (rules_of gs)) commit = Inr \<lparr>ed_editorMode = VisualMode, ed_visualConfig = Some (read_config ts),
     ed_rawExpr = combineBillingExpr (expr_of ts) (rules_of gs), ed_requestRuleGroups = gs, ed_initRef = False, ed_modelName = m,
     ed_currentExpr = expr_of ts, ed_currentRequestRuleExpr = rules_of gs, ed_seenExprs = Some (expr_of ts, rules_of gs), ed_seenModel = Some m\<rparr>"
  using assms by (simp add: mount_def commit_def effectiveExpr_def init_effect_def model_effect_def parse_rules_of parse_expr_of Let_def
      expr_of_def [symmetric] rules_of_def [symmetric])

lemma settled_commits: "commit s = Inr s \<Longrightarrow> commits n s = Inr s"
  by (induction n) simp_all

lemma settled_visual:
  assumes "commit s = Inr s" "ed_editorMode s = VisualMode" "ed_visualConfig s = Some ts"
  shows "ed_currentExpr s = expr_of ts" "ed_currentRequestRuleExpr s = rules_of (ed_requestRuleGroups s)"
    "ed_seenExprs s = Some (ed_currentExpr s, ed_currentRequestRuleExpr s)" "ed_seenModel s = Some (ed_modelName s)"
proof -
  obtain s1 where i: "init_effect s = Inr s1" and c: "s = (model_effect s1)\<lparr>ed_currentExpr := expr_of ts, ed_currentRequestRuleExpr := rules_of (ed_requestRuleGroups s)\<rparr>"
    using assms by (auto simp: commit_def effectiveExpr_def bind_throws_eq_Inr Let_def expr_of_def rules_of_def)
  from c show "ed_currentExpr s = expr_of ts" "ed_currentRequestRuleExpr s = rules_of (ed_requestRuleGroups s)"
    by (metis editor.select_convs editor.surjective editor.update_convs)+
  have "ed_seenExprs s1 = Some (ed_currentExpr s, ed_currentRequestRuleExpr s)"
    using i by (auto simp: init_effect_def Let_def bind_throws_eq_Inr split: if_splits option.splits)
  moreover have "ed_modelName s1 = ed_modelName s"
    using i by (auto simp: init_effect_def Let_def bind_throws_eq_Inr split: if_splits option.splits)
  ultimately show "ed_seenExprs s = Some (ed_currentExpr s, ed_currentRequestRuleExpr s)" "ed_seenModel s = Some (ed_modelName s)"
    by (subst c; simp add: model_effect_def)+
qed

text \<open>
  C18: switching a settled editor with editable tiers and well-formed rule groups from the visual form to
  the text and back loses nothing: the tiers are read back, only the cache mode of each is recomputed from its prices, the rule groups are the same,
  the expressions that the parent holds do not change, and the editor is settled again. It does not
  matter how often the component renders in between.
\<close>

theorem mode_switch_roundtrip:
  assumes "commit s = Inr s" "ed_editorMode s = VisualMode" "ed_visualConfig s = Some ts"
    "editable ts" "list_all wf_group (ed_requestRuleGroups s)"
  shows "\<exists>s'. bind_throws (handleModeChange RawMode s) (\<lambda>r. bind_throws (commits n r) (handleModeChange VisualMode)) = Inr s'
    \<and> commit s' = Inr s' \<and> ed_editorMode s' = VisualMode
    \<and> ed_visualConfig s' = Some (map (\<lambda>t. t\<lparr>vt_cache_mode := read_mode t\<rparr>) ts)
    \<and> ed_requestRuleGroups s' = ed_requestRuleGroups s
    \<and> ed_currentExpr s' = ed_currentExpr s \<and> ed_currentRequestRuleExpr s' = ed_currentRequestRuleExpr s"
proof -
  let ?gs = "ed_requestRuleGroups s" and ?raw = "combineBillingExpr (expr_of ts) (rules_of (ed_requestRuleGroups s))"
  note v = settled_visual [OF assms(1,2,3)] and sp = split_expr_of [OF assms(4,5)]
  define r where "r = s\<lparr>ed_rawExpr := ?raw, ed_editorMode := RawMode\<rparr>"
  have to_raw: "handleModeChange RawMode s = Inr r"
    using combined_nonempty [OF assms(4)] assms(3) by (simp add: handleModeChange_def r_def expr_of_def [symmetric] rules_of_def [symmetric] Let_def)
  have "commit r = Inr r"
    using v sp by (simp add: commit_def effectiveExpr_def r_def init_effect_def model_effect_def)
  then have keep: "commits n r = Inr r" by (rule settled_commits)
  define s' where "s' = r\<lparr>ed_visualConfig := Some (read_config ts), ed_editorMode := VisualMode\<rparr>"
  have "handleModeChange VisualMode r = Inr s'"
    using sp parse_expr_of [OF assms(4)] parse_rules_of [OF assms(5)] v by (simp add: handleModeChange_def r_def s'_def)
  moreover have "commit s' = Inr s'"
    using v by (simp add: commit_def effectiveExpr_def s'_def r_def init_effect_def model_effect_def expr_of_def [symmetric] rules_of_def [symmetric])
  ultimately show ?thesis using to_raw keep by (intro exI [of _ s']) (simp add: s'_def r_def read_config_def)
qed

text \<open>
  C39: the first change of the text of an opened expression takes the user out of the text form. An
  expression of the visual editor is opened, the user switches to the text, and changes it to another
  expression that the visual editor can read: when the effects have run, the editor is in the visual
  form, although nobody switched. The effect that resets \<^verbatim>\<open>initRef\<close> also runs when the component is
  mounted, so the new expression is opened like a stored one.
\<close>

theorem first_text_edit_leaves_text:
  assumes "editable ts" "editable us" "list_all wf_group gs" "generateExprFromVisualConfig (Some us) \<noteq> generateExprFromVisualConfig (Some ts)"
  shows "\<exists>s. bind_throws (mount m (generateExprFromVisualConfig (Some ts)) (buildRequestRuleExpr gs)) (\<lambda>a.
      bind_throws (commits 2 a) (\<lambda>b. bind_throws (handleModeChange RawMode b) (\<lambda>c.
      bind_throws (commits 1 c) (\<lambda>d. bind_throws (handleRawChange (combineBillingExpr (generateExprFromVisualConfig (Some us)) (buildRequestRuleExpr gs)) d)
      (commits 2))))) = Inr s
    \<and> commit s = Inr s \<and> ed_editorMode s = VisualMode"
proof -
  let ?raw = "\<lambda>ts. combineBillingExpr (expr_of ts) (rules_of gs)"
  define b where "b = \<lparr>ed_editorMode = VisualMode, ed_visualConfig = Some (read_config ts), ed_rawExpr = ?raw ts, ed_requestRuleGroups = gs,
     ed_initRef = False, ed_modelName = m, ed_currentExpr = expr_of ts, ed_currentRequestRuleExpr = rules_of gs,
     ed_seenExprs = Some (expr_of ts, rules_of gs), ed_seenModel = Some m\<rparr>"
  have mount: "bind_throws (mount m (expr_of ts) (rules_of gs)) commit = Inr b" using mount_first [OF assms(1,3)] by (simp add: b_def)
  have b: "commit b = Inr b" by (simp add: b_def commit_def effectiveExpr_def init_effect_def model_effect_def expr_of_def [symmetric] rules_of_def [symmetric])
  define c where "c = b\<lparr>ed_editorMode := RawMode\<rparr>"
  have c: "handleModeChange RawMode b = Inr c" "commit c = Inr c"
    using combined_nonempty [OF assms(1)] split_expr_of [OF assms(1,3)]
    by (simp_all add: handleModeChange_def commit_def effectiveExpr_def init_effect_def model_effect_def b_def c_def Let_def expr_of_def [symmetric] rules_of_def [symmetric])
  define d where "d = c\<lparr>ed_rawExpr := ?raw us\<rparr>"
  have d: "handleRawChange (?raw us) c = Inr d" using split_expr_of [OF assms(2,3)] by (simp add: handleRawChange_def d_def c_def b_def)
  define e where "e = d\<lparr>ed_currentExpr := expr_of us\<rparr>"
  have e: "commit d = Inr e"
    using split_expr_of [OF assms(2,3)] by (simp add: commit_def effectiveExpr_def init_effect_def model_effect_def e_def d_def c_def b_def)
  define s where "s = e\<lparr>ed_visualConfig := Some (read_config us), ed_editorMode := VisualMode, ed_initRef := True, ed_seenExprs := Some (expr_of us, rules_of gs)\<rparr>"
  have ne: "expr_of us \<noteq> expr_of ts" using assms(4) by (simp add: expr_of_def)
  have s: "commit e = Inr s" "commit s = Inr s"
    using split_expr_of [OF assms(2,3)] parse_rules_of [OF assms(3)] parse_expr_of [OF assms(2)] ne
    by (simp_all add: commit_def effectiveExpr_def init_effect_def model_effect_def s_def e_def d_def c_def b_def Let_def expr_of_def [symmetric] rules_of_def [symmetric])
  obtain a where a: "mount m (expr_of ts) (rules_of gs) = Inr a" "commit a = Inr b" using mount by (auto simp: bind_throws_eq_Inr)
  have "commits 2 a = Inr b" "commits 1 c = Inr c" "commits 2 d = Inr s" using a b c(2) e s(1) by (simp_all add: numeral_2_eq_2)
  then show ?thesis using a(1) c(1) d s(2) by (intro exI [of _ s]) (simp add: expr_of_def [symmetric] rules_of_def [symmetric], simp add: s_def)
qed

definition sample_editor :: editor where
  "sample_editor = \<lparr>ed_editorMode = VisualMode, ed_visualConfig = Some sample_config, ed_rawExpr = [], ed_requestRuleGroups = sample_groups,
     ed_initRef = False, ed_modelName = None, ed_currentExpr = expr_of sample_config, ed_currentRequestRuleExpr = rules_of sample_groups,
     ed_seenExprs = Some (expr_of sample_config, rules_of sample_groups), ed_seenModel = Some None\<rparr>"

lemma sample_settled: "commit sample_editor = Inr sample_editor"
  by (simp add: sample_editor_def commit_def effectiveExpr_def init_effect_def model_effect_def expr_of_def [symmetric] rules_of_def [symmetric])

lemma sample_editable: "editable sample_config"
  using sample_complete by (simp add: editable_def sample_config_def sample_tier_def normalizeVisualTier_def lit)

theorem mode_switch_roundtrip_witness:
  "commit sample_editor = Inr sample_editor \<and> (\<exists>s'. bind_throws (handleModeChange RawMode sample_editor) (\<lambda>r. bind_throws (commits 3 r) (handleModeChange VisualMode)) = Inr s'
    \<and> ed_visualConfig s' = Some (map (\<lambda>t. t\<lparr>vt_cache_mode := read_mode t\<rparr>) sample_config) \<and> ed_requestRuleGroups s' = sample_groups)"
proof -
  have "ed_editorMode sample_editor = VisualMode" "ed_visualConfig sample_editor = Some sample_config" "ed_requestRuleGroups sample_editor = sample_groups"
    by (simp_all add: sample_editor_def)
  with mode_switch_roundtrip [of sample_editor sample_config 3] sample_settled sample_editable sample_wf show ?thesis by auto
qed

definition flat_config :: "visual_tier list" where
  "flat_config = [sample_tier (js ''flat'') [] (Fin 0)]"

lemma flat_editable: "editable flat_config"
proof -
  have "cost_ok (Fin 0)" using rnd_nat [of 0] by (simp add: cost_ok_def double_def)
  then have "tier_ok (sample_tier (js ''flat'') [] (Fin 0)) \<and> vt_conditions (sample_tier (js ''flat'') [] (Fin 0)) = []" by (intro sample_tier_ok) (simp_all add: lit)
  then show ?thesis
    by (simp add: editable_def complete_config_def config_ok_def flat_config_def) (simp add: sample_tier_def normalizeVisualTier_def plain_label_def plain_unit_def lit)
qed

lemma flat_differs: "generateExprFromVisualConfig (Some flat_config) \<noteq> generateExprFromVisualConfig (Some sample_config)"
proof -
  have "complete_config flat_config" "complete_config sample_config" using flat_editable sample_editable by (simp_all add: editable_def)
  moreover have "hd (expr_text flat_config) = 116" by (simp add: flat_config_def sample_tier_def normalizeVisualTier_def tier_text_def lit)
  moreover have "hd (expr_text sample_config) = 108"
    by (simp add: sample_config_def sample_tier_def normalizeVisualTier_def printed_part_def buildConditionStr_def complete_condition_def condition_text_def lit)
  ultimately show ?thesis by (auto simp: generated_text)
qed

theorem first_text_edit_leaves_text_witness:
  "\<exists>s. bind_throws (mount None (generateExprFromVisualConfig (Some sample_config)) (buildRequestRuleExpr sample_groups)) (\<lambda>a.
      bind_throws (commits 2 a) (\<lambda>b. bind_throws (handleModeChange RawMode b) (\<lambda>c.
      bind_throws (commits 1 c) (\<lambda>d. bind_throws (handleRawChange (combineBillingExpr (generateExprFromVisualConfig (Some flat_config)) (buildRequestRuleExpr sample_groups)) d)
      (commits 2))))) = Inr s \<and> ed_editorMode s = VisualMode"
  using first_text_edit_leaves_text [OF sample_editable flat_editable sample_wf flat_differs, of None] by blast

end
