(* ===== verification/TierEdits.thy ===== *)
theory TierEdits
  imports TierEditor
begin

text \<open>
  What the actions of the visual editor keep of a configuration: its expression is always read back,
  without the conditions of the last of several tiers, and every action but three keeps it complete, so
  that its cost is that of the first matching tier. The three actions are a condition on the last of
  several tiers, the removal of the only condition of another tier, and the removal of the last tier.
\<close>

subsection \<open>Configurations tier by tier\<close>

definition good_tier :: "visual_tier \<Rightarrow> bool" where
  "good_tier t \<longleftrightarrow> tier_ok t \<and> (\<forall>c \<in> set (vt_conditions t). cond_ok c) \<and> plain_label t \<and> no_parens (vt_label t)"

lemma editable_iff:
  "editable ts \<longleftrightarrow> ts \<noteq> [] \<and> (\<forall>t \<in> set ts. good_tier t) \<and> (\<forall>t \<in> set (butlast ts). vt_conditions t \<noteq> [])
     \<and> (1 < length ts \<longrightarrow> vt_conditions (last ts) = [])"
  by (auto simp: editable_def complete_config_def config_ok_def good_tier_def list_all_iff)

lemma normalize_good: "good_tier t \<Longrightarrow> normalizeVisualTier (as_partial t) = t"
  by (simp add: good_tier_def normalizeVisualTier_def as_partial_def extras_of_def tier_ok_def cost_ok_num)

definition good_tiers :: "visual_tier list \<Rightarrow> bool" where
  "good_tiers ts \<longleftrightarrow> ts \<noteq> [] \<and> (\<forall>t \<in> set ts. good_tier t)"

lemma editable_good: "editable ts \<Longrightarrow> good_tiers ts"
  by (simp add: editable_iff good_tiers_def)

lemma normalize_tiers: "good_tiers ts \<Longrightarrow> normalizeVisualConfig (Some ts) = ts"
  using normalize_good by (auto simp: good_tiers_def normalizeVisualConfig_def map_idI)

lemmas normalize_editable = normalize_tiers [OF editable_good]

lemma editable_update:
  assumes "editable ts" "i < length ts" "good_tier t" "vt_conditions t = [] \<longleftrightarrow> vt_conditions (ts ! i) = []"
  shows "editable (ts[i := t])"
proof -
  have "good_tier u" if "u \<in> set (ts[i := t])" for u
    using that assms(1,3) set_update_subset_insert [of ts i t] by (auto simp: editable_iff)
  moreover have "vt_conditions u \<noteq> []" if "u \<in> set (butlast (ts[i := t]))" for u
  proof (cases "i = length ts - 1")
    case True
    then show ?thesis using that assms(1,2) by (simp add: editable_iff butlast_list_update)
  next
    case False
    then have u: "u \<in> insert t (set (butlast ts))" using that set_update_subset_insert [of "butlast ts" i t] by (auto simp: butlast_list_update)
    have "ts ! i \<in> set (butlast ts)" using assms(2) False by (auto simp: in_set_conv_nth nth_butlast intro!: exI [of _ i])
    then show ?thesis using u assms(1,4) by (auto simp: editable_iff)
  qed
  moreover have "vt_conditions (last (ts[i := t])) = []" if "1 < length ts"
    using that assms by (auto simp: editable_iff last_conv_nth nth_list_update)
  ultimately show ?thesis using assms(1) by (simp add: editable_iff)
qed

lemma good_update: "good_tiers ts \<Longrightarrow> good_tier t \<Longrightarrow> good_tiers (ts[i := t])"
  using set_update_subset_insert [of ts i t] by (auto simp: good_tiers_def)

text \<open>A change of one tier that leaves it with or without conditions.\<close>

lemma tier_change:
  assumes "good_tiers ts" "good_tier t"
  shows "good_tiers (handleTierChange i t (Some ts))"
    and "editable ts \<Longrightarrow> i < length ts \<Longrightarrow> vt_conditions t = [] \<longleftrightarrow> vt_conditions (ts ! i) = [] \<Longrightarrow> editable (handleTierChange i t (Some ts))"
  using assms by (simp_all add: handleTierChange_def normalize_tiers normalize_good editable_update good_update)

subsection \<open>Changes of one tier\<close>

lemma good_price: "good_tier t \<Longrightarrow> cost_ok v \<Longrightarrow> good_tier (handlePriceChange f v t)"
  by (simp add: handlePriceChange_def good_tier_def tier_ok_def extras_of_def plain_label_def)

lemma price_conditions: "vt_conditions (handlePriceChange f v t) = vt_conditions t"
  by (simp add: handlePriceChange_def)

lemma zero_cost: "cost_ok (Fin 0)"
  using rnd_nat [of 0] by (simp add: cost_ok_def double_def)

lemma good_cache_mode: "good_tier t \<Longrightarrow> good_tier (handleCacheModeChange mode t)"
  using zero_cost by (simp add: handleCacheModeChange_def good_tier_def tier_ok_def extras_of_def plain_label_def)

lemma good_label: "good_tier t \<Longrightarrow> l \<noteq> [] \<Longrightarrow> list_all plain_unit l \<Longrightarrow> no_parens l \<Longrightarrow> good_tier (t\<lparr>vt_label := l\<rparr>)"
  by (auto simp: good_tier_def tier_ok_def extras_of_def plain_label_def plain_unit_def list_all_iff)

lemma good_conditions: "good_tier t \<Longrightarrow> \<forall>c \<in> set cs. cond_ok c \<Longrightarrow> good_tier (t\<lparr>vt_conditions := cs\<rparr>)"
  by (simp add: good_tier_def tier_ok_def extras_of_def plain_label_def)

lemma without_index_take: "without_index i xs = take i xs @ drop (Suc i) xs"
proof -
  have "map snd (filter (\<lambda>(j, _). j \<noteq> n + i) (enumerate n xs)) = take i xs @ drop (Suc i) xs" for n
  proof (induction xs arbitrary: n i)
    case (Cons x xs)
    have "filter (\<lambda>(j, _). j \<noteq> n) (enumerate (Suc n) xs) = enumerate (Suc n) xs"
      by (auto simp: filter_id_conv enumerate_eq_zip dest: set_zip_leftD)
    with Cons [of "Suc n"] show ?case by (cases i) auto
  qed simp
  from this [of 0] show ?thesis by (simp add: without_index_def)
qed

lemma set_without_index: "set (without_index i xs) \<subseteq> set xs"
  by (auto simp: without_index_take dest: in_set_takeD in_set_dropD)

lemma default_bound_ok: "v \<in> {js ''len'', js ''c''} \<Longrightarrow> cond_ok (default_bound v)"
proof -
  assume v: "v \<in> {js ''len'', js ''c''}"
  have "45 \<notin> set (show_nat m)" for m using show_nat_digits [of 45 m] by (auto simp: is_digit_def)
  then have "double (of_nat 200000)" "45 \<notin> set (num_to_string (Fin (of_nat 200000)))"
    using rnd_nat [of 200000] num_to_string_nat [of 200000] by (simp_all add: double_def del: num_to_string.simps)
  with v show ?thesis by (auto simp: cond_ok_def default_bound_def simp del: num_to_string.simps)
qed

subsection \<open>Changes of the list\<close>

lemma add_tier_good:
  assumes "good_tiers ts"
  shows "good_tiers (handleAddTier (Some ts))" "length (handleAddTier (Some ts)) = Suc (length ts)" "editable ts \<Longrightarrow> editable (handleAddTier (Some ts))"
proof -
  let ?new = "\<lambda>n. normalizeVisualTier \<lparr>pv_label = Some (js ''tier_'' @ show_nat n), pv_conditions = Some [],
     pv_input_unit_cost = Some (Fin 0), pv_output_unit_cost = Some (Fin 0), pv_cache_mode = None, pv_extra = []\<rparr>"
  obtain us t where ts: "ts = us @ [t]" using assms by (cases ts rule: rev_cases) (simp_all add: good_tiers_def)
  have good: "good_tier t" "\<forall>u \<in> set us. good_tier u" using assms by (auto simp: good_tiers_def ts)
  define b where "b = (if vt_conditions t = [] then t\<lparr>vt_conditions := [default_bound (js ''len'')]\<rparr> else t)"
  have b: "good_tier b" "vt_conditions b \<noteq> []" using good(1) default_bound_ok good_conditions by (auto simp: b_def)
  have "(as_partial t)\<lparr>pv_conditions := Some cs\<rparr> = as_partial (t\<lparr>vt_conditions := cs\<rparr>)" for cs
    by (simp add: as_partial_def extras_of_def)
  then have h: "handleAddTier (Some ts) = us @ [b, ?new (length ts + 1)]"
    using normalize_tiers [OF assms] normalize_good [OF b(1)] by (auto simp: handleAddTier_def ts b_def Let_def)
  have "d \<in> set (show_nat n) \<Longrightarrow> plain_unit d \<and> d \<noteq> 40 \<and> d \<noteq> 41" for d n using show_nat_digits [of d n] by (auto simp: is_digit_def plain_unit_def)
  then have new: "good_tier (?new n)" "vt_conditions (?new n) = []" for n
    using zero_cost by (auto simp: good_tier_def tier_ok_def normalizeVisualTier_def extras_of_def num_or_zero_def plain_label_def list_all_iff no_parens_def plain_unit_def lit)
  then show "good_tiers (handleAddTier (Some ts))" using b good(2) by (auto simp: h good_tiers_def)
  show "length (handleAddTier (Some ts)) = Suc (length ts)" unfolding h by (simp add: ts)
  show "editable (handleAddTier (Some ts))" if "editable ts"
  proof -
    have "\<forall>u \<in> set us. vt_conditions u \<noteq> []" using that by (auto simp: editable_iff ts)
    then show ?thesis unfolding h using new b good(2) by (auto simp: editable_iff butlast_append)
  qed
qed

lemma remove_tier_good: "good_tiers ts \<Longrightarrow> good_tiers (handleRemoveTier i (Some ts))"
  using set_without_index [of i ts] by (auto simp: handleRemoveTier_def normalize_tiers good_tiers_def Let_def)

lemma remove_tier_editable:
  assumes "editable ts" "Suc i < length ts"
  shows "editable (handleRemoveTier i (Some ts))"
proof -
  have h: "handleRemoveTier i (Some ts) = take i ts @ drop (Suc i) ts"
    using assms by (simp add: handleRemoveTier_def normalize_editable without_index_take Let_def)
  have "last (take i ts @ drop (Suc i) ts) = last ts" using assms(2) by simp
  moreover have "butlast (take i ts @ drop (Suc i) ts) = take i ts @ drop (Suc i) (butlast ts)" using assms(2) by (simp add: butlast_append butlast_drop)
  moreover have "take i ts = take i (butlast ts)" using assms(2) by (simp add: take_butlast)
  then have "\<forall>t \<in> set (take i ts @ drop (Suc i) (butlast ts)). vt_conditions t \<noteq> []"
    using assms(1) by (auto simp: editable_iff dest: in_set_takeD in_set_dropD)
  moreover have "\<forall>t \<in> set (take i ts @ drop (Suc i) ts). good_tier t"
    using assms(1) by (auto simp: editable_iff dest: in_set_takeD in_set_dropD)
  ultimately show ?thesis using assms unfolding h by (simp add: editable_iff)
qed

lemma add_condition_good:
  assumes "good_tiers ts" "i < length ts" "handleAddCondition i (Some ts) = Some us"
  shows "good_tiers us"
proof -
  let ?v = "if js ''len'' \<in> cond_var ` set (vt_conditions (ts ! i)) then js ''c'' else js ''len''"
  have g: "good_tier (ts ! i)" using assms(1,2) by (simp add: good_tiers_def)
  then have "good_tier ((ts ! i)\<lparr>vt_conditions := vt_conditions (ts ! i) @ [default_bound ?v]\<rparr>)"
    using default_bound_ok [of ?v] by (intro good_conditions) (auto simp: good_tier_def)
  then show ?thesis
    using assms good_update [OF assms(1)] by (auto simp: handleAddCondition_def normalize_tiers Let_def split: if_splits)
qed

lemma add_condition_editable:
  assumes "editable ts" "Suc i < length ts \<or> length ts = 1 \<and> i = 0"
  shows "\<exists>us. handleAddCondition i (Some ts) = Some us \<and> editable us"
proof (cases "2 \<le> length (vt_conditions (ts ! i))")
  case True
  then show ?thesis using assms by (simp add: handleAddCondition_def normalize_editable Let_def)
next
  case False
  let ?t = "ts ! i"
  define v where "v = (if js ''len'' \<in> cond_var ` set (vt_conditions ?t) then js ''c'' else js ''len'')"
  have h: "handleAddCondition i (Some ts) = Some (ts[i := ?t\<lparr>vt_conditions := vt_conditions ?t @ [default_bound v]\<rparr>])"
    using False by (simp add: handleAddCondition_def normalize_editable [OF assms(1)] Let_def v_def)
  have i: "i < length ts" using assms(2) by auto
  then have "good_tier ?t" using assms(1) by (simp add: editable_iff)
  then have g: "good_tier (?t\<lparr>vt_conditions := vt_conditions ?t @ [default_bound v]\<rparr>)"
    using default_bound_ok [of v] by (intro good_conditions) (auto simp: v_def good_tier_def)
  show ?thesis
  proof (cases "length ts = 1")
    case True
    then obtain t where "ts = [t]" by (cases ts) auto
    with h g i show ?thesis by (simp add: editable_iff)
  next
    case False
    then have "?t \<in> set (butlast ts)" using assms(2) by (auto simp: in_set_conv_nth nth_butlast intro!: exI [of _ i])
    then have "vt_conditions ?t \<noteq> []" using assms(1) by (simp add: editable_iff)
    then show ?thesis unfolding h using editable_update [OF assms(1) i g] by simp
  qed
qed

subsection \<open>Sessions\<close>

text \<open>
  The configurations of a session. The flag is false once one of the three actions has been taken. A
  session starts with the default configuration, a stored expression or a preset, whose tiers are in
  the bounds that also hold for what the user enters: the label of a tier is not empty and has no
  quote, backslash, line break or parenthesis, its prices are finite, and the bound of a condition is a
  number that is printed without a minus sign.
\<close>

inductive edited :: "bool \<Rightarrow> visual_tier list \<Rightarrow> bool" where
  new: "edited True createDefaultVisualConfig"
| opened: "tryParseVisualConfig e = Some ts \<Longrightarrow> good_tiers ts \<Longrightarrow> edited (editable ts) ts"
| add: "edited b ts \<Longrightarrow> edited b (handleAddTier (Some ts))"
| remove: "edited b ts \<Longrightarrow> edited (b \<and> Suc i < length ts) (handleRemoveTier i (Some ts))"
| price: "edited b ts \<Longrightarrow> i < length ts \<Longrightarrow> cost_ok v \<Longrightarrow> edited b (handleTierChange i (handlePriceChange f v (ts ! i)) (Some ts))"
| cache_mode: "edited b ts \<Longrightarrow> i < length ts \<Longrightarrow> edited b (handleTierChange i (handleCacheModeChange mode (ts ! i)) (Some ts))"
| label: "edited b ts \<Longrightarrow> i < length ts \<Longrightarrow> l \<noteq> [] \<Longrightarrow> list_all plain_unit l \<Longrightarrow> no_parens l \<Longrightarrow>
    edited b (handleTierChange i ((ts ! i)\<lparr>vt_label := l\<rparr>) (Some ts))"
| condition: "edited b ts \<Longrightarrow> i < length ts \<Longrightarrow> cond_ok c \<Longrightarrow> edited b (handleTierChange i (handleConditionChange j c (ts ! i)) (Some ts))"
| add_condition: "edited b ts \<Longrightarrow> i < length ts \<Longrightarrow> handleAddCondition i (Some ts) = Some us \<Longrightarrow>
    edited (b \<and> (Suc i < length ts \<or> length ts = 1)) us"
| remove_condition: "edited b ts \<Longrightarrow> i < length ts \<Longrightarrow>
    edited (b \<and> 2 \<le> length (vt_conditions (ts ! i))) (handleTierChange i (handleConditionRemove j (ts ! i)) (Some ts))"

inductive_cases edited_E: "edited b ts"

lemma default_editable: "editable createDefaultVisualConfig"
  using zero_cost by (simp add: editable_iff createDefaultVisualConfig_def good_tier_def tier_ok_def normalizeVisualTier_def extras_of_def num_or_zero_def
      plain_label_def plain_unit_def lit)

lemma good_nth: "good_tiers ts \<Longrightarrow> i < length ts \<Longrightarrow> good_tier (ts ! i)"
  by (simp add: good_tiers_def)

lemma session_good: "edited b ts \<Longrightarrow> good_tiers ts \<and> (b \<longrightarrow> editable ts)"
proof (induction rule: edited.induct)
  case (price b ts i v f)
  then show ?case using tier_change [of ts "handlePriceChange f v (ts ! i)" i] good_price good_nth by (auto simp: price_conditions)
next
  case (cache_mode b ts i mode)
  then show ?case using tier_change [of ts "handleCacheModeChange mode (ts ! i)" i] good_cache_mode good_nth by (auto simp: handleCacheModeChange_def)
next
  case (label b ts i l)
  then show ?case using tier_change [of ts "(ts ! i)\<lparr>vt_label := l\<rparr>" i] good_label good_nth by auto
next
  case (condition b ts i c j)
  then have "good_tier (handleConditionChange j c (ts ! i))" unfolding handleConditionChange_def
    using good_nth [of ts i] set_update_subset_insert [of "vt_conditions (ts ! i)" j c] by (intro good_conditions) (auto simp: good_tier_def)
  with condition show ?case using tier_change [of ts "handleConditionChange j c (ts ! i)" i] by (auto simp: handleConditionChange_def)
next
  case (remove_condition b ts i j)
  then have "good_tier (handleConditionRemove j (ts ! i))" unfolding handleConditionRemove_def
    using good_nth [of ts i] set_without_index [of j "vt_conditions (ts ! i)"] by (intro good_conditions) (auto simp: good_tier_def)
  moreover have "vt_conditions (handleConditionRemove j (ts ! i)) \<noteq> []" "vt_conditions (ts ! i) \<noteq> []" if "2 \<le> length (vt_conditions (ts ! i))"
    using that by (auto simp: handleConditionRemove_def without_index_take)
  ultimately show ?case using remove_condition tier_change [of ts "handleConditionRemove j (ts ! i)" i] by auto
next
  case (add_condition b ts i us)
  then show ?case using add_condition_good [of ts i us] add_condition_editable [of ts i] by auto
next
  case (remove b ts i)
  then show ?case using remove_tier_good remove_tier_editable by auto
qed (auto simp: default_editable editable_good add_tier_good)

lemma last_conditions_unprinted:
  assumes "us \<noteq> []"
  shows "generateExprFromVisualConfig (Some (us @ [t\<lparr>vt_conditions := cs\<rparr>])) = generateExprFromVisualConfig (Some (us @ [t]))"
proof -
  have body: "tier_text d (t\<lparr>vt_conditions := cs\<rparr>) = tier_text d t" for d
    by (simp add: tier_text_def buildTierBodyExpr_def extras_of_def)
  obtain u v where us: "us = u # v" using assms by (cases us) auto
  have many: "generateExprFromVisualConfig (Some (u # v @ [x])) = join (js '' : '') (map (\<lambda>(i, tier). tier_part (Suc (length us)) i tier) (enumerate 0 (us @ [x])))" for x
    by (cases v) (simp_all add: generateExprFromVisualConfig_def us)
  have "tier_part (Suc (length us)) (length us) (t\<lparr>vt_conditions := cs\<rparr>) = tier_part (Suc (length us)) (length us) t"
    using body by (simp add: tier_part_def Let_def)
  then show ?thesis using many by (simp add: us enumerate_append_eq)
qed

text \<open>The tiers that are printed: the conditions of the last of several tiers are not.\<close>

definition printed_tiers :: "visual_tier list \<Rightarrow> visual_tier list" where
  "printed_tiers ts = (if 1 < length ts then butlast ts @ [(last ts)\<lparr>vt_conditions := []\<rparr>] else ts)"

lemma printed_same: "generateExprFromVisualConfig (Some (printed_tiers ts)) = generateExprFromVisualConfig (Some ts)"
proof (cases "1 < length ts")
  case True
  then obtain us t where ts: "ts = us @ [t]" "us \<noteq> []" by (cases ts rule: rev_cases) auto
  then show ?thesis using last_conditions_unprinted [OF ts(2), where t = t and cs = "[]"] by (simp add: printed_tiers_def)
qed (simp add: printed_tiers_def)

lemma printed_ok: "good_tiers ts \<Longrightarrow> config_ok (printed_tiers ts)"
proof -
  assume g: "good_tiers ts"
  have "good_tier t" if "t \<in> set (printed_tiers ts)" for t
    using that g good_conditions [of "last ts" "[]"] by (auto simp: printed_tiers_def good_tiers_def dest: in_set_butlastD split: if_splits)
  then show ?thesis using g by (auto simp: config_ok_def list_all_iff good_tier_def good_tiers_def printed_tiers_def)
qed

subsection \<open>Properties\<close>

text \<open>
  C19: after any sequence of actions in the visual editor the expression is read back by the editor,
  with the same tiers; only the cache mode of each is recomputed from its prices, and the conditions of
  the last of several tiers are gone. As long as no condition was added to the last of several tiers,
  no only condition of a tier was removed and the last tier was not removed, every tier but the last
  has a condition and the last of several has none. The tiers are added, removed and changed in
  prices, cache modes, labels and conditions, within the bounds stated for \<^const>\<open>edited\<close>.
\<close>

theorem edited_reads_back:
  assumes "edited kept ts"
  shows "(kept \<longrightarrow> editable ts)
    \<and> tryParseVisualConfig (generateExprFromVisualConfig (Some ts)) =
        Some (map (\<lambda>t. t\<lparr>vt_cache_mode := read_mode t\<rparr>) (if 1 < length ts then butlast ts @ [(last ts)\<lparr>vt_conditions := []\<rparr>] else ts))"
  unfolding printed_tiers_def [symmetric] using session_good [OF assms] config_read_back [OF printed_ok, of ts] by (simp add: printed_same)

definition session_config :: "visual_tier list" where
  "session_config = handleRemoveTier 0 (Some (handleAddTier (Some (handleAddTier (Some createDefaultVisualConfig)))))"

lemma session_edited: "edited True session_config"
proof -
  let ?a = "handleAddTier (Some createDefaultVisualConfig)"
  have a: "edited True ?a" "edited True (handleAddTier (Some ?a))" by (intro edited.intros)+
  have "length (handleAddTier (Some ?a)) = 3"
    using add_tier_good(2) [OF editable_good [OF default_editable]] add_tier_good(2) [of ?a] session_good [OF a(1)] by (simp add: createDefaultVisualConfig_def)
  then show ?thesis using edited.remove [OF a(2), of 0] unfolding session_config_def by simp
qed

theorem edited_reads_back_witness:
  "edited True session_config \<and> editable session_config \<and> tryParseVisualConfig (generateExprFromVisualConfig (Some session_config)) \<noteq> None"
  using edited_reads_back [OF session_edited] session_edited by simp

text \<open>
  C38: a condition that the user adds to the last of several tiers is shown in the editor and is not
  part of the expression: the configuration has the condition, the expression is the one before, and
  when it is read back the condition is gone.
\<close>

theorem last_condition_lost:
  assumes "editable ts" "2 \<le> length ts"
  shows "\<exists>us. handleAddCondition (length ts - 1) (Some ts) = Some us \<and> length (vt_conditions (last us)) = 1
    \<and> generateExprFromVisualConfig (Some us) = generateExprFromVisualConfig (Some ts)
    \<and> (\<exists>vs. tryParseVisualConfig (generateExprFromVisualConfig (Some us)) = Some vs \<and> vt_conditions (last vs) = [])"
proof -
  obtain bs t where ts: "ts = bs @ [t]" using assms(2) by (cases ts rule: rev_cases) auto
  then have bs: "bs \<noteq> []" using assms(2) by auto
  have t: "vt_conditions t = []" using assms(1) bs by (simp add: editable_iff ts)
  have h: "handleAddCondition (length ts - 1) (Some ts) = Some (bs @ [t\<lparr>vt_conditions := [default_bound (js ''len'')]\<rparr>])"
    using t by (simp add: handleAddCondition_def normalize_editable [OF assms(1)]) (simp add: ts)
  have "tryParseVisualConfig (generateExprFromVisualConfig (Some ts)) = Some (read_config ts)" "vt_conditions (last (read_config ts)) = []"
    using parse_expr_of [OF assms(1)] t by (simp_all add: expr_of_def read_config_def ts)
  then show ?thesis unfolding h using last_conditions_unprinted [OF bs, where t = t] by (simp add: ts)
qed

theorem last_condition_lost_witness:
  "\<exists>us. handleAddCondition 1 (Some (handleAddTier (Some createDefaultVisualConfig))) = Some us \<and> length (vt_conditions (last us)) = 1
    \<and> generateExprFromVisualConfig (Some us) = generateExprFromVisualConfig (Some (handleAddTier (Some createDefaultVisualConfig)))"
proof -
  have "length (handleAddTier (Some createDefaultVisualConfig)) = 2"
    using add_tier_good(2) [OF editable_good [OF default_editable]] by (simp add: createDefaultVisualConfig_def)
  then show ?thesis using last_condition_lost [OF add_tier_good(3) [OF editable_good [OF default_editable] default_editable]] by auto
qed

end
