(* ===== verification/PriceTables.thy ===== *)
theory PriceTables
  imports TierEdits JsFixed JsObject
begin

text \<open>
  The price tables of the settings page (\<^verbatim>\<open>features/system-settings/models\<close>): eleven JSON texts, one
  per kind of price, that are listed as rows, edited row by row and written back. The helpers of
  \<^verbatim>\<open>model-pricing-core.ts\<close>, the rows of \<^verbatim>\<open>model-pricing-snapshots.ts\<close>, and the operations of
  \<^verbatim>\<open>model-ratio-visual-editor.tsx\<close>.
\<close>

subsection \<open>JSON texts\<close>

definition safeJsonParse :: "json option \<Rightarrow> jsstr option \<Rightarrow> json" where
  "safeJsonParse fallback s =
     (let default = (case fallback of None \<Rightarrow> JNull | Some v \<Rightarrow> v) in
      case s of
        None \<Rightarrow> default
      | Some t \<Rightarrow> if trim t = [] then default else (case json_parse (trim t) of Inr v \<Rightarrow> v | Inl _ \<Rightarrow> default))"

definition formatJsonForTextarea :: "jsstr option \<Rightarrow> jsstr" where
  "formatJsonForTextarea s = (case s of
      None \<Rightarrow> []
    | Some t \<Rightarrow> if trim t = [] then [] else (case json_parse t of Inr v \<Rightarrow> json_stringify (js ''  '') v | Inl _ \<Rightarrow> t))"

definition normalizeJsonString :: "jsstr option \<Rightarrow> jsstr" where
  "normalizeJsonString s =
     (let trimmed = trim (case s of None \<Rightarrow> [] | Some t \<Rightarrow> t) in
      if trimmed = [] then [] else (case json_parse trimmed of Inr v \<Rightarrow> json_stringify [] v | Inl _ \<Rightarrow> trimmed))"

subsection \<open>Prices of a model\<close>

text \<open>The numeric fields of the form, of a row and of the tables.\<close>

datatype pricing_field = Price | Ratio | CacheRatio | CreateCacheRatio | CompletionRatio | ImageRatio | AudioRatio | AudioCompletionRatio

definition PRICING_FIELDS :: "pricing_field list" where
  "PRICING_FIELDS = [Price, Ratio, CacheRatio, CreateCacheRatio, CompletionRatio, ImageRatio, AudioRatio, AudioCompletionRatio]"

definition RATIO_FIELDS :: "pricing_field list" where
  "RATIO_FIELDS = [Ratio, CompletionRatio, CacheRatio, CreateCacheRatio, ImageRatio, AudioRatio, AudioCompletionRatio]"

text \<open>The tables: the model prices and ratios by field, and the three billing settings.\<close>

datatype model_field = Table pricing_field | BillingMode | BillingExpr | RequestUnit

definition MODEL_FIELDS :: "model_field list" where
  "MODEL_FIELDS = map Table [Price, Ratio, CacheRatio, CreateCacheRatio, CompletionRatio, ImageRatio, AudioRatio, AudioCompletionRatio]
     @ [BillingMode, BillingExpr, RequestUnit]"

type_synonym model_values = "model_field \<Rightarrow> jsstr"
type_synonym model_tables = "model_field \<Rightarrow> js_obj"

abbreviation "PER_TOKEN \<equiv> js ''per-token''"
abbreviation "PER_REQUEST \<equiv> js ''per-request''"
abbreviation "PER_SECOND \<equiv> js ''per-second''"
abbreviation "TIERED_EXPR \<equiv> js ''tiered_expr''"

definition toBackendBillingMode :: "jsstr \<Rightarrow> jsstr" where
  "toBackendBillingMode mode =
     (if mode = TIERED_EXPR then js ''tiered_expr'' else if mode = PER_SECOND then js ''per_second''
      else if mode = PER_REQUEST then js ''per_request'' else js ''ratio'')"

definition fromBackendBillingMode :: "json option \<Rightarrow> jsstr option" where
  "fromBackendBillingMode mode =
     (if mode = Some (JStr (js ''tiered_expr'')) then Some TIERED_EXPR
      else if mode = Some (JStr (js ''per_second'')) then Some PER_SECOND
      else if mode = Some (JStr (js ''per_request'')) then Some PER_REQUEST else None)"

record model_ratio_data =
  md_name :: jsstr
  md_field :: "pricing_field \<Rightarrow> jsstr option"
  md_billingMode :: "jsstr option"
  md_billingExpr :: "jsstr option"
  md_requestRuleExpr :: "jsstr option"
  md_requestUnit :: "json option"

record model_pricing_snapshot = model_ratio_data +
  sn_hasConflict :: bool

definition resolvePricingModeFromData :: "('a model_ratio_data_scheme) option \<Rightarrow> jsstr" where
  "resolvePricingModeFromData data = (case data of
      None \<Rightarrow> PER_TOKEN
    | Some d \<Rightarrow>
        if md_billingMode d = Some TIERED_EXPR then TIERED_EXPR
        else if md_billingMode d = Some PER_SECOND then PER_SECOND
        else if md_billingMode d = Some PER_REQUEST then PER_REQUEST
        else (case fromBackendBillingMode (map_option JStr (md_billingMode d)) of
            Some mode \<Rightarrow> mode
          | None \<Rightarrow> if md_field d Price \<noteq> None \<and> md_field d Price \<noteq> Some [] then PER_REQUEST else PER_TOKEN))"

subsection \<open>The tables as objects\<close>

text \<open>
  The tables are declared as records. A text that holds another JSON value, or a name that
  \<^verbatim>\<open>Object.prototype\<close> has too, lies outside of the model: \<open>None\<close>.
\<close>

definition OBJECT_MEMBERS :: "jsstr list" where
  "OBJECT_MEMBERS = [js ''constructor'', js ''__defineGetter__'', js ''__defineSetter__'', js ''hasOwnProperty'',
     js ''__lookupGetter__'', js ''__lookupSetter__'', js ''isPrototypeOf'', js ''propertyIsEnumerable'',
     js ''toString'', js ''valueOf'', js ''__proto__'', js ''toLocaleString'']"

definition plain_name :: "jsstr \<Rightarrow> bool" where
  "plain_name k \<longleftrightarrow> k \<notin> set OBJECT_MEMBERS"

definition read_table :: "jsstr \<Rightarrow> js_obj option" where
  "read_table s = (case safeJsonParse (Some (JObj [])) (Some s) of
      JObj kvs \<Rightarrow> if list_all (\<lambda>(k, _). plain_name k) kvs then Some kvs else None
    | _ \<Rightarrow> None)"

definition read_tables :: "model_values \<Rightarrow> model_tables option" where
  "read_tables values = (if list_all (\<lambda>f. read_table (values f) \<noteq> None) MODEL_FIELDS then Some (\<lambda>f. the (read_table (values f))) else None)"

definition write_tables :: "model_tables \<Rightarrow> model_values" where
  "write_tables T f = json_stringify (js ''  '') (JObj (T f))"

subsection \<open>Rows\<close>

text \<open>\<^verbatim>\<open>map[name]?.toString() || ''\<close>\<close>

definition entry_text :: "js_obj \<Rightarrow> jsstr \<Rightarrow> jsstr throws" where
  "entry_text t name = (case map_of t name of None \<Rightarrow> Inr [] | Some JNull \<Rightarrow> Inr [] | Some v \<Rightarrow> json_to_string v)"

text \<open>The texts of the eight fields; the first that throws ends the loop.\<close>

definition entry_texts :: "model_tables \<Rightarrow> jsstr \<Rightarrow> (pricing_field \<Rightarrow> jsstr) throws" where
  "entry_texts T name =
     bind_throws (map_throws (\<lambda>f. entry_text (T (Table f)) name) PRICING_FIELDS) (\<lambda>ts.
       Inr (\<lambda>f. the (map_of (zip PRICING_FIELDS ts) f)))"

definition model_snapshot :: "model_tables \<Rightarrow> jsstr \<Rightarrow> model_pricing_snapshot throws" where
  "model_snapshot T name =
     bind_throws (entry_texts T name) (\<lambda>txt.
       let mappedMode = fromBackendBillingMode (map_of (T BillingMode) name);
           row = \<lparr>md_name = name, md_field = (\<lambda>f. Some (txt f)), md_billingMode = None, md_billingExpr = None,
             md_requestRuleExpr = None, md_requestUnit = None, sn_hasConflict = False\<rparr>;
           price_only = (\<lambda>f. if f = Price then Some (txt Price) else None)
       in if mappedMode = Some TIERED_EXPR then
            (let fullExpr = map_of (T BillingExpr) name in
             case (if js_true fullExpr then fullExpr else Some (JStr [])) of
               Some (JStr e) \<Rightarrow> bind_throws (splitBillingExprAndRequestRules e) (\<lambda>(pureExpr, requestRuleExpr).
                 Inr (row\<lparr>md_billingMode := Some TIERED_EXPR, md_billingExpr := Some pureExpr, md_requestRuleExpr := Some requestRuleExpr\<rparr>))
             | _ \<Rightarrow> Inl TypeError)
          else if mappedMode = Some PER_SECOND then
            Inr (row\<lparr>md_field := price_only, md_billingMode := Some PER_SECOND\<rparr>)
          else if mappedMode = Some PER_REQUEST \<or> txt Price \<noteq> [] then
            Inr (row\<lparr>md_field := price_only, md_billingMode := Some PER_REQUEST,
              md_requestUnit := (if js_true (map_of (T RequestUnit) name) then map_of (T RequestUnit) name else Some (JStr (js ''request''))),
              sn_hasConflict := mappedMode \<noteq> Some PER_REQUEST \<and> txt Price \<noteq> [] \<and> list_ex (\<lambda>f. txt f \<noteq> []) RATIO_FIELDS\<rparr>)
          else Inr (row\<lparr>md_billingMode := Some PER_TOKEN\<rparr>))"

definition modelNames :: "model_tables \<Rightarrow> jsstr list" where
  "modelNames T = uniq (concat (map (\<lambda>f. map fst (own_entries (T f))) MODEL_FIELDS))"

definition buildModelSnapshots :: "model_tables \<Rightarrow> model_pricing_snapshot list throws" where
  "buildModelSnapshots T = map_throws (model_snapshot T) (modelNames T)"

subsection \<open>Writing rows\<close>

definition setIfPresent :: "js_obj \<Rightarrow> jsstr \<Rightarrow> jsstr option \<Rightarrow> js_obj" where
  "setIfPresent target name v = (case v of
      None \<Rightarrow> target
    | Some s \<Rightarrow> if s = [] then target
        else (case parse_float s of Fin x \<Rightarrow> obj_set target name (JNum (Fin x)) | _ \<Rightarrow> target))"

text \<open>The body of the loop over the names.\<close>

definition write_model :: "'a model_ratio_data_scheme \<Rightarrow> jsstr \<Rightarrow> model_tables \<Rightarrow> model_tables" where
  "write_model data name T0 =
     (let T = (\<lambda>f. AList.delete name (T0 f));
          put = (\<lambda>fs T f. case f of Table p \<Rightarrow> if p \<in> set fs then setIfPresent (T f) name (md_field data p) else T f | _ \<Rightarrow> T f);
          mark = (\<lambda>f s T. T(f := obj_set (T f) name (JStr s)))
      in if md_billingMode data = Some TIERED_EXPR then
           (let combined = combineBillingExpr (case md_billingExpr data of None \<Rightarrow> [] | Some e \<Rightarrow> e)
                  (case md_requestRuleExpr data of None \<Rightarrow> [] | Some r \<Rightarrow> r);
                T1 = (if combined \<noteq> [] then mark BillingExpr combined (mark BillingMode (js ''tiered_expr'') T) else T)
            in put PRICING_FIELDS T1)
         else if md_billingMode data = Some PER_SECOND then
           mark BillingMode (toBackendBillingMode PER_SECOND) (put [Price] T)
         else if md_billingMode data = Some PER_REQUEST then
           (let T1 = mark BillingMode (toBackendBillingMode PER_REQUEST) (put [Price] T); unit = md_requestUnit data
            in if js_true unit \<and> unit \<noteq> Some (JStr (js ''request'')) then T1(RequestUnit := obj_set (T1 RequestUnit) name (the unit)) else T1)
         else if md_field data Price \<noteq> None \<and> md_field data Price \<noteq> Some [] then put [Price] T
         else put RATIO_FIELDS T)"

definition persistPricingData :: "'a model_ratio_data_scheme \<Rightarrow> jsstr list \<Rightarrow> model_values \<Rightarrow> model_values option" where
  "persistPricingData data targetNames values =
     (if list_all plain_name targetNames
      then map_option (\<lambda>T. write_tables (fold (write_model data) targetNames T)) (read_tables values) else None)"

definition handleDelete :: "jsstr \<Rightarrow> model_values \<Rightarrow> model_values option" where
  "handleDelete name values =
     (if plain_name name then map_option (\<lambda>T. write_tables (\<lambda>f. AList.delete name (T f))) (read_tables values) else None)"

text \<open>The rows that the page lists for its form values.\<close>

definition listed :: "model_values \<Rightarrow> model_pricing_snapshot list throws option" where
  "listed values = map_option buildModelSnapshots (read_tables values)"

subsection \<open>Tables as maps\<close>

lemma pricing_fields_all [simp]: "p \<in> set PRICING_FIELDS" "p \<in> set RATIO_FIELDS \<longleftrightarrow> p \<noteq> Price"
  by (cases p; simp add: PRICING_FIELDS_def RATIO_FIELDS_def)+

lemma model_fields_all [simp]: "f \<in> set MODEL_FIELDS"
proof (cases f)
  case (Table p)
  then show ?thesis by (cases p) (simp_all add: MODEL_FIELDS_def)
qed (simp_all add: MODEL_FIELDS_def)

text \<open>Entries of the declared types: numbers, strings, and the values without members.\<close>

definition flat :: "json \<Rightarrow> bool" where
  "flat v \<longleftrightarrow> json_ok v \<and> (case v of JArr _ \<Rightarrow> False | JObj _ \<Rightarrow> False | _ \<Rightarrow> True)"

definition table_ok :: "js_obj \<Rightarrow> bool" where
  "table_ok t \<longleftrightarrow> distinct (map fst t) \<and> (\<forall>(k, v) \<in> set t. plain_name k \<and> str_ok k \<and> flat v)"

definition tables_ok :: "model_tables \<Rightarrow> bool" where
  "tables_ok T \<longleftrightarrow> (\<forall>f. table_ok (T f))"

definition values_ok :: "model_values \<Rightarrow> bool" where
  "values_ok values \<longleftrightarrow> (\<exists>T. read_tables values = Some T \<and> tables_ok T)"

lemma flat_canon: "flat v \<Longrightarrow> canon v = v"
  by (cases v) (simp_all add: flat_def)

lemma table_canon: "table_ok t \<Longrightarrow> canon_members t = t"
  by (auto simp: canon_members_map table_ok_def intro!: map_idI flat_canon)

lemma members_ok_all: "(\<forall>(k, v) \<in> set t. str_ok k \<and> json_ok v) \<Longrightarrow> members_ok t"
  by (induction t) auto

lemma table_json_ok: "table_ok t \<Longrightarrow> json_ok (JObj t)"
  by (auto simp: table_ok_def flat_def intro!: members_ok_all)

lemma stringify_object_ends: "json_stringify gap (JObj t) \<noteq> [] \<and> trimmed (json_stringify gap (JObj t))"
  by (auto simp: json_stringify_def trimmed_def is_ws_def)

lemma read_written:
  assumes "table_ok t"
  shows "read_table (json_stringify (js ''  '') (JObj t)) = Some (own_entries t)"
proof -
  have "blank (js ''  '')" by (simp add: lit json_ws_def)
  then have "json_parse (json_stringify (js ''  '') (JObj t)) = Inr (JObj (own_entries t))"
    using json_parse_stringify [OF table_json_ok [OF assms]] table_canon [OF assms] by simp
  moreover have "list_all (\<lambda>(k, _). plain_name k) (own_entries t)" using assms by (auto simp: list_all_iff table_ok_def)
  ultimately show ?thesis using stringify_object_ends [of "js ''  ''" t] by (simp add: read_table_def safeJsonParse_def trim_id)
qed

lemma read_tables_written:
  assumes "tables_ok T"
  shows "read_tables (write_tables T) = Some (\<lambda>f. own_entries (T f))"
  using assms read_written by (simp add: read_tables_def write_tables_def tables_ok_def list_all_iff)

lemma own_entries_ok: "table_ok t \<Longrightarrow> table_ok (own_entries t)"
  by (auto simp: table_ok_def distinct_own_entries)

lemma map_of_own: "table_ok t \<Longrightarrow> map_of (own_entries t) = map_of t"
  by (simp add: table_ok_def map_of_own_entries)

lemma set_modelNames: "set (modelNames T) = {n. \<exists>f. map_of (T f) n \<noteq> None}"
  by (force simp: modelNames_def map_of_eq_None_iff)

text \<open>A row depends on the entries of its name only.\<close>

lemma snapshot_cong:
  assumes "\<And>f. map_of (T f) n = map_of (T' f) n"
  shows "model_snapshot T n = model_snapshot T' n"
  by (simp only: model_snapshot_def entry_texts_def entry_text_def assms)

lemma entry_text_flat: "table_ok t \<Longrightarrow> \<exists>s. entry_text t n = Inr s"
proof -
  assume t: "table_ok t"
  have "flat v" if "map_of t n = Some v" for v using map_of_SomeD [OF that] t by (auto simp: table_ok_def)
  then show ?thesis by (auto simp: entry_text_def flat_def split: option.split json.splits)
qed

lemma entry_texts_ok:
  assumes "\<And>f. entry_text (T (Table f)) n = Inr (txt f)"
  shows "entry_texts T n = Inr txt"
proof -
  have "map_throws (\<lambda>f. entry_text (T (Table f)) n) fs = Inr (map txt fs)" for fs
    using assms by (induction fs) simp_all
  moreover have "the (map_of (zip fs (map txt fs)) f) = txt f" if "f \<in> set fs" for f fs
    using that by (simp add: map_of_zip_map)
  ultimately show ?thesis by (simp add: entry_texts_def)
qed

lemma untiered_row:
  assumes "tables_ok T" "fromBackendBillingMode (map_of (T BillingMode) n) \<noteq> Some TIERED_EXPR"
  shows "\<exists>r. model_snapshot T n = Inr r"
proof -
  obtain tx where "\<And>p. entry_text (T (Table p)) n = Inr (tx p)"
    using choice [of "\<lambda>p s. entry_text (T (Table p)) n = Inr s"] entry_text_flat assms(1) by (auto simp: tables_ok_def)
  then have "entry_texts T n = Inr tx" by (rule entry_texts_ok)
  with assms(2) show ?thesis by (simp add: model_snapshot_def Let_def)
qed

subsection \<open>What is written for a name\<close>

definition number_entry :: "jsstr option \<Rightarrow> json option" where
  "number_entry v = (case v of None \<Rightarrow> None
    | Some s \<Rightarrow> if s = [] then None else (case parse_float s of Fin x \<Rightarrow> Some (JNum (Fin x)) | _ \<Rightarrow> None))"

lemma set_if_present:
  "setIfPresent t n v = (case number_entry v of None \<Rightarrow> t | Some x \<Rightarrow> obj_set t n x)"
  by (simp add: setIfPresent_def number_entry_def split: option.split jsnum.split)

lemma number_entry_flat: "number_entry v = Some x \<Longrightarrow> flat x"
  by (auto simp: number_entry_def flat_def split: option.splits if_splits jsnum.splits dest: parse_float_double)

lemma table_ok_set: "table_ok t \<Longrightarrow> plain_name n \<Longrightarrow> str_ok n \<Longrightarrow> flat v \<Longrightarrow> table_ok (obj_set t n v)"
  unfolding table_ok_def using distinct_obj_set [of t n v] by (auto simp: obj_set_def split: if_splits)

lemma table_ok_delete: "table_ok t \<Longrightarrow> table_ok (AList.delete n t)"
  by (auto simp: table_ok_def AList.delete_eq intro: distinct_map_filter)

definition combined_of :: "'a model_ratio_data_scheme \<Rightarrow> jsstr" where
  "combined_of data = combineBillingExpr (case md_billingExpr data of None \<Rightarrow> [] | Some e \<Rightarrow> e)
     (case md_requestRuleExpr data of None \<Rightarrow> [] | Some r \<Rightarrow> r)"

definition plain_price :: "'a model_ratio_data_scheme \<Rightarrow> bool" where
  "plain_price data \<longleftrightarrow> md_field data Price \<noteq> None \<and> md_field data Price \<noteq> Some []"

fun written :: "'a model_ratio_data_scheme \<Rightarrow> model_field \<Rightarrow> json option" where
  "written data (Table p) =
     (if md_billingMode data = Some TIERED_EXPR then number_entry (md_field data p)
      else if md_billingMode data \<in> {Some PER_SECOND, Some PER_REQUEST} \<or> plain_price data
      then (if p = Price then number_entry (md_field data p) else None)
      else (if p = Price then None else number_entry (md_field data p)))"
| "written data BillingMode =
     (if md_billingMode data = Some TIERED_EXPR then (if combined_of data \<noteq> [] then Some (JStr (js ''tiered_expr'')) else None)
      else if md_billingMode data = Some PER_SECOND then Some (JStr (js ''per_second''))
      else if md_billingMode data = Some PER_REQUEST then Some (JStr (js ''per_request'')) else None)"
| "written data BillingExpr =
     (if md_billingMode data = Some TIERED_EXPR \<and> combined_of data \<noteq> [] then Some (JStr (combined_of data)) else None)"
| "written data RequestUnit =
     (if md_billingMode data = Some PER_REQUEST \<and> js_true (md_requestUnit data) \<and> md_requestUnit data \<noteq> Some (JStr (js ''request''))
      then md_requestUnit data else None)"

lemma write_model_table:
  "write_model data n T f = (case written data f of None \<Rightarrow> AList.delete n (T f) | Some v \<Rightarrow> obj_set (AList.delete n (T f)) n v)"
  by (cases f) (auto simp: write_model_def set_if_present combined_of_def [symmetric] plain_price_def Let_def toBackendBillingMode_def lit
      js_true_def split: option.split)

lemma write_model_map: "map_of (write_model data n T f) = (map_of (T f))(n := written data f)"
  by (auto simp: write_model_table map_of_obj_set AList.delete_conv' split: option.split)

lemma write_models_map:
  "map_of (fold (write_model data) ns T f) n = (if n \<in> set ns then written data f else map_of (T f) n)"
  by (induction ns arbitrary: T) (auto simp: write_model_map)

subsection \<open>The row of a saved model\<close>

definition stored :: "jsstr option \<Rightarrow> jsstr" where
  "stored v = (case number_entry v of Some (JNum x) \<Rightarrow> num_to_string x | _ \<Rightarrow> [])"

definition saved_row :: "'a model_ratio_data_scheme \<Rightarrow> jsstr \<Rightarrow> model_pricing_snapshot option" where
  "saved_row data n =
     (let txt = (\<lambda>f. stored (md_field data f)); unit = md_requestUnit data;
          row = \<lparr>md_name = n, md_field = (\<lambda>f. if f = Price then Some (txt Price) else None), md_billingMode = None, md_billingExpr = None,
            md_requestRuleExpr = None, md_requestUnit = None, sn_hasConflict = False\<rparr>
      in if md_billingMode data = Some TIERED_EXPR then
           Some (row\<lparr>md_field := (\<lambda>f. Some (txt f)), md_billingMode := Some TIERED_EXPR, md_billingExpr := md_billingExpr data,
             md_requestRuleExpr := md_requestRuleExpr data\<rparr>)
         else if md_billingMode data = Some PER_SECOND then Some (row\<lparr>md_billingMode := Some PER_SECOND\<rparr>)
         else if md_billingMode data = Some PER_REQUEST then
           Some (row\<lparr>md_billingMode := Some PER_REQUEST, md_requestUnit := (if js_true unit then unit else Some (JStr (js ''request'')))\<rparr>)
         else if plain_price data then
           (if txt Price = [] then None
            else Some (row\<lparr>md_billingMode := Some PER_REQUEST, md_requestUnit := Some (JStr (js ''request''))\<rparr>))
         else if \<forall>f. f \<noteq> Price \<longrightarrow> txt f = [] then None
         else Some (row\<lparr>md_field := (\<lambda>f. Some (if f = Price then [] else txt f)), md_billingMode := Some PER_TOKEN\<rparr>))"

text \<open>Data that is stored and read back: an expression is split again into the parts that were combined.\<close>

definition data_ok :: "'a model_ratio_data_scheme \<Rightarrow> bool" where
  "data_ok data \<longleftrightarrow>
     (case md_requestUnit data of None \<Rightarrow> True | Some v \<Rightarrow> (\<exists>u. v = JStr u \<and> str_ok u)) \<and>
     (md_billingMode data = Some TIERED_EXPR \<longrightarrow> str_ok (combined_of data) \<and> combined_of data \<noteq> [] \<and>
       (\<exists>e r. md_billingExpr data = Some e \<and> md_requestRuleExpr data = Some r \<and> splitBillingExprAndRequestRules (combined_of data) = Inr (e, r)))"

lemma number_entry_cases: "number_entry v = None \<or> (\<exists>x. double x \<and> number_entry v = Some (JNum (Fin x)))"
  by (auto simp: number_entry_def split: option.splits jsnum.splits dest: parse_float_double)

lemma stored_Nil: "stored v = [] \<longleftrightarrow> number_entry v = None"
  using number_entry_cases [of v] json_number_print(2) [of _ "[]"] by (auto simp: stored_def simp del: num_to_string.simps)

lemma stored_none [simp]: "number_entry v = None \<Longrightarrow> stored v = []"
  by (simp add: stored_def)

lemma entry_text_number: "map_of t n = number_entry v \<Longrightarrow> entry_text t n = Inr (stored v)"
  using number_entry_cases [of v] by (auto simp: entry_text_def stored_def simp del: num_to_string.simps)

lemma entry_text_none: "map_of t n = None \<Longrightarrow> entry_text t n = Inr []"
  by (simp add: entry_text_def)

text \<open>The texts that are read for what was written.\<close>

definition written_text :: "'a model_ratio_data_scheme \<Rightarrow> pricing_field \<Rightarrow> jsstr" where
  "written_text data p = (if written data (Table p) = None then [] else stored (md_field data p))"

lemma written_texts:
  assumes "\<And>f. map_of (T f) n = written data f"
  shows "entry_texts T n = Inr (written_text data)"
proof (rule entry_texts_ok)
  fix p
  have "written data (Table p) = None \<or> written data (Table p) = number_entry (md_field data p)" by simp
  then show "entry_text (T (Table p)) n = Inr (written_text data p)"
    using assms [of "Table p"] entry_text_none entry_text_number stored_Nil [of "md_field data p"]
    by (metis written_text_def)
qed

lemma mode_names:
  "fromBackendBillingMode (Some (JStr (js ''tiered_expr''))) = Some TIERED_EXPR"
  "fromBackendBillingMode (Some (JStr (js ''per_second''))) = Some PER_SECOND"
  "fromBackendBillingMode (Some (JStr (js ''per_request''))) = Some PER_REQUEST"
  "fromBackendBillingMode None = None"
  by (simp_all add: fromBackendBillingMode_def lit)

lemma mode_differ: "TIERED_EXPR \<noteq> PER_SECOND" "TIERED_EXPR \<noteq> PER_REQUEST" "PER_SECOND \<noteq> PER_REQUEST" "TIERED_EXPR \<noteq> PER_TOKEN"
  "PER_SECOND \<noteq> PER_TOKEN" "PER_REQUEST \<noteq> PER_TOKEN"
  by (simp_all add: lit)

lemma js_true_none [simp]: "\<not> js_true None"
  by (simp add: js_true_def)

lemma tiered_row:
  assumes "data_ok data" "md_billingMode data = Some TIERED_EXPR"
  shows "combined_of data \<noteq> []" "splitBillingExprAndRequestRules (combined_of data) = Inr (the (md_billingExpr data), the (md_requestRuleExpr data))"
    "md_billingExpr data = Some (the (md_billingExpr data))" "md_requestRuleExpr data = Some (the (md_requestRuleExpr data))"
  using assms by (auto simp: data_ok_def)

lemma written_row:
  assumes "data_ok data" "\<And>f. map_of (T f) n = written data f" "saved_row data n = Some r"
  shows "model_snapshot T n = Inr r"
proof -
  note t = written_texts [of T n data, OF assms(2)]
  consider (tiered) "md_billingMode data = Some TIERED_EXPR" | (second) "md_billingMode data = Some PER_SECOND"
    | (request) "md_billingMode data = Some PER_REQUEST" | (other) "md_billingMode data \<notin> {Some TIERED_EXPR, Some PER_SECOND, Some PER_REQUEST}"
    by blast
  then show ?thesis
  proof cases
    case tiered
    have "written_text data p = stored (md_field data p)" for p using tiered by (auto simp: written_text_def stored_Nil)
    then show ?thesis using assms(3) tiered tiered_row [OF assms(1) tiered] by (simp add: model_snapshot_def t assms(2) saved_row_def mode_names js_true_def)
  next
    case second
    then show ?thesis using assms(3) by (auto simp: model_snapshot_def t assms(2) saved_row_def mode_names mode_differ written_text_def stored_Nil)
  next
    case request
    then have "written_text data Price = stored (md_field data Price)" by (auto simp: written_text_def)
    then show ?thesis using assms(3) request by (auto simp: model_snapshot_def t assms(2) saved_row_def mode_names mode_differ js_true_def [of "Some (JStr (js ''request''))"] cong: if_cong)
  next
    case other
    then show ?thesis using assms(3) by (auto simp: model_snapshot_def t assms(2) saved_row_def mode_names mode_differ written_text_def stored_Nil Let_def list_ex_iff split: if_splits)
  qed
qed

lemma saved_row_none:
  assumes "data_ok data"
  shows "saved_row data n = None \<longleftrightarrow> (\<forall>f. written data f = None)"
proof
  assume none: "saved_row data n = None"
  then have m: "md_billingMode data \<notin> {Some TIERED_EXPR, Some PER_SECOND, Some PER_REQUEST}" by (auto simp: saved_row_def Let_def)
  show "\<forall>f. written data f = None"
  proof
    fix f
    show "written data f = None" using none m by (cases f) (auto simp: saved_row_def Let_def stored_Nil split: if_splits)
  qed
next
  assume w: "\<forall>f. written data f = None"
  then have m: "md_billingMode data \<notin> {Some TIERED_EXPR, Some PER_SECOND, Some PER_REQUEST}"
    using tiered_row(1) [OF assms] spec [OF w, of BillingMode] by (auto split: if_splits)
  have "plain_price data \<Longrightarrow> number_entry (md_field data Price) = None" using m w [rule_format, of "Table Price"] by simp
  moreover have "\<not> plain_price data \<Longrightarrow> p \<noteq> Price \<Longrightarrow> number_entry (md_field data p) = None" for p using m w [rule_format, of "Table p"] by simp
  ultimately show "saved_row data n = None" using m by (simp add: saved_row_def Let_def)
qed

lemma saved_row_name: "saved_row data n = Some r \<Longrightarrow> md_name r = n"
  by (auto simp: saved_row_def Let_def split: if_splits)

lemma written_flat: "data_ok data \<Longrightarrow> written data f = Some v \<Longrightarrow> flat v"
  by (cases f) (auto simp: data_ok_def flat_def str_ok_def lit split: if_splits option.splits dest: number_entry_flat [unfolded flat_def])

lemma write_model_ok:
  assumes "tables_ok T" "data_ok data" "plain_name n" "str_ok n"
  shows "tables_ok (write_model data n T)"
  using assms written_flat [OF assms(2)] by (auto simp: tables_ok_def write_model_table split: option.split intro!: table_ok_set table_ok_delete)

lemma write_models_ok:
  "tables_ok T \<Longrightarrow> data_ok data \<Longrightarrow> \<forall>n \<in> set ns. plain_name n \<and> str_ok n \<Longrightarrow> tables_ok (fold (write_model data) ns T)"
  by (induction ns arbitrary: T) (auto intro: write_model_ok)

lemma snapshot_name: "model_snapshot T n = Inr r \<Longrightarrow> md_name r = n"
  by (auto simp: model_snapshot_def Let_def bind_throws_eq_Inr split: if_splits option.splits json.splits)

lemma rows_iff:
  assumes "buildModelSnapshots T = Inr rows"
  shows "r \<in> set rows \<longleftrightarrow> (\<exists>f. map_of (T f) (md_name r) \<noteq> None) \<and> model_snapshot T (md_name r) = Inr r"
  unfolding map_throws_set [OF assms [unfolded buildModelSnapshots_def]] set_modelNames using snapshot_name by blast

lemma distinct_rows:
  assumes "buildModelSnapshots T = Inr rows"
  shows "distinct (map md_name rows)"
proof -
  have "list_all2 (\<lambda>n r. model_snapshot T n = Inr r) (modelNames T) rows" using assms by (simp add: buildModelSnapshots_def map_throws_eq_Inr)
  then have "map md_name rows = modelNames T"
    by (induction rule: list_all2_induct) (auto dest: snapshot_name)
  then show ?thesis by (simp add: modelNames_def)
qed

lemma rows_total: "(\<exists>rows. buildModelSnapshots T = Inr rows) \<longleftrightarrow> (\<forall>n f. map_of (T f) n \<noteq> None \<longrightarrow> (\<exists>r. model_snapshot T n = Inr r))"
  unfolding buildModelSnapshots_def map_throws_total by (auto simp: set_modelNames)

text \<open>
  The rows after the tables have been changed at some names, written to their texts and read again.
\<close>

lemma rows_after:
  assumes T: "tables_ok T" and W: "tables_ok W" and rows: "buildModelSnapshots T = Inr rows"
    and same: "\<And>f n. n \<notin> N \<Longrightarrow> map_of (W f) n = map_of (T f) n"
    and new: "\<And>n r. n \<in> N \<Longrightarrow> row n = Some r \<Longrightarrow> model_snapshot W n = Inr r"
    and shown: "\<And>n. n \<in> N \<Longrightarrow> row n = None \<longleftrightarrow> (\<forall>f. map_of (W f) n = None)"
  shows "\<exists>rows'. listed (write_tables W) = Some (Inr rows') \<and> distinct (map md_name rows')
    \<and> set rows' = {r \<in> set rows. md_name r \<notin> N} \<union> {r. \<exists>n \<in> N. row n = Some r}"
proof -
  define V where "V = (\<lambda>f. own_entries (W f))"
  have V: "map_of (V f) = map_of (W f)" for f using W by (simp add: V_def tables_ok_def map_of_own)
  then have VW: "model_snapshot V n = model_snapshot W n" for n by (intro snapshot_cong) simp
  have WT: "n \<notin> N \<Longrightarrow> model_snapshot W n = model_snapshot T n" for n by (intro snapshot_cong) (rule same)
  have read: "read_tables (write_tables W) = Some V" using read_tables_written [OF W] by (simp add: V_def)
  have old: "\<exists>r. model_snapshot T n = Inr r" if "map_of (T f) n \<noteq> None" for f n
    using rows that rows_total [of T] by blast
  have "\<exists>r. model_snapshot V n = Inr r" if h: "map_of (V f) n \<noteq> None" for f n
  proof (cases "n \<in> N")
    case True
    then obtain r where "row n = Some r" using shown h V by (cases "row n") auto
    with True show ?thesis using new VW by auto
  qed (use old VW WT V same h in auto)
  then obtain rows' where rows': "buildModelSnapshots V = Inr rows'" using rows_total [of V] by blast
  have "row n = Some r \<Longrightarrow> n \<in> N \<Longrightarrow> md_name r = n" for n r using new snapshot_name by blast
  then have named: "(\<exists>n \<in> N. row n = Some r) \<longleftrightarrow> md_name r \<in> N \<and> row (md_name r) = Some r" for r by blast
  have "r \<in> set rows' \<longleftrightarrow> r \<in> {r \<in> set rows. md_name r \<notin> N} \<union> {r. \<exists>n \<in> N. row n = Some r}" for r
  proof (cases "md_name r \<in> N")
    case True
    show ?thesis
    proof (cases "row (md_name r)")
      case None
      then show ?thesis using True shown [OF True] by (simp add: rows_iff [OF rows'] V named)
    next
      case (Some q)
      then show ?thesis using True shown [OF True] new [OF True Some] by (auto simp: rows_iff [OF rows'] V VW named)
    qed
  next
    case False
    then show ?thesis using same WT by (simp add: rows_iff [OF rows'] rows_iff [OF rows] V VW named)
  qed
  then show ?thesis using read rows' distinct_rows [OF rows'] by (auto simp: listed_def)
qed

subsection \<open>Properties\<close>

text \<open>
  C16: saving prices for any models of the list writes eleven tables whose rows are the rows before,
  except for these models, which have the row of the saved prices: in the mode and with the
  expression, rules, unit and numbers that were saved, or no row when nothing was to be stored.
\<close>

theorem saved_prices_listed:
  assumes "values_ok values" "listed values = Some (Inr rows)" "data_ok data" "\<forall>n \<in> set names. plain_name n \<and> str_ok n"
  shows "\<exists>values' rows'. persistPricingData data names values = Some values' \<and> listed values' = Some (Inr rows')
    \<and> distinct (map md_name rows')
    \<and> set rows' = {r \<in> set rows. md_name r \<notin> set names} \<union> {r. \<exists>n \<in> set names. saved_row data n = Some r}"
proof -
  obtain T where T: "read_tables values = Some T" "tables_ok T" using assms(1) by (auto simp: values_ok_def)
  define W where "W = fold (write_model data) names T"
  have "persistPricingData data names values = Some (write_tables W)"
    using assms(4) T(1) by (simp add: persistPricingData_def list_all_iff W_def)
  moreover have "\<exists>rows'. listed (write_tables W) = Some (Inr rows') \<and> distinct (map md_name rows')
      \<and> set rows' = {r \<in> set rows. md_name r \<notin> set names} \<union> {r. \<exists>n \<in> set names. saved_row data n = Some r}"
  proof (rule rows_after)
    show "tables_ok T" "tables_ok W" using T(2) assms(3,4) by (simp_all add: W_def write_models_ok)
    show "buildModelSnapshots T = Inr rows" using assms(2) T(1) by (simp add: listed_def)
    show "map_of (W f) n = map_of (T f) n" if "n \<notin> set names" for f n using that by (simp add: W_def write_models_map)
    have w: "map_of (W f) n = written data f" if "n \<in> set names" for f n using that by (simp add: W_def write_models_map)
    show "model_snapshot W n = Inr r" if "n \<in> set names" "saved_row data n = Some r" for n r
      using written_row [OF assms(3) _ that(2), of W] w [OF that(1)] by blast
    show "saved_row data n = None \<longleftrightarrow> (\<forall>f. map_of (W f) n = None)" if "n \<in> set names" for n
      using saved_row_none [OF assms(3), of n] w [OF that] by simp
  qed
  ultimately show ?thesis by blast
qed

text \<open>Two models, one with a fixed price and one with ratios.\<close>

definition sample_tables :: model_tables where
  "sample_tables f = (case f of
      Table p \<Rightarrow> if p = Price then [(js ''dall-e'', JNum (Fin 2))] else if p = Ratio then [(js ''gpt'', JNum (Fin 1))] else []
    | _ \<Rightarrow> [])"

definition sample_values :: model_values where
  "sample_values = write_tables sample_tables"

definition sample_data :: model_ratio_data where
  "sample_data = \<lparr>md_name = js ''gpt'', md_field = (\<lambda>f. if f = Price then Some (js ''3'') else None), md_billingMode = Some PER_SECOND,
     md_billingExpr = None, md_requestRuleExpr = None, md_requestUnit = None\<rparr>"

lemma sample_tables_ok: "tables_ok sample_tables"
proof -
  have "flat (JNum (Fin 2))" "flat (JNum (Fin 1))" using rnd_nat [of 2] rnd_nat [of 1] by (simp_all add: flat_def double_def)
  moreover have "plain_name (js ''gpt'')" "plain_name (js ''dall-e'')" "str_ok (js ''gpt'')" "str_ok (js ''dall-e'')"
    by (simp_all add: plain_name_def OBJECT_MEMBERS_def str_ok_def lit)
  ultimately show ?thesis by (auto simp: tables_ok_def table_ok_def sample_tables_def split: model_field.split)
qed

lemma sample_values_ok: "values_ok sample_values"
  unfolding values_ok_def sample_values_def using read_tables_written [OF sample_tables_ok] own_entries_ok sample_tables_ok
  by (auto simp: tables_ok_def)

lemma sample_listed: "\<exists>rows. listed sample_values = Some (Inr rows)"
proof -
  have ok: "tables_ok (\<lambda>f. own_entries (sample_tables f))" using sample_tables_ok own_entries_ok by (simp add: tables_ok_def)
  have "\<exists>r. model_snapshot (\<lambda>f. own_entries (sample_tables f)) n = Inr r" for n
    by (rule untiered_row [OF ok]) (simp add: sample_tables_def own_entries_def fromBackendBillingMode_def)
  then show ?thesis unfolding sample_values_def listed_def using read_tables_written [OF sample_tables_ok] rows_total by simp
qed

lemma sample_data_ok: "data_ok sample_data"
  by (simp add: data_ok_def sample_data_def lit)

theorem saved_prices_listed_witness:
  "\<exists>values' rows'. persistPricingData sample_data [js ''gpt''] sample_values = Some values' \<and> listed values' = Some (Inr rows')
     \<and> the (saved_row sample_data (js ''gpt'')) \<in> set rows'"
proof -
  obtain rows where rows: "listed sample_values = Some (Inr rows)" using sample_listed by blast
  have "plain_name (js ''gpt'') \<and> str_ok (js ''gpt'')" by (simp add: plain_name_def OBJECT_MEMBERS_def str_ok_def lit)
  moreover have "saved_row sample_data (js ''gpt'') = Some (the (saved_row sample_data (js ''gpt'')))" by (simp add: saved_row_def sample_data_def Let_def)
  ultimately show ?thesis using saved_prices_listed [OF sample_values_ok rows sample_data_ok, of "[js ''gpt'']"] by auto
qed

text \<open>
  Deleting a model removes exactly its row.
\<close>

theorem deleted_row:
  assumes "values_ok values" "listed values = Some (Inr rows)" "plain_name n"
  shows "\<exists>values' rows'. handleDelete n values = Some values' \<and> listed values' = Some (Inr rows') \<and> distinct (map md_name rows')
    \<and> set rows' = {r \<in> set rows. md_name r \<noteq> n}"
proof -
  obtain T where T: "read_tables values = Some T" "tables_ok T" using assms(1) by (auto simp: values_ok_def)
  define W where "W = (\<lambda>f. AList.delete n (T f))"
  have "handleDelete n values = Some (write_tables W)" using assms(3) T(1) by (simp add: handleDelete_def W_def)
  moreover have "\<exists>rows'. listed (write_tables W) = Some (Inr rows') \<and> distinct (map md_name rows')
      \<and> set rows' = {r \<in> set rows. md_name r \<notin> {n}} \<union> {r. \<exists>m \<in> {n}. None = Some r}"
  proof (rule rows_after)
    show "tables_ok T" "tables_ok W" using T(2) by (simp_all add: tables_ok_def W_def table_ok_delete)
    show "buildModelSnapshots T = Inr rows" using assms(2) T(1) by (simp add: listed_def)
  qed (auto simp: W_def AList.delete_conv')
  ultimately show ?thesis by auto
qed

theorem deleted_row_witness:
  "\<exists>values' rows'. handleDelete (js ''gpt'') sample_values = Some values' \<and> listed values' = Some (Inr rows')
     \<and> js ''gpt'' \<notin> md_name ` set rows'"
proof -
  obtain rows where rows: "listed sample_values = Some (Inr rows)" using sample_listed by blast
  have "plain_name (js ''gpt'')" by (simp add: plain_name_def OBJECT_MEMBERS_def lit)
  from deleted_row [OF sample_values_ok rows this] show ?thesis by auto
qed

end
