(* ===== verification/PricingPanel.thy ===== *)
theory PricingPanel
  imports PriceTables
begin

text \<open>
  The panel that edits the prices of one model (\<^verbatim>\<open>model-pricing-sheet.tsx\<close>, \<^verbatim>\<open>model-pricing-core.ts\<close>,
  \<^verbatim>\<open>pricing-format.ts\<close>), the list of models with its drafts (\<^verbatim>\<open>model-ratio-visual-editor.tsx\<close>), and what
  a listed row is like and is submitted as.
\<close>

subsection \<open>Prices as texts\<close>

definition toNumberOrNull :: "jsstr option \<Rightarrow> rat option" where
  "toNumberOrNull v = (case v of
      None \<Rightarrow> None | Some s \<Rightarrow> if s = [] then None else (case to_number s of Fin x \<Rightarrow> Some x | _ \<Rightarrow> None))"

definition roundToDecimals :: "jsnum \<Rightarrow> nat \<Rightarrow> jsnum" where
  "roundToDecimals v decimals = (let factor = Fin (10 ^ decimals) in num_div (math_round (num_mul v factor)) factor)"

text \<open>The largest of the absolute and the relative tolerance, \<^verbatim>\<open>1e-12\<close> and eight units in the last place.\<close>

definition snap_tolerance :: "jsnum \<Rightarrow> jsnum" where
  "snap_tolerance v =
     (let absolute = rnd (powz 10 (- 12)); relative = num_mul (num_mul (math_abs v) (Fin (powz 2 (- 52)))) (Fin 8)
      in if num_less absolute relative then relative else absolute)"

definition snapFloatDrift :: "jsnum \<Rightarrow> jsnum" where
  "snapFloatDrift v =
     (case List.find (\<lambda>decimals. num_le (math_abs (num_sub v (roundToDecimals v decimals))) (snap_tolerance v)) [0..<9] of
        Some decimals \<Rightarrow> roundToDecimals v decimals
      | None \<Rightarrow> v)"

definition formatPricingNumber :: "jsnum \<Rightarrow> jsstr" where
  "formatPricingNumber v = (case v of Fin _ \<Rightarrow> num_to_string (parse_float (to_fixed 12 (snapFloatDrift v))) | _ \<Rightarrow> [])"

definition hasValue :: "jsstr option \<Rightarrow> bool" where
  "hasValue v \<longleftrightarrow> v \<noteq> None \<and> v \<noteq> Some []"

definition formatOptionalNumericField :: "jsstr option \<Rightarrow> jsstr" where
  "formatOptionalNumericField v = (case v of None \<Rightarrow> [] | Some s \<Rightarrow> s)"

definition ratioToBasePrice :: "jsstr option \<Rightarrow> jsstr" where
  "ratioToBasePrice r = (case toNumberOrNull r of None \<Rightarrow> [] | Some x \<Rightarrow> formatPricingNumber (num_mul (Fin x) (Fin 2)))"

definition deriveLanePrice :: "jsstr option \<Rightarrow> jsstr \<Rightarrow> jsstr" where
  "deriveLanePrice r denominator = (case (toNumberOrNull r, toNumberOrNull (Some denominator)) of
      (Some x, Some d) \<Rightarrow> formatPricingNumber (num_mul (Fin x) (Fin d)) | _ \<Rightarrow> [])"

text \<open>\<^verbatim>\<open>/^(\d+(\.\d*)?|\.\d*)?$/\<close>\<close>

definition numericDraftRegex :: regex where
  "numericDraftRegex = Seqs [Bol,
     Opt (Grp 1 (Alt (Seq (Plus (Cls is_digit)) (Opt (Grp 2 (Seq (Str (js ''.'')) (Star (Cls is_digit))))))
       (Seq (Str (js ''.'')) (Star (Cls is_digit))))),
     Eol]"

subsection \<open>Units\<close>

definition REQUEST_UNIT_OPTIONS :: "(jsstr \<times> jsstr) list" where
  "REQUEST_UNIT_OPTIONS =
     [(js ''request'', js ''billingUnit.request''), (js ''call'', js ''billingUnit.call''), (js ''image'', js ''billingUnit.image''),
      (js ''task'', js ''billingUnit.task''), (js ''generation'', js ''billingUnit.generation'')]"

definition formatRequestUnitLabel :: "(jsstr \<Rightarrow> jsstr) \<Rightarrow> jsstr option \<Rightarrow> jsstr" where
  "formatRequestUnitLabel t unit =
     (let trimmed_unit = (case unit of None \<Rightarrow> [] | Some u \<Rightarrow> trim u); normalized = (if trimmed_unit = [] then js ''request'' else trimmed_unit)
      in t (case map_of REQUEST_UNIT_OPTIONS normalized of Some k \<Rightarrow> k | None \<Rightarrow> js ''billingUnit.request''))"

subsection \<open>Lanes\<close>

datatype lane = Completion | Cache | CreateCache | ImageLane | AudioInput | AudioOutput

text \<open>Key, title, description and placeholder.\<close>

definition laneConfigs :: "(lane \<times> jsstr \<times> jsstr \<times> jsstr) list" where
  "laneConfigs =
     [(Completion, js ''Completion price'', js ''Output token price for generated tokens.'', js ''15''),
      (Cache, js ''Cache read price'', js ''Token price for cache reads.'', js ''0.3''),
      (CreateCache, js ''Cache write price'', js ''Token price for creating cache entries.'', js ''3.75''),
      (ImageLane, js ''Image input price'', js ''Token price for image input.'', js ''2.5''),
      (AudioInput, js ''Audio input price'', js ''Token price for audio input.'', js ''3.81''),
      (AudioOutput, js ''Audio output price'', js ''Token price for audio output.'', js ''15.11'')]"

definition lanes :: "lane list" where
  "lanes = map fst laneConfigs"

fun ratioFieldByLane :: "lane \<Rightarrow> pricing_field" where
  "ratioFieldByLane Completion = CompletionRatio"
| "ratioFieldByLane Cache = CacheRatio"
| "ratioFieldByLane CreateCache = CreateCacheRatio"
| "ratioFieldByLane ImageLane = ImageRatio"
| "ratioFieldByLane AudioInput = AudioRatio"
| "ratioFieldByLane AudioOutput = AudioCompletionRatio"

record panel =
  pn_name :: jsstr
  pn_form :: "pricing_field \<Rightarrow> jsstr"
  pn_pricingMode :: jsstr
  pn_promptPrice :: jsstr
  pn_lanePrices :: "lane \<Rightarrow> jsstr"
  pn_laneEnabled :: "lane \<Rightarrow> bool"
  pn_billingExpr :: jsstr
  pn_requestRuleExpr :: jsstr
  pn_requestUnit :: "json option"

text \<open>\<^verbatim>\<open>createInitialLaneState\<close>: the input price, the prices of the lanes and which are enabled.\<close>

definition createInitialLaneState :: "'a model_ratio_data_scheme option \<Rightarrow> jsstr \<times> (lane \<Rightarrow> jsstr) \<times> (lane \<Rightarrow> bool)" where
  "createInitialLaneState data = (case data of
      None \<Rightarrow> ([], (\<lambda>_. []), (\<lambda>_. False))
    | Some d \<Rightarrow>
        (let promptPrice = ratioToBasePrice (md_field d Ratio); audioInputPrice = deriveLanePrice (md_field d AudioRatio) promptPrice
         in (promptPrice,
             (\<lambda>l. if l = AudioInput then audioInputPrice
                  else if l = AudioOutput then deriveLanePrice (md_field d AudioCompletionRatio) audioInputPrice
                  else deriveLanePrice (md_field d (ratioFieldByLane l)) promptPrice),
             (\<lambda>l. hasValue (md_field d (ratioFieldByLane l))))))"

text \<open>The effect that loads \<^verbatim>\<open>editData\<close> sets every part of the state.\<close>

definition or_empty :: "jsstr option \<Rightarrow> jsstr" where
  "or_empty v = (case v of None \<Rightarrow> [] | Some s \<Rightarrow> s)"

definition load_panel :: "'a model_ratio_data_scheme option \<Rightarrow> panel" where
  "load_panel editData = (case createInitialLaneState editData of (promptPrice, prices, enabled) \<Rightarrow>
     (case editData of
        Some d \<Rightarrow>
          \<lparr>pn_name = md_name d, pn_form = (\<lambda>f. formatOptionalNumericField (md_field d f)),
           pn_pricingMode = resolvePricingModeFromData (Some d), pn_promptPrice = promptPrice, pn_lanePrices = prices, pn_laneEnabled = enabled,
           pn_billingExpr = or_empty (md_billingExpr d), pn_requestRuleExpr = or_empty (md_requestRuleExpr d),
           pn_requestUnit = (if js_true (md_requestUnit d) then md_requestUnit d else Some (JStr (js ''request'')))\<rparr>
      | None \<Rightarrow>
          \<lparr>pn_name = [], pn_form = (\<lambda>_. []), pn_pricingMode = PER_TOKEN, pn_promptPrice = promptPrice, pn_lanePrices = prices,
           pn_laneEnabled = enabled, pn_billingExpr = [], pn_requestRuleExpr = [], pn_requestUnit = Some (JStr (js ''request''))\<rparr>))"

subsection \<open>The handlers of the panel\<close>

definition setFormValue :: "pricing_field \<Rightarrow> jsstr \<Rightarrow> panel \<Rightarrow> panel" where
  "setFormValue f v p = p\<lparr>pn_form := (pn_form p)(f := v)\<rparr>"

definition deriveLaneRatio :: "lane \<Rightarrow> jsstr \<Rightarrow> jsstr \<Rightarrow> (lane \<Rightarrow> jsstr) \<Rightarrow> jsstr" where
  "deriveLaneRatio l price nextPromptPrice nextLanePrices = (case toNumberOrNull (Some price) of
      None \<Rightarrow> []
    | Some x \<Rightarrow>
        (case toNumberOrNull (Some (if l = AudioOutput then nextLanePrices AudioInput else nextPromptPrice)) of
           None \<Rightarrow> []
         | Some d \<Rightarrow> if d = 0 then [] else formatPricingNumber (num_div (Fin x) (Fin d))))"

definition syncLaneRatios :: "jsstr \<Rightarrow> (lane \<Rightarrow> jsstr) \<Rightarrow> (lane \<Rightarrow> bool) \<Rightarrow> panel \<Rightarrow> panel" where
  "syncLaneRatios nextPromptPrice nextLanePrices nextLaneEnabled p =
     fold (\<lambda>l. setFormValue (ratioFieldByLane l)
         (if nextLaneEnabled l then deriveLaneRatio l (nextLanePrices l) nextPromptPrice nextLanePrices else []))
       lanes
       (setFormValue Ratio (case toNumberOrNull (Some nextPromptPrice) of
           None \<Rightarrow> [] | Some x \<Rightarrow> formatPricingNumber (num_div (Fin x) (Fin 2))) p)"

definition handlePromptPriceChange :: "jsstr \<Rightarrow> panel \<Rightarrow> panel" where
  "handlePromptPriceChange v p =
     (if \<not> re_test numericDraftRegex v then p
      else syncLaneRatios v (pn_lanePrices p) (pn_laneEnabled p) (p\<lparr>pn_promptPrice := v\<rparr>))"

definition handleLanePriceChange :: "lane \<Rightarrow> jsstr \<Rightarrow> panel \<Rightarrow> panel" where
  "handleLanePriceChange l v p =
     (if \<not> re_test numericDraftRegex v then p
      else (let nextLanePrices = (pn_lanePrices p)(l := v);
                p1 = p\<lparr>pn_lanePrices := nextLanePrices\<rparr>;
                p2 = (if pn_laneEnabled p l then setFormValue (ratioFieldByLane l) (deriveLaneRatio l v (pn_promptPrice p) nextLanePrices) p1 else p1)
            in if l = AudioInput \<and> pn_laneEnabled p AudioOutput
               then setFormValue AudioCompletionRatio (deriveLaneRatio AudioOutput (nextLanePrices AudioOutput) (pn_promptPrice p) nextLanePrices) p2
               else p2))"

definition handleLaneToggle :: "lane \<Rightarrow> bool \<Rightarrow> panel \<Rightarrow> panel" where
  "handleLaneToggle l checked p =
     (let nextEnabled = (pn_laneEnabled p)(l := checked) in
      if checked
      then setFormValue (ratioFieldByLane l) (deriveLaneRatio l (pn_lanePrices p l) (pn_promptPrice p) (pn_lanePrices p))
        (p\<lparr>pn_laneEnabled := nextEnabled\<rparr>)
      else (let nextPrices = (pn_lanePrices p)(l := []); p1 = setFormValue (ratioFieldByLane l) [] p
        in if l = AudioInput
           then (setFormValue AudioCompletionRatio [] p1)\<lparr>pn_laneEnabled := nextEnabled(AudioOutput := False),
             pn_lanePrices := nextPrices(AudioOutput := [])\<rparr>
           else p1\<lparr>pn_laneEnabled := nextEnabled, pn_lanePrices := nextPrices\<rparr>))"

definition handlePanelModeChange :: "jsstr \<Rightarrow> panel \<Rightarrow> panel" where
  "handlePanelModeChange nextMode p =
     (let p1 = p\<lparr>pn_pricingMode := nextMode\<rparr>;
          p2 = (if nextMode = TIERED_EXPR \<and> pn_billingExpr p = [] then p1\<lparr>pn_billingExpr := js ''tier(\"base\", p * 0 + c * 0)''\<rparr> else p1)
      in if nextMode = PER_REQUEST \<and> \<not> js_true (pn_requestUnit p) then p2\<lparr>pn_requestUnit := Some (JStr (js ''request''))\<rparr> else p2)"

text \<open>The field of the fixed price, on two of the four tabs.\<close>

definition handlePriceFieldChange :: "jsstr \<Rightarrow> panel \<Rightarrow> panel" where
  "handlePriceFieldChange v p = (if re_test numericDraftRegex v then setFormValue Price v p else p)"

definition missing_input_price :: "panel \<Rightarrow> bool" where
  "missing_input_price p \<longleftrightarrow> pn_pricingMode p = PER_TOKEN \<and> toNumberOrNull (Some (pn_promptPrice p)) = None
     \<and> list_ex (\<lambda>l. pn_laneEnabled p l \<and> hasValue (Some (pn_lanePrices p l))) lanes"

definition missing_audio_input :: "panel \<Rightarrow> bool" where
  "missing_audio_input p \<longleftrightarrow> pn_pricingMode p = PER_TOKEN \<and> pn_laneEnabled p AudioOutput \<and> \<not> hasValue (Some (pn_lanePrices p AudioInput))"

definition panel_warnings :: "(jsstr \<Rightarrow> jsstr) \<Rightarrow> 'a model_ratio_data_scheme option \<Rightarrow> panel \<Rightarrow> jsstr list" where
  "panel_warnings t editData p =
     (case editData of
        None \<Rightarrow> []
      | Some d \<Rightarrow> if hasValue (md_field d Price) \<and> list_ex (\<lambda>f. hasValue (md_field d f)) RATIO_FIELDS
          then [t (js ''This model has both fixed-price and token-price settings. Saving the current mode will rewrite the conflicting fields.'')]
          else [])
     @ (if missing_input_price p then [t (js ''Input price is required before saving dependent prices.'')] else [])
     @ (if missing_audio_input p then [t (js ''Audio output price requires an audio input price.'')] else [])"

definition validatePricingValues :: "panel \<Rightarrow> bool" where
  "validatePricingValues p \<longleftrightarrow> \<not> missing_input_price p \<and> \<not> missing_audio_input p"

definition buildSubmitData :: "panel \<Rightarrow> model_ratio_data" where
  "buildSubmitData p =
     \<lparr>md_name = trim (pn_name p), md_field = (\<lambda>f. Some (formatOptionalNumericField (Some (pn_form p f)))),
      md_billingMode = Some (pn_pricingMode p),
      md_billingExpr = (if pn_pricingMode p = TIERED_EXPR then Some (pn_billingExpr p) else None),
      md_requestRuleExpr = (if pn_pricingMode p = TIERED_EXPR then Some (pn_requestRuleExpr p) else None),
      md_requestUnit = (if pn_pricingMode p = PER_REQUEST then pn_requestUnit p else None)\<rparr>"

text \<open>The schema asks for a name.\<close>

definition commitDraft :: "panel \<Rightarrow> model_ratio_data option" where
  "commitDraft p = (if pn_name p \<noteq> [] \<and> validatePricingValues p then Some (buildSubmitData p) else None)"

subsection \<open>The preview\<close>

text \<open>Key, label, text and whether it has several lines. \<open>t\<close> is the translation.\<close>

type_synonym preview_row = "jsstr \<times> jsstr \<times> jsstr \<times> bool"

definition dollar :: "(jsstr \<Rightarrow> jsstr) \<Rightarrow> jsstr \<Rightarrow> jsstr" where
  "dollar t s = (if s \<noteq> [] then js ''$'' @ s else t (js ''Empty''))"

definition buildPreviewRows :: "panel \<Rightarrow> (jsstr \<Rightarrow> jsstr) \<Rightarrow> preview_row list" where
  "buildPreviewRows p t =
     (let price = pn_form p Price; shown = (\<lambda>l. if pn_laneEnabled p l then dollar t (pn_lanePrices p l) else t (js ''Empty'')) in
      if pn_pricingMode p = TIERED_EXPR then
        (let effectiveExpr = combineBillingExpr (pn_billingExpr p) (pn_requestRuleExpr p)
         in [(js ''mode'', js ''BillingMode'', js ''tiered_expr'', False),
             (js ''expr'', t (js ''Expression''), (if effectiveExpr \<noteq> [] then effectiveExpr else t (js ''Empty'')), True)])
      else if pn_pricingMode p = PER_REQUEST then
        [(js ''price'', js ''ModelPrice'', (if price \<noteq> [] then price else t (js ''Empty'')), False),
         (js ''unit'', t (js ''Billing unit''), formatRequestUnitLabel t (map_option text_of (pn_requestUnit p)), False)]
      else if pn_pricingMode p = PER_SECOND then
        [(js ''price'', js ''ModelPrice'', dollar t price, False),
         (js ''unit'', t (js ''Billing unit''), t (js ''billingUnit.second''), False),
         (js ''formula'', t (js ''Formula''), t (js ''Unit price '' @ [215] @ js '' upstream seconds''), False)]
      else
        [(js ''inputPrice'', t (js ''Input price''), dollar t (pn_promptPrice p), False),
         (js ''completion'', t (js ''Completion price''), shown Completion, False),
         (js ''cache'', t (js ''Cache read price''), shown Cache, False),
         (js ''createCache'', t (js ''Cache write price''), shown CreateCache, False),
         (js ''image'', t (js ''Image input price''), shown ImageLane, False),
         (js ''audio'', t (js ''Audio input price''), shown AudioInput, False),
         (js ''audioCompletion'', t (js ''Audio output price''), shown AudioOutput, False)])"

subsection \<open>The texts of a row\<close>

definition getModeLabel :: "jsstr option \<Rightarrow> jsstr" where
  "getModeLabel mode =
     (if mode = Some PER_REQUEST then js ''Per-request'' else if mode = Some PER_SECOND then js ''Per-second''
      else if mode = Some TIERED_EXPR then js ''Expression'' else js ''Per-token'')"

definition getModeVariant :: "jsstr option \<Rightarrow> jsstr" where
  "getModeVariant mode =
     (if mode = Some PER_REQUEST then js ''warning'' else if mode = Some PER_SECOND then js ''neutral''
      else if mode = Some TIERED_EXPR then js ''info'' else js ''success'')"

definition ratioToPrice :: "jsstr option \<Rightarrow> jsstr option \<Rightarrow> jsstr" where
  "ratioToPrice r denominator =
     (let d = (if hasValue denominator then toNumberOrNull denominator else Some 2) in
      case (toNumberOrNull r, d) of (Some x, Some y) \<Rightarrow> formatPricingNumber (num_mul (Fin x) (Fin y)) | _ \<Rightarrow> [])"

text \<open>Matches of \<^verbatim>\<open>/tier\(/g\<close>.\<close>

fun count_tiers :: "jsstr \<Rightarrow> nat" where
  "count_tiers [] = 0"
| "count_tiers (c # s) = (if starts_with (c # s) (js ''tier('') then Suc (count_tiers (drop 4 s)) else count_tiers s)"

definition dot :: jsstr where
  "dot = [32, 183, 32]"

definition getExpressionSummary :: "'a model_ratio_data_scheme \<Rightarrow> (jsstr \<Rightarrow> jsstr) \<Rightarrow> jsstr" where
  "getExpressionSummary row t =
     (let tierCount = count_tiers (or_empty (md_billingExpr row)) in
      if 0 < tierCount then t (js ''Tiered pricing'') @ dot @ show_nat tierCount @ js '' '' @ t (js ''tiers'') else t (js ''Expression pricing''))"

definition unit_label :: "(jsstr \<Rightarrow> jsstr) \<Rightarrow> 'a model_ratio_data_scheme \<Rightarrow> jsstr" where
  "unit_label t row = formatRequestUnitLabel t (map_option text_of (md_requestUnit row))"

definition getPriceSummary :: "'a model_ratio_data_scheme \<Rightarrow> (jsstr \<Rightarrow> jsstr) \<Rightarrow> jsstr" where
  "getPriceSummary row t =
     (let price = or_empty (md_field row Price) in
      if md_billingMode row = Some TIERED_EXPR then getExpressionSummary row t
      else if md_billingMode row = Some PER_REQUEST then
        (if price \<noteq> [] then js ''$'' @ price @ js '' / '' @ unit_label t row else t (js ''Unset price''))
      else if md_billingMode row = Some PER_SECOND then
        (if price \<noteq> [] then js ''$'' @ price @ js '' / '' @ t (js ''billingUnit.second'') else t (js ''Unset price''))
      else (let inputPrice = ratioToPrice (md_field row Ratio) None in
        if inputPrice = [] then t (js ''Unset price'')
        else (let extraCount = length (filter (\<lambda>f. hasValue (md_field row f))
                 [CompletionRatio, CacheRatio, CreateCacheRatio, ImageRatio, AudioRatio, AudioCompletionRatio])
          in t (js ''Input'') @ js '' $'' @ inputPrice
             @ (if 0 < extraCount then dot @ show_nat extraCount @ js '' '' @ t (js ''extras'') else []))))"

text \<open>\<open>t_unit\<close> is the translation with the unit as a parameter.\<close>

definition getPriceDetail :: "'a model_ratio_data_scheme \<Rightarrow> (jsstr \<Rightarrow> jsstr) \<Rightarrow> (jsstr \<Rightarrow> jsstr \<Rightarrow> jsstr) \<Rightarrow> jsstr" where
  "getPriceDetail row t t_unit =
     (if md_billingMode row = Some TIERED_EXPR then
        (if hasValue (md_requestRuleExpr row) then t (js ''Includes request rules'') else t (js ''Expression based''))
      else if md_billingMode row = Some PER_REQUEST then t_unit (js ''Fixed price per {{unit}}'') (unit_label t row)
      else if md_billingMode row = Some PER_SECOND then t (js ''Unit price multiplied by upstream seconds'')
      else (let inputPrice = ratioToPrice (md_field row Ratio) None in
        if inputPrice = [] then t (js ''No base input price'')
        else (let details = take 2 (map (\<lambda>(f, label). t label @ js '' $'' @ ratioToPrice (md_field row f) (Some inputPrice))
                 (filter (\<lambda>(f, _). hasValue (md_field row f))
                   [(CompletionRatio, js ''Output''), (CacheRatio, js ''Cache''), (CreateCacheRatio, js ''Cache write'')]))
          in if details \<noteq> [] then join dot details else t (js ''Base input price only''))))"

subsection \<open>The list of models\<close>

definition getSnapshotSignature :: "'a model_ratio_data_scheme option \<Rightarrow> jsstr" where
  "getSnapshotSignature snapshot = (case snapshot of
      None \<Rightarrow> []
    | Some s \<Rightarrow> json_stringify [] (JObj
        [(js ''price'', JStr (or_empty (md_field s Price))), (js ''ratio'', JStr (or_empty (md_field s Ratio))),
         (js ''cacheRatio'', JStr (or_empty (md_field s CacheRatio))), (js ''createCacheRatio'', JStr (or_empty (md_field s CreateCacheRatio))),
         (js ''completionRatio'', JStr (or_empty (md_field s CompletionRatio))), (js ''imageRatio'', JStr (or_empty (md_field s ImageRatio))),
         (js ''audioRatio'', JStr (or_empty (md_field s AudioRatio))),
         (js ''audioCompletionRatio'', JStr (or_empty (md_field s AudioCompletionRatio))),
         (js ''billingMode'', JStr (if hasValue (md_billingMode s) then or_empty (md_billingMode s) else PER_TOKEN)),
         (js ''billingExpr'', JStr (or_empty (md_billingExpr s))), (js ''requestRuleExpr'', JStr (or_empty (md_requestRuleExpr s))),
         (js ''requestUnit'', if js_true (md_requestUnit s) then the (md_requestUnit s) else JStr (js ''request''))]))"

record model_row = model_pricing_snapshot +
  row_saved :: "model_pricing_snapshot option"
  row_draft :: "model_pricing_snapshot option"
  isDraftChanged :: bool
  isDraftDeleted :: bool
  isDraftNew :: bool

definition row_of :: "model_pricing_snapshot option \<Rightarrow> model_pricing_snapshot option \<Rightarrow> model_row option" where
  "row_of saved draft = map_option (\<lambda>displayed.
       model_pricing_snapshot.extend displayed
        \<lparr>row_saved = saved, row_draft = draft, isDraftChanged = getSnapshotSignature saved \<noteq> getSnapshotSignature draft,
         isDraftDeleted = (saved \<noteq> None \<and> draft = None), isDraftNew = (saved = None \<and> draft \<noteq> None)\<rparr>)
     (case draft of Some d \<Rightarrow> Some d | None \<Rightarrow> saved)"

text \<open>A \<^verbatim>\<open>Map\<close> keeps the last row of a name. \<open>cmp\<close> is \<^verbatim>\<open>localeCompare\<close>.\<close>

definition by_name :: "model_pricing_snapshot list \<Rightarrow> jsstr \<Rightarrow> model_pricing_snapshot option" where
  "by_name rows n = List.find (\<lambda>r. md_name r = n) (rev rows)"

definition models :: "(jsstr \<Rightarrow> jsstr \<Rightarrow> int) \<Rightarrow> model_pricing_snapshot list \<Rightarrow> model_pricing_snapshot list \<Rightarrow> model_row list" where
  "models cmp savedRows draftRows =
     sort_with (\<lambda>a b. cmp (md_name a) (md_name b) \<le> 0)
       (filter (\<lambda>r. \<not> isDraftDeleted r)
         (List.map_filter (\<lambda>n. row_of (by_name savedRows n) (by_name draftRows n))
           (uniq (map md_name savedRows @ map md_name draftRows))))"

definition modeCounts :: "'a model_ratio_data_scheme list \<Rightarrow> jsstr \<Rightarrow> nat" where
  "modeCounts rows m = length (filter (\<lambda>r. (if md_billingMode r \<in> {Some PER_REQUEST, Some PER_SECOND, Some TIERED_EXPR}
     then or_empty (md_billingMode r) else PER_TOKEN) = m) rows)"

text \<open>What \<^verbatim>\<open>handleEdit\<close> gives to the panel.\<close>

definition edit_data :: "model_row \<Rightarrow> model_ratio_data" where
  "edit_data model =
     (let editableModel = (case row_draft model of Some d \<Rightarrow> d | None \<Rightarrow> (case row_saved model of Some s \<Rightarrow> s | None \<Rightarrow> model_pricing_snapshot.truncate model))
      in \<lparr>md_name = md_name editableModel, md_field = md_field editableModel,
          md_billingMode = Some (resolvePricingModeFromData (Some editableModel)),
          md_billingExpr = md_billingExpr editableModel, md_requestRuleExpr = md_requestRuleExpr editableModel,
          md_requestUnit = (if js_true (md_requestUnit editableModel) then md_requestUnit editableModel else Some (JStr (js ''request'')))\<rparr>)"

record price_editor =
  pe_editorOpen :: bool
  pe_sheetOpen :: bool
  pe_editData :: "model_ratio_data option"
  pe_globalFilter :: jsstr
  pe_panel :: panel
  pe_tiered :: "editor option"
  pe_values :: model_values

definition handleEdit :: "bool \<Rightarrow> model_row \<Rightarrow> price_editor \<Rightarrow> price_editor" where
  "handleEdit isMobile model e = e\<lparr>pe_editData := Some (edit_data model), pe_panel := load_panel (Some (edit_data model)),
     pe_editorOpen := True, pe_sheetOpen := isMobile \<or> pe_sheetOpen e\<rparr>"

text \<open>The panel is loaded when \<^verbatim>\<open>editData\<close> changes or the panel appears.\<close>

definition handleAdd :: "bool \<Rightarrow> price_editor \<Rightarrow> price_editor" where
  "handleAdd isMobile e = e\<lparr>pe_editData := None,
     pe_panel := (if pe_editorOpen e \<and> pe_editData e = None then pe_panel e else load_panel (None :: model_ratio_data option)),
     pe_editorOpen := True, pe_sheetOpen := isMobile \<or> pe_sheetOpen e\<rparr>"

definition handleGlobalFilterChange :: "jsstr \<Rightarrow> price_editor \<Rightarrow> price_editor" where
  "handleGlobalFilterChange n e =
     (if n \<noteq> pe_globalFilter e then e\<lparr>pe_editData := None, pe_editorOpen := False, pe_sheetOpen := False, pe_globalFilter := n\<rparr> else e)"

text \<open>
  The tab of expressions holds the editor of expressions: it appears with the name and the expressions
  of the panel, or stays and is given them, its effects run until nothing changes, and the panel takes
  over the expressions that they report. On another tab it disappears.
\<close>

definition tiered_effects :: "price_editor \<Rightarrow> price_editor throws option" where
  "tiered_effects e =
     (let p = pe_panel e in
      if \<not> pe_editorOpen e \<or> pn_pricingMode p \<noteq> TIERED_EXPR then Some (Inr (e\<lparr>pe_tiered := None\<rparr>))
      else (case (case pe_tiered e of
            None \<Rightarrow> mount (Some (pn_name p)) (pn_billingExpr p) (pn_requestRuleExpr p)
          | Some s \<Rightarrow> Inr (s\<lparr>ed_modelName := Some (pn_name p), ed_currentExpr := pn_billingExpr p, ed_currentRequestRuleExpr := pn_requestRuleExpr p\<rparr>)) of
          Inl x \<Rightarrow> Some (Inl x)
        | Inr s \<Rightarrow> map_option (\<lambda>settled. bind_throws settled (\<lambda>s. Inr (e\<lparr>pe_tiered := Some s,
            pe_panel := p\<lparr>pn_billingExpr := ed_currentExpr s, pn_requestRuleExpr := ed_currentRequestRuleExpr s\<rparr>\<rparr>))) (settle s)))"

text \<open>Copying the open prices to the selected models; without a source or a target nothing happens.\<close>

definition handleBatchCopy :: "jsstr list \<Rightarrow> price_editor \<Rightarrow> price_editor option" where
  "handleBatchCopy targetNames e = (case pe_editData e of
      None \<Rightarrow> Some e
    | Some d \<Rightarrow> if targetNames = [] then Some e else map_option (\<lambda>v. e\<lparr>pe_values := v\<rparr>) (persistPricingData d targetNames (pe_values e)))"

text \<open>\<^verbatim>\<open>commitOpenEditor\<close>: whether the page may be submitted, and the editor afterwards.\<close>

definition commitOpenEditor :: "price_editor \<Rightarrow> (bool \<times> price_editor) option" where
  "commitOpenEditor e =
     (if \<not> pe_editorOpen e then Some (True, e)
      else (case commitDraft (pe_panel e) of
          None \<Rightarrow> Some (False, e)
        | Some d \<Rightarrow> map_option (\<lambda>v. (True, e\<lparr>pe_values := v, pe_editData := Some d, pe_panel := load_panel (Some d)\<rparr>))
            (persistPricingData d [md_name d] (pe_values e))))"

subsection \<open>The ratios follow the prices\<close>

datatype panel_event = PromptPriceEvent jsstr | LanePriceEvent lane jsstr | LaneToggleEvent lane bool | ModeEvent jsstr | PriceEvent jsstr

fun panel_step :: "panel_event \<Rightarrow> panel \<Rightarrow> panel" where
  "panel_step (PromptPriceEvent v) p = handlePromptPriceChange v p"
| "panel_step (LanePriceEvent l v) p = handleLanePriceChange l v p"
| "panel_step (LaneToggleEvent l b) p = handleLaneToggle l b p"
| "panel_step (ModeEvent m) p = handlePanelModeChange m p"
| "panel_step (PriceEvent v) p = handlePriceFieldChange v p"

definition base_ratio :: "jsstr \<Rightarrow> jsstr" where
  "base_ratio price = (case toNumberOrNull (Some price) of None \<Rightarrow> [] | Some x \<Rightarrow> formatPricingNumber (num_div (Fin x) (Fin 2)))"

definition lane_ratio :: "panel \<Rightarrow> lane \<Rightarrow> jsstr" where
  "lane_ratio p l = (if pn_laneEnabled p l then deriveLaneRatio l (pn_lanePrices p l) (pn_promptPrice p) (pn_lanePrices p) else [])"

definition synced :: "panel \<Rightarrow> bool" where
  "synced p \<longleftrightarrow> pn_form p Ratio = base_ratio (pn_promptPrice p) \<and> (\<forall>l. pn_form p (ratioFieldByLane l) = lane_ratio p l)"

lemma ratioField_inject [simp]: "ratioFieldByLane l = ratioFieldByLane m \<longleftrightarrow> l = m" "ratioFieldByLane l \<noteq> Ratio" "ratioFieldByLane l \<noteq> Price"
  "Ratio \<noteq> ratioFieldByLane l" "AudioCompletionRatio = ratioFieldByLane l \<longleftrightarrow> l = AudioOutput" "ratioFieldByLane l = AudioRatio \<longleftrightarrow> l = AudioInput"
  "ratioFieldByLane l = AudioCompletionRatio \<longleftrightarrow> l = AudioOutput"
  by (cases l; cases m; simp)+

lemma lanes_all [simp]: "l \<in> set lanes"
  by (cases l) (simp_all add: lanes_def laneConfigs_def)

lemma setFormValue_simps [simp]:
  "pn_form (setFormValue f v p) = (pn_form p)(f := v)" "pn_name (setFormValue f v p) = pn_name p"
  "pn_promptPrice (setFormValue f v p) = pn_promptPrice p" "pn_lanePrices (setFormValue f v p) = pn_lanePrices p"
  "pn_laneEnabled (setFormValue f v p) = pn_laneEnabled p" "pn_pricingMode (setFormValue f v p) = pn_pricingMode p"
  by (simp_all add: setFormValue_def)

lemma fold_set_form:
  fixes ls p g
  defines "q \<equiv> fold (\<lambda>l. setFormValue (ratioFieldByLane l) (g l)) ls p"
  shows "pn_form q (ratioFieldByLane l) = (if l \<in> set ls then g l else pn_form p (ratioFieldByLane l))"
    "pn_form q Ratio = pn_form p Ratio" "pn_form q Price = pn_form p Price"
    "pn_promptPrice q = pn_promptPrice p" "pn_lanePrices q = pn_lanePrices p" "pn_laneEnabled q = pn_laneEnabled p"
    "pn_pricingMode q = pn_pricingMode p" "pn_name q = pn_name p"
  unfolding q_def by (induction ls arbitrary: p) (auto simp: ratioField_inject(2,3) [symmetric])

lemma prompt_price_synced: "re_test numericDraftRegex v \<Longrightarrow> synced (handlePromptPriceChange v p)"
  by (auto simp: handlePromptPriceChange_def syncLaneRatios_def synced_def fold_set_form base_ratio_def lane_ratio_def)

lemma derive_other_lane: "l \<noteq> AudioOutput \<Longrightarrow> deriveLaneRatio l v pp (prices(m := w)) = deriveLaneRatio l v pp prices"
  "m \<noteq> AudioInput \<Longrightarrow> deriveLaneRatio l v pp (prices(m := w)) = deriveLaneRatio l v pp prices"
  by (simp_all add: deriveLaneRatio_def cong: option.case_cong)

lemma lane_price_synced: "synced p \<Longrightarrow> synced (handleLanePriceChange l v p)"
proof (cases "l = AudioInput")
  case True
  moreover have "deriveLaneRatio m w pp (prices(k := u)) = deriveLaneRatio m w pp prices" if "\<not> pn_laneEnabled p AudioOutput" "pn_laneEnabled p m" for m w pp prices k u
    using that by (intro derive_other_lane) auto
  ultimately show "synced p \<Longrightarrow> ?thesis"
    by (cases "pn_laneEnabled p AudioInput"; cases "pn_laneEnabled p AudioOutput")
      (auto simp: handleLanePriceChange_def synced_def lane_ratio_def derive_other_lane Let_def)
next
  case False
  then show "synced p \<Longrightarrow> ?thesis" by (auto simp: handleLanePriceChange_def synced_def lane_ratio_def derive_other_lane Let_def)
qed

lemma lane_toggle_synced: "synced p \<Longrightarrow> synced (handleLaneToggle l b p)"
proof (cases "l = AudioInput")
  case True
  then show "synced p \<Longrightarrow> ?thesis" by (auto simp: handleLaneToggle_def synced_def lane_ratio_def derive_other_lane Let_def)
next
  case False
  then show "synced p \<Longrightarrow> ?thesis" by (auto simp: handleLaneToggle_def synced_def lane_ratio_def derive_other_lane Let_def)
qed

lemma synced_step: "synced p \<Longrightarrow> synced (panel_step e p)"
proof (cases e)
  case (PromptPriceEvent v)
  then show "synced p \<Longrightarrow> ?thesis" using prompt_price_synced [of v p] by (auto simp: handlePromptPriceChange_def)
next
  case (LanePriceEvent l v)
  then show "synced p \<Longrightarrow> ?thesis" by (simp add: lane_price_synced)
next
  case (LaneToggleEvent l b)
  then show "synced p \<Longrightarrow> ?thesis" by (simp add: lane_toggle_synced)
next
  case (ModeEvent m)
  then show "synced p \<Longrightarrow> ?thesis" by (simp add: handlePanelModeChange_def synced_def lane_ratio_def Let_def)
next
  case (PriceEvent v)
  then show "synced p \<Longrightarrow> ?thesis" by (simp add: handlePriceFieldChange_def synced_def lane_ratio_def)
qed

lemma synced_steps: "synced p \<Longrightarrow> synced (fold panel_step es p)"
  by (induction es arbitrary: p) (simp_all add: synced_step)

subsection \<open>Rows of the tables\<close>

text \<open>Tables with the declared entries: numbers in the price tables, texts in the others.\<close>

definition typed_values :: "model_values \<Rightarrow> bool" where
  "typed_values values \<longleftrightarrow> (\<exists>T. read_tables values = Some T \<and> tables_ok T
     \<and> (\<forall>p. \<forall>(k, v) \<in> set (T (Table p)). \<exists>x. v = JNum x) \<and> (\<forall>(k, v) \<in> set (T RequestUnit). \<exists>s. v = JStr s))"

text \<open>What a listed row is like: every shown number is the text of a double.\<close>

definition number_text :: "jsstr \<Rightarrow> bool" where
  "number_text s \<longleftrightarrow> s = [] \<or> (\<exists>x. double x \<and> s = num_to_string (Fin x))"

lemma stored_number_text: "number_text s \<Longrightarrow> stored (Some s) = s"
  using json_number_print(2) [of _ "[]"] parse_float_string
  by (auto simp: number_text_def stored_def number_entry_def simp del: num_to_string.simps)

lemma typed_entry_text:
  assumes "table_ok t" "\<forall>(k, v) \<in> set t. \<exists>x. v = JNum x"
  shows "\<exists>s. entry_text t n = Inr s \<and> number_text s"
proof (cases "map_of t n")
  case None
  then show ?thesis by (simp add: entry_text_def number_text_def)
next
  case (Some v)
  then have "(n, v) \<in> set t" by (rule map_of_SomeD)
  then have "flat v" "\<exists>x. v = JNum x" using assms by (auto simp: table_ok_def)
  then obtain x where "v = JNum (Fin x)" "double x" by (auto simp: flat_def split: jsnum.splits)
  with Some show ?thesis by (auto simp: entry_text_def number_text_def simp del: num_to_string.simps)
qed

definition row_shape :: "model_pricing_snapshot \<Rightarrow> (pricing_field \<Rightarrow> jsstr) \<Rightarrow> bool" where
  "row_shape r tx \<longleftrightarrow> (\<forall>p. number_text (tx p)) \<and>
     (md_billingMode r = Some TIERED_EXPR \<and> md_field r = (\<lambda>p. Some (tx p)) \<and> md_billingExpr r \<noteq> None \<and> md_requestRuleExpr r \<noteq> None \<and> md_requestUnit r = None
     \<or> md_billingMode r = Some PER_SECOND \<and> md_field r = (\<lambda>p. if p = Price then Some (tx Price) else None) \<and> md_billingExpr r = None \<and> md_requestRuleExpr r = None
       \<and> md_requestUnit r = None
     \<or> md_billingMode r = Some PER_REQUEST \<and> md_field r = (\<lambda>p. if p = Price then Some (tx Price) else None) \<and> md_billingExpr r = None \<and> md_requestRuleExpr r = None
       \<and> (\<exists>u. md_requestUnit r = Some (JStr u) \<and> u \<noteq> [] \<and> str_ok u)
     \<or> md_billingMode r = Some PER_TOKEN \<and> md_field r = (\<lambda>p. Some (tx p)) \<and> tx Price = [] \<and> md_billingExpr r = None \<and> md_requestRuleExpr r = None \<and> md_requestUnit r = None)"

lemma typed_row:
  assumes "typed_values values" "listed values = Some (Inr rows)" "r \<in> set rows"
  obtains tx where "row_shape r tx"
proof -
  obtain T where T: "read_tables values = Some T" "tables_ok T" "\<And>p. \<forall>(k, v) \<in> set (T (Table p)). \<exists>x. v = JNum x"
      "\<forall>(k, v) \<in> set (T RequestUnit). \<exists>s. v = JStr s" using assms(1) unfolding typed_values_def by blast
  obtain n where r: "model_snapshot T n = Inr r" using assms(2,3) T(1) rows_iff [of T rows r] by (auto simp: listed_def)
  have "\<exists>s. entry_text (T (Table p)) n = Inr s \<and> number_text s" for p
    using T(2,3) by (intro typed_entry_text) (simp_all add: tables_ok_def)
  then obtain tx where tx: "\<And>p. entry_text (T (Table p)) n = Inr (tx p)" "\<And>p. number_text (tx p)" by metis
  then have e: "entry_texts T n = Inr tx" by (intro entry_texts_ok)
  define u where "u = (if js_true (map_of (T RequestUnit) n) then map_of (T RequestUnit) n else Some (JStr (js ''request'')))"
  have "\<exists>w. v = JStr w \<and> str_ok w" if "map_of (T RequestUnit) n = Some v" for v
    using map_of_SomeD [OF that] T(2,4) by (fastforce simp: tables_ok_def table_ok_def flat_def)
  then have u: "\<exists>w. u = Some (JStr w) \<and> w \<noteq> [] \<and> str_ok w"
    by (cases "map_of (T RequestUnit) n") (auto simp: u_def str_ok_def lit js_true_def)
  let ?m = "fromBackendBillingMode (map_of (T BillingMode) n)"
  consider (tiered) "?m = Some TIERED_EXPR" | (second) "?m \<noteq> Some TIERED_EXPR" "?m = Some PER_SECOND"
    | (request) "?m \<noteq> Some TIERED_EXPR" "?m \<noteq> Some PER_SECOND" "?m = Some PER_REQUEST \<or> tx Price \<noteq> []"
    | (token) "?m \<noteq> Some TIERED_EXPR" "?m \<noteq> Some PER_SECOND" "?m \<noteq> Some PER_REQUEST" "tx Price = []" by blast
  then have "row_shape r tx"
  proof cases
    case tiered
    obtain ex where ex: "bind_throws (splitBillingExprAndRequestRules ex) (\<lambda>(a, b). Inr (\<lparr>md_name = n, md_field = (\<lambda>f. Some (tx f)), md_billingMode = Some TIERED_EXPR,
        md_billingExpr = Some a, md_requestRuleExpr = Some b, md_requestUnit = None, sn_hasConflict = False\<rparr>)) = Inr r"
      using r e tiered unfolding model_snapshot_def Let_def by (auto split: option.splits json.splits simp del: js_true_none)
    obtain a b where "r = \<lparr>md_name = n, md_field = (\<lambda>f. Some (tx f)), md_billingMode = Some TIERED_EXPR,
        md_billingExpr = Some a, md_requestRuleExpr = Some b, md_requestUnit = None, sn_hasConflict = False\<rparr>"
      using ex by (auto simp: bind_throws_eq_Inr)
    then show ?thesis using tx(2) by (simp add: row_shape_def)
  next
    case second
    then have "r = \<lparr>md_name = n, md_field = (\<lambda>p. if p = Price then Some (tx Price) else None), md_billingMode = Some PER_SECOND,
        md_billingExpr = None, md_requestRuleExpr = None, md_requestUnit = None, sn_hasConflict = False\<rparr>"
      using r e unfolding model_snapshot_def Let_def by (simp add: mode_differ)
    then show ?thesis using tx(2) by (auto simp: row_shape_def)
  next
    case request
    then have "Inr r = (Inr \<lparr>md_name = n, md_field = (\<lambda>p. if p = Price then Some (tx Price) else None), md_billingMode = Some PER_REQUEST,
        md_billingExpr = None, md_requestRuleExpr = None, md_requestUnit = u,
        sn_hasConflict = (?m \<noteq> Some PER_REQUEST \<and> tx Price \<noteq> [] \<and> list_ex (\<lambda>f. tx f \<noteq> []) RATIO_FIELDS)\<rparr> :: model_pricing_snapshot throws)"
      unfolding r [symmetric] model_snapshot_def e bind_throws_simps Let_def u_def [symmetric] by (simp only: if_False if_True) simp
    then show ?thesis using tx(2) u by (simp add: row_shape_def)
  next
    case token
    then have "r = \<lparr>md_name = n, md_field = (\<lambda>p. Some (tx p)), md_billingMode = Some PER_TOKEN,
        md_billingExpr = None, md_requestRuleExpr = None, md_requestUnit = None, sn_hasConflict = False\<rparr>"
      using r e unfolding model_snapshot_def Let_def by simp
    then show ?thesis using tx(2) token(4) by (auto simp: row_shape_def)
  qed
  then show ?thesis by (rule that)
qed

lemma resolve_known:
  "md_billingMode d \<in> {Some TIERED_EXPR, Some PER_SECOND, Some PER_REQUEST} \<or> md_billingMode d = Some PER_TOKEN \<and> md_field d Price = Some [] \<Longrightarrow>
   Some (resolvePricingModeFromData (Some d)) = md_billingMode d"
  by (auto simp: resolvePricingModeFromData_def fromBackendBillingMode_def lit)

lemma shape_modes: "row_shape r tx \<Longrightarrow>
   md_billingMode r \<in> {Some TIERED_EXPR, Some PER_SECOND, Some PER_REQUEST} \<or> md_billingMode r = Some PER_TOKEN \<and> md_field r Price = Some []"
  by (auto simp: row_shape_def)

lemmas shape_mode = resolve_known [OF shape_modes]

lemma edit_data_draft:
  assumes "row_draft m = Some r" "row_shape r tx"
  shows "edit_data m = \<lparr>md_name = md_name r, md_field = md_field r, md_billingMode = md_billingMode r, md_billingExpr = md_billingExpr r,
    md_requestRuleExpr = md_requestRuleExpr r, md_requestUnit = (if js_true (md_requestUnit r) then md_requestUnit r else Some (JStr (js ''request'')))\<rparr>"
  using shape_mode [OF assms(2)] by (simp add: edit_data_def assms(1))

text \<open>What the panel submits for a row that was opened and not changed.\<close>

definition resubmitted :: "model_pricing_snapshot \<Rightarrow> model_ratio_data" where
  "resubmitted r = \<lparr>md_name = trim (md_name r), md_field = (\<lambda>f. Some (or_empty (md_field r f))), md_billingMode = md_billingMode r,
     md_billingExpr = (if md_billingMode r = Some TIERED_EXPR then Some (or_empty (md_billingExpr r)) else None),
     md_requestRuleExpr = (if md_billingMode r = Some TIERED_EXPR then Some (or_empty (md_requestRuleExpr r)) else None),
     md_requestUnit = (if md_billingMode r = Some PER_REQUEST then (if js_true (md_requestUnit r) then md_requestUnit r else Some (JStr (js ''request''))) else None)\<rparr>"

lemma submit_loaded:
  assumes "row_draft m = Some r" "row_shape r tx"
  shows "buildSubmitData (load_panel (Some (edit_data m))) = resubmitted r" "pn_name (load_panel (Some (edit_data m))) = md_name r"
proof -
  have mode: "md_billingMode r = Some (resolvePricingModeFromData (Some (edit_data m)))"
    using shape_modes [OF assms(2)] by (subst resolve_known) (simp_all only: edit_data_draft [OF assms] model_ratio_data.select_convs)
  obtain a b c where lanes: "createInitialLaneState (Some (edit_data m)) = (a, b, c)" by (cases "createInitialLaneState (Some (edit_data m))")
  have u: "(if js_true (md_requestUnit (edit_data m)) then md_requestUnit (edit_data m) else x) = md_requestUnit (edit_data m)" if "x = Some (JStr (js ''request''))" for x
    using that by (simp add: edit_data_draft [OF assms] js_true_def [of "Some (JStr (js ''request''))"] lit)
  show "buildSubmitData (load_panel (Some (edit_data m))) = resubmitted r"
    unfolding buildSubmitData_def load_panel_def lanes resubmitted_def mode
    by (simp add: u formatOptionalNumericField_def or_empty_def [symmetric]) (simp add: edit_data_draft [OF assms] or_empty_def)
  show "pn_name (load_panel (Some (edit_data m))) = md_name r"
    unfolding load_panel_def lanes by (simp add: edit_data_draft [OF assms])
qed

text \<open>Expressions that are split again into the parts that were combined.\<close>

definition stored_expr :: "jsstr \<Rightarrow> jsstr \<Rightarrow> bool" where
  "stored_expr x y \<longleftrightarrow> combineBillingExpr x y \<noteq> [] \<and> str_ok (combineBillingExpr x y) \<and> splitBillingExprAndRequestRules (combineBillingExpr x y) = Inr (x, y)"

lemma resubmitted_ok:
  assumes "row_shape r tx"
    and "md_billingMode r = Some TIERED_EXPR \<Longrightarrow> \<exists>x y. md_billingExpr r = Some x \<and> md_requestRuleExpr r = Some y \<and> stored_expr x y"
  shows "data_ok (resubmitted r)"
proof -
  have "md_billingMode (resubmitted r) = Some TIERED_EXPR \<longrightarrow> str_ok (combined_of (resubmitted r)) \<and> combined_of (resubmitted r) \<noteq> [] \<and>
      (\<exists>e q. md_billingExpr (resubmitted r) = Some e \<and> md_requestRuleExpr (resubmitted r) = Some q \<and> splitBillingExprAndRequestRules (combined_of (resubmitted r)) = Inr (e, q))"
  proof
    assume "md_billingMode (resubmitted r) = Some TIERED_EXPR"
    then have "md_billingMode r = Some TIERED_EXPR" by (simp add: resubmitted_def)
    moreover from assms(2) [OF this] obtain x y where "md_billingExpr r = Some x" "md_requestRuleExpr r = Some y" "stored_expr x y" by blast
    ultimately show "str_ok (combined_of (resubmitted r)) \<and> combined_of (resubmitted r) \<noteq> [] \<and>
      (\<exists>e q. md_billingExpr (resubmitted r) = Some e \<and> md_requestRuleExpr (resubmitted r) = Some q \<and> splitBillingExprAndRequestRules (combined_of (resubmitted r)) = Inr (e, q))"
      by (simp add: combined_of_def resubmitted_def or_empty_def stored_expr_def)
  qed
  moreover have "md_requestUnit (resubmitted r) = None \<or> (\<exists>u. md_requestUnit (resubmitted r) = Some (JStr u) \<and> str_ok u)"
    using assms(1) by (auto simp: resubmitted_def row_shape_def js_true_def str_ok_def lit)
  ultimately show ?thesis unfolding data_ok_def by (auto split: option.split)
qed

lemma snapshot_eqI:
  "md_name r = md_name q \<Longrightarrow> md_field r = md_field q \<Longrightarrow> md_billingMode r = md_billingMode q \<Longrightarrow> md_billingExpr r = md_billingExpr q \<Longrightarrow>
   md_requestRuleExpr r = md_requestRuleExpr q \<Longrightarrow> md_requestUnit r = md_requestUnit q \<Longrightarrow> sn_hasConflict r = sn_hasConflict q \<Longrightarrow>
   r = (q :: model_pricing_snapshot)"
  by simp

lemma resubmitted_row:
  assumes "row_shape r tx" "md_billingMode r = Some PER_TOKEN \<longrightarrow> (\<exists>f. hasValue (md_field r f))"
  shows "saved_row (resubmitted r) (md_name r) = Some (r\<lparr>sn_hasConflict := False\<rparr>)"
proof -
  have st: "stored (Some (tx p)) = tx p" "stored (Some []) = []" for p
    using assms(1) by (simp_all add: row_shape_def stored_number_text number_text_def)
  consider (tiered) "md_billingMode r = Some TIERED_EXPR" "md_field r = (\<lambda>p. Some (tx p))" "md_billingExpr r \<noteq> None" "md_requestRuleExpr r \<noteq> None" "md_requestUnit r = None"
    | (second) "md_billingMode r = Some PER_SECOND" "md_field r = (\<lambda>p. if p = Price then Some (tx Price) else None)" "md_billingExpr r = None" "md_requestRuleExpr r = None" "md_requestUnit r = None"
    | (request) u where "md_billingMode r = Some PER_REQUEST" "md_field r = (\<lambda>p. if p = Price then Some (tx Price) else None)" "md_billingExpr r = None" "md_requestRuleExpr r = None"
        "md_requestUnit r = Some (JStr u)" "u \<noteq> []"
    | (token) "md_billingMode r = Some PER_TOKEN" "md_field r = (\<lambda>p. Some (tx p))" "tx Price = []" "md_billingExpr r = None" "md_requestRuleExpr r = None" "md_requestUnit r = None"
    using assms(1) unfolding row_shape_def by (elim conjE disjE exE) (rule that; assumption)+
  then show ?thesis
  proof cases
    case tiered
    then show ?thesis by (auto simp: saved_row_def resubmitted_def or_empty_def st Let_def intro!: snapshot_eqI)
  next
    case second
    then show ?thesis by (auto simp: saved_row_def resubmitted_def or_empty_def st mode_differ Let_def intro!: snapshot_eqI cong: if_cong)
  next
    case request
    then show ?thesis by (auto simp: saved_row_def resubmitted_def or_empty_def st mode_differ js_true_def Let_def intro!: snapshot_eqI cong: if_cong)
  next
    case token
    then obtain f where "tx f \<noteq> []" using assms(2) by (auto simp: hasValue_def)
    moreover from this token have "f \<noteq> Price" by auto
    ultimately show ?thesis using token
      by (auto simp: saved_row_def resubmitted_def or_empty_def plain_price_def st mode_differ [symmetric] Let_def intro!: snapshot_eqI)
  qed
qed

lemma listed_name_ok:
  assumes "typed_values values" "listed values = Some (Inr rows)" "r \<in> set rows"
  shows "plain_name (md_name r) \<and> str_ok (md_name r)"
proof -
  obtain T where T: "read_tables values = Some T" "tables_ok T" using assms(1) unfolding typed_values_def by blast
  then obtain f v where "map_of (T f) (md_name r) = Some v" using assms(2,3) rows_iff [of T rows r] by (auto simp: listed_def)
  then show ?thesis using map_of_SomeD T(2) by (fastforce simp: tables_ok_def table_ok_def)
qed

lemma typed_ok: "typed_values values \<Longrightarrow> values_ok values"
  unfolding typed_values_def values_ok_def by blast

text \<open>Submitting the panel of an open editor.\<close>

lemma commit_rows:
  assumes "values_ok (pe_values e)" "listed (pe_values e) = Some (Inr rows)" "pe_editorOpen e" "commitDraft (pe_panel e) = Some d" "data_ok d"
    "plain_name (md_name d)" "str_ok (md_name d)"
  shows "\<exists>e' rows'. commitOpenEditor e = Some (True, e') \<and> listed (pe_values e') = Some (Inr rows') \<and> distinct (map md_name rows')
    \<and> set rows' = {q \<in> set rows. md_name q \<noteq> md_name d} \<union> {q. saved_row d (md_name d) = Some q}"
proof -
  obtain v rows' where "persistPricingData d [md_name d] (pe_values e) = Some v" "listed v = Some (Inr rows')" "distinct (map md_name rows')"
    "set rows' = {q \<in> set rows. md_name q \<notin> set [md_name d]} \<union> {q. \<exists>n \<in> set [md_name d]. saved_row d n = Some q}"
    using saved_prices_listed [OF assms(1,2,5), of "[md_name d]"] assms(6,7) by auto
  then show ?thesis using assms(3,4) by (simp add: commitOpenEditor_def)
qed

subsection \<open>Properties\<close>

text \<open>
  C21: once the input price has been entered, the ratios that the panel submits are those of the shown
  prices, whatever the user does afterwards: the input price over two, the price of an enabled lane over
  the input price, the price of audio output over the one of audio input, and nothing for a lane that is
  switched off.
\<close>

theorem ratios_follow_prices:
  assumes "re_test numericDraftRegex v" "p = fold panel_step es (handlePromptPriceChange v p0)"
  shows "md_field (buildSubmitData p) Ratio = Some (base_ratio (pn_promptPrice p))
    \<and> (\<forall>l. md_field (buildSubmitData p) (ratioFieldByLane l) =
         Some (if pn_laneEnabled p l then deriveLaneRatio l (pn_lanePrices p l) (pn_promptPrice p) (pn_lanePrices p) else []))"
  using synced_steps [OF prompt_price_synced [OF assms(1)], of es p0] unfolding assms(2) [symmetric]
  by (auto simp: synced_def lane_ratio_def buildSubmitData_def formatOptionalNumericField_def)

subsection \<open>Drafts\<close>

text \<open>Prices that the signature does not distinguish.\<close>

definition same_prices :: "model_pricing_snapshot \<Rightarrow> model_pricing_snapshot \<Rightarrow> bool" where
  "same_prices a b \<longleftrightarrow> (\<forall>f. or_empty (md_field a f) = or_empty (md_field b f))
     \<and> (if hasValue (md_billingMode a) then or_empty (md_billingMode a) else PER_TOKEN) = (if hasValue (md_billingMode b) then or_empty (md_billingMode b) else PER_TOKEN)
     \<and> or_empty (md_billingExpr a) = or_empty (md_billingExpr b) \<and> or_empty (md_requestRuleExpr a) = or_empty (md_requestRuleExpr b)
     \<and> (if js_true (md_requestUnit a) then the (md_requestUnit a) else JStr (js ''request''))
        = (if js_true (md_requestUnit b) then the (md_requestUnit b) else JStr (js ''request''))"

definition snapshot_ok :: "model_pricing_snapshot \<Rightarrow> bool" where
  "snapshot_ok a \<longleftrightarrow> (\<forall>f. str_ok (or_empty (md_field a f))) \<and> str_ok (or_empty (md_billingMode a)) \<and> str_ok (or_empty (md_billingExpr a))
     \<and> str_ok (or_empty (md_requestRuleExpr a)) \<and> (case md_requestUnit a of None \<Rightarrow> True | Some v \<Rightarrow> flat v)"

lemma stringify_inject:
  assumes "json_ok a" "json_ok b" "canon a = a" "canon b = b"
  shows "json_stringify [] a = json_stringify [] b \<longleftrightarrow> a = b"
  using json_parse_stringify [OF assms(1), of "[]"] json_parse_stringify [OF assms(2), of "[]"] assms(3,4) blank_simps(1)
  by (metis sum.inject(2))

text \<open>The object whose text is the signature.\<close>

definition signature_members :: "model_pricing_snapshot \<Rightarrow> js_obj" where
  "signature_members s =
     zip [js ''price'', js ''ratio'', js ''cacheRatio'', js ''createCacheRatio'', js ''completionRatio'', js ''imageRatio'', js ''audioRatio'',
          js ''audioCompletionRatio'', js ''billingMode'', js ''billingExpr'', js ''requestRuleExpr'', js ''requestUnit'']
       (map (\<lambda>f. JStr (or_empty (md_field s f))) PRICING_FIELDS @
         [JStr (if hasValue (md_billingMode s) then or_empty (md_billingMode s) else PER_TOKEN), JStr (or_empty (md_billingExpr s)),
          JStr (or_empty (md_requestRuleExpr s)), if js_true (md_requestUnit s) then the (md_requestUnit s) else JStr (js ''request'')])"

lemma signature_text: "getSnapshotSignature (Some s) = json_stringify [] (JObj (signature_members s))"
  by (simp add: getSnapshotSignature_def signature_members_def PRICING_FIELDS_def)

lemma signature_table: "snapshot_ok s \<Longrightarrow> table_ok (signature_members s)"
proof -
  assume s: "snapshot_ok s"
  define m where "m = (if hasValue (md_billingMode s) then or_empty (md_billingMode s) else PER_TOKEN)"
  define u where "u = (if js_true (md_requestUnit s) then the (md_requestUnit s) else JStr (js ''request''))"
  have "str_ok m" using s by (simp add: m_def snapshot_ok_def str_ok_def lit)
  moreover have "flat u" using s by (cases "md_requestUnit s") (auto simp: u_def snapshot_ok_def flat_def str_ok_def lit)
  ultimately show ?thesis using s unfolding signature_members_def m_def [symmetric] u_def [symmetric] PRICING_FIELDS_def
    by (simp add: table_ok_def snapshot_ok_def flat_def) (simp add: plain_name_def OBJECT_MEMBERS_def str_ok_def lit)
qed

lemma signature_canon: "snapshot_ok s \<Longrightarrow> canon (JObj (signature_members s)) = JObj (signature_members s)"
proof -
  assume s: "snapshot_ok s"
  have "\<not> is_array_index k" if "(k, v) \<in> set (signature_members s)" for k v
    using set_zip_leftD [OF that [unfolded signature_members_def]] by (auto simp: is_array_index_def lit is_digit_def)
  then have "own_entries (signature_members s) = signature_members s" by (rule own_entries_id)
  with table_canon [OF signature_table [OF s]] show ?thesis by simp
qed

lemma signature_inject:
  assumes "snapshot_ok a" "snapshot_ok b"
  shows "getSnapshotSignature (Some a) = getSnapshotSignature (Some b) \<longleftrightarrow> same_prices a b"
proof -
  have "getSnapshotSignature (Some a) = getSnapshotSignature (Some b) \<longleftrightarrow> signature_members a = signature_members b"
    unfolding signature_text using assms signature_canon table_json_ok signature_table by (subst stringify_inject) auto
  also have "\<dots> \<longleftrightarrow> same_prices a b"
  proof -
    have all: "(\<forall>f. P f) \<longleftrightarrow> list_all P PRICING_FIELDS" for P using pricing_fields_all(1) unfolding list_all_iff by blast
    show ?thesis unfolding same_prices_def all by (simp add: signature_members_def PRICING_FIELDS_def)
  qed
  finally show ?thesis .
qed

lemma by_name_distinct: "distinct (map md_name rows) \<Longrightarrow> by_name rows n = Some r \<longleftrightarrow> r \<in> set rows \<and> md_name r = n"
proof
  assume "by_name rows n = Some r"
  then show "r \<in> set rows \<and> md_name r = n" by (auto simp: by_name_def find_Some_iff) (metis nth_mem set_rev length_rev)
next
  assume d: "distinct (map md_name rows)" and r: "r \<in> set rows \<and> md_name r = n"
  obtain q where q: "by_name rows n = Some q" using r by (cases "by_name rows n") (auto simp: by_name_def find_None_iff)
  then have "q \<in> set rows" "md_name q = n" by (auto simp: by_name_def find_Some_iff) (metis nth_mem set_rev length_rev)
  with d r have "q = r" by (auto simp: distinct_map inj_on_def)
  with q show "by_name rows n = Some r" by simp
qed

lemma by_name_none: "by_name rows n = None \<longleftrightarrow> n \<notin> md_name ` set rows"
  by (auto simp: by_name_def find_None_iff)

lemma map_filter_members: "y \<in> set (List.map_filter f xs) \<longleftrightarrow> (\<exists>x \<in> set xs. f x = Some y)"
  by (force simp: List.map_filter_def)

lemma row_of_draft: "row_of saved (Some d) = Some m \<longleftrightarrow>
   m = model_pricing_snapshot.extend d \<lparr>row_saved = saved, row_draft = Some d, isDraftChanged = getSnapshotSignature saved \<noteq> getSnapshotSignature (Some d),
     isDraftDeleted = False, isDraftNew = (saved = None)\<rparr>"
  by (auto simp: row_of_def)

lemma models_member:
  "m \<in> set (models cmp savedRows draftRows) \<longleftrightarrow> (\<exists>n d. by_name draftRows n = Some d \<and> row_of (by_name savedRows n) (Some d) = Some m)"
proof -
  have del: "isDraftDeleted q \<longleftrightarrow> draft = None" if "row_of saved draft = Some q" for saved draft q
    using that by (cases draft; cases saved) (auto simp: row_of_def model_pricing_snapshot.defs)
  have "m \<in> set (models cmp savedRows draftRows) \<longleftrightarrow> (\<exists>n \<in> md_name ` set savedRows \<union> md_name ` set draftRows.
      row_of (by_name savedRows n) (by_name draftRows n) = Some m) \<and> \<not> isDraftDeleted m"
    by (simp add: models_def map_filter_members image_Un)
  also have "\<dots> \<longleftrightarrow> (\<exists>n d. by_name draftRows n = Some d \<and> row_of (by_name savedRows n) (Some d) = Some m)" (is "?L \<longleftrightarrow> ?R")
  proof
    assume ?L
    then obtain n where "row_of (by_name savedRows n) (by_name draftRows n) = Some m" "\<not> isDraftDeleted m" by blast
    with del show ?R by (metis not_None_eq)
  next
    assume ?R
    then obtain n d where "by_name draftRows n = Some d" "row_of (by_name savedRows n) (Some d) = Some m" by blast
    moreover from this have "n \<in> md_name ` set draftRows" using by_name_none [of draftRows n] by auto
    ultimately show ?L using del [of _ "Some d" m] by (metis UnI2 option.distinct(1))
  qed
  finally show ?thesis .
qed

text \<open>
  C33: the list shows exactly the models of the draft tables, each with its saved row if there is one. A
  model is marked as changed exactly when it has no saved row or differs from it in a price, the mode,
  the expression, the rules or the unit, and as new exactly when it has no saved row.
\<close>

theorem draft_marks_exact:
  assumes "distinct (map md_name savedRows)" "distinct (map md_name draftRows)"
    "\<forall>r \<in> set savedRows \<union> set draftRows. snapshot_ok r"
  shows "row_draft ` set (models cmp savedRows draftRows) = Some ` set draftRows
    \<and> (\<forall>m \<in> set (models cmp savedRows draftRows). row_saved m = by_name savedRows (md_name m)
        \<and> (isDraftNew m \<longleftrightarrow> md_name m \<notin> md_name ` set savedRows)
        \<and> (isDraftChanged m \<longleftrightarrow> (\<forall>s \<in> set savedRows. md_name s = md_name m \<longrightarrow> \<not> same_prices s (the (row_draft m)))))"
proof -
  have member: "m \<in> set (models cmp savedRows draftRows) \<longleftrightarrow>
      (\<exists>d \<in> set draftRows. row_of (by_name savedRows (md_name d)) (Some d) = Some m)" for m
    unfolding models_member by_name_distinct [OF assms(2)] by blast
  have "row_saved m = by_name savedRows (md_name m)
        \<and> (isDraftNew m \<longleftrightarrow> md_name m \<notin> md_name ` set savedRows)
        \<and> (isDraftChanged m \<longleftrightarrow> (\<forall>s \<in> set savedRows. md_name s = md_name m \<longrightarrow> \<not> same_prices s (the (row_draft m))))"
    if h: "m \<in> set (models cmp savedRows draftRows)" for m
  proof -
    obtain d where d: "d \<in> set draftRows" "row_of (by_name savedRows (md_name d)) (Some d) = Some m" using h member by blast
    then have m: "md_name m = md_name d" "row_saved m = by_name savedRows (md_name d)" "row_draft m = Some d" "isDraftNew m \<longleftrightarrow> by_name savedRows (md_name d) = None"
        "isDraftChanged m \<longleftrightarrow> getSnapshotSignature (by_name savedRows (md_name d)) \<noteq> getSnapshotSignature (Some d)"
      by (auto simp: row_of_draft model_pricing_snapshot.defs)
    have ne: "getSnapshotSignature (Some d) \<noteq> []" using stringify_object_ends by (simp add: signature_text)
    show ?thesis
    proof (cases "by_name savedRows (md_name d)")
      case None
      then show ?thesis using m ne by_name_none [of savedRows "md_name d"] by (auto simp: getSnapshotSignature_def [of None] image_iff)
    next
      case (Some s)
      then have s: "s \<in> set savedRows" "md_name s = md_name d" using by_name_distinct [OF assms(1), of "md_name d" s] by simp_all
      have uniq: "q = s" if "q \<in> set savedRows" "md_name q = md_name d" for q
        using that Some by_name_distinct [OF assms(1), of "md_name d" q] by simp
      have "getSnapshotSignature (Some s) = getSnapshotSignature (Some d) \<longleftrightarrow> same_prices s d"
        using assms(3) s(1) d(1) by (intro signature_inject) auto
      then have "isDraftChanged m \<longleftrightarrow> (\<forall>s \<in> set savedRows. md_name s = md_name m \<longrightarrow> \<not> same_prices s (the (row_draft m)))"
        unfolding m Some option.sel using s uniq by metis
      moreover have "md_name d \<in> md_name ` set savedRows" using s by (metis imageI)
      ultimately show ?thesis unfolding m(1,2,4) using Some by simp
    qed
  qed
  moreover have "row_draft ` set (models cmp savedRows draftRows) = Some ` set draftRows"
  proof
    show "row_draft ` set (models cmp savedRows draftRows) \<subseteq> Some ` set draftRows"
    proof
      fix x assume "x \<in> row_draft ` set (models cmp savedRows draftRows)"
      then obtain m d where "x = row_draft m" "d \<in> set draftRows" "row_of (by_name savedRows (md_name d)) (Some d) = Some m" using member by blast
      then show "x \<in> Some ` set draftRows" by (simp add: row_of_draft model_pricing_snapshot.defs)
    qed
    show "Some ` set draftRows \<subseteq> row_draft ` set (models cmp savedRows draftRows)"
    proof
      fix x assume "x \<in> Some ` set draftRows"
      then obtain d where d: "x = Some d" "d \<in> set draftRows" by blast
      obtain m where m: "row_of (by_name savedRows (md_name d)) (Some d) = Some m" by (simp add: row_of_draft)
      then have "row_draft m = Some d" by (simp add: row_of_draft model_pricing_snapshot.defs)
      with m d member show "x \<in> row_draft ` set (models cmp savedRows draftRows)" by (metis imageI)
    qed
  qed
  ultimately show ?thesis by blast
qed

subsection \<open>Samples\<close>

definition dalle_row :: model_pricing_snapshot where
  "dalle_row = \<lparr>md_name = js ''dall-e'', md_field = (\<lambda>p. if p = Price then Some (num_to_string (Fin 2)) else None), md_billingMode = Some PER_REQUEST,
     md_billingExpr = None, md_requestRuleExpr = None, md_requestUnit = Some (JStr (js ''request'')), sn_hasConflict = False\<rparr>"

definition dalle_model :: model_row where
  "dalle_model = the (row_of (Some dalle_row) (Some dalle_row))"

definition sample_price_editor :: price_editor where
  "sample_price_editor = \<lparr>pe_editorOpen = False, pe_sheetOpen = False, pe_editData = None, pe_globalFilter = [],
     pe_panel = load_panel (None :: model_ratio_data option), pe_tiered = None, pe_values = sample_values\<rparr>"

lemma sample_typed: "typed_values sample_values"
  unfolding typed_values_def sample_values_def
  using read_tables_written [OF sample_tables_ok] own_entries_ok sample_tables_ok
  by (auto simp: tables_ok_def sample_tables_def split: model_field.split)

lemma dalle_text: "num_to_string (Fin 2) \<noteq> []"
  using json_number_print(2) [of 2 "[]"] rnd_nat [of 2] by (simp add: double_def del: num_to_string.simps)

lemma dalle_listed: "listed sample_values = Some (Inr rows) \<Longrightarrow> dalle_row \<in> set rows"
proof -
  assume l: "listed sample_values = Some (Inr rows)"
  define T where "T = (\<lambda>f. own_entries (sample_tables f))"
  have T: "read_tables sample_values = Some T" using read_tables_written [OF sample_tables_ok] by (simp add: T_def sample_values_def)
  have m: "map_of (T f) = map_of (sample_tables f)" for f using map_of_own sample_tables_ok by (simp add: T_def tables_ok_def)
  have "js ''dall-e'' \<noteq> js ''gpt''" by (simp add: lit)
  then have "entry_text (T (Table p)) (js ''dall-e'') = Inr (if p = Price then num_to_string (Fin 2) else [])" for p
    by (simp add: entry_text_def m del: num_to_string.simps) (simp add: sample_tables_def del: num_to_string.simps)
  then have "entry_texts T (js ''dall-e'') = Inr (\<lambda>p. if p = Price then num_to_string (Fin 2) else [])" by (rule entry_texts_ok)
  then have "model_snapshot T (js ''dall-e'') = Inr dalle_row"
    using dalle_text by (simp add: model_snapshot_def dalle_row_def m sample_tables_def mode_names list_ex_iff del: num_to_string.simps)
  moreover have "map_of (T (Table Price)) (js ''dall-e'') \<noteq> None" by (simp add: m sample_tables_def)
  moreover have "buildModelSnapshots T = Inr rows" using l T by (simp add: listed_def)
  ultimately show ?thesis using rows_iff [of T rows dalle_row] by (auto simp: dalle_row_def simp del: num_to_string.simps)
qed

lemma dalle_model_draft: "row_draft dalle_model = Some dalle_row"
proof -
  obtain m where m: "row_of (Some dalle_row) (Some dalle_row) = Some m" by (simp add: row_of_draft)
  then have "row_draft m = Some dalle_row" by (simp add: row_of_draft model_pricing_snapshot.defs)
  with m show ?thesis by (simp add: dalle_model_def)
qed

lemma dalle_name: "md_name dalle_row \<noteq> []" "trimmed (md_name dalle_row)"
  by (simp_all add: dalle_row_def trimmed_def is_ws_def lit)

theorem ratios_follow_prices_witness:
  "md_field (buildSubmitData (fold panel_step [LaneToggleEvent AudioInput True, LanePriceEvent AudioInput (js ''4'')]
       (handlePromptPriceChange (js ''3'') (load_panel (None :: model_ratio_data option))))) Ratio = Some (base_ratio (js ''3''))"
proof -
  let ?p = "fold panel_step [LaneToggleEvent AudioInput True, LanePriceEvent AudioInput (js ''4'')]
    (handlePromptPriceChange (js ''3'') (load_panel (None :: model_ratio_data option)))"
  have t: "re_test numericDraftRegex (js ''3'')" by code_simp
  have "pn_promptPrice ?p = js ''3''"
    using t by (simp add: handleLanePriceChange_def handleLaneToggle_def handlePromptPriceChange_def syncLaneRatios_def fold_set_form Let_def)
  with ratios_follow_prices [OF t, of ?p "[LaneToggleEvent AudioInput True, LanePriceEvent AudioInput (js ''4'')]" "load_panel (None :: model_ratio_data option)"]
  show ?thesis by simp
qed

theorem draft_marks_exact_witness:
  "distinct (map md_name [dalle_row]) \<and> row_draft ` set (models (\<lambda>_ _. 0) [dalle_row] [dalle_row]) = {Some dalle_row}"
proof -
  have "c < 65536" if "c \<in> set (show_nat 2)" for c using show_nat_digits [OF that] by (simp add: is_digit_def)
  then have "str_ok (num_to_string (Fin 2))" using num_to_string_nat [of 2] by (simp add: str_ok_def del: num_to_string.simps)
  then have "snapshot_ok dalle_row" by (auto simp: snapshot_ok_def dalle_row_def or_empty_def flat_def str_ok_def lit simp del: num_to_string.simps)
  with draft_marks_exact [of "[dalle_row]" "[dalle_row]" "\<lambda>_ _. 0"] show ?thesis by simp
qed

end
