(* ===== verification/TierOpening.thy ===== *)
theory TierOpening
  imports TierEdits
begin

text \<open>
  What the editor of expressions makes of the expression that it is given when it appears, and when it
  stays on the page while another model is opened. The effects of the component run until nothing
  changes any more.
\<close>

subsection \<open>Settling\<close>

lemma settle_commits: "commits n s = Inr s' \<Longrightarrow> commit s' = Inr s' \<Longrightarrow> settle s = Some (Inr s')"
proof (induction n arbitrary: s)
  case 0
  then show ?case by (subst settle.simps) simp
next
  case (Suc n)
  then obtain t where t: "commit s = Inr t" "commits n t = Inr s'" by (auto simp: bind_throws_eq_Inr)
  show ?case
  proof (cases "t = s")
    case True
    then have "s = s'" using t settled_commits [of s n] by simp
    with t True show ?thesis by (subst settle.simps) simp
  next
    case False
    then show ?thesis using t Suc by (subst settle.simps) simp
  qed
qed

text \<open>The expression of an editor without a configuration.\<close>

definition zero_expr :: jsstr where
  "zero_expr = generateExprFromVisualConfig None"

lemma zero_text: "zero_expr = js ''p * 0 + c * 0''"
  by (simp add: zero_expr_def generateExprFromVisualConfig_def)

text \<open>Every tier of an expression is a call of \<^verbatim>\<open>tier\<close>, so that a text without a t is not read.\<close>

lemma unreadable:
  assumes "116 \<notin> set (c # w)" "c \<noteq> 118"
  shows "tryParseVisualConfig (c # w) = None"
proof -
  have tier: "mt (TIER_THEN n r) k s = None" if "116 \<notin> set (rs_rest s)" for n r k s
    using that by (auto simp: TIER_THEN_def mt.simps lit split: option.split dest: strip_prefix_set)
  have search: "search_from VISUAL_TIER_RE p xs = None" if "116 \<notin> set xs" for p xs
    using that
  proof (induction xs arbitrary: p)
    case Nil
    then show ?case unfolding VISUAL_TIER_RE_def search_from.simps mt_Seq by (intro mt_blocked [where c = 116] tier) simp_all
  next
    case (Cons x xs)
    have "mt VISUAL_TIER_RE Some (RS p (x # xs) []) = None"
      unfolding VISUAL_TIER_RE_def mt_Seq using Cons.prems by (intro mt_blocked [where c = 116] tier) simp_all
    with Cons show ?case by simp
  qed
  have "re_match VISUAL_VERSION (c # w) = None" using assms(2) by (rule no_version)
  moreover have "re_match SINGLE_RE (c # w) = None" unfolding SINGLE_RE_def re_match_Bol using tier assms(1) by simp
  moreover have "exec_all VISUAL_TIER_RE [] (c # w) = []" using search [OF assms(1)] by (rule exec_none)
  ultimately show ?thesis by (simp add: tryParseVisualConfig_def Let_def)
qed

lemma zero_unreadable: "tryParseVisualConfig zero_expr = None"
  unfolding zero_text by (simp add: lit unreadable)

lemma zero_nonempty: "zero_expr \<noteq> []"
  by (simp add: zero_text)

lemma split_zero: "splitBillingExprAndRequestRules zero_expr = Inr (zero_expr, [])"
  unfolding zero_text by code_simp

lemma split_zero_rules:
  assumes "list_all wf_group gs"
  shows "splitBillingExprAndRequestRules (combineBillingExpr zero_expr (rules_of gs)) = Inr (zero_expr, rules_of gs)"
proof (cases "gs = []")
  case True
  have "trim zero_expr = zero_expr" "zero_expr \<noteq> []" unfolding zero_text by code_simp+
  then show ?thesis using split_zero by (simp add: rules_of_def buildRequestRuleExpr_def combineBillingExpr_def True)
next
  case False
  have "trimmed zero_expr" "zero_expr \<noteq> []" "balanced zero_expr" "\<not> ends_with zero_expr (js '' : 1'')" "unwrapOuterParens zero_expr = zero_expr"
    unfolding zero_text by code_simp+
  then show ?thesis using split_combined [of zero_expr gs] False assms by (simp add: rules_of_def)
qed

subsection \<open>Opening an expression\<close>

lemmas effect_defs = commit_def effectiveExpr_def init_effect_def model_effect_def Let_def

lemma mount_settles:
  assumes "editable ts" "list_all wf_group gs"
  shows "\<exists>s0 s. mount m (expr_of ts) (rules_of gs) = Inr s0 \<and> settle s0 = Some (Inr s) \<and> ed_modelName s = m
    \<and> commit s = Inr s \<and> ed_editorMode s = VisualMode \<and> ed_visualConfig s = Some (read_config ts) \<and> ed_requestRuleGroups s = gs
    \<and> ed_currentExpr s = expr_of ts \<and> ed_currentRequestRuleExpr s = rules_of gs"
proof -
  obtain s0 where s0: "mount m (expr_of ts) (rules_of gs) = Inr s0"
    using parse_rules_of [OF assms(2)] by (simp add: mount_def)
  define s where "s = \<lparr>ed_editorMode = VisualMode, ed_visualConfig = Some (read_config ts),
     ed_rawExpr = combineBillingExpr (expr_of ts) (rules_of gs), ed_requestRuleGroups = gs, ed_initRef = False, ed_modelName = m,
     ed_currentExpr = expr_of ts, ed_currentRequestRuleExpr = rules_of gs, ed_seenExprs = Some (expr_of ts, rules_of gs), ed_seenModel = Some m\<rparr>"
  have "commit s0 = Inr s" using mount_first [OF assms, of m] s0 by (simp add: s_def)
  moreover have "commit s = Inr s" by (simp add: s_def effect_defs expr_of_def [symmetric] rules_of_def [symmetric])
  ultimately show ?thesis using s0 settle_commits [of 1 s0 s] by (auto simp: s_def)
qed

lemma read_editable: "editable ts \<Longrightarrow> editable (read_config ts)"
proof -
  have "good_tier t \<Longrightarrow> good_tier (t\<lparr>vt_cache_mode := m\<rparr>)" for t m by (simp add: good_tier_def tier_ok_def extras_of_def plain_label_def)
  then show "editable ts \<Longrightarrow> editable (read_config ts)" by (auto simp: editable_iff read_config_def map_butlast [symmetric] last_map)
qed

lemma foreign_settles:
  assumes "tryParseVisualConfig x = None" "list_all wf_group gs" "splitBillingExprAndRequestRules (combineBillingExpr x (rules_of gs)) = Inr y"
  shows "\<exists>s0 s. mount m x (rules_of gs) = Inr s0 \<and> settle s0 = Some (Inr s) \<and> ed_currentExpr s = zero_expr \<and> ed_currentRequestRuleExpr s = rules_of gs"
proof -
  let ?r = "rules_of gs"
  define ed where "ed = (\<lambda>mode vc raw i x seen model. \<lparr>ed_editorMode = mode, ed_visualConfig = vc, ed_rawExpr = raw, ed_requestRuleGroups = gs, ed_initRef = i,
     ed_modelName = m, ed_currentExpr = x, ed_currentRequestRuleExpr = ?r, ed_seenExprs = seen, ed_seenModel = model\<rparr>)"
  let ?s = "\<lambda>i. ed RawMode None (combineBillingExpr zero_expr ?r) i zero_expr (Some (zero_expr, ?r)) (Some m)"
  have s0: "mount m x ?r = Inr (ed VisualMode None (combineBillingExpr x ?r) False x None None)"
    using assms by (simp add: mount_def ed_def parse_rules_of)
  have fin: "commit (?s i) = Inr (?s i)" for i
    using split_zero_rules [OF assms(2)] by (simp add: ed_def effect_defs)
  have rules: "buildRequestRuleExpr gs = ?r" "generateExprFromVisualConfig None = zero_expr" by (simp_all add: rules_of_def zero_expr_def)
  note run = effect_defs ed_def rules parse_rules_of [OF assms(2)] assms(1) zero_unreadable split_zero_rules [OF assms(2)]
  obtain a b where y: "splitBillingExprAndRequestRules (combineBillingExpr x ?r) = Inr (a, b)" using assms(3) by (cases y) auto
  have "\<exists>n i. commits n (ed VisualMode None (combineBillingExpr x ?r) False x None None) = Inr (?s i)"
  proof (cases "x = zero_expr")
    case True
    have "commits (Suc 0) (ed VisualMode None (combineBillingExpr x ?r) False x None None) = Inr (?s False)" using zero_nonempty by (simp add: run True)
    then show ?thesis by blast
  next
    case False
    have "commits (Suc (Suc (Suc (Suc 0)))) (ed VisualMode None (combineBillingExpr x ?r) False x None None) = Inr (?s True)"
    proof (cases "x = []")
      case True
      have "tryParseVisualConfig [] = None" by (simp add: tryParseVisualConfig_def)
      then show ?thesis using True zero_nonempty by (simp add: run)
    next
      case x: False
      then show ?thesis using False y zero_nonempty by (simp add: run)
    qed
    then show ?thesis by blast
  qed
  then obtain n i where "commits n (ed VisualMode None (combineBillingExpr x ?r) False x None None) = Inr (?s i)" by blast
  from settle_commits [OF this fin] s0 show ?thesis by (auto simp: ed_def)
qed

lemma other_model_settles:
  assumes s: "commit s = Inr s" "ed_editorMode s = VisualMode" "ed_visualConfig s = Some ts" "editable ts" "list_all wf_group (ed_requestRuleGroups s)"
    and us: "editable us" "list_all wf_group hs" and m: "m \<noteq> ed_modelName s"
  shows "\<exists>s'. settle (s\<lparr>ed_modelName := m, ed_currentExpr := expr_of us, ed_currentRequestRuleExpr := rules_of hs\<rparr>) = Some (Inr s')
    \<and> ed_currentExpr s' = expr_of ts \<and> ed_currentRequestRuleExpr s' = rules_of (ed_requestRuleGroups s)"
proof -
  define gs where "gs = ed_requestRuleGroups s"
  let ?e = "expr_of ts" and ?r = "rules_of gs" and ?e' = "expr_of us" and ?r' = "rules_of hs"
  note seen = settled_visual [OF s(1-3)]
  define ed where "ed = (\<lambda>vc raw gs i e r seen model. \<lparr>ed_editorMode = VisualMode, ed_visualConfig = Some vc, ed_rawExpr = raw, ed_requestRuleGroups = gs, ed_initRef = i,
     ed_modelName = m, ed_currentExpr = e, ed_currentRequestRuleExpr = r, ed_seenExprs = Some seen, ed_seenModel = Some model\<rparr>)"
  obtain raw i n where s1: "s\<lparr>ed_modelName := m, ed_currentExpr := ?e', ed_currentRequestRuleExpr := ?r'\<rparr> = ed ts raw gs i ?e' ?r' (?e, ?r) n" "n \<noteq> m"
    using seen s(2,3) assms(8) by (cases s) (auto simp: ed_def gs_def)
  have rules: "buildRequestRuleExpr gs = rules_of gs" "generateExprFromVisualConfig (Some ts) = expr_of ts" for gs ts by (simp_all add: rules_of_def expr_of_def)
  note run = effect_defs ed_def rules parse_rules_of [OF s(5) [folded gs_def]] parse_rules_of [OF us(2)] parse_expr_of [OF s(4)] parse_expr_of [OF us(1)]
  let ?fin = "\<lambda>vc raw i. ed vc raw gs i ?e ?r (?e, ?r) m"
  have fin: "vc = ts \<or> vc = read_config ts \<Longrightarrow> commit (?fin vc raw i) = Inr (?fin vc raw i)" for vc raw i by (auto simp: run)
  have "\<exists>n' vc raw' i'. (vc = ts \<or> vc = read_config ts) \<and> commits n' (ed ts raw gs i ?e' ?r' (?e, ?r) n) = Inr (?fin vc raw' i')"
  proof (cases "(?e', ?r') = (?e, ?r)")
    case True
    then have "commits (Suc 0) (ed ts raw gs i ?e' ?r' (?e, ?r) n) = Inr (?fin ts raw False)" using s1(2) by (simp add: run)
    then show ?thesis by blast
  next
    case False
    have "commits (if i then Suc (Suc 0) else Suc (Suc (Suc (Suc 0)))) (ed ts raw gs i ?e' ?r' (?e, ?r) n) = Inr (?fin (read_config ts) (combineBillingExpr ?e ?r) True)"
      using False s1(2) by (cases i) (auto simp: run)
    then show ?thesis by blast
  qed
  then obtain n' vc raw' i' where "vc = ts \<or> vc = read_config ts" "commits n' (ed ts raw gs i ?e' ?r' (?e, ?r) n) = Inr (?fin vc raw' i')" by blast
  from settle_commits [OF this(2) fin [OF this(1)]] show ?thesis unfolding s1(1) by (auto simp: ed_def gs_def)
qed

end
