(* ===== verification/PricingSave.thy ===== *)
theory PricingSave
  imports PricingPanel TierOpening
begin

text \<open>
  What opening a model in the panel, with the editor of expressions that it holds, and saving it does to
  the list of models.
\<close>

subsection \<open>Expressions of rows\<close>

text \<open>
  The expression of a row is one that the visual editor prints, or one that it cannot read. The rules
  are those of the editor in both cases.
\<close>

definition editor_expr :: "'a model_ratio_data_scheme \<Rightarrow> bool" where
  "editor_expr r \<longleftrightarrow> str_ok (combined_of r) \<and> (\<exists>ts gs. editable ts \<and> list_all wf_group gs
     \<and> md_billingExpr r = Some (generateExprFromVisualConfig (Some ts)) \<and> md_requestRuleExpr r = Some (buildRequestRuleExpr gs))"

definition foreign_expr :: "'a model_ratio_data_scheme \<Rightarrow> bool" where
  "foreign_expr r \<longleftrightarrow> (\<exists>x gs y. md_billingExpr r = Some x \<and> tryParseVisualConfig x = None \<and> list_all wf_group gs
     \<and> md_requestRuleExpr r = Some (buildRequestRuleExpr gs) \<and> str_ok (buildRequestRuleExpr gs) \<and> splitBillingExprAndRequestRules (combined_of r) = Inr y)"

lemma editor_expr_stored:
  "editable ts \<Longrightarrow> list_all wf_group gs \<Longrightarrow> str_ok (combineBillingExpr (expr_of ts) (rules_of gs)) \<Longrightarrow> stored_expr (expr_of ts) (rules_of gs)"
  using combined_nonempty split_expr_of by (simp add: stored_expr_def)

lemma zero_expr_stored:
  assumes "list_all wf_group gs" "str_ok (rules_of gs)"
  shows "stored_expr zero_expr (rules_of gs)"
proof -
  have t: "trim zero_expr = zero_expr" "str_ok zero_expr" unfolding zero_text by code_simp (simp add: str_ok_def lit)
  have "str_ok (trim (rules_of gs))" using assms(2) set_trim_subset [of "rules_of gs"] by (auto simp: str_ok_def)
  then have "combineBillingExpr zero_expr (rules_of gs) \<noteq> []" "str_ok (combineBillingExpr zero_expr (rules_of gs))"
    using t zero_nonempty by (auto simp: combineBillingExpr_def str_ok_def lit Let_def)
  then show ?thesis using split_zero_rules [OF assms(1)] by (simp add: stored_expr_def)
qed

text \<open>What the editor of expressions reports when it appears with the expression of a row.\<close>

lemma expression_settles:
  assumes "editor_expr r \<or> foreign_expr r"
  obtains x x' gs s0 s where "md_billingExpr r = Some x" "md_requestRuleExpr r = Some (rules_of gs)" "x' = (if tryParseVisualConfig x = None then zero_expr else x)"
    and "mount n x (rules_of gs) = Inr s0" "settle s0 = Some (Inr s)" "ed_currentExpr s = x'" "ed_currentRequestRuleExpr s = rules_of gs"
    and "stored_expr x' (rules_of gs)"
  using assms
proof
  assume "editor_expr r"
  then obtain ts gs where e: "editable ts" "list_all wf_group gs" "md_billingExpr r = Some (expr_of ts)" "md_requestRuleExpr r = Some (rules_of gs)"
    "str_ok (combineBillingExpr (expr_of ts) (rules_of gs))" by (auto simp: editor_expr_def expr_of_def rules_of_def combined_of_def)
  then show ?thesis using that [of "expr_of ts" gs "expr_of ts"] parse_expr_of [OF e(1)] mount_settles [OF e(1,2), of n] editor_expr_stored [OF e(1,2)] by auto
next
  assume "foreign_expr r"
  then obtain x gs y where e: "md_billingExpr r = Some x" "tryParseVisualConfig x = None" "list_all wf_group gs" "md_requestRuleExpr r = Some (rules_of gs)"
    "str_ok (rules_of gs)" "splitBillingExprAndRequestRules (combineBillingExpr x (rules_of gs)) = Inr y" by (auto simp: foreign_expr_def rules_of_def combined_of_def)
  then show ?thesis using that [of x gs zero_expr] foreign_settles [OF e(2,3,6), of n] zero_expr_stored [OF e(3,5)] by auto
qed

lemma valueless_row:
  assumes "row_shape r tx" "md_billingMode r = Some PER_TOKEN" "\<not> (\<exists>f. hasValue (md_field r f))"
  shows "saved_row (resubmitted r) n = None"
proof -
  have f: "md_field r = (\<lambda>p. Some (tx p))" using assms(1,2) by (auto simp: row_shape_def mode_differ [symmetric])
  then have "tx p = []" for p using assms(3) by (simp add: hasValue_def)
  moreover have "stored (Some []) = []" by (simp add: stored_number_text number_text_def)
  ultimately show ?thesis using assms(2) by (simp add: saved_row_def resubmitted_def f or_empty_def plain_price_def mode_differ [symmetric] Let_def)
qed

subsection \<open>Opening a row\<close>

lemma other_tab: "pn_pricingMode (pe_panel e) \<noteq> TIERED_EXPR \<Longrightarrow> tiered_effects e = Some (Inr (e\<lparr>pe_tiered := None\<rparr>))"
  by (simp add: tiered_effects_def)

lemma loaded_panel:
  assumes "row_draft m = Some r" "row_shape r tx"
  shows "Some (pn_pricingMode (load_panel (Some (edit_data m)))) = md_billingMode r"
    "pn_billingExpr (load_panel (Some (edit_data m))) = or_empty (md_billingExpr r)"
    "pn_requestRuleExpr (load_panel (Some (edit_data m))) = or_empty (md_requestRuleExpr r)"
proof -
  have "Some (resolvePricingModeFromData (Some (edit_data m))) = md_billingMode r"
    using shape_modes [OF assms(2)] by (subst resolve_known) (simp_all only: edit_data_draft [OF assms] model_ratio_data.select_convs)
  then show "Some (pn_pricingMode (load_panel (Some (edit_data m)))) = md_billingMode r" by (simp add: load_panel_def split: prod.split)
  show "pn_billingExpr (load_panel (Some (edit_data m))) = or_empty (md_billingExpr r)"
    "pn_requestRuleExpr (load_panel (Some (edit_data m))) = or_empty (md_requestRuleExpr r)"
    by (simp_all add: load_panel_def edit_data_draft [OF assms] split: prod.split)
qed

text \<open>The panel with the expressions that the editor of expressions reports.\<close>

lemma submit_with_expressions:
  assumes "row_draft m = Some r" "row_shape r tx" "md_billingMode r = Some TIERED_EXPR"
    "p = (load_panel (Some (edit_data m)))\<lparr>pn_billingExpr := x, pn_requestRuleExpr := y\<rparr>" "md_name r \<noteq> []"
  shows "commitDraft p = Some (resubmitted (r\<lparr>md_billingExpr := Some x, md_requestRuleExpr := Some y\<rparr>))"
    "row_shape (r\<lparr>md_billingExpr := Some x, md_requestRuleExpr := Some y\<rparr>) tx"
proof -
  let ?l = "load_panel (Some (edit_data m))"
  have mode: "pn_pricingMode ?l = TIERED_EXPR" using loaded_panel(1) [OF assms(1,2)] assms(3) by simp
  have "buildSubmitData p = (buildSubmitData ?l)\<lparr>md_billingExpr := Some x, md_requestRuleExpr := Some y\<rparr>"
    using mode by (simp add: buildSubmitData_def assms(4))
  also have "\<dots> = resubmitted (r\<lparr>md_billingExpr := Some x, md_requestRuleExpr := Some y\<rparr>)"
    using assms(3) unfolding submit_loaded(1) [OF assms(1,2)] by (simp add: resubmitted_def or_empty_def)
  finally have "buildSubmitData p = resubmitted (r\<lparr>md_billingExpr := Some x, md_requestRuleExpr := Some y\<rparr>)" .
  moreover have "pn_name p = md_name r" "pn_pricingMode p = TIERED_EXPR" using submit_loaded(2) [OF assms(1,2)] mode by (simp_all add: assms(4))
  ultimately show "commitDraft p = Some (resubmitted (r\<lparr>md_billingExpr := Some x, md_requestRuleExpr := Some y\<rparr>))"
    using assms(5) by (simp add: commitDraft_def validatePricingValues_def missing_input_price_def missing_audio_input_def mode_differ)
  show "row_shape (r\<lparr>md_billingExpr := Some x, md_requestRuleExpr := Some y\<rparr>) tx"
    using assms(2,3) by (auto simp: row_shape_def mode_differ)
qed

text \<open>The tables after a save hold for the model what was written.\<close>

lemma committed_tables:
  assumes "values_ok (pe_values e)" "pe_editorOpen e" "commitDraft (pe_panel e) = Some d" "data_ok d" "plain_name (md_name d)" "str_ok (md_name d)"
    "commitOpenEditor e = Some (True, e')"
  shows "\<exists>T. read_tables (pe_values e') = Some T \<and> (\<forall>f. map_of (T f) (md_name d) = written d f)"
proof -
  obtain T where T: "read_tables (pe_values e) = Some T" "tables_ok T" using assms(1) by (auto simp: values_ok_def)
  let ?W = "write_model d (md_name d) T"
  have W: "tables_ok ?W" using write_model_ok [OF T(2) assms(4-6)] .
  have "pe_values e' = write_tables ?W" using assms(2,3,5,7) T(1) by (auto simp: commitOpenEditor_def persistPricingData_def)
  then have "read_tables (pe_values e') = Some (\<lambda>f. own_entries (?W f))" using read_tables_written [OF W] by simp
  moreover have "map_of (own_entries (?W f)) (md_name d) = written d f" for f
    using map_of_own W by (simp add: tables_ok_def write_model_map)
  ultimately show ?thesis by blast
qed

text \<open>Saving after the editor of expressions has reported them.\<close>

lemma save_expressions:
  assumes "typed_values (pe_values e)" "listed (pe_values e) = Some (Inr rows)" "r \<in> set rows" "row_draft m = Some r" "row_shape r tx"
    and "md_name r \<noteq> []" "trimmed (md_name r)" "md_billingMode r = Some TIERED_EXPR"
    and "stored_expr x y" and "pe_values opened = pe_values e" "pe_editorOpen opened" "pe_panel opened = (load_panel (Some (edit_data m)))\<lparr>pn_billingExpr := x, pn_requestRuleExpr := y\<rparr>"
  shows "\<exists>e' rows'. commitOpenEditor opened = Some (True, e') \<and> listed (pe_values e') = Some (Inr rows') \<and> distinct (map md_name rows')
    \<and> set rows' = {q \<in> set rows. md_name q \<noteq> md_name r} \<union> {r\<lparr>md_billingExpr := Some x, md_requestRuleExpr := Some y, sn_hasConflict := False\<rparr>}"
proof -
  let ?r = "r\<lparr>md_billingExpr := Some x, md_requestRuleExpr := Some y\<rparr>"
  note sub = submit_with_expressions [OF assms(4,5,8,12,6)]
  have d: "data_ok (resubmitted ?r)" using assms(9) by (intro resubmitted_ok [OF sub(2)]) simp
  have row: "saved_row (resubmitted ?r) (md_name r) = Some (?r\<lparr>sn_hasConflict := False\<rparr>)"
    using resubmitted_row [OF sub(2)] assms(8) by (simp add: mode_differ)
  have name: "md_name (resubmitted ?r) = md_name r" using trim_id [OF assms(7)] by (simp add: resubmitted_def)
  show ?thesis
    using commit_rows [of opened rows "resubmitted ?r"] typed_ok [OF assms(1)] assms(2,10,11) sub(1) d row name listed_name_ok [OF assms(1-3)] by simp
qed

text \<open>The row of a model after it was opened and saved without a change, or \<open>None\<close> if it is gone.\<close>

definition resaved :: "model_pricing_snapshot \<Rightarrow> model_pricing_snapshot option" where
  "resaved r =
     (if md_billingMode r = Some TIERED_EXPR \<and> tryParseVisualConfig (or_empty (md_billingExpr r)) = None
      then Some (r\<lparr>md_billingExpr := Some (js ''p * 0 + c * 0''), sn_hasConflict := False\<rparr>)
      else if md_billingMode r = Some PER_TOKEN \<and> \<not> (\<exists>f. hasValue (md_field r f)) then None
      else Some (r\<lparr>sn_hasConflict := False\<rparr>))"

text \<open>Opening a row with an expression while no expression is open.\<close>

lemma open_expression:
  assumes "row_draft m = Some r" "row_shape r tx" "md_billingMode r = Some TIERED_EXPR" "pe_tiered e = None" "editor_expr r \<or> foreign_expr r"
  obtains opened x gs where "tiered_effects (handleEdit mobile m e) = Some (Inr opened)" "stored_expr x (rules_of gs)"
    and "resaved r = Some (r\<lparr>md_billingExpr := Some x, md_requestRuleExpr := Some (rules_of gs), sn_hasConflict := False\<rparr>)"
    and "pe_values opened = pe_values e" "pe_editorOpen opened"
    and "pe_panel opened = (load_panel (Some (edit_data m)))\<lparr>pn_billingExpr := x, pn_requestRuleExpr := rules_of gs\<rparr>"
proof -
  let ?l = "load_panel (Some (edit_data m))"
  obtain x x' gs s0 s where x: "md_billingExpr r = Some x" "md_requestRuleExpr r = Some (rules_of gs)" "x' = (if tryParseVisualConfig x = None then zero_expr else x)"
    and s: "mount (Some (md_name r)) x (rules_of gs) = Inr s0" "settle s0 = Some (Inr s)" "ed_currentExpr s = x'" "ed_currentRequestRuleExpr s = rules_of gs"
    and split: "stored_expr x' (rules_of gs)"
    by (rule expression_settles [OF assms(5), of "Some (md_name r)"])
  define opened where "opened = (handleEdit mobile m e)\<lparr>pe_tiered := Some s, pe_panel := ?l\<lparr>pn_billingExpr := x', pn_requestRuleExpr := rules_of gs\<rparr>\<rparr>"
  have "tiered_effects (handleEdit mobile m e) = Some (Inr opened)"
    using s loaded_panel [OF assms(1,2)] assms(3,4) submit_loaded(2) [OF assms(1,2)] x
    by (simp add: tiered_effects_def handleEdit_def or_empty_def opened_def Let_def)
  moreover have "resaved r = Some (r\<lparr>md_billingExpr := Some x', md_requestRuleExpr := Some (rules_of gs), sn_hasConflict := False\<rparr>)"
    using assms(3) x by (auto simp: resaved_def or_empty_def zero_text mode_differ intro!: snapshot_eqI)
  ultimately show ?thesis using that [of opened x' gs] split by (simp add: opened_def handleEdit_def)
qed

subsection \<open>Properties\<close>

text \<open>
  C20: what opening a model of the list and saving it without a change does. All other rows stay. The
  row of the model stays as well, in every billing mode, and only loses the mark of a conflict between a
  fixed price and ratios, because the ratios are dropped; with two exceptions. A row of token prices
  without any price disappears. An expression that the visual editor cannot read is replaced by the
  price zero: the editor of expressions, which appears with the panel, reports the expression of an
  empty configuration before it switches to the text. When the panel refuses its prices, nothing is
  saved. The tables hold numbers and texts where they should, and the name of the model has no blanks
  around it. In the mode of expressions no other expression is open, the rules are those that the
  editor prints, and the expression is one that it prints or one that it cannot read.
\<close>

theorem unchanged_edit_keeps_rows:
  assumes "typed_values (pe_values e)" "listed (pe_values e) = Some (Inr rows)" "r \<in> set rows" "row_draft m = Some r"
    and "md_name r \<noteq> []" "trimmed (md_name r)"
    and "md_billingMode r = Some TIERED_EXPR \<longrightarrow> pe_tiered e = None \<and> (editor_expr r \<or> foreign_expr r)"
  shows "\<exists>opened. tiered_effects (handleEdit mobile m e) = Some (Inr opened) \<and>
    (if validatePricingValues (load_panel (Some (edit_data m)))
     then \<exists>e' rows'. commitOpenEditor opened = Some (True, e') \<and> listed (pe_values e') = Some (Inr rows') \<and> distinct (map md_name rows')
       \<and> set rows' = {q \<in> set rows. md_name q \<noteq> md_name r} \<union> {q. resaved r = Some q}
     else commitOpenEditor opened = Some (False, opened) \<and> pe_values opened = pe_values e)"
proof -
  obtain tx where tx: "row_shape r tx" using typed_row [OF assms(1-3)] by blast
  let ?l = "load_panel (Some (edit_data m))"
  note load = loaded_panel [OF assms(4) tx]
  have h: "pe_panel (handleEdit mobile m e) = ?l" "pe_editorOpen (handleEdit mobile m e)" "pe_values (handleEdit mobile m e) = pe_values e"
    "pe_tiered (handleEdit mobile m e) = pe_tiered e" by (simp_all add: handleEdit_def)
  show ?thesis
  proof (cases "md_billingMode r = Some TIERED_EXPR")
    case True
    obtain opened x gs where o: "tiered_effects (handleEdit mobile m e) = Some (Inr opened)" "stored_expr x (rules_of gs)"
      "resaved r = Some (r\<lparr>md_billingExpr := Some x, md_requestRuleExpr := Some (rules_of gs), sn_hasConflict := False\<rparr>)"
      "pe_values opened = pe_values e" "pe_editorOpen opened" "pe_panel opened = ?l\<lparr>pn_billingExpr := x, pn_requestRuleExpr := rules_of gs\<rparr>"
      using open_expression [OF assms(4) tx True, of e mobile] assms(7) True by blast
    moreover have "validatePricingValues ?l"
      using load(1) True by (simp add: validatePricingValues_def missing_input_price_def missing_audio_input_def mode_differ)
    ultimately show ?thesis using save_expressions [OF assms(1-4) tx assms(5,6) True o(2,4-6)] by auto
  next
    case False
    let ?o = "(handleEdit mobile m e)\<lparr>pe_tiered := None\<rparr>" and ?d = "resubmitted r"
    have o: "tiered_effects (handleEdit mobile m e) = Some (Inr ?o)" using False load(1) by (intro other_tab) (auto simp: h)
    have name: "md_name ?d = md_name r" using trim_id [OF assms(6)] by (simp add: resubmitted_def)
    have row: "saved_row ?d (md_name r) = resaved r"
      using False resubmitted_row [OF tx] valueless_row [OF tx] by (auto simp: resaved_def)
    have c: "commitDraft ?l = (if validatePricingValues ?l then Some ?d else None)"
      using submit_loaded [OF assms(4) tx] assms(5) by (simp add: commitDraft_def)
    show ?thesis
    proof (cases "validatePricingValues ?l")
      case v: True
      then show ?thesis
        using commit_rows [of ?o rows ?d] typed_ok [OF assms(1)] assms(2) c resubmitted_ok [OF tx] False row name listed_name_ok [OF assms(1-3)] o h by auto
    next
      case v: False
      then show ?thesis using o h c by (simp add: commitOpenEditor_def)
    qed
  qed
qed

text \<open>
  C37: a model with a fixed price that is opened, switched to token prices, given an input price and
  saved is listed with its fixed price per request as before, only in the unit of requests; the tables
  hold no ratio for it, so that the input price is not stored. The form still holds the fixed price,
  and saving token prices writes a fixed price first, although the panel announces that saving rewrites
  the conflicting fields.
\<close>

theorem token_prices_not_saved:
  assumes "typed_values (pe_values e)" "listed (pe_values e) = Some (Inr rows)" "r \<in> set rows" "row_draft m = Some r"
    and "md_name r \<noteq> []" "trimmed (md_name r)" "md_billingMode r = Some PER_REQUEST" "hasValue (md_field r Price)"
    and "re_test numericDraftRegex v" "tiered_effects (handleEdit mobile m e) = Some (Inr opened)"
  shows "\<exists>e' rows' T. commitOpenEditor (opened\<lparr>pe_panel := handlePromptPriceChange v (handlePanelModeChange PER_TOKEN (pe_panel opened))\<rparr>) = Some (True, e')
    \<and> listed (pe_values e') = Some (Inr rows')
    \<and> set rows' = {q \<in> set rows. md_name q \<noteq> md_name r} \<union> {r\<lparr>md_requestUnit := Some (JStr (js ''request'')), sn_hasConflict := False\<rparr>}
    \<and> read_tables (pe_values e') = Some T \<and> (\<forall>p. p \<noteq> Price \<longrightarrow> map_of (T (Table p)) (md_name r) = None)"
proof -
  obtain tx where tx: "row_shape r tx" using typed_row [OF assms(1-3)] by blast
  then have f: "md_field r = (\<lambda>p. if p = Price then Some (tx Price) else None)" "number_text (tx Price)" "md_billingExpr r = None" "md_requestRuleExpr r = None"
    using assms(7) by (auto simp: row_shape_def mode_differ)
  then have t: "tx Price \<noteq> []" "stored (Some (tx Price)) = tx Price" using assms(8) by (simp_all add: hasValue_def stored_number_text)
  let ?l = "load_panel (Some (edit_data m))" and ?p = "handlePromptPriceChange v (handlePanelModeChange PER_TOKEN (load_panel (Some (edit_data m))))"
  have "pn_pricingMode ?l = PER_REQUEST" using loaded_panel(1) [OF assms(4) tx] assms(7) by simp
  then have o: "opened = (handleEdit mobile m e)\<lparr>pe_tiered := None\<rparr>"
    using assms(10) other_tab [of "handleEdit mobile m e"] by (simp add: handleEdit_def mode_differ [symmetric])
  have load: "pn_form ?l Price = tx Price" "pn_name ?l = md_name r" "\<not> pn_laneEnabled ?l l" for l
    using f(1) by (simp_all add: load_panel_def edit_data_draft [OF assms(4) tx] formatOptionalNumericField_def createInitialLaneState_def hasValue_def Let_def)
  then have p: "pn_form ?p Price = tx Price" "pn_name ?p = md_name r" "\<not> pn_laneEnabled ?p l" "pn_pricingMode ?p = PER_TOKEN" for l
    using assms(9) by (simp_all add: handlePromptPriceChange_def syncLaneRatios_def fold_set_form handlePanelModeChange_def mode_differ [symmetric] Let_def)
  let ?d = "buildSubmitData ?p"
  have d: "md_name ?d = md_name r" "md_billingMode ?d = Some PER_TOKEN" "md_field ?d Price = Some (tx Price)" "md_requestUnit ?d = None"
    using p trim_id [OF assms(6)] by (simp_all add: buildSubmitData_def formatOptionalNumericField_def mode_differ [symmetric])
  have "validatePricingValues ?p" using p(3) by (simp add: validatePricingValues_def missing_input_price_def missing_audio_input_def list_ex_iff)
  then have c: "commitDraft ?p = Some ?d" using p(2) assms(5) by (simp add: commitDraft_def)
  have ok: "data_ok ?d" using d(2,4) by (simp add: data_ok_def mode_differ [symmetric])
  have row: "saved_row ?d (md_name r) = Some (r\<lparr>md_requestUnit := Some (JStr (js ''request'')), sn_hasConflict := False\<rparr>)"
    using d t f assms(7) by (auto simp: saved_row_def plain_price_def mode_differ [symmetric] Let_def intro!: snapshot_eqI cong: if_cong)
  let ?e = "opened\<lparr>pe_panel := ?p\<rparr>"
  have e: "pe_panel opened = ?l" "pe_values ?e = pe_values e" "pe_editorOpen ?e" "pe_panel ?e = ?p" by (simp_all add: o handleEdit_def)
  have name: "plain_name (md_name ?d)" "str_ok (md_name ?d)" using listed_name_ok [OF assms(1-3)] d(1) by simp_all
  obtain e' rows' where e': "commitOpenEditor ?e = Some (True, e')" "listed (pe_values e') = Some (Inr rows')"
    "set rows' = {q \<in> set rows. md_name q \<noteq> md_name r} \<union> {r\<lparr>md_requestUnit := Some (JStr (js ''request'')), sn_hasConflict := False\<rparr>}"
    using commit_rows [of ?e rows ?d] typed_ok [OF assms(1)] assms(2) e c ok name row d(1) by auto
  moreover obtain T where "read_tables (pe_values e') = Some T" "\<And>f. map_of (T f) (md_name ?d) = written ?d f"
    using committed_tables [of ?e ?d e'] typed_ok [OF assms(1)] e c ok name e'(1) by auto
  moreover have "written ?d (Table p) = None" if "p \<noteq> Price" for p
    using that d t(1) by (simp add: plain_price_def)
  ultimately show ?thesis unfolding e(1) using d(1) by auto
qed

text \<open>
  C36: when a model with an expression is opened while the panel still shows the expression of another
  model in the visual form, the expression of the other model stays in the editor, and saving stores it, with its rules,
  for the model that was opened; every other row stays. The editor is not told apart by the model: its
  effects report the expression of its tiers, and read the tiers again only from what they reported.
\<close>

theorem second_expression_replaced:
  assumes "typed_values (pe_values e)" "listed (pe_values e) = Some (Inr rows)" "r \<in> set rows" "row_draft m = Some r"
    and "md_name r \<noteq> []" "trimmed (md_name r)" "md_billingMode r = Some TIERED_EXPR" "editor_expr r"
    and "pe_tiered e = Some s" "commit s = Inr s" "ed_editorMode s = VisualMode" "ed_visualConfig s = Some ts" "editable ts"
    and "list_all wf_group (ed_requestRuleGroups s)" "ed_modelName s \<noteq> Some (md_name r)" "str_ok (combineBillingExpr (ed_currentExpr s) (ed_currentRequestRuleExpr s))"
  shows "\<exists>opened e' rows'. tiered_effects (handleEdit mobile m e) = Some (Inr opened) \<and> commitOpenEditor opened = Some (True, e')
    \<and> listed (pe_values e') = Some (Inr rows')
    \<and> set rows' = {q \<in> set rows. md_name q \<noteq> md_name r}
        \<union> {r\<lparr>md_billingExpr := Some (ed_currentExpr s), md_requestRuleExpr := Some (ed_currentRequestRuleExpr s), sn_hasConflict := False\<rparr>}"
proof -
  obtain tx where tx: "row_shape r tx" using typed_row [OF assms(1-3)] by blast
  let ?l = "load_panel (Some (edit_data m))" and ?x = "ed_currentExpr s" and ?y = "ed_currentRequestRuleExpr s"
  have xy: "?x = expr_of ts" "?y = rules_of (ed_requestRuleGroups s)" using settled_visual [OF assms(10-12)] by simp_all
  obtain us gs where u: "editable us" "list_all wf_group gs" "md_billingExpr r = Some (expr_of us)" "md_requestRuleExpr r = Some (rules_of gs)"
    using assms(8) by (auto simp: editor_expr_def expr_of_def rules_of_def)
  obtain s' where s': "settle (s\<lparr>ed_modelName := Some (md_name r), ed_currentExpr := expr_of us, ed_currentRequestRuleExpr := rules_of gs\<rparr>) = Some (Inr s')"
    "ed_currentExpr s' = ?x" "ed_currentRequestRuleExpr s' = ?y"
    using other_model_settles [OF assms(10-14) u(1,2), of "Some (md_name r)"] assms(15) xy by auto
  define opened where "opened = (handleEdit mobile m e)\<lparr>pe_tiered := Some s', pe_panel := ?l\<lparr>pn_billingExpr := ?x, pn_requestRuleExpr := ?y\<rparr>\<rparr>"
  have "tiered_effects (handleEdit mobile m e) = Some (Inr opened)"
    using s' loaded_panel [OF assms(4) tx] assms(7,9) submit_loaded(2) [OF assms(4) tx] u(3,4)
    by (simp add: tiered_effects_def handleEdit_def or_empty_def opened_def Let_def)
  moreover have "stored_expr ?x ?y" using assms(13,14,16) unfolding xy by (intro editor_expr_stored)
  then have "\<exists>e' rows'. commitOpenEditor opened = Some (True, e') \<and> listed (pe_values e') = Some (Inr rows') \<and> distinct (map md_name rows')
      \<and> set rows' = {q \<in> set rows. md_name q \<noteq> md_name r} \<union> {r\<lparr>md_billingExpr := Some ?x, md_requestRuleExpr := Some ?y, sn_hasConflict := False\<rparr>}"
    by (intro save_expressions [OF assms(1-4) tx assms(5-7)]) (simp_all add: opened_def handleEdit_def)
  ultimately show ?thesis by blast
qed

subsection \<open>Samples\<close>

text \<open>Two models with expressions of the editor and one with an expression that it cannot read.\<close>

definition flat_tiers :: "visual_tier list" where
  "flat_tiers = [(hd createDefaultVisualConfig)\<lparr>vt_label := js ''flat''\<rparr>]"

definition sample_exprs :: "(jsstr \<times> jsstr) list" where
  "sample_exprs = [(js ''gpt'', expr_of createDefaultVisualConfig), (js ''o3'', expr_of flat_tiers), (js ''custom'', js ''max(p, c) * 3'')]"

definition expr_tables :: model_tables where
  "expr_tables f = (case f of
      BillingMode \<Rightarrow> map (\<lambda>(n, _). (n, JStr (js ''tiered_expr''))) sample_exprs
    | BillingExpr \<Rightarrow> map (\<lambda>(n, x). (n, JStr x)) sample_exprs
    | _ \<Rightarrow> [])"

definition expr_row :: "jsstr \<Rightarrow> jsstr \<Rightarrow> model_pricing_snapshot" where
  "expr_row n x = \<lparr>md_name = n, md_field = (\<lambda>_. Some []), md_billingMode = Some TIERED_EXPR, md_billingExpr = Some x, md_requestRuleExpr = Some [],
     md_requestUnit = None, sn_hasConflict = False\<rparr>"

definition expr_model :: "jsstr \<Rightarrow> jsstr \<Rightarrow> model_row" where
  "expr_model n x = the (row_of None (Some (expr_row n x)))"

definition expr_editor :: price_editor where
  "expr_editor = sample_price_editor\<lparr>pe_values := write_tables expr_tables\<rparr>"

lemma expr_model_draft: "row_draft (expr_model n x) = Some (expr_row n x)"
proof -
  obtain m where m: "row_of None (Some (expr_row n x)) = Some m" by (simp add: row_of_draft)
  then have "row_draft m = Some (expr_row n x)" by (simp add: row_of_draft model_pricing_snapshot.defs)
  with m show ?thesis by (simp add: expr_model_def)
qed

lemma flat_tiers_editable: "editable flat_tiers"
proof -
  obtain t where t: "createDefaultVisualConfig = [t]" by (simp add: createDefaultVisualConfig_def)
  then have "good_tier t" using default_editable unfolding editable_iff t by simp
  then have "good_tier (t\<lparr>vt_label := js ''flat''\<rparr>)" by (rule good_label) (simp_all add: lit plain_unit_def no_parens_def)
  then show ?thesis by (simp add: flat_tiers_def t editable_iff)
qed

lemma sample_expr_texts: "expr_of createDefaultVisualConfig = js ''tier(\"base\", p * 0 + c * 0)''" "expr_of flat_tiers = js ''tier(\"flat\", p * 0 + c * 0)''"
  by code_simp+

lemma sample_expr_split: "(n, x) \<in> set sample_exprs \<Longrightarrow> splitBillingExprAndRequestRules x = Inr (x, [])"
  unfolding sample_exprs_def sample_expr_texts by auto code_simp+

lemma expr_names: "plain_name (js ''gpt'')" "plain_name (js ''o3'')" "plain_name (js ''custom'')" "str_ok (js ''gpt'')" "str_ok (js ''o3'')" "str_ok (js ''custom'')"
  "distinct (map fst sample_exprs)"
  by (simp_all add: plain_name_def OBJECT_MEMBERS_def str_ok_def sample_exprs_def lit)

lemma sample_exprs_ok: "(n, x) \<in> set sample_exprs \<Longrightarrow> plain_name n \<and> str_ok n \<and> str_ok x"
  using expr_names unfolding sample_exprs_def sample_expr_texts by (auto simp: str_ok_def lit)

lemma expr_tables_ok: "tables_ok expr_tables"
proof -
  have "flat (JStr x)" if "str_ok x" for x using that by (simp add: flat_def)
  moreover have "str_ok (js ''tiered_expr'')" by (simp add: str_ok_def lit)
  ultimately show ?thesis using sample_exprs_ok expr_names(7)
    by (auto simp: tables_ok_def table_ok_def expr_tables_def comp_def case_prod_unfold split: model_field.split)
qed

lemma expr_typed: "typed_values (write_tables expr_tables)"
  unfolding typed_values_def
  using read_tables_written [OF expr_tables_ok] own_entries_ok expr_tables_ok
  by (auto simp: tables_ok_def expr_tables_def split: model_field.split)

lemma expr_maps: "map_of (expr_tables f) n = (case f of
    BillingMode \<Rightarrow> map_option (\<lambda>_. JStr (js ''tiered_expr'')) (map_of sample_exprs n) | BillingExpr \<Rightarrow> map_option JStr (map_of sample_exprs n) | _ \<Rightarrow> None)"
proof -
  have "map_of (map (\<lambda>(n, x). (n, g x)) xs) n = map_option g (map_of xs n)" for g :: "jsstr \<Rightarrow> json" and xs :: "(jsstr \<times> jsstr) list"
    by (induction xs) auto
  then show ?thesis by (simp add: expr_tables_def split: model_field.split)
qed

lemma expr_listed:
  "\<exists>rows. listed (write_tables expr_tables) = Some (Inr rows) \<and> (\<forall>(n, x) \<in> set sample_exprs. expr_row n x \<in> set rows)"
proof -
  define T where "T = (\<lambda>f. own_entries (expr_tables f))"
  have T: "read_tables (write_tables expr_tables) = Some T" using read_tables_written [OF expr_tables_ok] by (simp add: T_def)
  have m: "map_of (T f) n = map_of (expr_tables f) n" for f n using map_of_own expr_tables_ok by (simp add: T_def tables_ok_def)
  have "entry_texts T n = Inr (\<lambda>_. [])" for n by (rule entry_texts_ok) (simp add: entry_text_def m expr_maps)
  note snap = model_snapshot_def this m expr_maps mode_names
  have row: "model_snapshot T n = Inr (expr_row n x)" if "(n, x) \<in> set sample_exprs" for n x
  proof -
    have "map_of sample_exprs n = Some x" using that expr_names(7) by simp
    moreover have "x \<noteq> []" using that unfolding sample_exprs_def sample_expr_texts by (auto simp: lit)
    ultimately show ?thesis using sample_expr_split [OF that] by (simp add: snap expr_row_def js_true_def)
  qed
  have "\<exists>r. model_snapshot T n = Inr r" for n
  proof (cases "map_of sample_exprs n")
    case None
    then show ?thesis by (simp add: snap)
  next
    case (Some x)
    show ?thesis using row [OF map_of_SomeD [OF Some]] by blast
  qed
  then obtain rows where rows: "buildModelSnapshots T = Inr rows" using rows_total by blast
  moreover have "expr_row n x \<in> set rows" if "(n, x) \<in> set sample_exprs" for n x
    using row [OF that] that expr_names(7) unfolding rows_iff [OF rows] by (auto simp: expr_row_def m expr_maps intro!: exI [of _ BillingMode])
  ultimately show ?thesis using T by (auto simp: listed_def)
qed

lemma custom_unreadable: "tryParseVisualConfig (js ''max(p, c) * 3'') = None"
  by (simp add: lit unreadable)

lemma custom_foreign: "foreign_expr (expr_row (js ''custom'') (js ''max(p, c) * 3''))"
proof -
  have "combineBillingExpr (js ''max(p, c) * 3'') [] = js ''max(p, c) * 3''" by code_simp
  moreover have "splitBillingExprAndRequestRules (js ''max(p, c) * 3'') = Inr (js ''max(p, c) * 3'', [])" by code_simp
  ultimately show ?thesis unfolding foreign_expr_def using custom_unreadable by (intro exI [of _ "js ''max(p, c) * 3''"] exI [of _ "[]"] exI)
    (simp_all add: expr_row_def combined_of_def buildRequestRuleExpr_def str_ok_def)
qed

lemma sample_editor_expr: "editable ts \<Longrightarrow> str_ok (expr_of ts) \<Longrightarrow> editor_expr (expr_row n (expr_of ts))"
proof -
  assume ts: "editable ts" "str_ok (expr_of ts)"
  then have "combineBillingExpr (expr_of ts) [] = expr_of ts" using generated_shape(2,3) [OF ts(1)] by (simp add: combineBillingExpr_def expr_of_def trim_id)
  with ts show ?thesis unfolding editor_expr_def
    by (intro conjI exI [of _ ts] exI [of _ "[] :: rule_group list"]) (simp_all add: expr_row_def combined_of_def expr_of_def buildRequestRuleExpr_def)
qed

lemma expr_loaded:
  "pn_pricingMode (load_panel (Some (edit_data (expr_model n x)))) = TIERED_EXPR" "pn_name (load_panel (Some (edit_data (expr_model n x)))) = n"
  "pn_billingExpr (load_panel (Some (edit_data (expr_model n x)))) = x" "pn_requestRuleExpr (load_panel (Some (edit_data (expr_model n x)))) = []"
proof -
  have "row_shape (expr_row n x) (\<lambda>_. [])" by (simp add: row_shape_def expr_row_def number_text_def)
  note load = loaded_panel [OF expr_model_draft this] submit_loaded(2) [OF expr_model_draft this]
  show "pn_pricingMode (load_panel (Some (edit_data (expr_model n x)))) = TIERED_EXPR" "pn_name (load_panel (Some (edit_data (expr_model n x)))) = n"
    "pn_billingExpr (load_panel (Some (edit_data (expr_model n x)))) = x" "pn_requestRuleExpr (load_panel (Some (edit_data (expr_model n x)))) = []"
    using load by (simp_all add: expr_row_def or_empty_def)
qed

lemma expr_names_trimmed: "trimmed (js ''gpt'')" "trimmed (js ''o3'')" "trimmed (js ''custom'')"
  by (simp_all add: trimmed_def is_ws_def lit)

text \<open>The fixed price stays; the expression that the editor cannot read becomes zero.\<close>

theorem unchanged_edit_keeps_rows_witness:
  "(\<exists>opened e' rows'. tiered_effects (handleEdit False dalle_model sample_price_editor) = Some (Inr opened) \<and> commitOpenEditor opened = Some (True, e')
     \<and> listed (pe_values e') = Some (Inr rows') \<and> dalle_row \<in> set rows')
   \<and> (\<exists>opened e' rows'. tiered_effects (handleEdit False (expr_model (js ''custom'') (js ''max(p, c) * 3'')) expr_editor) = Some (Inr opened)
     \<and> commitOpenEditor opened = Some (True, e') \<and> listed (pe_values e') = Some (Inr rows') \<and> expr_row (js ''custom'') (js ''p * 0 + c * 0'') \<in> set rows')"
proof
  obtain rows where rows: "listed sample_values = Some (Inr rows)" using sample_listed by blast
  have mode: "md_billingMode dalle_row = Some PER_REQUEST" by (simp add: dalle_row_def)
  have "pn_pricingMode (load_panel (Some (edit_data dalle_model))) = PER_REQUEST"
    by (simp add: load_panel_def edit_data_def dalle_model_draft resolvePricingModeFromData_def mode mode_differ [symmetric] split: prod.split)
  then have "validatePricingValues (load_panel (Some (edit_data dalle_model)))"
    by (simp add: validatePricingValues_def missing_input_price_def missing_audio_input_def mode_differ)
  moreover have "resaved dalle_row = Some dalle_row" by (simp add: resaved_def mode mode_differ) (simp add: dalle_row_def)
  moreover have "pe_values sample_price_editor = sample_values" by (simp add: sample_price_editor_def)
  ultimately show "\<exists>opened e' rows'. tiered_effects (handleEdit False dalle_model sample_price_editor) = Some (Inr opened) \<and> commitOpenEditor opened = Some (True, e')
     \<and> listed (pe_values e') = Some (Inr rows') \<and> dalle_row \<in> set rows'"
    using unchanged_edit_keeps_rows [of sample_price_editor rows dalle_row dalle_model False] sample_typed rows dalle_listed [OF rows] dalle_model_draft dalle_name mode
    by (auto simp: mode_differ)
next
  let ?r = "expr_row (js ''custom'') (js ''max(p, c) * 3'')" and ?m = "expr_model (js ''custom'') (js ''max(p, c) * 3'')"
  obtain rows where rows: "listed (write_tables expr_tables) = Some (Inr rows)" "?r \<in> set rows" using expr_listed by (auto simp: sample_exprs_def)
  have r: "md_billingMode ?r = Some TIERED_EXPR" "md_name ?r = js ''custom''" "js ''custom'' \<noteq> []" by (simp_all add: expr_row_def)
  have x: "resaved ?r = Some (expr_row (js ''custom'') (js ''p * 0 + c * 0''))"
    using custom_unreadable by (simp add: resaved_def expr_row_def or_empty_def)
  have e: "pe_values expr_editor = write_tables expr_tables" "pe_tiered expr_editor = None" by (simp_all add: expr_editor_def sample_price_editor_def)
  have "validatePricingValues (load_panel (Some (edit_data ?m)))"
    by (simp add: expr_loaded validatePricingValues_def missing_input_price_def missing_audio_input_def mode_differ)
  then show "\<exists>opened e' rows'. tiered_effects (handleEdit False ?m expr_editor) = Some (Inr opened)
     \<and> commitOpenEditor opened = Some (True, e') \<and> listed (pe_values e') = Some (Inr rows') \<and> expr_row (js ''custom'') (js ''p * 0 + c * 0'') \<in> set rows'"
    using unchanged_edit_keeps_rows [of expr_editor rows ?r ?m False] expr_typed rows e r x custom_foreign expr_model_draft expr_names_trimmed(3) by auto
qed

theorem token_prices_not_saved_witness:
  "\<exists>opened e' T. tiered_effects (handleEdit False dalle_model sample_price_editor) = Some (Inr opened)
     \<and> commitOpenEditor (opened\<lparr>pe_panel := handlePromptPriceChange (js ''3'') (handlePanelModeChange PER_TOKEN (pe_panel opened))\<rparr>) = Some (True, e')
     \<and> read_tables (pe_values e') = Some T \<and> map_of (T (Table Ratio)) (js ''dall-e'') = None"
proof -
  obtain rows where rows: "listed sample_values = Some (Inr rows)" using sample_listed by blast
  have mode: "md_billingMode dalle_row = Some PER_REQUEST" "md_name dalle_row = js ''dall-e''" by (simp_all add: dalle_row_def)
  have "pn_pricingMode (load_panel (Some (edit_data dalle_model))) = PER_REQUEST"
    by (simp add: load_panel_def edit_data_def dalle_model_draft resolvePricingModeFromData_def mode mode_differ [symmetric] split: prod.split)
  then obtain opened where o: "tiered_effects (handleEdit False dalle_model sample_price_editor) = Some (Inr opened)"
    using other_tab [of "handleEdit False dalle_model sample_price_editor"] by (auto simp: handleEdit_def mode_differ [symmetric])
  have t: "re_test numericDraftRegex (js ''3'')" by code_simp
  have p: "hasValue (md_field dalle_row Price)" using dalle_text by (simp add: dalle_row_def hasValue_def del: num_to_string.simps)
  have v: "pe_values sample_price_editor = sample_values" by (simp add: sample_price_editor_def)
  show ?thesis
    using token_prices_not_saved [OF _ _ dalle_listed [OF rows] dalle_model_draft dalle_name mode(1) p t o] sample_typed rows o
    unfolding v mode(2) by blast
qed

text \<open>Opening the second model while the first is shown.\<close>

theorem second_expression_replaced_witness:
  "\<exists>opened1 opened2 e' rows'. tiered_effects (handleEdit False (expr_model (js ''gpt'') (expr_of createDefaultVisualConfig)) expr_editor) = Some (Inr opened1)
     \<and> tiered_effects (handleEdit False (expr_model (js ''o3'') (expr_of flat_tiers)) opened1) = Some (Inr opened2)
     \<and> commitOpenEditor opened2 = Some (True, e') \<and> listed (pe_values e') = Some (Inr rows')
     \<and> expr_row (js ''o3'') (js ''tier(\"base\", p * 0 + c * 0)'') \<in> set rows'"
proof -
  let ?x = "expr_of createDefaultVisualConfig" and ?r = "expr_row (js ''o3'') (expr_of flat_tiers)"
  let ?m1 = "expr_model (js ''gpt'') ?x" and ?m2 = "expr_model (js ''o3'') (expr_of flat_tiers)"
  obtain rows where rows: "listed (write_tables expr_tables) = Some (Inr rows)" "?r \<in> set rows" using expr_listed by (auto simp: sample_exprs_def)
  have rs: "rules_of [] = []" by (simp add: rules_of_def buildRequestRuleExpr_def)
  obtain s0 s where s: "mount (Some (js ''gpt'')) ?x [] = Inr s0" "settle s0 = Some (Inr s)" "ed_modelName s = Some (js ''gpt'')" "commit s = Inr s"
      "ed_editorMode s = VisualMode" "ed_visualConfig s = Some (read_config createDefaultVisualConfig)" "ed_requestRuleGroups s = []"
      "ed_currentExpr s = ?x" "ed_currentRequestRuleExpr s = []"
    using mount_settles [OF default_editable, of "[]" "Some (js ''gpt'')"] unfolding rs by auto
  let ?l = "load_panel (Some (edit_data ?m1))"
  define opened1 where "opened1 = (handleEdit False ?m1 expr_editor)\<lparr>pe_tiered := Some s, pe_panel := ?l\<lparr>pn_billingExpr := ?x, pn_requestRuleExpr := []\<rparr>\<rparr>"
  have o1: "tiered_effects (handleEdit False ?m1 expr_editor) = Some (Inr opened1)"
    using s by (simp add: expr_loaded tiered_effects_def handleEdit_def expr_editor_def sample_price_editor_def opened1_def Let_def)
  have e: "pe_values opened1 = write_tables expr_tables" "pe_tiered opened1 = Some s"
    by (simp_all add: opened1_def handleEdit_def expr_editor_def sample_price_editor_def)
  have r: "md_billingMode ?r = Some TIERED_EXPR" "md_name ?r = js ''o3''" "js ''o3'' \<noteq> []" "js ''gpt'' \<noteq> js ''o3''" by (simp_all add: expr_row_def lit)
  have ok: "str_ok (expr_of flat_tiers)" "str_ok (combineBillingExpr ?x [])" unfolding sample_expr_texts by (simp_all add: str_ok_def combineBillingExpr_def Let_def) (simp_all add: lit trim_def)
  have "?r\<lparr>md_billingExpr := Some ?x, md_requestRuleExpr := Some [], sn_hasConflict := False\<rparr> = expr_row (js ''o3'') ?x" by (simp add: expr_row_def)
  then show ?thesis
    using second_expression_replaced [of opened1 rows ?r ?m2 s "read_config createDefaultVisualConfig" False] expr_typed rows e s r ok
      sample_editor_expr [OF flat_tiers_editable ok(1)] read_editable [OF default_editable] expr_model_draft expr_names_trimmed(2) o1
    unfolding sample_expr_texts(1) by auto
qed

end
