(* ===== verification/PriceForm.thy ===== *)
theory PriceForm
  imports PricingPanel
begin

text \<open>
  The page around the price tables (\<^verbatim>\<open>ratio-settings-card.tsx\<close>, \<^verbatim>\<open>model-ratio-form.tsx\<close>): the stored options
  are loaded into the form, the form is submitted, and only the options that changed are sent.
\<close>

subsection \<open>The form and the stored options\<close>

datatype form_key = TableKey model_field | ExposeRatioEnabled

datatype option_value = TextOption jsstr | FlagOption bool

record ratio_form =
  rf_values :: model_values
  rf_expose :: bool

definition FORM_KEYS :: "form_key list" where
  "FORM_KEYS = map (\<lambda>p. TableKey (Table p)) PRICING_FIELDS @ [ExposeRatioEnabled, TableKey BillingMode, TableKey BillingExpr, TableKey RequestUnit]"

fun api_key :: "form_key \<Rightarrow> jsstr" where
  "api_key (TableKey (Table Price)) = js ''ModelPrice''"
| "api_key (TableKey (Table Ratio)) = js ''ModelRatio''"
| "api_key (TableKey (Table CacheRatio)) = js ''CacheRatio''"
| "api_key (TableKey (Table CreateCacheRatio)) = js ''CreateCacheRatio''"
| "api_key (TableKey (Table CompletionRatio)) = js ''CompletionRatio''"
| "api_key (TableKey (Table ImageRatio)) = js ''ImageRatio''"
| "api_key (TableKey (Table AudioRatio)) = js ''AudioRatio''"
| "api_key (TableKey (Table AudioCompletionRatio)) = js ''AudioCompletionRatio''"
| "api_key (TableKey BillingMode) = js ''billing_setting.billing_mode''"
| "api_key (TableKey BillingExpr) = js ''billing_setting.billing_expr''"
| "api_key (TableKey RequestUnit) = js ''billing_setting.request_unit''"
| "api_key ExposeRatioEnabled = js ''ExposeRatioEnabled''"

fun form_option :: "ratio_form \<Rightarrow> form_key \<Rightarrow> option_value" where
  "form_option f (TableKey k) = TextOption (rf_values f k)"
| "form_option f ExposeRatioEnabled = FlagOption (rf_expose f)"

definition normalize_form :: "ratio_form \<Rightarrow> ratio_form" where
  "normalize_form f = f\<lparr>rf_values := (\<lambda>k. normalizeJsonString (Some (rf_values f k)))\<rparr>"

definition load_form :: "ratio_form \<Rightarrow> ratio_form" where
  "load_form defaults = defaults\<lparr>rf_values := (\<lambda>k. formatJsonForTextarea (Some (rf_values defaults k)))\<rparr>"

text \<open>The schema accepts a blank text and every JSON text.\<close>

definition valid_json_field :: "jsstr \<Rightarrow> bool" where
  "valid_json_field s \<longleftrightarrow> trim s = [] \<or> \<not> isl (json_parse (trim s))"

definition form_valid :: "ratio_form \<Rightarrow> bool" where
  "form_valid f \<longleftrightarrow> list_all (\<lambda>k. valid_json_field (rf_values f k)) MODEL_FIELDS"

text \<open>The requests, in order, and the values that later saves are compared with.\<close>

definition saveModelRatios :: "ratio_form \<Rightarrow> ratio_form \<Rightarrow> (jsstr \<times> option_value) list \<times> ratio_form" where
  "saveModelRatios form current =
     (let normalized = normalize_form form;
          updates = filter (\<lambda>k. form_option normalized k \<noteq> form_option current k) FORM_KEYS
      in if updates = [] then ([], current) else (map (\<lambda>k. (api_key k, form_option normalized k)) updates, normalized))"

type_synonym options = "jsstr \<Rightarrow> option_value"

text \<open>The stored options after the requests have succeeded.\<close>

definition apply_requests :: "(jsstr \<times> option_value) list \<Rightarrow> options \<Rightarrow> options" where
  "apply_requests rs os = fold (\<lambda>(k, v) os. os(k := v)) rs os"

text \<open>\<^verbatim>\<open>handleSave\<close> of the visual form: the open editor is committed first, then the form is submitted.\<close>

record price_page =
  pg_editor :: price_editor
  pg_expose :: bool
  pg_current :: ratio_form

definition page_form :: "price_page \<Rightarrow> ratio_form" where
  "page_form pg = \<lparr>rf_values = pe_values (pg_editor pg), rf_expose = pg_expose pg\<rparr>"

definition handleSave :: "price_page \<Rightarrow> ((jsstr \<times> option_value) list \<times> price_page) option" where
  "handleSave pg = map_option (\<lambda>(committed, e).
       let pg1 = pg\<lparr>pg_editor := e\<rparr> in
       if committed \<and> form_valid (page_form pg1)
       then (case saveModelRatios (page_form pg1) (pg_current pg1) of (rs, current) \<Rightarrow> (rs, pg1\<lparr>pg_current := current\<rparr>))
       else ([], pg1)) (commitOpenEditor (pg_editor pg))"

subsection \<open>Texts of tables\<close>

lemma form_keys_all [simp]: "k \<in> set FORM_KEYS"
proof (cases k)
  case (TableKey f)
  then show ?thesis by (cases f) (simp_all add: FORM_KEYS_def)
qed (simp add: FORM_KEYS_def)

lemma api_key_inject: "api_key k = api_key l \<longleftrightarrow> k = l"
proof -
  have "distinct (map api_key FORM_KEYS)" by (simp add: FORM_KEYS_def PRICING_FIELDS_def lit)
  then show ?thesis by (auto simp: distinct_map dest: inj_onD)
qed

text \<open>What the form shows after the normalised text has been stored and loaded.\<close>

definition reloaded :: "jsstr \<Rightarrow> jsstr" where
  "reloaded s = formatJsonForTextarea (Some (normalizeJsonString (Some s)))"

lemma read_reloaded:
  assumes "read_table s = Some t" "table_ok t"
  shows "\<exists>t'. read_table (reloaded s) = Some t' \<and> table_ok t' \<and> map_of t' = map_of t"
proof -
  consider (blank) "trim s = []" | (bad) e where "trim s \<noteq> []" "json_parse (trim s) = Inl e" | (ok) "trim s \<noteq> []" "json_parse (trim s) = Inr (JObj t)"
    using assms(1) by (cases "trim s = []"; cases "json_parse (trim s)") (auto simp: read_table_def safeJsonParse_def split: json.splits if_splits)
  then show ?thesis
  proof cases
    case blank
    then show ?thesis using assms by (simp add: reloaded_def normalizeJsonString_def formatJsonForTextarea_def read_table_def safeJsonParse_def)
  next
    case bad
    then show ?thesis using assms by (simp add: reloaded_def normalizeJsonString_def formatJsonForTextarea_def read_table_def safeJsonParse_def)
  next
    case ok
    let ?s = "json_stringify [] (JObj t)"
    have "json_parse ?s = Inr (JObj (own_entries t))"
      using json_parse_stringify [OF table_json_ok [OF assms(2)], of "[]"] table_canon [OF assms(2)] by simp
    then have "reloaded s = json_stringify (js ''  '') (JObj (own_entries t))"
      using ok stringify_object_ends [of "[]" t] by (simp add: reloaded_def normalizeJsonString_def formatJsonForTextarea_def trim_id)
    then show ?thesis
      using read_written [OF own_entries_ok [OF assms(2)]] own_entries_ok [OF own_entries_ok [OF assms(2)]] map_of_own [OF own_entries_ok [OF assms(2)]] map_of_own [OF assms(2)] by simp
  qed
qed

lemma rows_of_maps:
  assumes "\<And>f. map_of (T f) = map_of (T' f)" "buildModelSnapshots T = Inr rows"
  shows "\<exists>rows'. buildModelSnapshots T' = Inr rows' \<and> set rows' = set rows"
proof -
  have s: "model_snapshot T' n = model_snapshot T n" for n by (rule snapshot_cong) (simp add: assms(1))
  obtain rows' where r: "buildModelSnapshots T' = Inr rows'" using assms rows_total [of T] rows_total [of T'] s by auto
  then have "r \<in> set rows' \<longleftrightarrow> r \<in> set rows" for r using rows_iff [OF r] rows_iff [OF assms(2)] s assms(1) by simp
  with r show ?thesis by blast
qed

lemma reloaded_rows:
  assumes "values_ok values" "listed values = Some (Inr rows)"
  shows "\<exists>rows'. listed (\<lambda>f. reloaded (values f)) = Some (Inr rows') \<and> set rows' = set rows"
proof -
  obtain T where T: "read_tables values = Some T" "tables_ok T" using assms(1) by (auto simp: values_ok_def)
  then have "read_table (values f) = Some (T f)" "table_ok (T f)" for f by (auto simp: read_tables_def list_all_iff tables_ok_def split: if_splits)
  from read_reloaded [OF this] obtain T' where T': "\<And>f. read_table (reloaded (values f)) = Some (T' f)" "\<And>f. map_of (T' f) = map_of (T f)" by metis
  then have "read_tables (\<lambda>f. reloaded (values f)) = Some T'" by (simp add: read_tables_def list_all_iff)
  then show ?thesis using rows_of_maps [of T T' rows] T'(2) assms(2) T(1) by (simp add: listed_def)
qed

lemma written_valid: "tables_ok T \<Longrightarrow> form_valid \<lparr>rf_values = write_tables T, rf_expose = b\<rparr>"
proof -
  assume T: "tables_ok T"
  have "blank (js ''  '')" by (simp add: lit json_ws_def)
  then have "json_parse (write_tables T f) = Inr (canon (JObj (T f)))" for f
    unfolding write_tables_def using T by (intro json_parse_stringify table_json_ok) (simp_all add: tables_ok_def)
  moreover have "trim (write_tables T f) = write_tables T f" for f unfolding write_tables_def using stringify_object_ends by (intro trim_id) blast
  ultimately show ?thesis by (simp add: form_valid_def valid_json_field_def list_all_iff)
qed

lemma apply_updates:
  assumes "distinct ks"
  shows "apply_requests (map (\<lambda>k. (api_key k, v k)) ks) os (api_key k) = (if k \<in> set ks then v k else os (api_key k))"
  using assms by (induction ks arbitrary: os) (auto simp: apply_requests_def api_key_inject)

lemma saved_options:
  assumes "\<And>k. os (api_key k) = form_option current k" "saveModelRatios form current = (rs, current')"
  shows "apply_requests rs os (api_key k) = form_option (normalize_form form) k" "form_option current' k = form_option (normalize_form form) k"
proof -
  let ?n = "normalize_form form"
  define ks where "ks = filter (\<lambda>k. form_option ?n k \<noteq> form_option current k) FORM_KEYS"
  have "distinct FORM_KEYS" by (simp add: FORM_KEYS_def PRICING_FIELDS_def)
  then have "distinct ks" by (simp add: ks_def)
  have rs: "rs = map (\<lambda>k. (api_key k, form_option ?n k)) ks" "current' = (if ks = [] then current else ?n)"
    using assms(2) by (auto simp: saveModelRatios_def ks_def Let_def split: if_splits)
  have k: "k \<in> set ks \<longleftrightarrow> form_option ?n k \<noteq> form_option current k" for k by (simp add: ks_def)
  show "apply_requests rs os (api_key k) = form_option ?n k"
    unfolding rs(1) apply_updates [OF \<open>distinct ks\<close>] using k assms(1) by simp
  show "form_option current' k = form_option ?n k" using k [of k] by (auto simp: rs(2))
qed

lemma persist_ok:
  assumes "values_ok values" "data_ok d" "\<forall>n \<in> set ns. plain_name n \<and> str_ok n" "persistPricingData d ns values = Some v"
  shows "values_ok v" "form_valid \<lparr>rf_values = v, rf_expose = b\<rparr>"
proof -
  obtain T where T: "read_tables values = Some T" "tables_ok T" using assms(1) by (auto simp: values_ok_def)
  let ?W = "fold (write_model d) ns T"
  have W: "tables_ok ?W" using write_models_ok [OF T(2) assms(2,3)] .
  have v: "v = write_tables ?W" using assms(3,4) T(1) by (simp add: persistPricingData_def list_all_iff)
  show "values_ok v" unfolding v values_ok_def using read_tables_written [OF W] own_entries_ok W by (auto simp: tables_ok_def)
  show "form_valid \<lparr>rf_values = v, rf_expose = b\<rparr>" unfolding v by (rule written_valid [OF W])
qed

subsection \<open>Printing twice\<close>

lemma own_entries_idem: "own_entries (own_entries kvs) = own_entries kvs"
proof -
  let ?i = "filter (\<lambda>kv. is_array_index (fst kv))" and ?o = "filter (\<lambda>kv. \<not> is_array_index (fst kv))"
  have i: "?i (own_entries kvs) = sort_key (\<lambda>kv. read_nat (fst kv)) (?i kvs)" and o: "?o (own_entries kvs) = ?o kvs"
    by (simp_all add: own_entries_def filter_sort comp_def filter_empty_conv)
  show ?thesis unfolding own_entries_def [of "own_entries kvs"] i o by (simp add: own_entries_def sort_key_id_if_sorted)
qed

lemma own_entries_values: "own_entries (map (\<lambda>(k, v). (k, g v)) kvs) = map (\<lambda>(k, v). (k, g v)) (own_entries kvs)"
proof -
  have "sort_key (\<lambda>kv. read_nat (fst kv)) (map (\<lambda>(k, v). (k, g v)) xs) = map (\<lambda>(k, v). (k, g v)) (sort_key (\<lambda>kv. read_nat (fst kv)) xs)" for xs :: "(jsstr \<times> json) list"
  proof (induction xs)
    case (Cons x xs)
    have "insort_key (\<lambda>kv. read_nat (fst kv)) (case x of (k, v) \<Rightarrow> (k, g v)) (map (\<lambda>(k, v). (k, g v)) ys) =
        map (\<lambda>(k, v). (k, g v)) (insort_key (\<lambda>kv. read_nat (fst kv)) x ys)" for ys
      by (induction ys) (auto split: prod.splits)
    with Cons show ?case by simp
  qed simp
  moreover have "filter (\<lambda>kv. P (fst kv)) (map (\<lambda>(k, v). (k, g v)) kvs) = map (\<lambda>(k, v). (k, g v)) (filter (\<lambda>kv. P (fst kv)) kvs)" for P
    by (induction kvs) auto
  ultimately show ?thesis by (simp add: own_entries_def)
qed

lemma canon_members_own: "canon_members (own_entries kvs) = own_entries (canon_members kvs)"
  by (simp add: canon_members_map own_entries_values)

lemma canon_idem:
  "canon (canon v) = canon v"
  "canon_elems (canon_elems vs) = canon_elems vs"
  "canon_members (canon_members kvs) = canon_members kvs"
proof (induction v and vs and kvs rule: canon_canon_elems_canon_members.induct)
  case (2 kvs)
  then show ?case by (simp add: canon_members_own own_entries_idem)
qed simp_all

lemma number_chars: "double x \<Longrightarrow> \<forall>c \<in> set (num_to_string (Fin x)). num_char c"
proof -
  assume x: "double x"
  then have "double (- x)" by (simp add: double_def rnd_minus)
  then show ?thesis using x show_pos_props(2) [of x] show_pos_props(2) [of "- x"] by (cases "0 < x"; cases "x = 0") (auto simp: num_char_def is_digit_def lit)
qed

lemma stringify_trimmed: "json_ok v \<Longrightarrow> json_stringify gap v \<noteq> [] \<and> trimmed (json_stringify gap v)"
proof (cases v)
  case (JNum x)
  then show "json_ok v \<Longrightarrow> ?thesis" using number_chars num_char_not json_number_print(2) [of _ "[]"]
    by (auto simp: json_stringify_def trimmed_def split: jsnum.splits simp del: num_to_string.simps)
next
  case (JObj kvs)
  then show ?thesis using stringify_object_ends by simp
qed (auto simp: json_stringify_def trimmed_def is_ws_def json_quote_def lit)

subsection \<open>Properties\<close>

text \<open>
  C17: prices that are saved in the panel are on the server and back on the page: the requests that the
  page sends make the stored options those of the form, and the list that is loaded from them has the
  saved row for this model and the rows from before for all others.
\<close>

theorem saved_prices_survive_reload:
  assumes "values_ok (pe_values (pg_editor pg))" "listed (pe_values (pg_editor pg)) = Some (Inr rows)" "pe_editorOpen (pg_editor pg)"
    "commitDraft (pe_panel (pg_editor pg)) = Some d" "data_ok d" "plain_name (md_name d)" "str_ok (md_name d)"
    "\<forall>k. os (api_key k) = form_option (pg_current pg) k"
  shows "\<exists>rs pg' stored_form rows'. handleSave pg = Some (rs, pg')
    \<and> (\<forall>k. apply_requests rs os (api_key k) = form_option stored_form k \<and> form_option (pg_current pg') k = form_option stored_form k)
    \<and> listed (rf_values (load_form stored_form)) = Some (Inr rows')
    \<and> set rows' = {q \<in> set rows. md_name q \<noteq> md_name d} \<union> {q. saved_row d (md_name d) = Some q}"
proof -
  let ?e = "pg_editor pg" and ?new = "{q \<in> set rows. md_name q \<noteq> md_name d} \<union> {q. saved_row d (md_name d) = Some q}"
  obtain e' rows1 where e': "commitOpenEditor ?e = Some (True, e')" "listed (pe_values e') = Some (Inr rows1)" "set rows1 = ?new"
    using commit_rows [OF assms(1-7)] by blast
  then have p: "persistPricingData d [md_name d] (pe_values ?e) = Some (pe_values e')" using assms(3,4) by (auto simp: commitOpenEditor_def)
  have ok: "values_ok (pe_values e')" "form_valid \<lparr>rf_values = pe_values e', rf_expose = b\<rparr>" for b
    using persist_ok [OF assms(1,5) _ p] assms(6,7) by auto
  let ?f = "\<lparr>rf_values = pe_values e', rf_expose = pg_expose pg\<rparr>"
  obtain rs c where s: "saveModelRatios ?f (pg_current pg) = (rs, c)" by fastforce
  have "handleSave pg = Some (rs, pg\<lparr>pg_editor := e', pg_current := c\<rparr>)"
    using e'(1) ok(2) s by (simp add: handleSave_def page_form_def Let_def)
  moreover have "apply_requests rs os (api_key k) = form_option (normalize_form ?f) k \<and> form_option c k = form_option (normalize_form ?f) k" for k
    using saved_options [OF _ s] assms(8) by blast
  moreover obtain rows' where "listed (\<lambda>f. reloaded (pe_values e' f)) = Some (Inr rows')" "set rows' = ?new"
    using reloaded_rows [OF ok(1) e'(2)] e'(3) by auto
  moreover have "rf_values (load_form (normalize_form ?f)) = (\<lambda>f. reloaded (pe_values e' f))"
    by (simp add: load_form_def normalize_form_def reloaded_def fun_eq_iff)
  ultimately show ?thesis by (intro exI [of _ rs] exI [of _ "pg\<lparr>pg_editor := e', pg_current := c\<rparr>"] exI [of _ "normalize_form ?f"] exI [of _ rows']) simp
qed

text \<open>
  C34: a form that was loaded from the stored options and not changed sends no request. The options may
  hold any JSON values, or texts that are no JSON, without blanks around them.
\<close>

theorem unchanged_form_sends_nothing:
  assumes "\<forall>f. trimmed (rf_values defaults f)" "\<forall>f v. json_parse (rf_values defaults f) = Inr v \<longrightarrow> json_ok v"
  shows "saveModelRatios (load_form defaults) (normalize_form defaults) = ([], normalize_form defaults)"
proof -
  have "normalizeJsonString (Some (formatJsonForTextarea (Some s))) = normalizeJsonString (Some s)" if s: "trimmed s" "\<And>v. json_parse s = Inr v \<Longrightarrow> json_ok v" for s
  proof (cases "json_parse s")
    case (Inr v)
    let ?t = "json_stringify (js ''  '') v"
    have "blank (js ''  '')" by (simp add: lit json_ws_def)
    then have "json_parse ?t = Inr (canon v)" using s(2) [OF Inr] by (intro json_parse_stringify)
    moreover have "json_stringify [] (canon v) = json_stringify [] v" by (simp add: json_stringify_def canon_idem)
    moreover have "trim ?t = ?t" "?t \<noteq> []" using stringify_trimmed [OF s(2) [OF Inr]] by (auto intro: trim_id)
    ultimately show ?thesis using Inr s(1) by (simp add: formatJsonForTextarea_def normalizeJsonString_def trim_id)
  qed (use s(1) in \<open>simp add: formatJsonForTextarea_def normalizeJsonString_def trim_id\<close>)
  then have "form_option (normalize_form (load_form defaults)) k = form_option (normalize_form defaults) k" for k
    using assms by (cases k) (simp_all add: normalize_form_def load_form_def)
  then show ?thesis by (simp add: saveModelRatios_def)
qed

subsection \<open>Samples\<close>

definition sample_form :: ratio_form where
  "sample_form = \<lparr>rf_values = sample_values, rf_expose = True\<rparr>"

definition sample_page :: price_page where
  "sample_page = \<lparr>pg_editor = handleEdit False dalle_model sample_price_editor, pg_expose = True, pg_current = normalize_form sample_form\<rparr>"

definition sample_options :: options where
  "sample_options s = (case List.find (\<lambda>k. api_key k = s) FORM_KEYS of Some k \<Rightarrow> form_option (normalize_form sample_form) k | None \<Rightarrow> FlagOption False)"

lemma sample_options_stored: "sample_options (api_key k) = form_option (normalize_form sample_form) k"
proof -
  have "List.find (\<lambda>l. api_key l = api_key k) FORM_KEYS = Some k"
    using form_keys_all [of k] by (cases "List.find (\<lambda>l. api_key l = api_key k) FORM_KEYS") (auto simp: find_None_iff find_Some_iff api_key_inject)
  then show ?thesis by (simp add: sample_options_def)
qed

lemma dalle_commit: "commitDraft (load_panel (Some (edit_data dalle_model))) = Some (resubmitted dalle_row)"
  "data_ok (resubmitted dalle_row)" "md_name (resubmitted dalle_row) = js ''dall-e''"
proof -
  obtain rows where rows: "listed sample_values = Some (Inr rows)" using sample_listed by blast
  obtain tx where tx: "row_shape dalle_row tx" using typed_row [OF sample_typed rows dalle_listed [OF rows]] by blast
  have mode: "md_billingMode dalle_row = Some PER_REQUEST" by (simp add: dalle_row_def)
  have "pn_pricingMode (load_panel (Some (edit_data dalle_model))) = PER_REQUEST"
    by (simp add: load_panel_def edit_data_def dalle_model_draft resolvePricingModeFromData_def mode mode_differ [symmetric] split: prod.split)
  then have "validatePricingValues (load_panel (Some (edit_data dalle_model)))"
    by (simp add: validatePricingValues_def missing_input_price_def missing_audio_input_def mode_differ)
  then show "commitDraft (load_panel (Some (edit_data dalle_model))) = Some (resubmitted dalle_row)"
    using submit_loaded [OF dalle_model_draft tx] dalle_name(1) by (simp add: commitDraft_def)
  show "data_ok (resubmitted dalle_row)" using resubmitted_ok [OF tx] mode by (simp add: mode_differ)
  show "md_name (resubmitted dalle_row) = js ''dall-e''" using trim_id [OF dalle_name(2)] by (simp add: resubmitted_def dalle_row_def)
qed

theorem saved_prices_survive_reload_witness:
  "\<exists>rs pg' stored_form rows'. handleSave sample_page = Some (rs, pg')
     \<and> (\<forall>k. apply_requests rs sample_options (api_key k) = form_option stored_form k)
     \<and> listed (rf_values (load_form stored_form)) = Some (Inr rows')"
proof -
  obtain rows where rows: "listed sample_values = Some (Inr rows)" using sample_listed by blast
  have "plain_name (js ''dall-e'')" "str_ok (js ''dall-e'')" by (simp_all add: plain_name_def OBJECT_MEMBERS_def str_ok_def lit)
  moreover have "pe_values (pg_editor sample_page) = sample_values" "pe_editorOpen (pg_editor sample_page)" "pg_current sample_page = normalize_form sample_form"
      "pe_panel (pg_editor sample_page) = load_panel (Some (edit_data dalle_model))"
    by (simp_all add: sample_page_def handleEdit_def sample_price_editor_def)
  ultimately show ?thesis
    using saved_prices_survive_reload [of sample_page rows "resubmitted dalle_row" sample_options] sample_values_ok rows dalle_commit sample_options_stored by metis
qed

theorem unchanged_form_sends_nothing_witness:
  "saveModelRatios (load_form sample_form) (normalize_form sample_form) = ([], normalize_form sample_form)"
proof (rule unchanged_form_sends_nothing)
  have ok: "json_ok (JObj (sample_tables f))" for f using sample_tables_ok by (intro table_json_ok) (simp add: tables_ok_def)
  have "blank (js ''  '')" by (simp add: lit json_ws_def)
  then have "json_parse (sample_values f) = Inr (canon (JObj (sample_tables f)))" for f
    using json_parse_stringify [OF ok] by (simp add: sample_values_def write_tables_def)
  then show "\<forall>f v. json_parse (rf_values sample_form f) = Inr v \<longrightarrow> json_ok v" using ok by (auto simp: sample_form_def simp del: canon.simps intro: canon_ok)
  show "\<forall>f. trimmed (rf_values sample_form f)" using stringify_object_ends by (simp add: sample_form_def sample_values_def write_tables_def)
qed

end
