(* ===== verification/Spec2Isabelle.thy ===== *)
theory Spec2Isabelle
  imports RequestRulesProps StatusCodeGuard ChatStream SidebarConfig ChannelUtils PricingCatalog Currency PricingSave PriceForm
begin

text \<open>
  A model of the logic of the web console of new-api (\<^verbatim>\<open>src/web/default/src\<close>), a gateway
  for language model services. The console edits, as text, the configuration that the server
  evaluates: billing expressions, request rules, status code ranges, model mappings, price tables.
  Its libraries print and parse these texts, and the theories below model them.

  \<^bold>\<open>Language.\<close>
  \<^item> \<open>Prelude\<close>: the collections of rewrite rules, exceptions as values (\<open>throws\<close>), joining and splitting.
  \<^item> \<open>JsString\<close>: strings as lists of UTF-16 code units, with \<^verbatim>\<open>trim\<close>, \<^verbatim>\<open>startsWith\<close>,
    \<^verbatim>\<open>includes\<close>, \<^verbatim>\<open>indexOf\<close>.
  \<^item> \<open>JsRegex\<close>: regular expressions with the backtracking semantics of the language.
  \<^item> \<open>JsNumber\<close>: binary64 numbers as exact rationals with rounding, \<^verbatim>\<open>Number(s)\<close>, \<^verbatim>\<open>String(n)\<close>.
  \<^item> \<open>JsNumberProps\<close>: rounding is the identity on doubles, and a printed number is read back.
  \<^item> \<open>JsJson\<close>: \<^verbatim>\<open>JSON.parse\<close>, \<^verbatim>\<open>JSON.stringify\<close> of strings, \<^verbatim>\<open>String(v)\<close>.
  \<^item> \<open>JsJsonPrint\<close>: \<^verbatim>\<open>JSON.stringify\<close> of every value, and that parsing its output gives the value
    back with the properties in the order of the language.
  \<^item> \<open>JsObject\<close>: objects as lists of properties, spreading, property access, truth values, the
    browser storage.
  \<^item> \<open>JsArith\<close>: rounded arithmetic on numbers, and sorting with a comparison function.
  \<^item> \<open>JsFixed\<close>: \<^verbatim>\<open>toFixed\<close>, \<^verbatim>\<open>parseFloat\<close>, rounding to integers, and the relative error of rounding.

  \<^bold>\<open>Request rules\<close> (\<^verbatim>\<open>features/pricing/lib/billing-expr.ts\<close>).
  \<^item> \<open>ExprSplit\<close>: the scanners that split at a top-level operator and remove enclosing parentheses.
    The locale \<open>separator\<close> is their contract, interpreted for the product and the conjunction.
  \<^item> \<open>RequestRules\<close>: data, patterns, parser, printer and editor functions.
  \<^item> \<open>RequestRulesMatch\<close>: what each pattern does on printed text.
  \<^item> \<open>RequestRulesProps\<close>: the round trip of rule groups, the comparisons that are printed but not
    read back, the splitting of a combined expression, normalisation, and the literals that throw.

  \<^bold>\<open>Status codes\<close> (\<^verbatim>\<open>lib/http-status-code-rules.ts\<close>, \<^verbatim>\<open>features/channels/lib/status-code-risk-guard.ts\<close>).
  \<^item> \<open>StatusCodeRules\<close>: tokens, merging and normalisation of status code ranges.
  \<^item> \<open>StatusCodeGuard\<close>: which mappings of status codes are invalid or redirect a timeout.

  \<^bold>\<open>Playground\<close> (\<^verbatim>\<open>features/playground\<close>).
  \<^item> \<open>PlaygroundMessages\<close>: messages, the separation of reasoning from the visible text, chunks of a
    stream, and the repair of messages after a reload.
  \<^item> \<open>PlaygroundStorage\<close>: the browser storage, the state of the page and the request body. The
    locale \<open>storage_cell\<close> is the contract of a saved value, interpreted for the configuration, the
    parameter switches and the messages; \<open>two_cells\<close> gives their independence.
  \<^item> \<open>ChatStream\<close>: a conversation as a state machine over the events of the user, of the event
    sources and of the requests, with its invariants and a refinement of a session specification.

  \<^bold>\<open>Navigation\<close> (\<^verbatim>\<open>lib/nav-modules.ts\<close>, \<^verbatim>\<open>hooks/use-top-nav-links.ts\<close>,
  \<^verbatim>\<open>hooks/use-sidebar-config.ts\<close>, \<^verbatim>\<open>features/system-settings/maintenance\<close>).
  \<^item> \<open>NavConfig\<close>: the header modules as the console and as the settings page read them. The locale
    \<open>entry_reader\<close> is what both readers promise, interpreted for each; the saved form gives the links.
  \<^item> \<open>SidebarConfig\<close>: the side bar of the administrator and the user; a saved switch is what is shown.

  \<^bold>\<open>Channels\<close> (\<^verbatim>\<open>features/channels/lib\<close>, \<^verbatim>\<open>channel-mutate-drawer.tsx\<close>).
  \<^item> \<open>ChannelModels\<close>: the list of models and the model mapping of a channel; the form reports the missing
    and the exposed models exactly, and the repairs that it offers leave nothing to repair.
  \<^item> \<open>ChannelUtils\<close>: types, badges, keys, settings, and the rows of tag mode, which are the groups
    of the channels by tag.

  \<^bold>\<open>Catalogue\<close> (\<^verbatim>\<open>features/pricing/lib\<close>).
  \<^item> \<open>PricingCatalog\<close>: display names, merging of the variants of a model, filters, sorting and price
    calculations. The locale comparison and the change of case are arguments.

  \<^bold>\<open>Tiered prices\<close> (\<^verbatim>\<open>features/pricing/lib/billing-expr.ts\<close>, \<^verbatim>\<open>features/pricing/lib/tier-expr.ts\<close>).
  \<^item> \<open>BillingTiers\<close>: the variables, the tier parser of the price page, and the printer and parser of the
    visual editor. Global matching and splitting end because each match shortens the text.
  \<^item> \<open>BillingTiersMatch\<close>: what the patterns do on printed numbers, prices, tiers and conditions.
  \<^item> \<open>BillingTiersProps\<close>: the editor reads back what it prints. The locale \<open>tier_reader\<close> is what a
    parser needs of its tier pattern, interpreted for the patterns of both parsers.
  \<^item> \<open>ShownTiers\<close>: the price page shows the tiers, conditions and prices of a printed expression.
  \<^item> \<open>JsExpr\<close>: tokens, grammar and evaluation of the expressions that \<^verbatim>\<open>new Function\<close> compiles; what lies
    outside of this part of the language is \<open>None\<close>.
  \<^item> \<open>CostEstimator\<close>: \<^verbatim>\<open>evalExprLocally\<close>; the estimate of a printed expression is the cost of the first
    tier whose conditions hold. Expressions outside of the grammar are evaluated by an argument.
  \<^item> \<open>TierEditor\<close>: the editor of tiered prices
    (\<^verbatim>\<open>features/system-settings/models/tiered-pricing-editor.tsx\<close>), its handlers and its effects, and
    the switch between the visual form and the text.
    The effects run until nothing changes (\<open>settle\<close>, which is \<open>None\<close> if they never come to rest).
  \<^item> \<open>TierEdits\<close>: sessions of the visual editor as an inductive relation; every expression is read back,
    every action but three keeps the configuration complete, and what is lost by one of the three.
  \<^item> \<open>TierOpening\<close>: what the effects settle on when the editor appears with an expression, and when it
    stays while another model is opened; each case is proved to settle.

  \<^bold>\<open>Model prices\<close> (\<^verbatim>\<open>features/system-settings/models\<close>).
  \<^item> \<open>PriceTables\<close>: the eleven tables of prices as JSON texts, the rows listed from them, and what saving
    and deleting a model writes. A table as a map of names is what all proofs use.
  \<^item> \<open>PricingPanel\<close>: the panel that edits one model, the formats of prices, and the list of drafts.
    The ratios follow the shown prices.
  \<^item> \<open>PricingSave\<close>: what opening and saving a model does to the rows, with the editor of expressions that
    the panel holds: the cases in which the row stays, and those in which a price is lost.
  \<^item> \<open>PriceForm\<close>: the page that loads, validates and saves the options; only changed options are sent, and
    a saved price is back after a reload. The stored options are a function that requests update.

  \<^bold>\<open>Currency\<close> (\<^verbatim>\<open>lib/currency.ts\<close>, \<^verbatim>\<open>lib/format.ts\<close>, \<^verbatim>\<open>stores/system-config-store.ts\<close>).
  \<^item> \<open>Currency\<close>: the display settings, amounts, quotas, durations and colours. The number formats of
    \<^verbatim>\<open>Intl\<close>, \<^verbatim>\<open>dayjs\<close> and \<^verbatim>\<open>Date\<close> are arguments. Editing a quota in the display currency keeps its units.

  \<^bold>\<open>Fuel.\<close> The JSON reader carries fuel of twice the length of the text plus one, which
  \<open>json_value_fuel\<close> proves sufficient; the regular expression matcher bounds a star by the length
  of the remaining text, which is exact because an iteration that reads nothing fails. The expression parser bounds the
  nesting by the number of tokens plus one; \<open>conditional_bound\<close> proves that a larger bound changes nothing.

  \<^bold>\<open>Not modelled.\<close> The Go server, the rendering of the React components and the routes, the classic console, the
  Electron shell, translations and network requests. Objects have their own properties only: a key of
  the navigation settings or a URL of the side bar that is a name of \<^verbatim>\<open>Object.prototype\<close>, such as
  \<^verbatim>\<open>constructor\<close>, is outside of the model, and so is a name of this kind in the price tables.
\<close>

end
